(* ===== verification/Lab_Prelude.thy ===== *)
theory Lab_Prelude
  imports Main "HOL-Library.AList" "HOL-Library.Code_Target_Nat"
begin

text \<open>
  Shared vocabulary of the development: results of fallible operations (a Python exception is the
  left component), the insertion-ordered dictionary of Python as an association list, the
  "append if not yet present" loop that the lab code writes in several modules, contiguous
  slices, and the text operations (decimal rendering and reading, strip, split, join) the
  programs use. Strings are lists of \<open>char\<close>; a Python \<open>bytes\<close> value is the same type.

  The collections: \<open>result_simps\<close> unfolds the result combinators, \<open>text_simps\<close> holds the facts
  on rendering and splitting text.
\<close>

named_theorems result_simps
named_theorems text_simps

section \<open>Results\<close>

type_synonym ('e, 'a) result = "'e + 'a"

definition rbind :: "('e, 'a) result \<Rightarrow> ('a \<Rightarrow> ('e, 'b) result) \<Rightarrow> ('e, 'b) result" where
  "rbind r f = (case r of Inl e \<Rightarrow> Inl e | Inr x \<Rightarrow> f x)"

lemma rbind_simps [simp, result_simps]:
  "rbind (Inl e) f = Inl e"
  "rbind (Inr x) f = f x"
  by (simp_all add: rbind_def)

lemma rbind_eq_Inr [result_simps]:
  "rbind r f = Inr y \<longleftrightarrow> (\<exists>x. r = Inr x \<and> f x = Inr y)"
  by (cases r) simp_all

lemma rbind_eq_Inl [result_simps]:
  "rbind r f = Inl e \<longleftrightarrow> r = Inl e \<or> (\<exists>x. r = Inr x \<and> f x = Inl e)"
  by (cases r) simp_all

lemma rbind_assoc: "rbind (rbind r f) g = rbind r (\<lambda>x. rbind (f x) g)"
  by (cases r) simp_all

text \<open>A Python \<open>if bad: raise e\<close> guard.\<close>

definition ensure :: "bool \<Rightarrow> 'e \<Rightarrow> ('e, unit) result" where
  "ensure ok e = (if ok then Inr () else Inl e)"

lemma ensure_simps [simp, result_simps]:
  "ensure True e = Inr ()"
  "ensure False e = Inl e"
  "ensure ok e = Inr u \<longleftrightarrow> ok"
  by (simp_all add: ensure_def)

text \<open>A comprehension or loop whose body may raise: the first error ends it.\<close>

fun traverse :: "('a \<Rightarrow> ('e, 'b) result) \<Rightarrow> 'a list \<Rightarrow> ('e, 'b list) result" where
  "traverse f [] = Inr []"
| "traverse f (x # xs) = rbind (f x) (\<lambda>y. rbind (traverse f xs) (\<lambda>ys. Inr (y # ys)))"

lemma traverse_Inr_iff:
  "traverse f xs = Inr ys \<longleftrightarrow> list_all2 (\<lambda>x y. f x = Inr y) xs ys"
  by (induction xs arbitrary: ys) (auto simp: result_simps list_all2_Cons1)

lemma traverse_map_Inr:
  "(\<And>x. x \<in> set xs \<Longrightarrow> f x = Inr (g x)) \<Longrightarrow> traverse f xs = Inr (map g xs)"
  by (induction xs) simp_all

lemma traverse_memD:
  "traverse f xs = Inr ys \<Longrightarrow> y \<in> set ys \<Longrightarrow> \<exists>x \<in> set xs. f x = Inr y"
  by (induction xs arbitrary: ys) (auto simp: result_simps)

lemma traverse_memI:
  "traverse f xs = Inr ys \<Longrightarrow> x \<in> set xs \<Longrightarrow> \<exists>y \<in> set ys. f x = Inr y"
  by (induction xs arbitrary: ys) (auto simp: result_simps)

lemma traverse_append:
  "traverse f (xs @ ys) = rbind (traverse f xs) (\<lambda>us. rbind (traverse f ys) (\<lambda>vs. Inr (us @ vs)))"
proof (induction xs)
  case (Cons x xs)
  then show ?case by (cases "f x"; cases "traverse f xs"; cases "traverse f ys") simp_all
qed (cases "traverse f ys"; simp)

lemma not_isl_Inr: "\<not> isl r \<Longrightarrow> \<exists>x. r = Inr x"
  by (cases r) auto

lemma traverse_InlD:
  "traverse f xs = Inl e \<Longrightarrow> \<exists>x \<in> set xs. f x = Inl e"
  by (induction xs) (auto simp: result_simps)

lemma traverse_ok_iff:
  "(\<exists>ys. traverse f xs = Inr ys) \<longleftrightarrow> (\<forall>x \<in> set xs. \<exists>y. f x = Inr y)"
  by (induction xs) (auto simp: result_simps)

text \<open>A loop that threads a state and may raise.\<close>

fun foldr_res :: "('a \<Rightarrow> 's \<Rightarrow> ('e, 's) result) \<Rightarrow> 'a list \<Rightarrow> 's \<Rightarrow> ('e, 's) result" where
  "foldr_res f [] s = Inr s"
| "foldr_res f (x # xs) s = rbind (f x s) (foldr_res f xs)"

lemma foldr_res_invariant:
  assumes "foldr_res f xs s = Inr t" and "P s"
    and "\<And>x s t. x \<in> set xs \<Longrightarrow> P s \<Longrightarrow> f x s = Inr t \<Longrightarrow> P t"
  shows "P t"
  using assms
proof (induction xs arbitrary: s)
  case Nil
  then show ?case by simp
next
  case (Cons x xs)
  from Cons.prems(1) obtain u where u: "f x s = Inr u" "foldr_res f xs u = Inr t"
    by (auto simp: result_simps)
  with Cons.prems(2,3) have "P u" by (meson list.set_intros(1))
  with u(2) show ?case
    by (rule Cons.IH) (use Cons.prems(3) in auto)
qed

section \<open>Insertion-ordered lists without repetition\<close>

text \<open>\<open>if x not in xs: xs.append(x)\<close>.\<close>

definition add_new :: "'a \<Rightarrow> 'a list \<Rightarrow> 'a list" where
  "add_new x xs = (if x \<in> set xs then xs else xs @ [x])"

definition add_all_new :: "'a list \<Rightarrow> 'a list \<Rightarrow> 'a list" where
  "add_all_new ys xs = fold add_new ys xs"

lemma set_add_new [simp]: "set (add_new x xs) = insert x (set xs)"
  by (auto simp: add_new_def)

lemma distinct_add_new [simp]: "distinct (add_new x xs) = distinct xs"
  by (auto simp: add_new_def)

lemma set_add_all_new [simp]: "set (add_all_new ys xs) = set ys \<union> set xs"
  by (induction ys arbitrary: xs) (auto simp: add_all_new_def)

lemma distinct_add_all_new [simp]: "distinct (add_all_new ys xs) = distinct xs"
  by (induction ys arbitrary: xs) (auto simp: add_all_new_def)

lemma add_all_new_prefix: "\<exists>zs. add_all_new ys xs = xs @ zs"
proof (induction ys arbitrary: xs)
  case (Cons y ys)
  from Cons.IH[of "add_new y xs"] show ?case
    by (auto simp: add_all_new_def add_new_def split: if_splits)
qed (simp add: add_all_new_def)

section \<open>Dictionaries\<close>

text \<open>
  A Python \<open>dict\<close> as an association list: \<open>map_of\<close> looks a key up, \<^const>\<open>AList.update\<close>
  stores one (in place when present, at the end otherwise), which is the insertion order Python
  guarantees. The interface that its clients rely on is the locale below.
\<close>

locale ordered_dict =
  fixes dempty :: 'd
    and dget :: "'d \<Rightarrow> 'k \<Rightarrow> 'v option"
    and dset :: "'k \<Rightarrow> 'v \<Rightarrow> 'd \<Rightarrow> 'd"
    and dkeys :: "'d \<Rightarrow> 'k list"
  assumes get_empty: "dget dempty k = None"
    and get_set: "dget (dset k v d) k' = (if k' = k then Some v else dget d k')"
    and keys_empty: "dkeys dempty = []"
    and keys_set: "dkeys (dset k v d) = (if k \<in> set (dkeys d) then dkeys d else dkeys d @ [k])"
    and keys_get: "set (dkeys d) = {k. dget d k \<noteq> None}"
begin

definition build :: "('a \<Rightarrow> 'k) \<Rightarrow> ('a \<Rightarrow> 'v) \<Rightarrow> 'a list \<Rightarrow> 'd" where
  "build key val xs = fold (\<lambda>x. dset (key x) (val x)) xs dempty"

lemma get_fold_set:
  "dget (fold (\<lambda>x. dset (key x) (val x)) xs d) k =
     (case find (\<lambda>x. key x = k) (rev xs) of None \<Rightarrow> dget d k | Some x \<Rightarrow> Some (val x))"
proof (induction xs arbitrary: d rule: rev_induct)
  case (snoc x xs)
  then show ?case by (simp add: get_set eq_commute)
qed simp

text \<open>A comprehension keeps the last value of a repeated key and the first position.\<close>

lemma get_build:
  "dget (build key val xs) k =
     (case find (\<lambda>x. key x = k) (rev xs) of None \<Rightarrow> None | Some x \<Rightarrow> Some (val x))"
  by (simp add: build_def get_fold_set get_empty split: option.split)

lemma keys_fold_set:
  "dkeys (fold (\<lambda>x. dset (key x) (val x)) xs d) = add_all_new (map key xs) (dkeys d)"
  by (induction xs arbitrary: d) (simp_all add: keys_set add_all_new_def add_new_def)

lemma keys_build: "dkeys (build key val xs) = add_all_new (map key xs) []"
  by (simp add: build_def keys_fold_set keys_empty)

lemma distinct_keys_build: "distinct (dkeys (build key val xs))"
  by (simp add: keys_build)

lemma set_keys_build: "set (dkeys (build key val xs)) = key ` set xs"
  by (simp add: keys_build)

end

lemma keys_alist_update:
  "map fst (AList.update k v d) = (if k \<in> set (map fst d) then map fst d else map fst d @ [k])"
  by (induction d) auto

interpretation alist_dict: ordered_dict "[]" "map_of" "AList.update" "map fst"
proof unfold_locales
  fix k k' :: 'a and v :: 'b and d
  show "map_of (AList.update k v d) k' = (if k' = k then Some v else map_of d k')"
    by (simp add: update_conv')
  show "map fst (AList.update k v d)
      = (if k \<in> set (map fst d) then map fst d else map fst d @ [k])"
    by (rule keys_alist_update)
  show "set (map fst d) = {k. map_of d k \<noteq> None}"
    by (auto simp: map_of_eq_None_iff image_iff)
qed simp_all

text \<open>A comprehension \<open>{key(x): val(x) for x in xs}\<close>, as a function of its own so that it can be
  evaluated; it is the interface's \<open>build\<close>.\<close>

definition dict_build :: "('a \<Rightarrow> 'k) \<Rightarrow> ('a \<Rightarrow> 'v) \<Rightarrow> 'a list \<Rightarrow> ('k \<times> 'v) list" where
  "dict_build key val xs = fold (\<lambda>x. AList.update (key x) (val x)) xs []"

lemma dict_build_eq: "dict_build key val xs = alist_dict.build key val xs"
  by (simp add: dict_build_def alist_dict.build_def)

lemma dict_build_lookupD:
  assumes "map_of (dict_build key val xs) k = Some v"
  shows "\<exists>x \<in> set xs. key x = k \<and> val x = v"
proof -
  from assms obtain x where "find (\<lambda>x. key x = k) (rev xs) = Some x" and "val x = v"
    unfolding dict_build_eq alist_dict.get_build by (auto split: option.splits)
  then show ?thesis by (metis (mono_tags, lifting) find_Some_iff nth_mem set_rev)
qed

lemma distinct_dict_build: "distinct (map fst (dict_build key val xs))"
  unfolding dict_build_eq by (rule alist_dict.distinct_keys_build)

section \<open>Contiguous slices\<close>

text \<open>\<open>[xs[i : i + n] for i in range(0, len(xs), n)]\<close> for a positive step \<open>n\<close>.\<close>

function chunks :: "nat \<Rightarrow> 'a list \<Rightarrow> 'a list list" where
  "chunks n xs = (if xs = [] \<or> n = 0 then [] else take n xs # chunks n (drop n xs))"
  by pat_completeness auto
termination
  by (relation "measure (\<lambda>(n, xs). length xs)") auto

declare chunks.simps [simp del]

lemma concat_chunks: "0 < n \<Longrightarrow> concat (chunks n xs) = xs"
proof (induction n xs rule: chunks.induct)
  case (1 n xs)
  then show ?case by (subst chunks.simps) simp
qed

lemma chunks_length:
  "c \<in> set (chunks n xs) \<Longrightarrow> 0 < length c \<and> length c \<le> n"
proof (induction n xs rule: chunks.induct)
  case (1 n xs)
  show ?case
  proof (cases "xs = [] \<or> n = 0")
    case True
    with "1.prems" show ?thesis by (subst (asm) chunks.simps) simp
  next
    case False
    from "1.prems" False have "c = take n xs \<or> c \<in> set (chunks n (drop n xs))"
      by (subst (asm) chunks.simps) auto
    with False "1.IH" show ?thesis by auto
  qed
qed

lemma chunks_Nil_iff: "0 < n \<Longrightarrow> chunks n xs = [] \<longleftrightarrow> xs = []"
  by (subst chunks.simps) simp

text \<open>Every slice but the last is full.\<close>

lemma chunks_full:
  assumes "0 < n" and "Suc i < length (chunks n xs)"
  shows "length (chunks n xs ! i) = n"
  using assms
proof (induction n xs arbitrary: i rule: chunks.induct)
  case (1 n xs)
  have ne: "\<not> (xs = [] \<or> n = 0)"
    using "1.prems" by (auto simp: chunks.simps)
  then have eq: "chunks n xs = take n xs # chunks n (drop n xs)"
    by (subst chunks.simps) simp
  show ?case
  proof (cases i)
    case 0
    with "1.prems" eq have "chunks n (drop n xs) \<noteq> []" by auto
    with "1.prems"(1) have "drop n xs \<noteq> []" by (simp add: chunks_Nil_iff)
    with eq 0 show ?thesis by simp
  next
    case (Suc j)
    with "1.prems" eq ne "1.IH" show ?thesis by simp
  qed
qed

lemma length_chunks:
  "0 < n \<Longrightarrow> length (chunks n xs) = (length xs + n - 1) div n"
proof (induction n xs rule: chunks.induct)
  case (1 n xs)
  show ?case
  proof (cases "xs = []")
    case True
    with "1.prems" show ?thesis by (subst chunks.simps) simp
  next
    case False
    with "1.prems" "1.IH" have "length (chunks n xs) = Suc ((length xs - n + n - 1) div n)"
      by (subst chunks.simps) simp
    also have "(length xs - n + n - 1) div n = (length xs - 1) div n"
    proof (cases "length xs \<le> n")
      case True
      with False have "length xs - 1 < n" by (cases xs) auto
      with True show ?thesis by simp
    qed simp
    also have "Suc ((length xs - 1) div n) = (n + (length xs - 1)) div n"
      using "1.prems" by (subst div_add_self1) auto
    also have "n + (length xs - 1) = length xs + n - 1"
      using False by (cases xs) auto
    finally show ?thesis .
  qed
qed

section \<open>Searching\<close>

lemma find_append: "find P (xs @ ys) = (case find P xs of None \<Rightarrow> find P ys | Some x \<Rightarrow> Some x)"
  by (induction xs) simp_all

lemma find_rev: "find P (rev xs) = (if filter P xs = [] then None else Some (last (filter P xs)))"
  by (induction xs) (auto simp: find_append split: option.splits)

lemma map_filter_append: "List.map_filter f (xs @ ys) = List.map_filter f xs @ List.map_filter f ys"
  by (simp add: List.map_filter_def)

section \<open>Extreme elements\<close>

lemma list_Min_Max:
  fixes xs :: "'a :: linorder list"
  assumes "xs \<noteq> []"
  shows "Min (set xs) \<in> set xs \<and> Max (set xs) \<in> set xs \<and> set xs \<subseteq> {Min (set xs)..Max (set xs)}"
proof -
  have fin: "finite (set xs)" "set xs \<noteq> {}" using assms by auto
  from Min_in[OF fin] Max_in[OF fin] Min_le[OF fin(1)] Max_ge[OF fin(1)] show ?thesis by auto
qed

end
