(* ===== verification/Lab_Text.thy ===== *)
theory Lab_Text
  imports Lab_Prelude "HOL-Library.Sublist"
begin

text \<open>
  The text operations of the Python standard library that the modelled programs call: joining,
  splitting at a delimiter with a bound, stripping, searching, decimal rendering \<open>str(n)\<close> and
  reading \<open>int(s)\<close>, and the UTF-8 validity test behind \<open>bytes.decode\<close>.

  A \<open>char\<close> is one byte. Where the code works on encoded text a Python \<open>str\<close> is represented by
  its UTF-8 bytes, so \<open>encode\<close> is the identity and \<open>decode\<close> is the identity on valid input; the
  delimiters the code uses are ASCII, so splitting the bytes and splitting the text agree.
\<close>

section \<open>Joining and splitting\<close>

fun str_join :: "string \<Rightarrow> string list \<Rightarrow> string" where
  "str_join sep [] = []"
| "str_join sep [x] = x"
| "str_join sep (x # y # ys) = x @ sep @ str_join sep (y # ys)"

definition split_once :: "char \<Rightarrow> string \<Rightarrow> string \<times> string option" where
  "split_once c s =
     (takeWhile (\<lambda>x. x \<noteq> c) s,
      case dropWhile (\<lambda>x. x \<noteq> c) s of [] \<Rightarrow> None | _ # r \<Rightarrow> Some r)"

text \<open>\<open>s.split(c, n)\<close>: at most \<open>n\<close> splits.\<close>

fun split_max :: "char \<Rightarrow> nat \<Rightarrow> string \<Rightarrow> string list" where
  "split_max c 0 s = [s]"
| "split_max c (Suc n) s =
     (case split_once c s of
        (a, None) \<Rightarrow> [a]
      | (a, Some r) \<Rightarrow> a # split_max c n r)"

lemma split_once_simps:
  "split_once c [] = ([], None)"
  "split_once c (x # s) = (if x = c then ([], Some s) else apfst (Cons x) (split_once c s))"
  by (simp_all add: split_once_def)

lemma split_once_found [text_simps]:
  "c \<notin> set a \<Longrightarrow> split_once c (a @ c # r) = (a, Some r)"
  by (induction a) (auto simp: split_once_simps)

lemma split_once_absent [text_simps]:
  "c \<notin> set a \<Longrightarrow> split_once c a = (a, None)"
  by (induction a) (auto simp: split_once_simps)

lemma split_once_SomeD:
  "split_once c s = (a, Some r) \<Longrightarrow> s = a @ c # r \<and> c \<notin> set a"
proof (induction s arbitrary: a)
  case (Cons x s)
  then show ?case by (cases "split_once c s") (auto simp: split_once_simps split: if_splits)
qed (simp add: split_once_simps)

lemma split_once_NoneD:
  "split_once c s = (a, None) \<Longrightarrow> s = a \<and> c \<notin> set s"
proof (induction s arbitrary: a)
  case (Cons x s)
  then show ?case by (cases "split_once c s") (auto simp: split_once_simps split: if_splits)
qed (simp add: split_once_simps)

text \<open>Joining the pieces gives the text back: \<open>split\<close> loses nothing.\<close>

lemma split_max_nonempty: "split_max c n s \<noteq> []"
  by (cases n) (auto split: prod.splits option.splits)

lemma join_split_max: "str_join [c] (split_max c n s) = s"
proof (induction c n s rule: split_max.induct)
  case (2 c n s)
  show ?case
  proof (cases "snd (split_once c s)")
    case None
    then show ?thesis
      by (auto split: prod.splits option.splits dest: split_once_NoneD)
  next
    case (Some r)
    then obtain a where a: "split_once c s = (a, Some r)" by (cases "split_once c s") auto
    from "2.IH" a have ih: "str_join [c] (split_max c n r) = r" by fastforce
    obtain y ys where ys: "split_max c n r = y # ys"
      using split_max_nonempty by (metis list.exhaust)
    with ih a show ?thesis by (auto dest: split_once_SomeD)
  qed
qed simp

lemma split_max_fields [text_simps]:
  assumes "c \<notin> set a"
  shows "split_max c (Suc n) (a @ c # r) = a # split_max c n r"
  by (simp add: split_once_found assms)

section \<open>Stripping and searching\<close>

text \<open>Python's \<open>str.isspace\<close> on the one-byte code points.\<close>

definition is_space :: "char \<Rightarrow> bool" where
  "is_space c = (let k = (of_char c :: nat) in
     9 \<le> k \<and> k \<le> 13 \<or> 28 \<le> k \<and> k \<le> 32 \<or> k = 133 \<or> k = 160)"

definition lstrip_when :: "(char \<Rightarrow> bool) \<Rightarrow> string \<Rightarrow> string" where
  "lstrip_when p s = dropWhile p s"

definition rstrip_when :: "(char \<Rightarrow> bool) \<Rightarrow> string \<Rightarrow> string" where
  "rstrip_when p s = rev (dropWhile p (rev s))"

definition strip_when :: "(char \<Rightarrow> bool) \<Rightarrow> string \<Rightarrow> string" where
  "strip_when p s = rstrip_when p (lstrip_when p s)"

lemma rstrip_when_append:
  assumes "\<forall>c \<in> set pad. p c"
  shows "rstrip_when p (s @ pad) = rstrip_when p s"
  using assms by (induction pad rule: rev_induct) (simp_all add: rstrip_when_def)

lemma rstrip_when_id: "s = [] \<or> \<not> p (last s) \<Longrightarrow> rstrip_when p s = s"
  by (cases s rule: rev_cases) (auto simp: rstrip_when_def)

text \<open>\<open>s.find(pat)\<close>, with \<open>None\<close> for the result \<open>-1\<close>.\<close>

fun find_sub :: "string \<Rightarrow> string \<Rightarrow> nat option" where
  "find_sub pat [] = (if pat = [] then Some 0 else None)"
| "find_sub pat (c # s) =
     (if prefix pat (c # s) then Some 0 else map_option Suc (find_sub pat s))"

lemma find_sub_SomeD:
  "find_sub pat s = Some i \<Longrightarrow> i \<le> length s \<and> prefix pat (drop i s)"
  by (induction pat s arbitrary: i rule: find_sub.induct) (auto split: if_splits)

lemma find_sub_None_iff: "find_sub pat s = None \<longleftrightarrow> \<not> sublist pat s"
proof (induction pat s rule: find_sub.induct)
  case (2 pat c s)
  then show ?case by (auto simp: sublist_Cons_right)
qed auto

lemma find_sub_least:
  "find_sub pat s = Some i \<Longrightarrow> j < i \<Longrightarrow> \<not> prefix pat (drop j s)"
proof (induction pat s arbitrary: i j rule: find_sub.induct)
  case (2 pat c s)
  then show ?case by (cases j) (auto split: if_splits)
qed (auto split: if_splits)

section \<open>Lines and words\<close>

text \<open>\<open>s.splitlines()\<close>: the line boundaries among the one-byte code points, with \<open>\r\n\<close> as one.\<close>

definition is_break :: "char \<Rightarrow> bool" where
  "is_break c = (let k = (of_char c :: nat) in 10 \<le> k \<and> k \<le> 13 \<or> 28 \<le> k \<and> k \<le> 30 \<or> k = 133)"

fun splitlines :: "string \<Rightarrow> string list" where
  "splitlines [] = []"
| "splitlines (c # s) =
     (if is_break c then
        [] # splitlines (if c = CHR 0x0D \<and> s \<noteq> [] \<and> hd s = CHR 0x0A then tl s else s)
      else case splitlines s of [] \<Rightarrow> [[c]] | l # ls \<Rightarrow> (c # l) # ls)"

fun split_on :: "(char \<Rightarrow> bool) \<Rightarrow> string \<Rightarrow> string list" where
  "split_on p [] = [[]]"
| "split_on p (c # s) =
     (if p c then [] # split_on p s
      else case split_on p s of [] \<Rightarrow> [[c]] | l # ls \<Rightarrow> (c # l) # ls)"

text \<open>\<open>s.split()\<close>: the maximal runs without blanks.\<close>

definition split_ws :: "string \<Rightarrow> string list" where
  "split_ws s = filter (\<lambda>w. w \<noteq> []) (split_on is_space s)"

text \<open>\<open>s.strip()\<close>, \<open>s.lower()\<close> (ASCII letters), and \<open>s.startswith(t)\<close> is \<^term>\<open>prefix t s\<close>.\<close>

definition py_strip :: "string \<Rightarrow> string" where
  "py_strip s = strip_when is_space s"

definition lower_char :: "char \<Rightarrow> char" where
  "lower_char c = (let k = (of_char c :: nat) in if 65 \<le> k \<and> k \<le> 90 then char_of (k + 32) else c)"

definition py_lower :: "string \<Rightarrow> string" where
  "py_lower s = map lower_char s"

lemma split_on_free: "w \<in> set (split_on p s) \<Longrightarrow> c \<in> set w \<Longrightarrow> \<not> p c"
proof (induction s arbitrary: w)
  case (Cons x s)
  from Cons.IH have "\<forall>w \<in> set (split_on p s). c \<in> set w \<longrightarrow> \<not> p c" by blast
  with Cons.prems show ?case by (cases "split_on p s"; cases "p x") auto
qed simp

lemma split_on_nonempty: "split_on p s \<noteq> []"
  by (cases s) (auto split: list.split)

lemma join_split_on: "str_join [c] (split_on (\<lambda>x. x = c) s) = s"
proof (induction s)
  case (Cons a s)
  obtain l ls where ls: "split_on (\<lambda>x. x = c) s = l # ls" using split_on_nonempty by (meson neq_Nil_conv)
  with Cons show ?case by (cases ls) auto
qed simp

lemma split_on_append [text_simps]:
  "c \<notin> set x \<Longrightarrow> split_on (\<lambda>y. y = c) (x @ c # s) = x # split_on (\<lambda>y. y = c) s"
  by (induction x) auto

lemma split_on_whole [text_simps]: "c \<notin> set x \<Longrightarrow> split_on (\<lambda>y. y = c) x = [x]"
  by (induction x) auto

lemma split_ws_words: "w \<in> set (split_ws s) \<Longrightarrow> w \<noteq> [] \<and> (\<forall>c \<in> set w. \<not> is_space c)"
  using split_on_free unfolding split_ws_def by fastforce

section \<open>Decimal integers\<close>

definition digit_char :: "nat \<Rightarrow> char" where
  "digit_char d = char_of (48 + d)"

definition digit_val :: "char \<Rightarrow> nat option" where
  "digit_val c = (let k = of_char c in if 48 \<le> k \<and> k \<le> 57 then Some (k - 48) else None)"

fun nat_str :: "nat \<Rightarrow> string" where
  "nat_str n = (if n < 10 then [digit_char n] else nat_str (n div 10) @ [digit_char (n mod 10)])"

declare nat_str.simps [simp del]

text \<open>CPython refuses to convert between \<open>int\<close> and \<open>str\<close> beyond this many digits.\<close>

definition max_str_digits :: nat where
  "max_str_digits = 4300"

definition int_str :: "int \<Rightarrow> string" where
  "int_str i = (if i < 0 then CHR ''-'' # nat_str (nat (- i)) else nat_str (nat i))"

text \<open>\<open>str(i)\<close>: \<open>None\<close> is the \<open>ValueError\<close> above the digit limit.\<close>

definition py_str_int :: "int \<Rightarrow> string option" where
  "py_str_int i =
     (if length (nat_str (nat \<bar>i\<bar>)) \<le> max_str_digits then Some (int_str i) else None)"

text \<open>
  \<open>int(s)\<close> on ASCII text: surrounding blanks, one optional sign, digits with single underscores
  between them. Non-ASCII decimal digits and blanks, which Python also accepts, are rejected here.
\<close>

fun read_digits :: "nat \<Rightarrow> nat \<Rightarrow> string \<Rightarrow> (nat \<times> nat) option" where
  "read_digits n k [] = Some (n, k)"
| "read_digits n k (c # cs) =
     (case digit_val c of
        Some d \<Rightarrow> read_digits (10 * n + d) (Suc k) cs
      | None \<Rightarrow>
          if c = CHR ''_'' \<and> cs \<noteq> [] \<and> digit_val (hd cs) \<noteq> None
          then read_digits n k cs else None)"

definition read_nat :: "string \<Rightarrow> nat option" where
  "read_nat s =
     (case s of [] \<Rightarrow> None
      | c # _ \<Rightarrow>
          if digit_val c = None then None
          else (case read_digits 0 0 s of
                  None \<Rightarrow> None
                | Some (n, k) \<Rightarrow> if k \<le> max_str_digits then Some n else None))"

definition int_blank :: "char \<Rightarrow> bool" where
  "int_blank c = (let k = (of_char c :: nat) in 9 \<le> k \<and> k \<le> 13 \<or> k = 32)"

definition py_int :: "string \<Rightarrow> int option" where
  "py_int s =
     (case strip_when int_blank s of
        [] \<Rightarrow> None
      | c # cs \<Rightarrow>
          if c = CHR ''-'' then map_option (\<lambda>n. - int n) (read_nat cs)
          else if c = CHR ''+'' then map_option int (read_nat cs)
          else map_option int (read_nat (c # cs)))"

lemma digit_val_char [simp]: "d < 10 \<Longrightarrow> digit_val (digit_char d) = Some d"
  by (simp add: digit_val_def digit_char_def)

lemma nat_str_nonempty [simp]: "nat_str n \<noteq> []"
  by (subst nat_str.simps) simp

lemma nat_str_digits: "c \<in> set (nat_str n) \<Longrightarrow> \<exists>d < 10. c = digit_char d"
proof (induction n rule: nat_str.induct)
  case (1 n)
  show ?case
  proof (cases "n < 10")
    case True
    with "1.prems" show ?thesis by (subst (asm) nat_str.simps) auto
  next
    case False
    with "1.prems" have "c \<in> set (nat_str (n div 10)) \<or> c = digit_char (n mod 10)"
      by (subst (asm) nat_str.simps) auto
    moreover have "n mod 10 < 10" by simp
    ultimately show ?thesis using "1.IH" False by blast
  qed
qed

lemma of_char_digit: "d < 10 \<Longrightarrow> (of_char (digit_char d) :: nat) = 48 + d"
  by (simp add: digit_char_def)

lemma nat_str_code: "c \<in> set (nat_str n) \<Longrightarrow> 48 \<le> (of_char c :: nat) \<and> (of_char c :: nat) \<le> 57"
  by (auto dest!: nat_str_digits simp: of_char_digit)

lemma read_digits_append:
  assumes "\<forall>c \<in> set xs. digit_val c \<noteq> None"
  shows "read_digits n k (xs @ ys) =
    (case read_digits n k xs of None \<Rightarrow> None | Some (n', k') \<Rightarrow> read_digits n' k' ys)"
  using assms by (induction xs arbitrary: n k) (auto split: option.splits)

lemma digit_val_nat_str: "c \<in> set (nat_str n) \<Longrightarrow> digit_val c \<noteq> None"
  by (auto dest!: nat_str_digits)

lemma read_digits_nat_str: "read_digits 0 0 (nat_str n) = Some (n, length (nat_str n))"
proof (induction n rule: nat_str.induct)
  case (1 n)
  show ?case
  proof (cases "n < 10")
    case True
    then show ?thesis by (simp add: nat_str.simps [of n])
  next
    case False
    with "1.IH" show ?thesis
      by (simp add: nat_str.simps [of n] read_digits_append digit_val_nat_str)
  qed
qed

lemma nat_str_inject: "nat_str m = nat_str n \<longleftrightarrow> m = n"
  by (metis Pair_inject option.inject read_digits_nat_str)

text \<open>A text of digits reads as a number that is not negative.\<close>

lemma py_int_digits:
  assumes "\<forall>c \<in> set s. digit_val c \<noteq> None" and "py_int s = Some i"
  shows "0 \<le> i"
proof -
  have "digit_val (CHR ''-'') = None" by (simp add: digit_val_def)
  moreover have "set (strip_when int_blank s) \<subseteq> set s"
    unfolding strip_when_def rstrip_when_def lstrip_when_def
    by (metis (no_types, lifting) set_dropWhileD set_rev subsetI)
  ultimately have "strip_when int_blank s = c # cs \<Longrightarrow> c \<noteq> CHR ''-''" for c cs
    using assms(1) by (metis list.set_intros(1) subsetD)
  then show ?thesis using assms(2) by (auto simp: py_int_def split: list.splits if_splits)
qed

lemma read_nat_nat_str:
  "length (nat_str n) \<le> max_str_digits \<Longrightarrow> read_nat (nat_str n) = Some n"
proof -
  assume len: "length (nat_str n) \<le> max_str_digits"
  obtain c cs where c: "nat_str n = c # cs" by (meson nat_str_nonempty neq_Nil_conv)
  then have "digit_val c \<noteq> None" using digit_val_nat_str[of c n] by simp
  moreover have "read_digits 0 0 (c # cs) = Some (n, length (nat_str n))"
    using read_digits_nat_str[of n] c by simp
  ultimately show ?thesis
    using len by (simp add: read_nat_def c del: read_digits.simps)
qed

lemma length_nat_str: "n < 10 ^ k \<Longrightarrow> 0 < k \<Longrightarrow> length (nat_str n) \<le> k"
proof (induction n arbitrary: k rule: nat_str.induct)
  case (1 n)
  show ?case
  proof (cases "n < 10")
    case True
    with "1.prems" show ?thesis by (subst nat_str.simps) simp
  next
    case False
    from "1.prems" obtain j where k: "k = Suc j" by (cases k) auto
    with "1.prems" False have "0 < j" by (cases j) auto
    with k have j: "k = Suc j" "0 < j" by auto
    with "1.prems" have "n div 10 < 10 ^ j" by simp
    with "1.IH"[OF False, of j] j False show ?thesis by (subst nat_str.simps) simp
  qed
qed

lemma strip_when_none: "\<forall>c \<in> set s. \<not> p c \<Longrightarrow> strip_when p s = s"
proof -
  assume "\<forall>c \<in> set s. \<not> p c"
  then have "dropWhile p s = s" "dropWhile p (rev s) = rev s"
    by (auto simp: dropWhile_eq_self_iff hd_rev)
  then show ?thesis by (simp add: strip_when_def lstrip_when_def rstrip_when_def)
qed

lemma int_str_no_blank: "\<forall>c \<in> set (int_str i). \<not> int_blank c"
  by (auto simp: int_str_def int_blank_def Let_def dest!: nat_str_digits simp: of_char_digit)

text \<open>Reading back what was printed gives the number.\<close>

lemma py_int_py_str_int [text_simps]:
  assumes "py_str_int i = Some s"
  shows "py_int s = Some i"
proof -
  from assms have len: "length (nat_str (nat \<bar>i\<bar>)) \<le> max_str_digits" and s: "s = int_str i"
    by (auto simp: py_str_int_def split: if_splits)
  have st: "strip_when int_blank s = s"
    using s int_str_no_blank by (simp add: strip_when_none)
  show ?thesis
  proof (cases "i < 0")
    case True
    with st s len show ?thesis by (simp add: py_int_def int_str_def read_nat_nat_str)
  next
    case False
    then obtain c cs where c: "nat_str (nat i) = c # cs"
      by (meson nat_str_nonempty neq_Nil_conv)
    then have "48 \<le> (of_char c :: nat)" "(of_char c :: nat) \<le> 57"
      using nat_str_code[of c "nat i"] by auto
    then have "c \<noteq> CHR ''-''" "c \<noteq> CHR ''+''" by auto
    moreover have "read_nat (c # cs) = Some (nat i)"
      using read_nat_nat_str[of "nat i"] len False c by simp
    ultimately show ?thesis
      using False st s c by (simp add: py_int_def int_str_def)
  qed
qed

lemma int_str_chars:
  "c \<in> set (int_str i) \<Longrightarrow> c = CHR ''-'' \<or> (48 \<le> (of_char c :: nat) \<and> (of_char c :: nat) \<le> 57)"
  by (auto simp: int_str_def dest: nat_str_code split: if_splits)

lemma py_str_int_small:
  "\<bar>i\<bar> < 10 ^ max_str_digits \<Longrightarrow> py_str_int i = Some (int_str i)"
proof -
  assume "\<bar>i\<bar> < 10 ^ max_str_digits"
  then have "int (nat \<bar>i\<bar>) < int (10 ^ max_str_digits)" by (simp only: int_nat_eq of_nat_power of_nat_numeral) simp
  then have "nat \<bar>i\<bar> < 10 ^ max_str_digits" by linarith
  then have "length (nat_str (nat \<bar>i\<bar>)) \<le> max_str_digits"
    by (rule length_nat_str) (simp add: max_str_digits_def)
  then show ?thesis by (simp add: py_str_int_def)
qed

section \<open>UTF-8\<close>

text \<open>The validity test of a strict UTF-8 decoder: no overlong form, no surrogate, no code point
  above \<open>0x10FFFF\<close>.\<close>

definition cont_byte :: "nat \<Rightarrow> bool" where
  "cont_byte k \<longleftrightarrow> 128 \<le> k \<and> k < 192"

fun utf8_ok :: "nat list \<Rightarrow> bool" where
  "utf8_ok [] = True"
| "utf8_ok (a # r) =
     (if a < 128 then utf8_ok r
      else if 194 \<le> a \<and> a < 224 then
        (case r of b # r' \<Rightarrow> cont_byte b \<and> utf8_ok r' | _ \<Rightarrow> False)
      else if 224 \<le> a \<and> a < 240 then
        (case r of b # c # r' \<Rightarrow>
            cont_byte b \<and> cont_byte c \<and> (a = 224 \<longrightarrow> 160 \<le> b) \<and> (a = 237 \<longrightarrow> b < 160) \<and> utf8_ok r'
          | _ \<Rightarrow> False)
      else if 240 \<le> a \<and> a < 245 then
        (case r of b # c # d # r' \<Rightarrow>
            cont_byte b \<and> cont_byte c \<and> cont_byte d \<and> (a = 240 \<longrightarrow> 144 \<le> b) \<and> (a = 244 \<longrightarrow> b < 144)
            \<and> utf8_ok r'
          | _ \<Rightarrow> False)
      else False)"

definition utf8_valid :: "string \<Rightarrow> bool" where
  "utf8_valid s = utf8_ok (map of_char s)"

lemma utf8_ok_append: "utf8_ok xs \<Longrightarrow> utf8_ok (xs @ ys) = utf8_ok ys"
  by (induction xs rule: utf8_ok.induct) (auto split: if_splits list.splits)

lemma utf8_valid_append [text_simps]:
  "utf8_valid xs \<Longrightarrow> utf8_valid (xs @ ys) = utf8_valid ys"
  by (simp add: utf8_valid_def utf8_ok_append)

lemma utf8_valid_Cons_ascii [text_simps]:
  "(of_char c :: nat) < 128 \<Longrightarrow> utf8_valid (c # s) = utf8_valid s"
  by (simp add: utf8_valid_def)

lemma utf8_valid_Nil [simp, text_simps]: "utf8_valid []"
  by (simp add: utf8_valid_def)

lemma utf8_valid_ascii: "\<forall>c \<in> set s. (of_char c :: nat) < 128 \<Longrightarrow> utf8_valid s"
  by (induction s) (simp_all add: text_simps)

lemma utf8_valid_int_str [text_simps]: "utf8_valid (int_str i)"
proof (rule utf8_valid_ascii, rule ballI)
  fix c assume "c \<in> set (int_str i)"
  then show "(of_char c :: nat) < 128" by (auto dest!: int_str_chars)
qed

end
