(* ===== verification/Py_Value.thy ===== *)
theory Py_Value
  imports Complex_Main Lab_Text "HOL-Library.Log_Nat"
begin

text \<open>
  The dynamically typed values that reach the programs from YAML and JSON documents, with the
  Python tests and conversions the code applies to them. A mapping is an association list in
  document order. A \<open>float\<close> read from a document is its exact rational value.
\<close>

datatype pyval =
    PNone
  | PBool bool
  | PInt int
  | PFloat rat
  | PStr string
  | PList "pyval list"
  | PDict "(pyval \<times> pyval) list"

datatype py_error =
    KeyErr string
  | ValueErr string
  | TypeErr string
  | FileNotFound string
  | Unmodelled string \<comment> \<open>a conversion whose Python result the model does not compute\<close>

section \<open>Tests\<close>

fun is_dict :: "pyval \<Rightarrow> bool" where
  "is_dict (PDict _) = True"
| "is_dict _ = False"

fun is_str :: "pyval \<Rightarrow> bool" where
  "is_str (PStr _) = True"
| "is_str _ = False"

text \<open>\<open>bool(v)\<close>: the truth value used by \<open>v or default\<close>, \<open>if v\<close> and \<open>not v\<close>.\<close>

fun truthy :: "pyval \<Rightarrow> bool" where
  "truthy PNone = False"
| "truthy (PBool b) = b"
| "truthy (PInt i) = (i \<noteq> 0)"
| "truthy (PFloat q) = (q \<noteq> 0)"
| "truthy (PStr s) = (s \<noteq> [])"
| "truthy (PList xs) = (xs \<noteq> [])"
| "truthy (PDict d) = (d \<noteq> [])"

section \<open>Mappings\<close>

fun items :: "pyval \<Rightarrow> (pyval \<times> pyval) list" where
  "items (PDict d) = d"
| "items _ = []"

text \<open>\<open>d.get(key)\<close> for a string key: an absent key and a null value are told apart by the
  \<open>option\<close>; \<open>get_or_none\<close> below is the Python result.\<close>

definition lookup :: "pyval \<Rightarrow> string \<Rightarrow> pyval option" where
  "lookup v k = map_of (items v) (PStr k)"

definition get_or_none :: "pyval \<Rightarrow> string \<Rightarrow> pyval" where
  "get_or_none v k = (case lookup v k of None \<Rightarrow> PNone | Some w \<Rightarrow> w)"

definition get_default :: "pyval \<Rightarrow> string \<Rightarrow> pyval \<Rightarrow> pyval" where
  "get_default v k d = (case lookup v k of None \<Rightarrow> d | Some w \<Rightarrow> w)"

definition put :: "string \<Rightarrow> pyval \<Rightarrow> pyval \<Rightarrow> pyval" where
  "put k w v = PDict (AList.update (PStr k) w (items v))"

lemma lookup_put: "lookup (put k w v) k' = (if k' = k then Some w else lookup v k')"
  by (simp add: lookup_def put_def update_conv')

lemma lookup_Dict: "lookup (PDict d) k = map_of d (PStr k)"
  by (simp add: lookup_def)

text \<open>\<open>del d[key]\<close> or \<open>d.pop(key, None)\<close>.\<close>

definition remove :: "string \<Rightarrow> pyval \<Rightarrow> pyval" where
  "remove k v = PDict (AList.delete (PStr k) (items v))"

lemma lookup_remove: "lookup (remove k v) k' = (if k' = k then None else lookup v k')"
  by (simp add: lookup_def remove_def delete_conv')

section \<open>Conversions\<close>

text \<open>\<open>int(v)\<close>: a float is truncated towards zero, a text is read by \<^const>\<open>py_int\<close>.\<close>

fun to_int :: "pyval \<Rightarrow> (py_error, int) result" where
  "to_int (PInt i) = Inr i"
| "to_int (PBool b) = Inr (if b then 1 else 0)"
| "to_int (PFloat q) = Inr (if 0 \<le> q then \<lfloor>q\<rfloor> else \<lceil>q\<rceil>)"
| "to_int (PStr s) = (case py_int s of None \<Rightarrow> Inl (ValueErr ''int'') | Some i \<Rightarrow> Inr i)"
| "to_int _ = Inl (TypeErr ''int'')"

text \<open>\<open>float(v)\<close>; reading a float from text is outside the model.\<close>

fun to_float :: "pyval \<Rightarrow> (py_error, rat) result" where
  "to_float (PInt i) = Inr (of_int i)"
| "to_float (PBool b) = Inr (if b then 1 else 0)"
| "to_float (PFloat q) = Inr q"
| "to_float (PStr _) = Inl (Unmodelled ''float of text'')"
| "to_float _ = Inl (TypeErr ''float'')"

text \<open>\<open>str(v)\<close>; the rendering of floats and containers is outside the model.\<close>

fun to_str :: "pyval \<Rightarrow> (py_error, string) result" where
  "to_str (PStr s) = Inr s"
| "to_str PNone = Inr ''None''"
| "to_str (PBool b) = Inr (if b then ''True'' else ''False'')"
| "to_str (PInt i) = (case py_str_int i of None \<Rightarrow> Inl (ValueErr ''str'') | Some s \<Rightarrow> Inr s)"
| "to_str _ = Inl (Unmodelled ''str'')"

text \<open>\<open>d[key]\<close> on a document value.\<close>

definition item :: "pyval \<Rightarrow> string \<Rightarrow> (py_error, pyval) result" where
  "item v k =
     (if is_dict v
      then (case lookup v k of None \<Rightarrow> Inl (KeyErr k) | Some w \<Rightarrow> Inr w)
      else Inl (TypeErr k))"

text \<open>Method calls on a document value that may not be a mapping: \<open>d.get(key, default)\<close>, \<open>d.items()\<close>
  (an attribute error otherwise), and \<open>v or {}\<close>.\<close>

definition dict_get :: "pyval \<Rightarrow> string \<Rightarrow> pyval \<Rightarrow> (py_error, pyval) result" where
  "dict_get v k d = (if is_dict v then Inr (get_default v k d) else Inl (TypeErr ''get''))"

definition dict_items :: "pyval \<Rightarrow> (py_error, (pyval \<times> pyval) list) result" where
  "dict_items v = (if is_dict v then Inr (items v) else Inl (TypeErr ''items''))"

definition or_empty :: "pyval \<Rightarrow> pyval" where
  "or_empty v = (if truthy v then v else PDict [])"

lemma dict_get_Dict [simp]: "dict_get (PDict d) k w = Inr (get_default (PDict d) k w)"
  by (simp add: dict_get_def)

lemma dict_items_Dict [simp]: "dict_items (PDict d) = Inr d"
  by (simp add: dict_items_def)

lemma or_empty_Dict [simp]: "or_empty (PDict d) = PDict d"
  by (simp add: or_empty_def)

section \<open>Floats with infinities\<close>

text \<open>
  A finite Python float is a rational number, and comparing floats is comparing those numbers.
  The programs also use \<open>float("inf")\<close>; not-a-number values are outside the model.
\<close>

datatype pyfloat = NegInf | Fin rat | PosInf

instantiation pyfloat :: linorder
begin

fun less_eq_pyfloat :: "pyfloat \<Rightarrow> pyfloat \<Rightarrow> bool" where
  "less_eq_pyfloat NegInf _ = True"
| "less_eq_pyfloat (Fin a) (Fin b) = (a \<le> b)"
| "less_eq_pyfloat _ PosInf = True"
| "less_eq_pyfloat _ _ = False"

definition less_pyfloat :: "pyfloat \<Rightarrow> pyfloat \<Rightarrow> bool" where
  "less_pyfloat a b \<longleftrightarrow> a \<le> b \<and> \<not> b \<le> a"

instance
proof
  fix x y z :: pyfloat
  show "x < y \<longleftrightarrow> x \<le> y \<and> \<not> y \<le> x" by (simp add: less_pyfloat_def)
  show "x \<le> x" by (cases x) simp_all
  show "x \<le> y \<Longrightarrow> y \<le> z \<Longrightarrow> x \<le> z" by (cases x; cases y; cases z) simp_all
  show "x \<le> y \<Longrightarrow> y \<le> x \<Longrightarrow> x = y" by (cases x; cases y) simp_all
  show "x \<le> y \<or> y \<le> x" by (cases x; cases y) auto
qed

end

lemma le_PosInf [simp]: "x \<le> PosInf"
  by (cases x) simp_all

section \<open>Float arithmetic\<close>

text \<open>
  The result of a float operation is the exact rational result rounded to binary64: 53 significant
  bits, ties to even, gradual underflow at \<open>2 ^ -1022\<close>. Overflow to infinity is outside the model.
\<close>

definition pow2 :: "int \<Rightarrow> rat" where
  "pow2 k = (if 0 \<le> k then of_int (2 ^ nat k) else 1 / of_int (2 ^ nat (- k)))"

definition ilog2 :: "rat \<Rightarrow> int" where
  "ilog2 q = (case quotient_of q of (n, d) \<Rightarrow>
     let e = int (floorlog 2 (nat n)) - int (floorlog 2 (nat d)) in if q < pow2 e then e - 1 else e)"

definition half_even :: "rat \<Rightarrow> int" where
  "half_even q = (let f = \<lfloor>q\<rfloor>; r = q - of_int f in
     if r < 1 / 2 then f else if 1 / 2 < r then f + 1 else if even f then f else f + 1)"

definition fl :: "rat \<Rightarrow> rat" where
  "fl q = (if q = 0 then 0 else
     let u = pow2 (max (ilog2 \<bar>q\<bar>) (- 1022) - 52) in of_int (half_even (q / u)) * u)"

lemma pow2_pos: "0 < pow2 k"
  by (simp add: pow2_def)

lemma half_even_mono_0: "0 \<le> q \<Longrightarrow> 0 \<le> half_even q"
  by (simp add: half_even_def Let_def)

lemma fl_0 [simp]: "fl 0 = 0"
  by (simp add: fl_def)

lemma fl_nonneg: "0 \<le> q \<Longrightarrow> 0 \<le> fl q"
proof (cases "q = 0")
  case False
  assume q: "0 \<le> q"
  define u where "u = pow2 (max (ilog2 \<bar>q\<bar>) (- 1022) - 52)"
  have "0 < u" by (simp add: u_def pow2_pos)
  with q have "0 \<le> half_even (q / u)" by (intro half_even_mono_0) simp
  with \<open>0 < u\<close> False show ?thesis by (simp add: fl_def u_def Let_def)
qed simp

lemma pow2_int: "pow2 (int n) = 2 ^ n"
  by (simp add: pow2_def)

lemma pow2_diff: "pow2 (int a - int b) = 2 ^ a / 2 ^ b"
proof (cases "b \<le> a")
  case True
  then have "int a - int b = int (a - b)" by simp
  then show ?thesis using True by (simp only: pow2_int) (simp add: power_diff)
next
  case False
  then have "pow2 (int a - int b) = 1 / 2 ^ (b - a)" by (simp add: pow2_def nat_diff_distrib flip: of_nat_diff)
  also have "(2 :: rat) ^ (b - a) = 2 ^ b / 2 ^ a" using False by (simp add: power_diff)
  finally show ?thesis by simp
qed

lemma pow2_mono: "j \<le> k \<Longrightarrow> pow2 j \<le> pow2 k"
proof -
  assume le: "j \<le> k"
  define a b c where "a = nat k" and "b = nat (- k)" and "c = nat (k - j)"
  have k: "k = int a - int b" and j: "j = int a - int (b + c)" using le by (auto simp: a_def b_def c_def)
  show ?thesis unfolding k j pow2_diff by (simp add: power_add field_simps)
qed

lemma ilog2_lower:
  assumes "0 < q"
  shows "pow2 (ilog2 q) \<le> q"
proof -
  obtain n d where nd: "quotient_of q = (n, d)" by fastforce
  then have q: "q = of_int n / of_int d" and d: "0 < d" by (simp_all add: quotient_of_div quotient_of_denom_pos)
  with assms have n: "0 < n" by (simp add: zero_less_divide_iff)
  define a b where "a = floorlog 2 (nat n)" and "b = floorlog 2 (nat d)"
  have a: "2 ^ (a - 1) \<le> nat n" "0 < a" using n floorlog_bounds[of "nat n" 2] by (auto simp: a_def floorlog_def)
  have b: "nat d < 2 ^ b" using d floorlog_bounds[of "nat d" 2] by (simp add: b_def)
  have "pow2 (int a - int b - 1) \<le> q"
  proof -
    have "(2::rat) ^ (a - 1) \<le> of_int n" using a(1) n by (metis int_nat_eq less_le_not_le nat_less_iff of_int_le_iff of_int_numeral of_int_power of_nat_le_iff of_nat_numeral of_nat_power linorder_not_le)
    moreover have "of_int d < (2::rat) ^ b" using b d by (metis less_imp_le nat_less_iff of_int_less_iff of_int_numeral of_int_power of_nat_numeral of_nat_power)
    ultimately have "(2::rat) ^ (a - 1) / 2 ^ b \<le> of_int n / of_int d" using d n by (intro frac_le) auto
    moreover have "int a - int b - 1 = int (a - 1) - int b" using a(2) by simp
    ultimately show ?thesis by (simp only: q pow2_diff)
  qed
  then show ?thesis by (simp add: ilog2_def nd a_def b_def Let_def)
qed

lemma half_even_le: "q \<le> of_int m \<Longrightarrow> half_even q \<le> m"
proof -
  assume le: "q \<le> of_int m"
  then have f: "\<lfloor>q\<rfloor> \<le> m" by linarith
  have "\<lfloor>q\<rfloor> < m" if "q - of_int \<lfloor>q\<rfloor> \<noteq> 0"
  proof -
    have "of_int \<lfloor>q\<rfloor> < q" using that by linarith
    with le show ?thesis by linarith
  qed
  with f show ?thesis by (auto simp: half_even_def Let_def)
qed

text \<open>Rounding never passes an integer that is itself representable.\<close>

lemma fl_le_int:
  assumes "0 \<le> x" and "x \<le> of_int n" and "n < 2 ^ 53"
  shows "fl x \<le> of_int n"
proof (cases "x = 0")
  case True
  with assms show ?thesis by simp
next
  case False
  define e where "e = max (ilog2 \<bar>x\<bar>) (- 1022)"
  define u where "u = pow2 (e - 52)"
  have fl: "fl x = of_int (half_even (x / u)) * u" using False by (simp add: fl_def u_def e_def Let_def)
  have u: "0 < u" by (simp add: u_def pow2_pos)
  have "e \<le> 52"
  proof (rule ccontr)
    assume "\<not> e \<le> 52"
    then have "53 \<le> ilog2 x" using assms(1) by (simp add: e_def)
    then have "pow2 53 \<le> x" using pow2_mono[of 53 "ilog2 x"] ilog2_lower[of x] False assms(1) by simp
    moreover have "pow2 53 = of_int (2 ^ 53)" by (simp add: pow2_def)
    ultimately have "of_int (2 ^ 53) \<le> (of_int n :: rat)" using assms(2) by linarith
    with assms(3) show False by (simp only: of_int_le_iff)
  qed
  define c where "c = nat (52 - e)"
  have e: "e - 52 = int 0 - int c" using \<open>e \<le> 52\<close> by (simp add: c_def)
  have uc: "u = 1 / 2 ^ c" unfolding u_def e pow2_diff by simp
  have "x / u \<le> of_int (n * 2 ^ c)" using assms(2) by (simp add: uc)
  then have "half_even (x / u) \<le> n * 2 ^ c" by (rule half_even_le)
  then have "of_int (half_even (x / u)) \<le> (of_int (n * 2 ^ c) :: rat)" by (simp only: of_int_le_iff)
  then have "fl x \<le> of_int (n * 2 ^ c) * u" using u fl by (simp add: mult_right_mono)
  then show ?thesis by (simp add: uc)
qed

text \<open>\<open>sum(xs)\<close> over floats: since Python 3.12 the sum is compensated (Neumaier), and the
  collected error is added at the end.\<close>

definition fsum_step :: "rat \<Rightarrow> rat \<times> rat \<Rightarrow> rat \<times> rat" where
  "fsum_step x sc = (case sc of (s, c) \<Rightarrow>
     let t = fl (s + x);
         e = (if \<bar>x\<bar> \<le> \<bar>s\<bar> then fl (fl (s - t) + x) else fl (fl (x - t) + s))
     in (t, fl (c + e)))"

definition fsum :: "rat list \<Rightarrow> rat" where
  "fsum xs = (case fold fsum_step xs (0, 0) of (s, c) \<Rightarrow> if c = 0 then s else fl (s + c))"

end
