(* ===== verification/DR_Ledger.thy ===== *)
theory DR_Ledger
  imports Py_Value "HOL-Library.Product_Lexorder"
begin

text \<open>
  The append-only message ledger of the disaster-recovery framework (\<open>mqrc/dr/model.py\<close>,
  \<open>mqrc/dr/ledger.py\<close>) and the exposure gauge over it (\<open>mqrc/dr/exposure.py\<close>). The app side
  records SENT and CONFIRMED, the service-side Watcher records RECEIVED and REPLIED. Timestamps
  are finite floats; a cutover instant may be infinite.

  The JSON Lines file is modelled row by row: a line is blank, not JSON, or a JSON value.
\<close>

section \<open>Data\<close>

datatype Event = SENT | CONFIRMED | RECEIVED | REPLIED

datatype MessageState = NEVER_SENT | IN_PIPELINE | STATE_CONFIRMED

record LedgerEntry =
  event :: Event
  seq :: int
  uuid :: string
  ts :: rat

record Ledger =
  entries :: "LedgerEntry list"

definition init_ledger :: "LedgerEntry list option \<Rightarrow> Ledger" where
  "init_ledger es = \<lparr>entries = (case es of None \<Rightarrow> [] | Some xs \<Rightarrow> xs)\<rparr>"

definition append_entry :: "Ledger \<Rightarrow> LedgerEntry \<Rightarrow> Ledger" where
  "append_entry l e = l\<lparr>entries := entries l @ [e]\<rparr>"

section \<open>Queries\<close>

definition sent_seqs :: "Ledger \<Rightarrow> int set" where
  "sent_seqs l = seq ` set (filter (\<lambda>e. event e = SENT) (entries l))"

text \<open>The optional bound \<open>at_ts\<close>: no bound admits every entry.\<close>

definition by_time :: "pyfloat option \<Rightarrow> LedgerEntry \<Rightarrow> bool" where
  "by_time at_ts e = (case at_ts of None \<Rightarrow> True | Some t \<Rightarrow> Fin (ts e) \<le> t)"

definition confirmed_seqs :: "Ledger \<Rightarrow> pyfloat option \<Rightarrow> int set" where
  "confirmed_seqs l at_ts =
     seq ` set (filter (\<lambda>e. event e = CONFIRMED \<and> by_time at_ts e) (entries l))"

definition uuid_of :: "Ledger \<Rightarrow> int \<rightharpoonup> string" where
  "uuid_of l = fold (\<lambda>e m. m(seq e \<mapsto> uuid e)) (entries l) Map.empty"

definition app_states :: "Ledger \<Rightarrow> int \<rightharpoonup> MessageState" where
  "app_states l = (\<lambda>s.
     if s \<in> sent_seqs l
     then Some (if s \<in> confirmed_seqs l None then STATE_CONFIRMED else IN_PIPELINE)
     else None)"

definition count_receive :: "LedgerEntry \<Rightarrow> (int \<rightharpoonup> nat) \<Rightarrow> (int \<rightharpoonup> nat)" where
  "count_receive e m =
     (if event e = RECEIVED
      then m(seq e \<mapsto> (case m (seq e) of None \<Rightarrow> 0 | Some n \<Rightarrow> n) + 1)
      else m)"

definition svc_receive_counts :: "Ledger \<Rightarrow> int \<rightharpoonup> nat" where
  "svc_receive_counts l = fold count_receive (entries l) Map.empty"

definition svc_replied :: "Ledger \<Rightarrow> int set" where
  "svc_replied l = seq ` set (filter (\<lambda>e. event e = REPLIED) (entries l))"

section \<open>Exposure\<close>

definition unresolved_seqs :: "Ledger \<Rightarrow> pyfloat option \<Rightarrow> int set" where
  "unresolved_seqs app at_ts =
     seq ` set (filter (\<lambda>e. event e = SENT \<and> by_time at_ts e) (entries app))
     - confirmed_seqs app at_ts"

definition exposure :: "Ledger \<Rightarrow> pyfloat option \<Rightarrow> nat" where
  "exposure app at_ts = card (unresolved_seqs app at_ts)"

definition delta_events :: "LedgerEntry list \<Rightarrow> (rat \<times> int) list" where
  "delta_events es = concat (map (\<lambda>e.
     if event e = SENT then [(ts e, 1)]
     else if event e = CONFIRMED then [(ts e, - 1)] else []) es)"

text \<open>\<open>events.sort(key=lambda x: (x[0], -x[1]))\<close>: by time, a SENT before a CONFIRMED.\<close>

definition replay_order :: "(rat \<times> int) list \<Rightarrow> (rat \<times> int) list" where
  "replay_order evs = sort_key (\<lambda>x. (fst x, - snd x)) evs"

fun replay :: "int \<Rightarrow> int \<Rightarrow> (rat \<times> int) list \<Rightarrow> int" where
  "replay inflight peak [] = peak"
| "replay inflight peak ((t, d) # evs) =
     replay (inflight + d) (max peak (inflight + d)) evs"

definition peak_exposure :: "Ledger \<Rightarrow> int" where
  "peak_exposure app = replay 0 0 (replay_order (delta_events (entries app)))"

section \<open>The JSON Lines file\<close>

datatype jline = Blank | BadLine | Row pyval

fun event_value :: "Event \<Rightarrow> string" where
  "event_value SENT = ''sent''"
| "event_value CONFIRMED = ''confirmed''"
| "event_value RECEIVED = ''received''"
| "event_value REPLIED = ''replied''"

text \<open>\<open>Event(value)\<close>: a value that names no member raises \<open>ValueError\<close>.\<close>

definition event_of :: "pyval \<Rightarrow> (py_error, Event) result" where
  "event_of v =
     (if v = PStr ''sent'' then Inr SENT
      else if v = PStr ''confirmed'' then Inr CONFIRMED
      else if v = PStr ''received'' then Inr RECEIVED
      else if v = PStr ''replied'' then Inr REPLIED
      else Inl (ValueErr ''event''))"

definition entry_row :: "LedgerEntry \<Rightarrow> pyval" where
  "entry_row e = PDict
     [(PStr ''event'', PStr (event_value (event e))), (PStr ''seq'', PInt (seq e)),
      (PStr ''uuid'', PStr (uuid e)), (PStr ''ts'', PFloat (ts e))]"

definition write_jsonl :: "Ledger \<Rightarrow> jline list" where
  "write_jsonl l = map (\<lambda>e. Row (entry_row e)) (entries l)"

definition row_entry :: "pyval \<Rightarrow> (py_error, LedgerEntry) result" where
  "row_entry row =
     rbind (rbind (item row ''event'') event_of) (\<lambda>ev.
     rbind (rbind (item row ''seq'') to_int) (\<lambda>s.
     rbind (rbind (item row ''uuid'') to_str) (\<lambda>u.
     rbind (rbind (item row ''ts'') to_float) (\<lambda>t.
     Inr \<lparr>event = ev, seq = s, uuid = u, ts = t\<rparr>))))"

fun read_lines :: "jline list \<Rightarrow> (py_error, LedgerEntry list) result" where
  "read_lines [] = Inr []"
| "read_lines (Blank # ls) = read_lines ls"
| "read_lines (BadLine # ls) = Inl (ValueErr ''json'')"
| "read_lines (Row v # ls) =
     rbind (row_entry v) (\<lambda>e. rbind (read_lines ls) (\<lambda>es. Inr (e # es)))"

text \<open>A missing file (\<open>None\<close>) reads as the empty ledger.\<close>

definition read_jsonl :: "jline list option \<Rightarrow> (py_error, Ledger) result" where
  "read_jsonl f =
     (case f of None \<Rightarrow> Inr (init_ledger None)
      | Some ls \<Rightarrow> rbind (read_lines ls) (\<lambda>es. Inr (init_ledger (Some es))))"

section \<open>Facts on the queries\<close>

lemma sent_seqs_append:
  "sent_seqs (append_entry l e) = sent_seqs l \<union> (if event e = SENT then {seq e} else {})"
  by (auto simp: sent_seqs_def append_entry_def)

lemma confirmed_seqs_append:
  "confirmed_seqs (append_entry l e) t =
     confirmed_seqs l t \<union> (if event e = CONFIRMED \<and> by_time t e then {seq e} else {})"
  by (auto simp: confirmed_seqs_def append_entry_def)

lemma finite_sent_seqs [simp]: "finite (sent_seqs l)"
  by (simp add: sent_seqs_def)

lemma finite_confirmed_seqs [simp]: "finite (confirmed_seqs l t)"
  by (simp add: confirmed_seqs_def)

lemma finite_unresolved_seqs [simp]: "finite (unresolved_seqs l t)"
  by (simp add: unresolved_seqs_def)

lemma by_time_simps [simp]:
  "by_time None e"
  "by_time (Some PosInf) e"
  "by_time (Some (Fin t)) e \<longleftrightarrow> ts e \<le> t"
  by (simp_all add: by_time_def)

lemma confirmed_seqs_mono:
  assumes "t \<le> t'"
  shows "confirmed_seqs l (Some t) \<subseteq> confirmed_seqs l (Some t')"
  using assms by (auto simp: confirmed_seqs_def by_time_def intro: order_trans)

lemma confirmed_seqs_unbounded:
  "confirmed_seqs l (Some PosInf) = confirmed_seqs l None"
  by (simp add: confirmed_seqs_def)

lemma unresolved_seqs_None: "unresolved_seqs l None = sent_seqs l - confirmed_seqs l None"
  by (simp add: unresolved_seqs_def sent_seqs_def)

definition receive_count :: "LedgerEntry list \<Rightarrow> int \<Rightarrow> nat" where
  "receive_count es s = length (filter (\<lambda>e. event e = RECEIVED \<and> seq e = s) es)"

lemma receive_count_simps [simp]:
  "receive_count [] s = 0"
  "receive_count (e # es) s =
     (if event e = RECEIVED \<and> seq e = s then 1 else 0) + receive_count es s"
  by (auto simp: receive_count_def)

lemma fold_count_receive:
  "fold count_receive es m s =
     (if receive_count es s = 0 then m s
      else Some ((case m s of None \<Rightarrow> 0 | Some n \<Rightarrow> n) + receive_count es s))"
  by (induction es arbitrary: m) (auto simp: count_receive_def split: option.splits)

lemma svc_receive_counts_eq:
  "svc_receive_counts l s =
     (if receive_count (entries l) s = 0 then None else Some (receive_count (entries l) s))"
  by (simp add: svc_receive_counts_def fold_count_receive)

lemma fold_uuid:
  "fold (\<lambda>e m. m(seq e \<mapsto> uuid e)) es m s =
     (case find (\<lambda>e. seq e = s) (rev es) of None \<Rightarrow> m s | Some e \<Rightarrow> Some (uuid e))"
  by (induction es arbitrary: m rule: rev_induct) auto

lemma uuid_of_last:
  "uuid_of l s = map_option uuid (find (\<lambda>e. seq e = s) (rev (entries l)))"
  by (simp add: uuid_of_def fold_uuid split: option.split)

lemma dom_uuid_of: "dom (uuid_of l) = seq ` set (entries l)"
  by (auto simp: uuid_of_last dom_def find_Some_iff find_None_iff image_iff)

section \<open>The event-log interface\<close>

text \<open>
  What the flow generator and the responder rely on: an entry once appended stays, queries only
  grow, and the order of appends of one event kind is kept.
\<close>

locale event_log =
  fixes log_empty :: 'l
    and log_append :: "'l \<Rightarrow> 'e \<Rightarrow> 'l"
    and log_events :: "'l \<Rightarrow> 'e list"
  assumes events_empty: "log_events log_empty = []"
    and events_append: "log_events (log_append l e) = log_events l @ [e]"
begin

definition log_many :: "'l \<Rightarrow> 'e list \<Rightarrow> 'l" where
  "log_many l es = foldl log_append l es"

lemma events_log_many: "log_events (log_many l es) = log_events l @ es"
  by (induction es arbitrary: l) (simp_all add: log_many_def events_append)

lemma events_log_many_empty: "log_events (log_many log_empty es) = es"
  by (simp add: events_log_many events_empty)

lemma kept_by_append: "x \<in> set (log_events l) \<Longrightarrow> x \<in> set (log_events (log_append l e))"
  by (simp add: events_append)

lemma projection_append:
  "filter P (log_events (log_append l e)) =
     filter P (log_events l) @ (if P e then [e] else [])"
  by (simp add: events_append)

end

interpretation ledger: event_log "init_ledger None" append_entry entries
  by unfold_locales (simp_all add: init_ledger_def append_entry_def)

section \<open>Facts on the replay\<close>

lemma replay_ge_peak: "peak \<le> replay n peak evs"
proof (induction evs arbitrary: n peak)
  case (Cons x evs)
  then show ?case
    by (cases x) (auto intro: order_trans[OF _ Cons.IH])
qed simp

lemma replay_prefix_le: "n + sum_list (map snd evs) \<le> replay n peak (evs @ evs')
    \<or> evs = []"
proof (induction evs arbitrary: n peak)
  case (Cons x evs)
  obtain t d where x: "x = (t, d)" by (cases x)
  show ?case
  proof (cases "evs = []")
    case True
    with x show ?thesis
      using replay_ge_peak[of "max peak (n + d)" "n + d" evs'] by simp
  next
    case False
    with Cons.IH[of "n + d" "max peak (n + d)"] x show ?thesis by (simp add: add.assoc)
  qed
qed simp

lemma replay_attained:
  "replay n peak evs = peak \<or>
     (\<exists>k. 0 < k \<and> k \<le> length evs \<and> replay n peak evs = n + sum_list (map snd (take k evs)))"
proof (induction evs arbitrary: n peak)
  case (Cons x evs)
  obtain t d where x: "x = (t, d)" by (cases x)
  from Cons.IH[of "n + d" "max peak (n + d)"] show ?case
  proof
    assume "replay (n + d) (max peak (n + d)) evs = max peak (n + d)"
    with x show ?thesis
      by (cases "peak \<le> n + d") (auto intro!: exI[of _ 1] simp: max_def)
  next
    assume "\<exists>k. 0 < k \<and> k \<le> length evs \<and>
      replay (n + d) (max peak (n + d)) evs = n + d + sum_list (map snd (take k evs))"
    then obtain k where "0 < k" "k \<le> length evs"
      "replay (n + d) (max peak (n + d)) evs = n + d + sum_list (map snd (take k evs))" by blast
    with x show ?thesis by (intro disjI2 exI[of _ "Suc k"]) simp
  qed
qed simp

section \<open>Writing and reading back\<close>

lemma row_entry_entry_row: "row_entry (entry_row e) = Inr e"
  by (cases e; cases "event e")
    (simp_all add: row_entry_def entry_row_def item_def lookup_def event_of_def)

lemma read_lines_rows: "read_lines (map (\<lambda>e. Row (entry_row e)) es) = Inr es"
  by (induction es) (simp_all add: row_entry_entry_row)

lemma read_lines_bad: "BadLine \<in> set ls \<Longrightarrow> \<exists>e. read_lines ls = Inl e"
  by (induction ls rule: read_lines.induct) (auto simp: rbind_def split: sum.splits)

lemma read_written: "read_jsonl (Some (write_jsonl l)) = Inr l"
  by (simp add: read_jsonl_def write_jsonl_def read_lines_rows init_ledger_def)

end
