(* ===== verification/DR_Exposure.thy ===== *)
theory DR_Exposure
  imports DR_Ledger "HOL-Library.Multiset"
begin

text \<open>
  Correctness of the exposure gauge: how the replayed peak (\<open>peak_exposure\<close>) relates to the exact
  at-risk count at an instant (\<open>exposure\<close>), and how the per-message states agree with it.
\<close>

section \<open>The replayed events up to an instant\<close>

lemma sum_delta_events_until:
  "sum_list (map snd (filter (\<lambda>x. fst x \<le> t) (delta_events es))) =
     int (length (filter (\<lambda>e. event e = SENT \<and> ts e \<le> t) es))
     - int (length (filter (\<lambda>e. event e = CONFIRMED \<and> ts e \<le> t) es))"
  by (induction es) (auto simp: delta_events_def)

lemma mset_replay_order: "mset (replay_order evs) = mset evs"
  by (simp add: replay_order_def)

lemma sum_replay_until:
  "sum_list (map snd (filter (\<lambda>x. fst x \<le> t) (replay_order evs))) =
     sum_list (map snd (filter (\<lambda>x. fst x \<le> t) evs))"
proof -
  have "mset (map snd (filter (\<lambda>x. fst x \<le> t) (replay_order evs)))
      = mset (map snd (filter (\<lambda>x. fst x \<le> t) evs))"
    by (simp add: mset_replay_order)
  then show ?thesis by (metis sum_mset_sum_list)
qed

lemma filter_until_prefix:
  assumes "sorted (map (\<lambda>x. (fst x, - snd x)) evs)"
  shows "filter (\<lambda>x. fst x \<le> t) evs = takeWhile (\<lambda>x. fst x \<le> (t :: rat)) (evs :: (rat \<times> int) list)"
  using assms
proof (induction evs)
  case (Cons x evs)
  show ?case
  proof (cases "fst x \<le> t")
    case False
    from Cons.prems have "\<forall>y \<in> set evs. fst x \<le> fst y" by auto
    with False have "filter (\<lambda>x. fst x \<le> t) evs = []"
      by (auto simp: filter_empty_conv)
    with False show ?thesis by simp
  qed (use Cons in auto)
qed simp

lemma inflight_le_peak:
  "int (length (filter (\<lambda>e. event e = SENT \<and> ts e \<le> t) (entries app)))
     - int (length (filter (\<lambda>e. event e = CONFIRMED \<and> ts e \<le> t) (entries app)))
   \<le> peak_exposure app"
proof -
  let ?evs = "replay_order (delta_events (entries app))"
  let ?P = "\<lambda>x :: rat \<times> int. fst x \<le> t"
  have srt: "sorted (map (\<lambda>x. (fst x, - snd x)) ?evs)"
    by (simp add: replay_order_def)
  have "takeWhile ?P ?evs = [] \<or> sum_list (map snd (takeWhile ?P ?evs)) \<le> peak_exposure app"
    using replay_prefix_le[of 0 "takeWhile ?P ?evs" 0 "dropWhile ?P ?evs"]
    by (auto simp: peak_exposure_def)
  moreover have "0 \<le> peak_exposure app"
    by (simp add: peak_exposure_def replay_ge_peak)
  ultimately have "sum_list (map snd (takeWhile ?P ?evs)) \<le> peak_exposure app"
    by auto
  then show ?thesis
    by (simp add: sum_replay_until sum_delta_events_until flip: filter_until_prefix[OF srt])
qed

section \<open>Ledgers in which every confirmation is accounted for\<close>

text \<open>Each message is confirmed at most once.\<close>

definition confirms_once :: "Ledger \<Rightarrow> bool" where
  "confirms_once l = distinct (map seq (filter (\<lambda>e. event e = CONFIRMED) (entries l)))"

text \<open>No message is confirmed before it was recorded as sent.\<close>

definition confirms_follow_sends :: "Ledger \<Rightarrow> bool" where
  "confirms_follow_sends l =
     list_all (\<lambda>c. list_ex (\<lambda>s. event s = SENT \<and> seq s = seq c \<and> ts s \<le> ts c) (entries l))
       (filter (\<lambda>e. event e = CONFIRMED) (entries l))"

lemma card_confirmed_until:
  assumes "confirms_once l"
  shows "card (confirmed_seqs l (Some (Fin t))) =
    length (filter (\<lambda>e. event e = CONFIRMED \<and> ts e \<le> t) (entries l))"
proof -
  have "distinct (map seq (filter (\<lambda>e. event e = CONFIRMED) (entries l)))"
    using assms by (simp add: confirms_once_def)
  then have "distinct (map seq (filter (\<lambda>e. ts e \<le> t) (filter (\<lambda>e. event e = CONFIRMED) (entries l))))"
    by (rule distinct_map_filter)
  then have "distinct (map seq (filter (\<lambda>e. event e = CONFIRMED \<and> ts e \<le> t) (entries l)))"
    by (simp add: conj_commute)
  moreover have "confirmed_seqs l (Some (Fin t)) =
      set (map seq (filter (\<lambda>e. event e = CONFIRMED \<and> ts e \<le> t) (entries l)))"
    by (auto simp: confirmed_seqs_def)
  ultimately show ?thesis by (metis distinct_card length_map)
qed

lemma confirmed_until_sent:
  assumes "confirms_follow_sends l"
  shows "confirmed_seqs l (Some (Fin t))
     \<subseteq> seq ` set (filter (\<lambda>e. event e = SENT \<and> ts e \<le> t) (entries l))"
proof
  fix s assume "s \<in> confirmed_seqs l (Some (Fin t))"
  then obtain c where c: "c \<in> set (entries l)" "event c = CONFIRMED" "ts c \<le> t" "s = seq c"
    by (auto simp: confirmed_seqs_def)
  with assms obtain e where "e \<in> set (entries l)" "event e = SENT" "seq e = seq c" "ts e \<le> ts c"
    by (auto simp: confirms_follow_sends_def list_all_iff list_ex_iff)
  with c show "s \<in> seq ` set (filter (\<lambda>e. event e = SENT \<and> ts e \<le> t) (entries l))"
    by (auto intro: rev_image_eqI)
qed

lemma exposure_le_inflight:
  assumes "confirms_once l" and "confirms_follow_sends l"
  shows "int (exposure l (Some (Fin t)))
    \<le> int (length (filter (\<lambda>e. event e = SENT \<and> ts e \<le> t) (entries l)))
      - int (length (filter (\<lambda>e. event e = CONFIRMED \<and> ts e \<le> t) (entries l)))"
proof -
  let ?S = "filter (\<lambda>e. event e = SENT \<and> ts e \<le> t) (entries l)"
  let ?C = "confirmed_seqs l (Some (Fin t))"
  have sub: "?C \<subseteq> seq ` set ?S" by (rule confirmed_until_sent[OF assms(2)])
  have "exposure l (Some (Fin t)) = card (seq ` set ?S - ?C)"
    by (simp add: exposure_def unresolved_seqs_def)
  also have "\<dots> = card (seq ` set ?S) - card ?C"
    by (rule card_Diff_subset[OF finite_confirmed_seqs sub])
  finally have "exposure l (Some (Fin t)) = card (seq ` set ?S) - card ?C" .
  moreover have "card ?C \<le> card (seq ` set ?S)"
    by (rule card_mono[OF _ sub]) simp
  moreover have "card (seq ` set ?S) \<le> length ?S"
    using card_image_le[of "set ?S" seq] card_length[of ?S] by simp
  ultimately show ?thesis
    using card_confirmed_until[OF assms(1), of t] by linarith
qed

section \<open>States and exposure agree\<close>

lemma app_states_in_pipeline:
  "app_states l s = Some IN_PIPELINE \<longleftrightarrow> s \<in> unresolved_seqs l None"
  by (auto simp: app_states_def unresolved_seqs_None)

lemma exposure_partition:
  "card (sent_seqs l) = exposure l None + card (sent_seqs l \<inter> confirmed_seqs l None)"
proof -
  have "card (sent_seqs l) = card (sent_seqs l - confirmed_seqs l None)
      + card (sent_seqs l \<inter> confirmed_seqs l None)"
    by (metis add.commute card_Int_Diff finite_sent_seqs)
  then show ?thesis by (simp add: exposure_def unresolved_seqs_None)
qed

section \<open>Properties\<close>

text \<open>The replayed peak never under-reports: at every instant the exact number of messages sent
  and not yet confirmed is at most \<open>peak_exposure\<close>, for a ledger in which each message is confirmed
  at most once and not before it was recorded as sent. The peak is also attained: it is 0 or the
  in-flight count after some prefix of the replay.\<close>

theorem exposure_le_peak:
  assumes "confirms_once app" and "confirms_follow_sends app"
  shows "int (exposure app (Some (Fin t))) \<le> peak_exposure app
    \<and> (peak_exposure app = 0 \<or>
       (\<exists>k. peak_exposure app =
          sum_list (map snd (take k (replay_order (delta_events (entries app)))))))"
proof
  show "int (exposure app (Some (Fin t))) \<le> peak_exposure app"
    using exposure_le_inflight[OF assms, of t] inflight_le_peak[of t app] by linarith
  show "peak_exposure app = 0 \<or>
      (\<exists>k. peak_exposure app =
         sum_list (map snd (take k (replay_order (delta_events (entries app))))))"
    using replay_attained[of 0 0 "replay_order (delta_events (entries app))"]
    by (auto simp: peak_exposure_def)
qed

definition sample_app :: Ledger where
  "sample_app = \<lparr>entries =
     [\<lparr>event = SENT, seq = 1, uuid = ''a'', ts = 1\<rparr>, \<lparr>event = SENT, seq = 2, uuid = ''b'', ts = 2\<rparr>,
      \<lparr>event = CONFIRMED, seq = 1, uuid = ''a'', ts = 3\<rparr>]\<rparr>"

theorem exposure_le_peak_witness:
  "confirms_once sample_app \<and> confirms_follow_sends sample_app
    \<and> int (exposure sample_app (Some (Fin 2))) \<le> peak_exposure sample_app"
proof -
  have h: "confirms_once sample_app" "confirms_follow_sends sample_app"
    by (simp_all add: confirms_once_def confirms_follow_sends_def sample_app_def)
  from h exposure_le_peak[OF h, of 2] show ?thesis by simp
qed

text \<open>Without the first condition the gauge does under-report. A ledger whose only irregularity
  is a second CONFIRMED for one message (the trace a redelivered reply leaves) has a peak below the
  exact exposure at one of its instants, although every confirmation follows its send.\<close>

theorem peak_exposure_undercounts:
  "\<exists>app t. confirms_follow_sends app \<and> peak_exposure app < int (exposure app (Some (Fin t)))"
proof -
  define app :: Ledger where "app = \<lparr>entries =
     [\<lparr>event = SENT, seq = 1, uuid = ''a'', ts = 1\<rparr>,
      \<lparr>event = CONFIRMED, seq = 1, uuid = ''a'', ts = 2\<rparr>,
      \<lparr>event = CONFIRMED, seq = 1, uuid = ''a'', ts = 3\<rparr>,
      \<lparr>event = SENT, seq = 2, uuid = ''b'', ts = 4\<rparr>, \<lparr>event = SENT, seq = 3, uuid = ''c'', ts = 4\<rparr>]\<rparr>"
  have "peak_exposure app = 1"
    by (simp add: app_def peak_exposure_def delta_events_def replay_order_def less_eq_prod_def)
  moreover have "unresolved_seqs app (Some (Fin 4)) = {2, 3}"
    by (auto simp: app_def unresolved_seqs_def confirmed_seqs_def)
  then have "exposure app (Some (Fin 4)) = 2" by (simp add: exposure_def)
  moreover have "confirms_follow_sends app"
    by (simp add: app_def confirms_follow_sends_def)
  ultimately show ?thesis by (intro exI[of _ app] exI[of _ 4]) simp
qed

section \<open>The evidence floor\<close>

text \<open>\<open>mqrc/dr/floor.py\<close>: a run is evidence under load only when it sent enough messages, for long enough, fast enough.\<close>

record Floor =
  min_rate :: rat
  min_seconds :: rat
  min_total :: int

definition FLOOR :: Floor where
  "FLOOR = \<lparr>min_rate = 20, min_seconds = 300, min_total = 6000\<rparr>"

datatype floor_problem = TooFew int int | TooShort rat rat | TooSlow rat rat

record FloorResult =
  fr_ok :: bool
  fr_rate :: rat
  fr_seconds :: rat
  fr_total :: int
  fr_reason :: "floor_problem list"

definition meets_floor :: "Ledger \<Rightarrow> Floor \<Rightarrow> FloorResult" where
  "meets_floor app bar =
     (let sent = sort (map ts (filter (\<lambda>e. event e = SENT) (entries app)));
          n = length sent;
          seconds = (if 2 \<le> n then fl (last sent - hd sent) else 0);
          rate = (if 0 < seconds then fl (of_nat n / seconds) else 0);
          problems = (if int n < min_total bar then [TooFew (int n) (min_total bar)] else [])
            @ (if seconds < min_seconds bar then [TooShort seconds (min_seconds bar)] else [])
            @ (if rate < min_rate bar then [TooSlow rate (min_rate bar)] else [])
      in \<lparr>fr_ok = (problems = []), fr_rate = rate, fr_seconds = seconds, fr_total = int n, fr_reason = problems\<rparr>)"

lemma sorted_ends:
  assumes "xs \<noteq> ([] :: rat list)"
  shows "hd (sort xs) = Min (set xs)" and "last (sort xs) = Max (set xs)"
proof -
  have ne: "sort xs \<noteq> []" using assms by (metis set_empty set_sort)
  have "hd (sort xs) \<le> x" if "x \<in> set xs" for x
  proof -
    from that obtain i where "i < length (sort xs)" "x = sort xs ! i" by (metis in_set_conv_nth set_sort)
    then show ?thesis using ne sorted_nth_mono[OF sorted_sort, of 0 i xs] by (simp add: hd_conv_nth)
  qed
  then show "hd (sort xs) = Min (set xs)"
    using ne hd_in_set[OF ne] by (intro Min_eqI[symmetric]) auto
  have "x \<le> last (sort xs)" if "x \<in> set xs" for x
  proof -
    from that obtain i where i: "i < length (sort xs)" "x = sort xs ! i" by (metis in_set_conv_nth set_sort)
    then show ?thesis using ne sorted_nth_mono[OF sorted_sort, of i "length (sort xs) - 1" xs] by (simp add: last_conv_nth)
  qed
  then show "last (sort xs) = Max (set xs)"
    using ne last_in_set[OF ne] by (intro Max_eqI[symmetric]) auto
qed

text \<open>The floor of the lab is cleared exactly by six thousand messages or more whose first and last send lie at least
  five minutes apart, at twenty a second or more.\<close>

lemma floor_cleared_iff:
  fixes app defines "instants \<equiv> map ts (filter (\<lambda>e. event e = SENT) (entries app))"
  shows "fr_ok (meets_floor app FLOOR) \<longleftrightarrow> 6000 \<le> length instants \<and> 300 \<le> fl (Max (set instants) - Min (set instants))
    \<and> 20 \<le> fl (of_nat (length instants) / fl (Max (set instants) - Min (set instants)))"
proof (cases "6000 \<le> length instants")
  case True
  then have "instants \<noteq> []" by auto
  from sorted_ends[OF this] True show ?thesis
    by (auto simp: meets_floor_def FLOOR_def instants_def[symmetric] Let_def)
next
  case False
  then show ?thesis by (simp add: meets_floor_def FLOOR_def instants_def[symmetric] Let_def)
qed

end
