(* ===== verification/DR_Analysis.thy ===== *)
theory DR_Analysis
  imports DR_Exposure
begin

text \<open>
  The analyzer of the disaster-recovery framework: \<open>mqrc/dr/reconcile.py\<close> (one fact record per
  sent message), \<open>mqrc/dr/classifier.py\<close> (the six buckets), \<open>mqrc/dr/report.py\<close> (census, loss
  window, self-correctness, scenario report), \<open>mqrc/dr/catalog.py\<close> (the scenario catalog), and the
  two programs built on them, \<open>mqrc/dr_baseline.py\<close> and \<open>mqrc/dr_forced.py\<close>, from the ledgers
  they load to the report they build.
\<close>

section \<open>Facts and buckets\<close>

datatype Bucket =
    B_CONFIRMED | B_CONTINUED | B_STRANDED | B_LOST_UNPROCESSED | B_AMBIGUOUS | B_DUPLICATED

definition Buckets :: "Bucket list" where
  "Buckets = [B_CONFIRMED, B_CONTINUED, B_STRANDED, B_LOST_UNPROCESSED, B_AMBIGUOUS, B_DUPLICATED]"

fun bucket_value :: "Bucket \<Rightarrow> string" where
  "bucket_value B_CONFIRMED = ''confirmed''"
| "bucket_value B_CONTINUED = ''continued''"
| "bucket_value B_STRANDED = ''stranded''"
| "bucket_value B_LOST_UNPROCESSED = ''lost_unprocessed''"
| "bucket_value B_AMBIGUOUS = ''ambiguous''"
| "bucket_value B_DUPLICATED = ''duplicated''"

record MessageFacts =
  f_seq :: int
  f_uuid :: string
  f_app_confirmed :: bool
  f_svc_received :: nat
  f_svc_replied :: bool
  f_on_secondary :: bool
  f_on_primary_disk :: bool

definition classify :: "MessageFacts \<Rightarrow> Bucket" where
  "classify f =
     (if f_svc_received f \<ge> 2 then B_DUPLICATED
      else if f_app_confirmed f then B_CONFIRMED
      else if f_on_secondary f then B_CONTINUED
      else if f_svc_received f = 1 then B_AMBIGUOUS
      else if f_on_primary_disk f then B_STRANDED
      else B_LOST_UNPROCESSED)"

definition classify_all :: "MessageFacts list \<Rightarrow> (MessageFacts \<times> Bucket) list" where
  "classify_all facts = map (\<lambda>f. (f, classify f)) facts"

definition reconcile ::
  "Ledger \<Rightarrow> Ledger \<Rightarrow> int set \<Rightarrow> int set \<Rightarrow> pyfloat \<Rightarrow> MessageFacts list" where
  "reconcile app svc secondary_present primary_disk_present cutover_ts =
     (let uuids = uuid_of app;
          confirmed_pre = confirmed_seqs app (Some cutover_ts);
          svc_counts = svc_receive_counts svc;
          svc_repl = svc_replied svc
      in map (\<lambda>s. \<lparr>f_seq = s,
                  f_uuid = (case uuids s of None \<Rightarrow> [] | Some u \<Rightarrow> u),
                  f_app_confirmed = s \<in> confirmed_pre,
                  f_svc_received = (case svc_counts s of None \<Rightarrow> 0 | Some n \<Rightarrow> n),
                  f_svc_replied = s \<in> svc_repl,
                  f_on_secondary = s \<in> secondary_present,
                  f_on_primary_disk = s \<in> primary_disk_present\<rparr>)
           (sorted_list_of_set (sent_seqs app)))"

section \<open>The report\<close>

definition SAFE_BUCKETS :: "Bucket list" where
  "SAFE_BUCKETS = [B_CONFIRMED, B_CONTINUED]"

definition tally :: "('f \<Rightarrow> 'b) \<Rightarrow> 'f list \<Rightarrow> 'b \<Rightarrow> nat" where
  "tally bucket fs = fold (\<lambda>f c. c(bucket f := c (bucket f) + 1)) fs (\<lambda>_. 0)"

definition census :: "MessageFacts list \<Rightarrow> (Bucket \<times> nat) list" where
  "census facts = (let counts = tally classify facts in map (\<lambda>b. (b, counts b)) Buckets)"

definition loss_window :: "MessageFacts list \<Rightarrow> (int \<times> int \<times> nat) option" where
  "loss_window facts =
     (let at_risk = map f_seq (filter (\<lambda>f. classify f \<notin> set SAFE_BUCKETS) facts) in
      if at_risk = [] then None
      else Some (Min (set at_risk), Max (set at_risk), length at_risk))"

definition self_correctness_violations :: "MessageFacts list \<Rightarrow> MessageFacts list" where
  "self_correctness_violations facts = filter (\<lambda>f. classify f \<noteq> B_CONFIRMED) facts"

datatype dr_error =
    SelfCorrectnessError "int list"
  | CrossArmError string string
  | LedgerError py_error

definition assert_self_correct :: "MessageFacts list \<Rightarrow> (dr_error, unit) result" where
  "assert_self_correct facts =
     (let bad = self_correctness_violations facts in
      if bad \<noteq> [] then Inl (SelfCorrectnessError (map f_seq bad)) else Inr ())"

record ScenarioReport =
  scenario_id :: string
  arm :: string
  r_census :: "(Bucket \<times> nat) list"
  window :: "(int \<times> int \<times> nat) option"
  r_peak_exposure :: int
  exposure_at_fault :: "int option"
  rto_seconds :: "rat option"
  intervention_required :: bool
  integrity_anomaly :: bool
  diagnostics_captured :: bool

definition rpo_zero :: "ScenarioReport \<Rightarrow> bool" where
  "rpo_zero r \<longleftrightarrow> window r = None"

definition to_dict :: "ScenarioReport \<Rightarrow> pyval" where
  "to_dict r = PDict
     [(PStr ''scenario_id'', PStr (scenario_id r)),
      (PStr ''arm'', PStr (arm r)),
      (PStr ''census'', PDict (map (\<lambda>(b, n). (PStr (bucket_value b), PInt (int n))) (r_census r))),
      (PStr ''window'', case window r of None \<Rightarrow> PNone
         | Some (lo, hi, n) \<Rightarrow> PList [PInt lo, PInt hi, PInt (int n)]),
      (PStr ''peak_exposure'', PInt (r_peak_exposure r)),
      (PStr ''exposure_at_fault'', case exposure_at_fault r of None \<Rightarrow> PNone | Some n \<Rightarrow> PInt n),
      (PStr ''rto_seconds'', case rto_seconds r of None \<Rightarrow> PNone | Some q \<Rightarrow> PFloat q),
      (PStr ''intervention_required'', PBool (intervention_required r)),
      (PStr ''integrity_anomaly'', PBool (integrity_anomaly r)),
      (PStr ''diagnostics_captured'', PBool (diagnostics_captured r)),
      (PStr ''rpo_zero'', PBool (rpo_zero r))]"

definition build_report ::
  "string \<Rightarrow> string \<Rightarrow> MessageFacts list \<Rightarrow> int \<Rightarrow> int option \<Rightarrow> rat option \<Rightarrow> bool \<Rightarrow> bool \<Rightarrow> bool
   \<Rightarrow> ScenarioReport" where
  "build_report sid a facts peak at_fault rto interv anomaly diag =
     \<lparr>scenario_id = sid, arm = a, r_census = census facts, window = loss_window facts,
      r_peak_exposure = peak, exposure_at_fault = at_fault, rto_seconds = rto,
      intervention_required = interv, integrity_anomaly = anomaly, diagnostics_captured = diag\<rparr>"

definition cross_arm :: "ScenarioReport \<Rightarrow> ScenarioReport \<Rightarrow> (dr_error, pyval) result" where
  "cross_arm c d =
     (if scenario_id c \<noteq> scenario_id d then Inl (CrossArmError (scenario_id c) (scenario_id d))
      else Inr (PDict [(PStr ''scenario_id'', PStr (scenario_id c)), (PStr ''C'', to_dict c),
                       (PStr ''D'', to_dict d)]))"

section \<open>The programs\<close>

text \<open>Both programs report \<open>exposure(app)\<close>, the exposure at the end of the run, in the report's
  \<open>peak_exposure\<close> field.\<close>

definition lift_ledger :: "(py_error, 'a) result \<Rightarrow> (dr_error, 'a) result" where
  "lift_ledger r = (case r of Inl e \<Rightarrow> Inl (LedgerError e) | Inr x \<Rightarrow> Inr x)"

definition baseline_facts :: "Ledger \<Rightarrow> Ledger \<Rightarrow> MessageFacts list" where
  "baseline_facts app svc = reconcile app svc (sent_seqs app) {} PosInf"

definition baseline_main ::
  "jline list option \<Rightarrow> jline list option \<Rightarrow> (dr_error, ScenarioReport) result" where
  "baseline_main app_ledger svc_ledger =
     rbind (lift_ledger (read_jsonl app_ledger)) (\<lambda>app.
     rbind (lift_ledger (read_jsonl svc_ledger)) (\<lambda>svc.
     (let facts = baseline_facts app svc in
      rbind (assert_self_correct facts) (\<lambda>_.
        Inr (build_report ''BASELINE'' ''msgpath'' facts (int (exposure app None))
               None None False False False)))))"

text \<open>\<open>_sent_ts\<close>: unlike \<open>read_jsonl\<close> it fails on a missing file and on a blank line. The last SENT
  row of a sequence number wins.\<close>

fun sent_ts_lines :: "jline list \<Rightarrow> (int \<times> rat) list \<Rightarrow> (py_error, (int \<times> rat) list) result" where
  "sent_ts_lines [] m = Inr m"
| "sent_ts_lines (Blank # ls) m = Inl (ValueErr ''json'')"
| "sent_ts_lines (BadLine # ls) m = Inl (ValueErr ''json'')"
| "sent_ts_lines (Row v # ls) m =
     (if \<not> is_dict v then Inl (TypeErr ''get'')
      else if get_or_none v ''event'' = PStr ''sent'' then
        rbind (item v ''seq'') (\<lambda>s. rbind (item v ''ts'') (\<lambda>t.
          case (s, t) of
            (PInt i, PFloat q) \<Rightarrow> sent_ts_lines ls (AList.update i q m)
          | (PInt i, PInt q) \<Rightarrow> sent_ts_lines ls (AList.update i (of_int q) m)
          | _ \<Rightarrow> Inl (Unmodelled ''sent_ts'')))
      else sent_ts_lines ls m)"

definition sent_ts :: "jline list option \<Rightarrow> (py_error, (int \<times> rat) list) result" where
  "sent_ts f =
     (case f of None \<Rightarrow> Inl (FileNotFound ''ledger'') | Some ls \<Rightarrow> sent_ts_lines ls [])"

definition lost_seqs :: "(int \<times> rat) list \<Rightarrow> pyfloat \<Rightarrow> pyfloat \<Rightarrow> int set" where
  "lost_seqs st break_ts kill_ts =
     fst ` set (filter (\<lambda>(s, t). break_ts \<le> Fin t \<and> Fin t \<le> kill_ts) st)"

definition forced_facts ::
  "Ledger \<Rightarrow> Ledger \<Rightarrow> (int \<times> rat) list \<Rightarrow> pyfloat \<Rightarrow> pyfloat \<Rightarrow> MessageFacts list" where
  "forced_facts app svc st break_ts kill_ts =
     reconcile app svc (sent_seqs app - lost_seqs st break_ts kill_ts) {} break_ts"

definition forced_main ::
  "jline list option \<Rightarrow> jline list option \<Rightarrow> pyfloat \<Rightarrow> pyfloat \<Rightarrow> (dr_error, ScenarioReport) result" where
  "forced_main app_path svc_path break_ts kill_ts =
     rbind (lift_ledger (read_jsonl app_path)) (\<lambda>app.
     rbind (lift_ledger (read_jsonl svc_path)) (\<lambda>svc.
     rbind (lift_ledger (sent_ts app_path)) (\<lambda>st.
       Inr (build_report ''DR-FORCE-1'' ''pcmk-dr'' (forced_facts app svc st break_ts kill_ts)
              (int (exposure app None)) None None False False False))))"

section \<open>The scenario catalog\<close>

datatype Kind = HA | DR_CONTROLLED | DR_FORCED | FAILBACK

record Scenario =
  sc_id :: string
  sc_kind :: Kind
  sc_fault :: string
  expect_rpo_zero :: bool
  expect_buckets :: "Bucket list"

definition scenario :: "string \<Rightarrow> Kind \<Rightarrow> string \<Rightarrow> bool \<Rightarrow> Bucket list \<Rightarrow> Scenario" where
  "scenario i k f z bs =
     \<lparr>sc_id = i, sc_kind = k, sc_fault = f, expect_rpo_zero = z, expect_buckets = bs\<rparr>"

definition CATALOG :: "Scenario list" where
  "CATALOG =
    [scenario ''HA-1'' HA ''kill -9 the QM process under load'' True [B_CONTINUED],
     scenario ''HA-2'' HA ''power-off the active node under load'' True [B_CONTINUED],
     scenario ''HA-3'' HA ''sever heartbeat/replication net under load'' True [B_CONTINUED],
     scenario ''HA-4'' HA ''sever shared storage under load'' True [B_CONTINUED],
     scenario ''HA-5'' HA ''rolling patch one node at a time under load'' True [B_CONTINUED],
     scenario ''DR-CTRL'' DR_CONTROLLED
       ''quiesce -> drain -> confirm replication caught up -> cutover'' True SAFE_BUCKETS,
     scenario ''DR-FORCE-1'' DR_FORCED ''primary unrecoverable, flow continues through cutover''
       False [B_STRANDED, B_AMBIGUOUS],
     scenario ''DR-FORCE-2'' DR_FORCED
       ''primary isolated from both SVC and secondary, app keeps producing'' False [B_STRANDED],
     scenario ''DR-FORCE-3'' DR_FORCED ''replication lagged/broken then failover (chained)''
       False [B_STRANDED],
     scenario ''FB-REPLAY'' FAILBACK
       ''recovered primary's QM brought online against stale storage before resync/discard''
       False [B_DUPLICATED]]"

section \<open>Counting by bucket\<close>

text \<open>
  What the report needs of a bucketing: every fact falls in exactly one of the listed buckets. The
  census totals and the loss-window count follow for any such classifier.
\<close>

lemma tally_fold:
  "fold (\<lambda>f c. c(bucket f := c (bucket f) + 1)) fs c b = c b + length (filter (\<lambda>f. bucket f = b) fs)"
  by (induction fs arbitrary: c) auto

lemma tally_eq: "tally bucket fs b = length (filter (\<lambda>f. bucket f = b) fs)"
  by (simp add: tally_def tally_fold del: Suc_eq_plus1 One_nat_def)

locale bucketing =
  fixes bucket :: "'f \<Rightarrow> 'b"
    and buckets :: "'b list"
    and safe :: "'b list"
  assumes buckets_distinct: "distinct buckets"
    and buckets_cover: "bucket f \<in> set buckets"
    and safe_subset: "set safe \<subseteq> set buckets"
begin

lemma sum_tally_over:
  assumes "distinct bs"
  shows "(\<Sum>b \<leftarrow> bs. tally bucket fs b) = length (filter (\<lambda>f. bucket f \<in> set bs) fs)"
  using assms
proof (induction fs)
  case Nil
  then show ?case by (simp add: tally_eq)
next
  case (Cons f fs)
  have "(\<Sum>b \<leftarrow> bs. tally bucket (f # fs) b)
      = (\<Sum>b \<leftarrow> bs. (if b = bucket f then 1 else 0) + tally bucket fs b)"
    by (intro arg_cong[where f = sum_list] map_cong) (auto simp: tally_eq)
  also have "\<dots> = (\<Sum>b \<leftarrow> bs. if b = bucket f then 1 else 0) + (\<Sum>b \<leftarrow> bs. tally bucket fs b)"
    by (simp add: sum_list_addf)
  also have "(\<Sum>b \<leftarrow> bs. if b = bucket f then 1 else (0 :: nat)) = (if bucket f \<in> set bs then 1 else 0)"
    using \<open>distinct bs\<close> by (induction bs) auto
  finally show ?case using Cons by simp
qed

lemma sum_tally_total: "(\<Sum>b \<leftarrow> buckets. tally bucket fs b) = length fs"
  by (simp add: sum_tally_over buckets_distinct buckets_cover)

lemma sum_tally_at_risk:
  "(\<Sum>b \<leftarrow> filter (\<lambda>b. b \<notin> set safe) buckets. tally bucket fs b)
     = length (filter (\<lambda>f. bucket f \<notin> set safe) fs)"
proof -
  have "(\<Sum>b \<leftarrow> filter (\<lambda>b. b \<notin> set safe) buckets. tally bucket fs b)
      = length (filter (\<lambda>f. bucket f \<in> set (filter (\<lambda>b. b \<notin> set safe) buckets)) fs)"
    by (rule sum_tally_over) (simp add: buckets_distinct)
  then show ?thesis using buckets_cover by simp
qed

lemma no_risk_iff:
  "(\<forall>f \<in> set fs. bucket f \<in> set safe) \<longleftrightarrow> (\<forall>b \<in> set buckets - set safe. tally bucket fs b = 0)"
  using buckets_cover by (auto simp: tally_eq filter_empty_conv)

end

interpretation six: bucketing classify Buckets SAFE_BUCKETS
  by unfold_locales (auto simp: Buckets_def SAFE_BUCKETS_def classify_def)

lemma census_eq: "census facts = map (\<lambda>b. (b, tally classify facts b)) Buckets"
  by (simp add: census_def)

lemma loss_window_None_iff:
  "loss_window facts = None \<longleftrightarrow> (\<forall>f \<in> set facts. classify f \<in> set SAFE_BUCKETS)"
  by (auto simp: loss_window_def Let_def filter_empty_conv)

lemma assert_self_correct_ok_iff:
  "assert_self_correct facts = Inr () \<longleftrightarrow> (\<forall>f \<in> set facts. classify f = B_CONFIRMED)"
  by (auto simp: assert_self_correct_def self_correctness_violations_def Let_def filter_empty_conv)

section \<open>Reconciled facts\<close>

lemma reconcile_seqs [simp]:
  "map f_seq (reconcile app svc sp pp cutover) = sorted_list_of_set (sent_seqs app)"
  by (simp add: reconcile_def Let_def o_def)

lemma length_reconcile: "length (reconcile app svc sp pp cutover) = card (sent_seqs app)"
  by (metis length_map reconcile_seqs length_sorted_list_of_set)

lemma reconcile_fact:
  assumes "f \<in> set (reconcile app svc sp pp cutover)"
  shows "f_seq f \<in> sent_seqs app"
    and "f_app_confirmed f \<longleftrightarrow> f_seq f \<in> confirmed_seqs app (Some cutover)"
    and "f_svc_received f = receive_count (entries svc) (f_seq f)"
    and "f_svc_replied f \<longleftrightarrow> f_seq f \<in> svc_replied svc"
    and "f_on_secondary f \<longleftrightarrow> f_seq f \<in> sp"
    and "f_on_primary_disk f \<longleftrightarrow> f_seq f \<in> pp"
    and "uuid_of app (f_seq f) = Some (f_uuid f)"
proof -
  have dom: "s \<in> sent_seqs app \<Longrightarrow> \<exists>u. uuid_of app s = Some u" for s
    using dom_uuid_of[of app] by (auto simp: sent_seqs_def dom_def set_eq_iff)
  from assms show "f_seq f \<in> sent_seqs app"
    and "f_app_confirmed f \<longleftrightarrow> f_seq f \<in> confirmed_seqs app (Some cutover)"
    and "f_svc_received f = receive_count (entries svc) (f_seq f)"
    and "f_svc_replied f \<longleftrightarrow> f_seq f \<in> svc_replied svc"
    and "f_on_secondary f \<longleftrightarrow> f_seq f \<in> sp"
    and "f_on_primary_disk f \<longleftrightarrow> f_seq f \<in> pp"
    and "uuid_of app (f_seq f) = Some (f_uuid f)"
    by (auto simp: reconcile_def Let_def svc_receive_counts_eq dest: dom)
qed

lemma reconcile_fact_exists:
  assumes "s \<in> sent_seqs app"
  obtains f where "f \<in> set (reconcile app svc sp pp cutover)" "f_seq f = s"
proof -
  from assms have "s \<in> set (map f_seq (reconcile app svc sp pp cutover))" by simp
  then show thesis using that unfolding set_map by blast
qed

lemma baseline_classify:
  assumes "f \<in> set (baseline_facts app svc)"
  shows "classify f = B_CONFIRMED \<longleftrightarrow>
    receive_count (entries svc) (f_seq f) \<le> 1 \<and> f_seq f \<in> confirmed_seqs app None"
proof -
  note facts = reconcile_fact[OF assms[unfolded baseline_facts_def]]
  from facts(1) show ?thesis
    by (auto simp: classify_def facts(2,3,5) confirmed_seqs_unbounded)
qed

lemma baseline_accepts_iff:
  "assert_self_correct (baseline_facts app svc) = Inr () \<longleftrightarrow>
     sent_seqs app \<subseteq> confirmed_seqs app None
     \<and> (\<forall>s \<in> sent_seqs app. receive_count (entries svc) s \<le> 1)"
proof -
  have "assert_self_correct (baseline_facts app svc) = Inr () \<longleftrightarrow>
      (\<forall>f \<in> set (baseline_facts app svc).
         receive_count (entries svc) (f_seq f) \<le> 1 \<and> f_seq f \<in> confirmed_seqs app None)"
    by (simp add: assert_self_correct_ok_iff baseline_classify)
  also have "\<dots> \<longleftrightarrow> (\<forall>s \<in> f_seq ` set (baseline_facts app svc).
      receive_count (entries svc) s \<le> 1 \<and> s \<in> confirmed_seqs app None)"
    by blast
  also have "f_seq ` set (baseline_facts app svc) = sent_seqs app"
    by (metis baseline_facts_def finite_sent_seqs list.set_map reconcile_seqs set_sorted_list_of_set)
  finally show ?thesis by blast
qed

section \<open>Properties\<close>


text \<open>The census is a partition of the sent messages: it lists the six buckets in order, its
  counts add up to the number of distinct sequence numbers sent, and the at-risk buckets add up to
  the number of at-risk messages the loss window counts.\<close>

theorem census_partition:
  "map fst (census (reconcile app svc sp pp cutover)) = Buckets
   \<and> (\<Sum>x \<leftarrow> census (reconcile app svc sp pp cutover). snd x) = card (sent_seqs app)
   \<and> (\<Sum>x \<leftarrow> filter (\<lambda>x. fst x \<notin> set SAFE_BUCKETS) (census (reconcile app svc sp pp cutover)). snd x)
      = (case loss_window (reconcile app svc sp pp cutover) of None \<Rightarrow> 0 | Some (lo, hi, n) \<Rightarrow> n)"
proof (intro conjI)
  let ?fs = "reconcile app svc sp pp cutover"
  show "map fst (census ?fs) = Buckets" by (simp add: census_eq o_def)
  show "(\<Sum>x \<leftarrow> census ?fs. snd x) = card (sent_seqs app)"
    using six.sum_tally_total[of ?fs] by (simp add: census_eq o_def length_reconcile)
  have "(\<Sum>x \<leftarrow> filter (\<lambda>x. fst x \<notin> set SAFE_BUCKETS) (census ?fs). snd x)
      = length (filter (\<lambda>f. classify f \<notin> set SAFE_BUCKETS) ?fs)"
    using six.sum_tally_at_risk[of ?fs] by (simp add: census_eq filter_map o_def)
  also have "\<dots> = (case loss_window ?fs of None \<Rightarrow> 0 | Some (lo, hi, n) \<Rightarrow> n)"
    by (simp add: loss_window_def Let_def)
  finally show "(\<Sum>x \<leftarrow> filter (\<lambda>x. fst x \<notin> set SAFE_BUCKETS) (census ?fs). snd x)
      = (case loss_window ?fs of None \<Rightarrow> 0 | Some (lo, hi, n) \<Rightarrow> n)" .
qed

text \<open>C6: the reported loss window is exact: it is absent (RPO 0) when and only when every message is
  confirmed or continued, that is when the four at-risk counts of the census are 0; when present its
  bounds are sequence numbers of at-risk messages and enclose all of them.\<close>

theorem loss_window_exact:
  "(loss_window facts = None) = list_all (\<lambda>b. tally classify facts b = 0)
        [B_STRANDED, B_LOST_UNPROCESSED, B_AMBIGUOUS, B_DUPLICATED]
   \<and> (loss_window facts = Some (lo, hi, n) \<longrightarrow>
        (let risk = map f_seq (filter (\<lambda>f. classify f \<notin> set SAFE_BUCKETS) facts) in
         lo \<in> set risk \<and> hi \<in> set risk \<and> n = length risk \<and> set risk \<subseteq> {lo..hi}))"
proof (intro conjI impI)
  have "set Buckets - set SAFE_BUCKETS = {B_STRANDED, B_LOST_UNPROCESSED, B_AMBIGUOUS, B_DUPLICATED}"
    by (auto simp: Buckets_def SAFE_BUCKETS_def)
  then show "(loss_window facts = None) = list_all (\<lambda>b. tally classify facts b = 0)
      [B_STRANDED, B_LOST_UNPROCESSED, B_AMBIGUOUS, B_DUPLICATED]"
    by (simp add: loss_window_None_iff six.no_risk_iff)
next
  assume w: "loss_window facts = Some (lo, hi, n)"
  let ?risk = "map f_seq (filter (\<lambda>f. classify f \<notin> set SAFE_BUCKETS) facts)"
  from w have ne: "?risk \<noteq> []" and v: "lo = Min (set ?risk)" "hi = Max (set ?risk)" "n = length ?risk"
    by (auto simp: loss_window_def Let_def split: if_splits)
  from list_Min_Max[OF ne] have "lo \<in> set ?risk" "hi \<in> set ?risk" "set ?risk \<subseteq> {lo..hi}"
    unfolding v by blast+
  with v show "let risk = ?risk in
      lo \<in> set risk \<and> hi \<in> set risk \<and> n = length risk \<and> set risk \<subseteq> {lo..hi}"
    unfolding Let_def by blast
qed

definition sample_fact :: "int \<Rightarrow> bool \<Rightarrow> nat \<Rightarrow> MessageFacts" where
  "sample_fact s c n = \<lparr>f_seq = s, f_uuid = ''u'', f_app_confirmed = c, f_svc_received = n,
     f_svc_replied = c, f_on_secondary = False, f_on_primary_disk = False\<rparr>"

theorem loss_window_exact_witness:
  "loss_window [sample_fact 3 False 0, sample_fact 4 True 1, sample_fact 7 False 1] = Some (3, 7, 2)
   \<and> (3 :: int) \<in> set (map f_seq (filter (\<lambda>f. classify f \<notin> set SAFE_BUCKETS)
        [sample_fact 3 False 0, sample_fact 4 True 1, sample_fact 7 False 1]))"
proof -
  have w: "loss_window [sample_fact 3 False 0, sample_fact 4 True 1, sample_fact 7 False 1]
      = Some (3, 7, 2)"
    by (simp add: loss_window_def sample_fact_def classify_def SAFE_BUCKETS_def)
  from loss_window_exact[of "[sample_fact 3 False 0, sample_fact 4 True 1, sample_fact 7 False 1]" 3 7 2] w
  show ?thesis unfolding Let_def by blast
qed

text \<open>The no-fault baseline accepts a pair of ledgers exactly when every sent message is confirmed
  and the Watcher received none of them twice; otherwise it fails with the offending sequence
  numbers. A message the Watcher never received is accepted as long as the app confirmed it.\<close>

theorem baseline_verdict:
  "(assert_self_correct (baseline_facts app svc) = Inr ()) =
     (sent_seqs app \<subseteq> confirmed_seqs app None
      \<and> {s \<in> sent_seqs app. receive_count (entries svc) s \<ge> 2} = {})
   \<and> (assert_self_correct (baseline_facts app svc) = Inl e \<longrightarrow>
        (\<exists>bad. e = SelfCorrectnessError bad \<and> set bad =
           {s \<in> sent_seqs app. s \<notin> confirmed_seqs app None \<or> receive_count (entries svc) s \<ge> 2}))"
proof (intro conjI impI)
  show "(assert_self_correct (baseline_facts app svc) = Inr ()) =
     (sent_seqs app \<subseteq> confirmed_seqs app None
      \<and> {s \<in> sent_seqs app. receive_count (entries svc) s \<ge> 2} = {})"
    by (auto simp: baseline_accepts_iff)
next
  assume e: "assert_self_correct (baseline_facts app svc) = Inl e"
  let ?bad = "map f_seq (self_correctness_violations (baseline_facts app svc))"
  have "e = SelfCorrectnessError ?bad"
    using e by (auto simp: assert_self_correct_def Let_def split: if_splits)
  moreover have "set ?bad =
      {s \<in> sent_seqs app. s \<notin> confirmed_seqs app None \<or> receive_count (entries svc) s \<ge> 2}"
  proof
    show "set ?bad \<subseteq>
        {s \<in> sent_seqs app. s \<notin> confirmed_seqs app None \<or> receive_count (entries svc) s \<ge> 2}"
      using reconcile_fact(1)[of _ app svc "sent_seqs app" "{}" PosInf]
      by (auto simp: self_correctness_violations_def baseline_classify simp flip: baseline_facts_def)
    show "{s \<in> sent_seqs app. s \<notin> confirmed_seqs app None \<or> receive_count (entries svc) s \<ge> 2}
        \<subseteq> set ?bad"
    proof
      fix s
      assume s: "s \<in> {s \<in> sent_seqs app.
        s \<notin> confirmed_seqs app None \<or> receive_count (entries svc) s \<ge> 2}"
      then obtain f where "f \<in> set (baseline_facts app svc)" "f_seq f = s"
        using reconcile_fact_exists[of s app svc "sent_seqs app" "{}" PosInf]
        by (auto simp: baseline_facts_def)
      with s show "s \<in> set ?bad"
        by (auto simp: self_correctness_violations_def baseline_classify)
    qed
  qed
  ultimately show "\<exists>bad. e = SelfCorrectnessError bad \<and> set bad =
      {s \<in> sent_seqs app. s \<notin> confirmed_seqs app None \<or> receive_count (entries svc) s \<ge> 2}"
    by blast
qed

theorem baseline_verdict_witness:
  "assert_self_correct (baseline_facts sample_app (init_ledger None)) = Inl (SelfCorrectnessError [2])
   \<and> set [2] = {s \<in> sent_seqs sample_app. s \<notin> confirmed_seqs sample_app None
        \<or> receive_count (entries (init_ledger None)) s \<ge> 2}"
proof -
  have "sent_seqs sample_app = {1, 2}" "confirmed_seqs sample_app (Some PosInf) = {1}"
    by (auto simp: sent_seqs_def confirmed_seqs_def sample_app_def)
  then have e: "assert_self_correct (baseline_facts sample_app (init_ledger None))
      = Inl (SelfCorrectnessError [2])"
    by (simp add: assert_self_correct_def self_correctness_violations_def baseline_facts_def
        reconcile_def svc_receive_counts_eq init_ledger_def classify_def Let_def)
  from baseline_verdict[of sample_app "init_ledger None" "SelfCorrectnessError [2]"] e
  show ?thesis by auto
qed

text \<open>The forced-DR attribution: no message is reported stranded (the whole site is lost), and a
  message outside the loss interval is never reported lost or ambiguous. A message sent inside the
  interval and confirmed, if at all, only after the break is always counted at risk, so the report
  then has a loss window (RPO above 0).\<close>

theorem forced_attribution:
  assumes "facts = forced_facts app svc st break_ts kill_ts"
  shows "tally classify facts B_STRANDED = 0
    \<and> list_all (\<lambda>f. classify f \<in> {B_LOST_UNPROCESSED, B_AMBIGUOUS} \<longrightarrow>
         f_seq f \<in> lost_seqs st break_ts kill_ts) facts
    \<and> (s \<in> sent_seqs app \<inter> lost_seqs st break_ts kill_ts - confirmed_seqs app (Some break_ts) \<longrightarrow>
        loss_window facts \<noteq> None)"
proof -
  note fact = reconcile_fact[of _ app svc "sent_seqs app - lost_seqs st break_ts kill_ts" "{}" break_ts,
      folded forced_facts_def, folded assms]
  show ?thesis
  proof (intro conjI impI)
    show "tally classify facts B_STRANDED = 0"
      using fact(6) by (auto simp: tally_eq filter_empty_conv classify_def)
    show "list_all (\<lambda>f. classify f \<in> {B_LOST_UNPROCESSED, B_AMBIGUOUS} \<longrightarrow>
        f_seq f \<in> lost_seqs st break_ts kill_ts) facts"
      using fact(1,5) by (auto simp: list_all_iff classify_def split: if_splits)
    assume s: "s \<in> sent_seqs app \<inter> lost_seqs st break_ts kill_ts - confirmed_seqs app (Some break_ts)"
    then obtain f where f: "f \<in> set facts" "f_seq f = s"
      using reconcile_fact_exists[of s app svc _ "{}" break_ts]
      unfolding assms forced_facts_def by blast
    with s fact(2,5)[OF f(1)] have "classify f \<notin> set SAFE_BUCKETS"
      by (auto simp: classify_def SAFE_BUCKETS_def)
    with f(1) show "loss_window facts \<noteq> None" by (auto simp: loss_window_None_iff)
  qed
qed

theorem forced_attribution_witness:
  "tally classify (forced_facts sample_app (init_ledger None) [(1, 1), (2, 2)] (Fin 2) (Fin 9))
     B_STRANDED = 0
   \<and> loss_window (forced_facts sample_app (init_ledger None) [(1, 1), (2, 2)] (Fin 2) (Fin 9)) \<noteq> None"
proof -
  have "sent_seqs sample_app = {1, 2}" "confirmed_seqs sample_app (Some (Fin 2)) = {}"
    by (auto simp: sent_seqs_def confirmed_seqs_def sample_app_def)
  moreover have "lost_seqs [(1, 1), (2, 2)] (Fin 2) (Fin 9) = {2}"
    by (auto simp: lost_seqs_def)
  ultimately show ?thesis
    using forced_attribution[of _ sample_app "init_ledger None" "[(1, 1), (2, 2)]" "Fin 2" "Fin 9" 2]
    by auto
qed

section \<open>The programs on ledgers the clients wrote\<close>

lemma sent_row:
  "is_dict (entry_row e)"
  "get_or_none (entry_row e) ''event'' = PStr (event_value (event e))"
  "item (entry_row e) ''seq'' = Inr (PInt (seq e))"
  "item (entry_row e) ''ts'' = Inr (PFloat (ts e))"
  by (simp_all add: entry_row_def get_or_none_def item_def lookup_def)

lemma event_value_sent: "event_value ev = ''sent'' \<longleftrightarrow> ev = SENT"
  by (cases ev) simp_all

text \<open>\<open>_sent_ts\<close> keeps, for each sent number, the time of its last SENT entry.\<close>

definition sent_times :: "LedgerEntry list \<Rightarrow> (int \<times> rat) list" where
  "sent_times es = alist_dict.build seq ts (filter (\<lambda>e. event e = SENT) es)"

lemma sent_ts_lines_rows:
  "sent_ts_lines (map (\<lambda>e. Row (entry_row e)) es) m =
     Inr (fold (\<lambda>e. AList.update (seq e) (ts e)) (filter (\<lambda>e. event e = SENT) es) m)"
  by (induction es arbitrary: m) (auto simp: sent_row event_value_sent)

lemma sent_ts_written: "sent_ts (Some (write_jsonl l)) = Inr (sent_times (entries l))"
  by (simp add: sent_ts_def write_jsonl_def sent_ts_lines_rows sent_times_def
      alist_dict.build_def)

lemma sent_times_lookup:
  "map_of (sent_times es) s =
     map_option ts (find (\<lambda>e. seq e = s) (rev (filter (\<lambda>e. event e = SENT) es)))"
  by (simp add: sent_times_def alist_dict.get_build split: option.split)

lemma sent_times_keys: "fst ` set (sent_times (entries l)) = sent_seqs l"
  using alist_dict.set_keys_build[of seq ts "filter (\<lambda>e. event e = SENT) (entries l)"]
  by (simp add: sent_times_def sent_seqs_def)

lemma sent_times_distinct: "distinct (map fst (sent_times es))"
  unfolding sent_times_def by (rule alist_dict.distinct_keys_build)

text \<open>C7: a written ledger reads back unchanged, and the framework never works on part of a ledger: a
  missing file is the empty ledger, and a file with a line that is not JSON is refused as a whole.\<close>

theorem jsonl_roundtrip:
  "read_jsonl (Some (write_jsonl l)) = Inr l
   \<and> read_jsonl None = Inr \<lparr>entries = []\<rparr>
   \<and> (\<exists>e. read_jsonl (Some (ls @ BadLine # ls')) = Inl e)"
proof (intro conjI)
  obtain e where "read_lines (ls @ BadLine # ls') = Inl e"
    using read_lines_bad[of "ls @ BadLine # ls'"] by auto
  then show "\<exists>e. read_jsonl (Some (ls @ BadLine # ls')) = Inl e"
    by (simp add: read_jsonl_def)
next
  show "read_jsonl (Some (write_jsonl l)) = Inr l" by (rule read_written)
next
  show "read_jsonl None = Inr \<lparr>entries = []\<rparr>" by (simp add: read_jsonl_def init_ledger_def)
qed

text \<open>On ledgers the clients wrote, the forced-DR program always produces its report, and the
  messages it calls lost are those whose last SENT entry lies between the break and the kill; the
  report's figure for the peak exposure is the exposure at the end of the run.\<close>

theorem forced_main_total:
  "forced_main (Some (write_jsonl app)) (Some (write_jsonl svc)) break_ts kill_ts =
     Inr (build_report ''DR-FORCE-1'' ''pcmk-dr''
            (forced_facts app svc (sent_times (entries app)) break_ts kill_ts)
            (int (exposure app None)) None None False False False)
   \<and> lost_seqs (sent_times (entries app)) break_ts kill_ts =
      {s. \<exists>e. find (\<lambda>e. seq e = s) (rev (filter (\<lambda>e. event e = SENT) (entries app))) = Some e
           \<and> break_ts \<le> Fin (ts e) \<and> Fin (ts e) \<le> kill_ts}"
proof
  show "forced_main (Some (write_jsonl app)) (Some (write_jsonl svc)) break_ts kill_ts =
     Inr (build_report ''DR-FORCE-1'' ''pcmk-dr''
            (forced_facts app svc (sent_times (entries app)) break_ts kill_ts)
            (int (exposure app None)) None None False False False)"
    by (simp add: forced_main_def lift_ledger_def read_written sent_ts_written)
  have "s \<in> lost_seqs (sent_times (entries app)) break_ts kill_ts \<longleftrightarrow>
      (\<exists>t. map_of (sent_times (entries app)) s = Some t \<and> break_ts \<le> Fin t \<and> Fin t \<le> kill_ts)" for s
    using sent_times_distinct[of "entries app"]
    by (auto simp: lost_seqs_def image_iff map_of_eq_Some_iff)
  then show "lost_seqs (sent_times (entries app)) break_ts kill_ts =
      {s. \<exists>e. find (\<lambda>e. seq e = s) (rev (filter (\<lambda>e. event e = SENT) (entries app))) = Some e
           \<and> break_ts \<le> Fin (ts e) \<and> Fin (ts e) \<le> kill_ts}"
    by (auto simp: sent_times_lookup)
qed

end
