(* ===== verification/DR_Wire.thy ===== *)
theory DR_Wire
  imports Py_Value
begin

text \<open>
  The message formats of the messaging clients: the self-identifying DR body of
  \<open>mqrc/dr/wire.py\<close> with the browsed-queue snapshot of \<open>mqrc/dr/snapshot.py\<close> built on it, and the
  fixed-format header of \<open>mqrc/header.py\<close> that precedes every body.

  Body text is represented by its UTF-8 bytes, so encoding is the identity and decoding fails
  exactly on invalid UTF-8. The header routines count characters, and a \<open>char\<close> is one character
  there; on ASCII, the only text the clients put into a header, the two readings agree.
\<close>

section \<open>The DR body\<close>

definition PREFIX :: string where
  "PREFIX = ''DRv1''"

definition MARKER :: string where
  "MARKER = PREFIX @ ''|''"

datatype wire_error = NotDRv1Error

record WireMessage =
  w_seq :: int
  w_uuid :: string
  w_session_date :: string
  w_payload :: string

definition build_body :: "int \<Rightarrow> string \<Rightarrow> string \<Rightarrow> string \<Rightarrow> (py_error, string) result" where
  "build_body sq u d p =
     rbind (to_str (PInt sq)) (\<lambda>t. Inr (str_join ''|'' [PREFIX, t, u, d, p]))"

definition parse_body :: "string \<Rightarrow> (wire_error, WireMessage) result" where
  "parse_body body =
     (if \<not> utf8_valid body then Inl NotDRv1Error
      else case split_max CHR ''|'' 4 body of
        [pre, sq, u, d, p] \<Rightarrow>
          if pre = PREFIX then
            (case py_int sq of
               None \<Rightarrow> Inl NotDRv1Error
             | Some i \<Rightarrow> Inr \<lparr>w_seq = i, w_uuid = u, w_session_date = d, w_payload = p\<rparr>)
          else Inl NotDRv1Error
      | _ \<Rightarrow> Inl NotDRv1Error)"

definition split_framed :: "string \<Rightarrow> (wire_error, string \<times> WireMessage) result" where
  "split_framed raw =
     (case find_sub MARKER raw of
        None \<Rightarrow> Inl NotDRv1Error
      | Some idx \<Rightarrow>
          (let body = drop idx raw in rbind (parse_body body) (\<lambda>m. Inr (body, m))))"

fun seqs_from_bodies :: "string list \<Rightarrow> int set" where
  "seqs_from_bodies [] = {}"
| "seqs_from_bodies (b # bs) =
     (case parse_body b of
        Inl _ \<Rightarrow> seqs_from_bodies bs
      | Inr m \<Rightarrow> insert (w_seq m) (seqs_from_bodies bs))"

section \<open>The fixed-format header\<close>

definition FIELD :: nat where
  "FIELD = 8"

definition HEADER_LEN :: nat where
  "HEADER_LEN = 4 * FIELD"

datatype ack = ACK_OK | ACK_BAD_HEADER | ACK_STALE_DATE

fun ack_value :: "ack \<Rightarrow> string" where
  "ack_value ACK_OK = ''0000''"
| "ack_value ACK_BAD_HEADER = ''9001''"
| "ack_value ACK_STALE_DATE = ''9002''"

record Header =
  h_password :: string
  h_sender :: string
  h_receiver :: string
  h_session_date :: string
  h_payload :: string

text \<open>The format specification \<open>:<8\<close>.\<close>

definition pad :: "nat \<Rightarrow> string \<Rightarrow> string" where
  "pad n s = s @ replicate (n - length s) CHR '' ''"

fun check_fields :: "(string \<times> string) list \<Rightarrow> (py_error, unit) result" where
  "check_fields [] = Inr ()"
| "check_fields ((name, v) # fs) =
     (if length v > FIELD then Inl (ValueErr (name @ '' exceeds 8 chars'')) else check_fields fs)"

definition pack_header :: "string \<Rightarrow> string \<Rightarrow> string \<Rightarrow> string \<Rightarrow> (py_error, string) result" where
  "pack_header pw sender rcv d =
     rbind (check_fields [(''password'', pw), (''sender'', sender), (''receiver'', rcv), (''session_date'', d)])
       (\<lambda>_. Inr (pad 8 pw @ pad 8 sender @ pad 8 rcv @ pad 8 d))"

definition slice :: "nat \<Rightarrow> nat \<Rightarrow> string \<Rightarrow> string" where
  "slice i j s = take (j - i) (drop i s)"

definition parse_header :: "string \<Rightarrow> (py_error, Header) result" where
  "parse_header msg =
     (if length msg < HEADER_LEN then Inl (ValueErr ''message shorter than header'')
      else Inr
        \<lparr>h_password = rstrip_when is_space (slice 0 8 msg),
         h_sender = rstrip_when is_space (slice 8 16 msg),
         h_receiver = rstrip_when is_space (slice 16 24 msg),
         h_session_date = rstrip_when is_space (slice 24 32 msg),
         h_payload = drop 32 msg\<rparr>)"

definition validate_header :: "string \<Rightarrow> string \<Rightarrow> ack" where
  "validate_header msg today =
     (case parse_header msg of
        Inl _ \<Rightarrow> ACK_BAD_HEADER
      | Inr h \<Rightarrow>
          if \<not> (h_password h \<noteq> [] \<and> h_sender h \<noteq> [] \<and> h_receiver h \<noteq> []) then ACK_BAD_HEADER
          else if h_session_date h \<noteq> today then ACK_STALE_DATE
          else ACK_OK)"

section \<open>Body lemmas\<close>

lemma split_max_three:
  assumes "split_max c 4 s = [a, b, d, e, f]"
  shows "s = a @ c # b @ c # d @ c # e @ c # f \<and> c \<notin> set b \<and> c \<notin> set d \<and> c \<notin> set e"
  using assms
  by (auto simp: numeral_eq_Suc split: prod.splits option.splits dest!: split_once_SomeD split_once_NoneD)

lemma build_body_eq:
  assumes "build_body sq u d p = Inr body"
  obtains t where "py_str_int sq = Some t" and "t = int_str sq"
    and "body = PREFIX @ CHR ''|'' # t @ CHR ''|'' # u @ CHR ''|'' # d @ CHR ''|'' # p"
  using assms by (auto simp: build_body_def result_simps py_str_int_def split: option.splits if_splits)

lemma bar_not_in_int_str: "CHR ''|'' \<notin> set (int_str i)"
  using int_str_chars[of "CHR ''|''" i] by auto

lemma parse_body_eq:
  "parse_body b = Inr m \<longleftrightarrow>
     utf8_valid b \<and> (\<exists>t. split_max CHR ''|'' 4 b = [PREFIX, t, w_uuid m, w_session_date m, w_payload m]
       \<and> py_int t = Some (w_seq m))"
  by (auto simp: parse_body_def split: list.splits option.splits if_splits)

lemma parse_build_body:
  assumes b: "build_body sq u d p = Inr body"
    and bars: "CHR ''|'' \<notin> set u" "CHR ''|'' \<notin> set d"
    and utf: "utf8_valid u" "utf8_valid d" "utf8_valid p"
  shows "parse_body body = Inr \<lparr>w_seq = sq, w_uuid = u, w_session_date = d, w_payload = p\<rparr>"
proof -
  obtain t where t: "py_str_int sq = Some t" "t = int_str sq"
    and body: "body = PREFIX @ CHR ''|'' # t @ CHR ''|'' # u @ CHR ''|'' # d @ CHR ''|'' # p"
    using b by (rule build_body_eq)
  have "CHR ''|'' \<notin> set PREFIX" by (simp add: PREFIX_def)
  moreover have "CHR ''|'' \<notin> set t" using t bar_not_in_int_str by simp
  ultimately have "split_max CHR ''|'' 4 body = [PREFIX, t, u, d, p]"
    using bars by (simp add: body numeral_eq_Suc split_once_found)
  moreover have "utf8_valid body"
    using utf t by (simp add: body PREFIX_def text_simps)
  ultimately show ?thesis
    using t(1) by (simp add: parse_body_eq text_simps)
qed

lemma marker_not_before:
  assumes "CHR ''|'' \<notin> set h"
  shows "find_sub MARKER (h @ MARKER @ r) = Some (length h)"
  using assms
proof (induction h)
  case Nil
  show ?case by (simp add: MARKER_def PREFIX_def)
next
  case (Cons c h)
  have "\<not> prefix MARKER ((c # h) @ MARKER @ r)"
  proof
    assume "prefix MARKER ((c # h) @ MARKER @ r)"
    then obtain s where "(c # h) @ MARKER @ r = MARKER @ s" by (auto simp: prefix_def)
    with Cons.prems show False
      by (auto simp: MARKER_def PREFIX_def append_eq_Cons_conv Cons_eq_append_conv)
  qed
  with Cons show ?case by simp
qed

lemma split_framed_frame:
  assumes "CHR ''|'' \<notin> set h" and "parse_body body = Inr m"
  shows "split_framed (h @ body) = Inr (body, m)"
proof -
  from assms(2) obtain t where
    "split_max CHR ''|'' 4 body = [PREFIX, t, w_uuid m, w_session_date m, w_payload m]"
    by (auto simp: parse_body_eq)
  then obtain r where r: "body = MARKER @ r"
    by (auto simp: MARKER_def dest!: split_max_three)
  have "find_sub MARKER (h @ body) = Some (length h)"
    unfolding r by (rule marker_not_before[OF assms(1)])
  then show ?thesis using assms(2) by (simp add: split_framed_def)
qed

lemma seqs_from_bodies_eq:
  "seqs_from_bodies bs = {w_seq m |m b. b \<in> set bs \<and> parse_body b = Inr m}"
  by (induction bs) (auto split: sum.splits)

section \<open>Header lemmas\<close>

lemma check_fields_iff:
  "(\<exists>u. check_fields fs = Inr u) \<longleftrightarrow> (\<forall>(n, v) \<in> set fs. length v \<le> FIELD)"
  by (induction fs rule: check_fields.induct) auto

lemma pack_header_iff:
  "pack_header pw s r d = Inr h \<longleftrightarrow>
     length pw \<le> 8 \<and> length s \<le> 8 \<and> length r \<le> 8 \<and> length d \<le> 8
     \<and> h = pad 8 pw @ pad 8 s @ pad 8 r @ pad 8 d"
  by (auto simp: pack_header_def FIELD_def)

lemma length_pad [simp]: "length s \<le> n \<Longrightarrow> length (pad n s) = n"
  by (simp add: pad_def)

lemma set_pad: "set (pad n s) \<subseteq> insert CHR '' '' (set s)"
  by (auto simp: pad_def)

lemma length_pack_header: "pack_header pw s r d = Inr h \<Longrightarrow> length h = HEADER_LEN"
  by (auto simp: pack_header_iff HEADER_LEN_def FIELD_def)

lemma rstrip_pad: "rstrip_when is_space (pad n s) = rstrip_when is_space s"
  unfolding pad_def by (rule rstrip_when_append) (simp add: is_space_def)

lemma parse_pack_header:
  assumes "pack_header pw s r d = Inr h"
  shows "parse_header (h @ body) =
    Inr \<lparr>h_password = rstrip_when is_space pw, h_sender = rstrip_when is_space s,
         h_receiver = rstrip_when is_space r, h_session_date = rstrip_when is_space d,
         h_payload = body\<rparr>"
  using assms
  by (auto simp: pack_header_iff parse_header_def HEADER_LEN_def FIELD_def slice_def rstrip_pad)

lemma pack_header_no_bar:
  assumes "pack_header pw s r d = Inr h" and "CHR ''|'' \<notin> set (pw @ s @ r @ d)"
  shows "CHR ''|'' \<notin> set h"
  using assms set_pad[of 8 pw] set_pad[of 8 s] set_pad[of 8 r] set_pad[of 8 d]
  by (auto simp: pack_header_iff)

section \<open>Properties\<close>

text \<open>A message that \<open>split_framed\<close> accepts really carries the body it returns: the body is the
  rest of the message from the first marker on, it is valid UTF-8, and it is made of the marker, an
  integer, an identifier and a date without delimiter, and the payload. So no foreign message is
  ever read as a DR message.\<close>

theorem split_framed_sound:
  assumes "split_framed raw = Inr (body, m)"
  shows "\<exists>pre t. raw = pre @ body
    \<and> body = MARKER @ t @ ''|'' @ w_uuid m @ ''|'' @ w_session_date m @ ''|'' @ w_payload m
    \<and> py_int t = Some (w_seq m) \<and> utf8_valid body
    \<and> (\<forall>j < length pre. \<not> prefix MARKER (drop j raw))
    \<and> CHR ''|'' \<notin> set (w_uuid m) \<and> CHR ''|'' \<notin> set (w_session_date m)"
proof -
  from assms obtain i where i: "find_sub MARKER raw = Some i" and b: "body = drop i raw"
    and m: "parse_body body = Inr m"
    by (auto simp: split_framed_def result_simps Let_def split: option.splits)
  from m obtain t where t: "utf8_valid body" "py_int t = Some (w_seq m)"
    and sp: "split_max CHR ''|'' 4 body = [PREFIX, t, w_uuid m, w_session_date m, w_payload m]"
    by (auto simp: parse_body_eq)
  have "raw = take i raw @ body" by (simp add: b)
  moreover have "\<forall>j < length (take i raw). \<not> prefix MARKER (drop j raw)"
    using find_sub_least[OF i] by simp
  ultimately show ?thesis
    using t split_max_three[OF sp] by (intro exI[of _ "take i raw"] exI[of _ t]) (simp add: MARKER_def)
qed

theorem split_framed_sound_witness:
  "split_framed ''hdr DRv1|7|ab|20260608|p|q'' =
     Inr (''DRv1|7|ab|20260608|p|q'',
          \<lparr>w_seq = 7, w_uuid = ''ab'', w_session_date = ''20260608'', w_payload = ''p|q''\<rparr>)
   \<and> (\<exists>pre. ''hdr DRv1|7|ab|20260608|p|q'' = pre @ ''DRv1|7|ab|20260608|p|q'')"
proof -
  have ok: "split_framed ''hdr DRv1|7|ab|20260608|p|q'' =
     Inr (''DRv1|7|ab|20260608|p|q'',
          \<lparr>w_seq = 7, w_uuid = ''ab'', w_session_date = ''20260608'', w_payload = ''p|q''\<rparr>)"
    by code_simp
  from split_framed_sound[OF ok] ok show ?thesis by blast
qed

text \<open>C8: a framed message comes back whole: what \<open>build_body\<close> makes, put behind a header that
  \<open>pack_header\<close> makes, is found by \<open>split_framed\<close> with the same fields, whatever the payload contains
  (delimiters and even the marker included), provided the identifier and the date carry no delimiter
  and the header fields none.\<close>

theorem framed_roundtrip:
  assumes "build_body sq u d p = Inr body" and "pack_header pw s r hdate = Inr h"
    and "CHR ''|'' \<notin> set (u @ d)" and "CHR ''|'' \<notin> set (pw @ s @ r @ hdate)"
    and "utf8_valid u" and "utf8_valid d" and "utf8_valid p"
  shows "split_framed (h @ body) =
           Inr (body, \<lparr>w_seq = sq, w_uuid = u, w_session_date = d, w_payload = p\<rparr>)
         \<and> seqs_from_bodies [body] = {sq} \<and> length h = HEADER_LEN"
proof -
  have parse: "parse_body body = Inr \<lparr>w_seq = sq, w_uuid = u, w_session_date = d, w_payload = p\<rparr>"
    using assms by (intro parse_build_body) auto
  from split_framed_frame[OF pack_header_no_bar[OF assms(2,4)] parse] parse
    length_pack_header[OF assms(2)]
  show ?thesis by simp
qed

theorem framed_roundtrip_witness:
  "\<exists>body h. build_body 12 ''ab'' ''20260608'' ''MSG|DRv1|'' = Inr body
     \<and> pack_header ''pw'' ''APP01'' ''SVC'' ''20260608'' = Inr h
     \<and> split_framed (h @ body) =
         Inr (body, \<lparr>w_seq = 12, w_uuid = ''ab'', w_session_date = ''20260608'', w_payload = ''MSG|DRv1|''\<rparr>)"
proof -
  have b: "build_body 12 ''ab'' ''20260608'' ''MSG|DRv1|'' = Inr ''DRv1|12|ab|20260608|MSG|DRv1|''"
    by code_simp
  have h: "pack_header ''pw'' ''APP01'' ''SVC'' ''20260608'' = Inr ''pw      APP01   SVC     20260608''"
    by code_simp
  have utf: "utf8_valid ''ab''" "utf8_valid ''20260608''" "utf8_valid ''MSG|DRv1|''"
    by code_simp+
  from framed_roundtrip[OF b h _ _ utf] b h show ?thesis by simp
qed

text \<open>The receiver's verdict on a header the sender packed: it is accepted exactly when the three
  identity fields are non-blank and the date, less trailing blanks, is today's; a blank identity
  field is a bad header and only then; packing fails exactly on a field of more than eight
  characters, and a message shorter than a header is a bad header.\<close>

theorem header_verdict:
  "((\<exists>h. pack_header pw s r d = Inr h) \<longleftrightarrow> (\<forall>f \<in> {pw, s, r, d}. length f \<le> 8))
   \<and> (pack_header pw s r d = Inr h \<longrightarrow>
       (let blank = (\<exists>f \<in> {pw, s, r}. rstrip_when is_space f = []) in
        validate_header (h @ body) today =
          (if blank then ACK_BAD_HEADER
           else if rstrip_when is_space d = today then ACK_OK else ACK_STALE_DATE)))
   \<and> (length m < 32 \<longrightarrow> validate_header m today = ACK_BAD_HEADER)"
  by (auto simp: pack_header_iff[symmetric] validate_header_def Let_def parse_pack_header)
     (auto simp: pack_header_iff parse_header_def HEADER_LEN_def FIELD_def)

theorem header_verdict_witness:
  "pack_header ''pw'' ''APP01'' ''SVC'' ''20260608'' = Inr ''pw      APP01   SVC     20260608''
   \<and> validate_header ''pw      APP01   SVC     20260608DRv1'' ''20260608'' = ACK_OK
   \<and> validate_header ''short'' ''20260608'' = ACK_BAD_HEADER"
proof -
  have h: "pack_header ''pw'' ''APP01'' ''SVC'' ''20260608'' = Inr ''pw      APP01   SVC     20260608''"
    by code_simp
  have ne: "rstrip_when is_space ''pw'' = ''pw''" "rstrip_when is_space ''APP01'' = ''APP01''"
    "rstrip_when is_space ''SVC'' = ''SVC''" "rstrip_when is_space ''20260608'' = ''20260608''"
    by code_simp+
  from header_verdict[of "''pw''" "''APP01''" "''SVC''" "''20260608''"
      "''pw      APP01   SVC     20260608''" "''DRv1''" "''20260608''" "''short''"] h ne
  show ?thesis by (simp add: Let_def)
qed

end
