(* ===== verification/DR_MQI.thy ===== *)
theory DR_MQI
  imports DR_Wire
begin

text \<open>
  What the messaging clients share on the queue manager's interface: the reason-code families and
  the connect loop of \<open>mqrc/dr_mqi.py\<close>, the client connect of \<open>mqrc/mqconn.py\<close> and the dead-letter
  move of \<open>mqrc/deadletter.py\<close>.

  The \<open>ibmmq\<close> binding is not part of the repository: the outcome of each of its calls, the clock
  readings and the generated identifiers are arguments of the definitions. A definition returns,
  next to its result, the calls it made in order, with their outcomes.
\<close>

section \<open>Calls and their outcomes\<close>

datatype mq_call = Done | Failed int

datatype client_error =
    MQMIError int
  | NotDRv1
  | PyError py_error
  | NoDeadLetterQueueError

text \<open>How a loop or one turn of it ends: it goes on, it is left normally, or an exception leaves it.\<close>

datatype exit = Running | Finished | Raised client_error

text \<open>An MQMD, as far as the clients read it.\<close>

record MD =
  MsgId :: string
  CorrelId :: string
  MsgType :: int
  Persistence :: int
  Priority :: int
  Encoding :: int
  CodedCharSetId :: int
  Format :: string

record DLH =
  dlh_Reason :: int
  dlh_DestQName :: string
  dlh_DestQMgrName :: string
  dlh_Encoding :: int
  dlh_CodedCharSetId :: int
  dlh_Format :: string
  dlh_PutApplType :: int
  dlh_PutApplName :: string
  dlh_PutDate :: string
  dlh_PutTime :: string

datatype mqi =
    MqPut string string mq_call \<comment> \<open>CorrelId, payload\<close>
  | MqGet string \<comment> \<open>a message taken under syncpoint\<close>
  | MqDlqPut string MD string mq_call \<comment> \<open>dead-letter queue, descriptor, bytes\<close>
  | MqCommit mq_call
  | MqBackout mq_call
  | MqDisconnect mq_call

section \<open>Reason codes\<close>

definition RETRY_INPLACE :: "int list" where
  "RETRY_INPLACE = [2003, 2161]"

definition CALL_INTERRUPTED :: int where
  "CALL_INTERRUPTED = 2549"

definition RECONNECT :: "int list" where
  "RECONNECT = [2009, 2202, 2059, 2018]"

definition CONNECT_RETRY :: "int list" where
  "CONNECT_RETRY = RECONNECT @ [2059]"

definition MQRC_NO_MSG_AVAILABLE :: int where
  "MQRC_NO_MSG_AVAILABLE = 2033"

lemmas reason_defs = RETRY_INPLACE_def CALL_INTERRUPTED_def RECONNECT_def CONNECT_RETRY_def
  MQRC_NO_MSG_AVAILABLE_def

lemma reason_families_disjoint:
  "set RETRY_INPLACE \<inter> set RECONNECT = {}"
  "CALL_INTERRUPTED \<notin> set RETRY_INPLACE" "CALL_INTERRUPTED \<notin> set RECONNECT"
  "MQRC_NO_MSG_AVAILABLE \<notin> set RETRY_INPLACE \<union> set RECONNECT \<union> {CALL_INTERRUPTED}"
  by (simp_all add: reason_defs)

section \<open>Connecting\<close>

datatype cno_option = MQCNO_RECONNECT | MQCNO_RECONNECT_Q_MGR | MQCNO_CLIENT_BINDING

record ConnectRequest =
  cr_qm :: string
  cr_channel :: string
  cr_conn :: string
  cr_cipher :: "string option"
  cr_keyrepo :: "string option"
  cr_certlabel :: "string option"
  cr_opts :: "cno_option set"

definition connect_client :: "ConnectRequest \<Rightarrow> ConnectRequest" where
  "connect_client r = r\<lparr>cr_opts := insert MQCNO_CLIENT_BINDING (cr_opts r)\<rparr>"

text \<open>The MQCONNX request that \<open>connect\<close> issues; its outcome comes from the queue manager.\<close>

definition connect :: "string \<Rightarrow> string \<Rightarrow> string \<Rightarrow> string \<Rightarrow> string \<Rightarrow> ConnectRequest" where
  "connect qm conn channel keyrepo certlabel = connect_client
     \<lparr>cr_qm = qm, cr_channel = channel, cr_conn = conn,
      cr_cipher = (if keyrepo \<noteq> [] then Some ''ANY_TLS13_OR_HIGHER'' else None),
      cr_keyrepo = (if keyrepo \<noteq> [] then Some keyrepo else None),
      cr_certlabel = (if keyrepo \<noteq> [] \<and> certlabel \<noteq> [] then Some certlabel else None),
      cr_opts = {MQCNO_RECONNECT_Q_MGR}\<rparr>"

datatype connected = Connected | GaveUp | ConnectRaised int | Waiting

text \<open>
  Each element is one turn of the loop: the value of \<open>keep_going()\<close> and the outcome of MQCONNX.
  A list that ends while the loop goes on is a client that is still trying (\<open>Waiting\<close>).
\<close>

fun connect_retry :: "(bool \<times> mq_call) list \<Rightarrow> connected" where
  "connect_retry [] = Waiting"
| "connect_retry ((keep, r) # ts) =
     (if \<not> keep then GaveUp
      else case r of
        Done \<Rightarrow> Connected
      | Failed reason \<Rightarrow>
          if reason \<in> set CONNECT_RETRY then connect_retry ts else ConnectRaised reason)"

text \<open>The loop tries on exactly through the retryable failures: it returns a connection at the first
  success, gives up at the first refusal of \<open>keep_going\<close>, and raises the first other failure.\<close>

definition retries :: "bool \<times> mq_call \<Rightarrow> bool" where
  "retries t \<longleftrightarrow> fst t \<and> (\<exists>r \<in> set CONNECT_RETRY. snd t = Failed r)"

lemma connect_retry_Cons:
  "retries t \<Longrightarrow> connect_retry (t # ts) = connect_retry ts"
  "\<not> retries t \<Longrightarrow> connect_retry (t # ts) \<noteq> Waiting"
  "\<not> retries t \<Longrightarrow> connect_retry (t # ts) = Connected \<longleftrightarrow> t = (True, Done)"
  by (cases t; auto simp: retries_def split: mq_call.splits)+

lemma connect_retry_skip:
  "\<forall>t \<in> set ts. retries t \<Longrightarrow> connect_retry (ts @ us) = connect_retry us"
  by (induction ts) (auto simp: connect_retry_Cons simp del: connect_retry.simps(2))

lemma connect_retry_waiting:
  "connect_retry ts = Waiting \<longleftrightarrow> (\<forall>t \<in> set ts. retries t)"
proof (induction ts)
  case (Cons t ts)
  then show ?case
    by (cases "retries t") (auto simp: connect_retry_Cons simp del: connect_retry.simps(2))
qed simp

lemma connect_retry_connected:
  "connect_retry ts = Connected \<longleftrightarrow>
     (\<exists>us vs. ts = us @ (True, Done) # vs \<and> (\<forall>t \<in> set us. retries t))"
proof (induction ts)
  case (Cons t ts)
  show ?case
  proof (cases "retries t")
    case True
    then have ne: "t \<noteq> (True, Done)" by (auto simp: retries_def)
    have "connect_retry (t # ts) = Connected \<longleftrightarrow> connect_retry ts = Connected"
      using True by (simp only: connect_retry_Cons)
    also have "\<dots> \<longleftrightarrow> (\<exists>us vs. ts = us @ (True, Done) # vs \<and> (\<forall>t \<in> set us. retries t))"
      by (rule Cons.IH)
    also have "\<dots> \<longleftrightarrow> (\<exists>us vs. t # ts = us @ (True, Done) # vs \<and> (\<forall>t \<in> set us. retries t))"
      using True ne by (auto simp: Cons_eq_append_conv) (metis set_ConsD)
    finally show ?thesis .
  next
    case False
    then show ?thesis
      by (auto simp: connect_retry_Cons Cons_eq_append_conv simp del: connect_retry.simps(2))
  qed
qed simp

section \<open>Dead-lettering\<close>

datatype mqchars = MBytes string | MStr string

text \<open>\<open>decode("ascii", "replace")\<close>: a byte that is not ASCII becomes U+FFFD.\<close>

definition ascii_replace :: "string \<Rightarrow> string" where
  "ascii_replace s = concat (map (\<lambda>c. if (of_char c :: nat) < 128 then [c]
     else [CHR 0xEF, CHR 0xBF, CHR 0xBD]) s)"

definition mqchar_pad :: "char \<Rightarrow> bool" where
  "mqchar_pad c \<longleftrightarrow> c = CHR '' '' \<or> c = CHR 0x00"

fun mqchar :: "mqchars \<Rightarrow> string" where
  "mqchar (MBytes b) = strip_when mqchar_pad (ascii_replace b)"
| "mqchar (MStr s) = strip_when mqchar_pad s"

text \<open>What the binding provides to the move: constants, the MQDLH encoding, and call outcomes.\<close>

record dl_env =
  MQAT_UNIX :: int
  MQFMT_DEAD_LETTER_HEADER :: string
  MQFB_APPL_FIRST :: int
  dlh_pack :: "DLH \<Rightarrow> string"
  dl_inquire :: "int + mqchars"
  dl_open :: mq_call
  dl_put :: mq_call
  dl_close :: mq_call
  dl_date :: string
  dl_time :: string

definition dl_header :: "dl_env \<Rightarrow> string \<Rightarrow> string \<Rightarrow> MD \<Rightarrow> int \<Rightarrow> string \<Rightarrow> DLH" where
  "dl_header env qmgr_name in_queue req_md reason who =
     \<lparr>dlh_Reason = reason, dlh_DestQName = in_queue, dlh_DestQMgrName = qmgr_name,
      dlh_Encoding = Encoding req_md, dlh_CodedCharSetId = CodedCharSetId req_md,
      dlh_Format = Format req_md, dlh_PutApplType = MQAT_UNIX env,
      dlh_PutApplName = ''mq-'' @ who, dlh_PutDate = dl_date env, dlh_PutTime = dl_time env\<rparr>"

text \<open>The dead-letter MQMD: the fields that are not set keep the binding's defaults \<open>md0\<close>.\<close>

definition dl_descriptor :: "dl_env \<Rightarrow> MD \<Rightarrow> MD \<Rightarrow> MD" where
  "dl_descriptor env md0 req_md = md0
     \<lparr>MsgId := MsgId req_md, CorrelId := CorrelId req_md, MsgType := MsgType req_md,
      Persistence := Persistence req_md, Priority := Priority req_md,
      Format := MQFMT_DEAD_LETTER_HEADER env\<rparr>"

definition dead_letter ::
  "dl_env \<Rightarrow> MD \<Rightarrow> string \<Rightarrow> string \<Rightarrow> MD \<Rightarrow> string \<Rightarrow> int \<Rightarrow> string
     \<Rightarrow> (client_error, unit) result \<times> mqi list" where
  "dead_letter env md0 qmgr_name in_queue req_md body reason who =
     (case dl_inquire env of
        Inl r \<Rightarrow> (Inl (MQMIError r), [])
      | Inr v \<Rightarrow>
          (let dlq = mqchar v in
           if dlq = [] then (Inl NoDeadLetterQueueError, [])
           else
             (let h = dl_header env qmgr_name in_queue req_md reason who;
                  md = dl_descriptor env md0 req_md;
                  put = MqDlqPut dlq md (dlh_pack env h @ body) (dl_put env)
              in case dl_open env of
                   Failed r \<Rightarrow> (Inl (MQMIError r), [])
                 | Done \<Rightarrow>
                     (case dl_put env of
                        Failed r \<Rightarrow> (Inl (MQMIError r), [put])
                      | Done \<Rightarrow>
                          (case dl_close env of
                             Failed r \<Rightarrow> (Inl (MQMIError r), [put])
                           | Done \<Rightarrow> (Inr (), [put]))))))"

lemma dead_letter_ok:
  assumes "dead_letter env md0 qm q md body reason who = (Inr (), cs)"
  shows "\<exists>v. dl_inquire env = Inr v \<and> mqchar v \<noteq> []
    \<and> cs = [MqDlqPut (mqchar v) (dl_descriptor env md0 md)
              (dlh_pack env (dl_header env qm q md reason who) @ body) Done]"
  using assms by (auto simp: dead_letter_def Let_def split: sum.splits mq_call.splits if_splits)

lemma dead_letter_calls:
  assumes "dead_letter env md0 qm q md body reason who = (r, cs)"
  shows "set cs \<subseteq> {MqDlqPut n d b o' | n d b o'. True}"
  using assms by (auto simp: dead_letter_def Let_def split: sum.splits mq_call.splits if_splits)

end
