(* ===== verification/DR_Flow.thy ===== *)
theory DR_Flow
  imports DR_MQI DR_Ledger
begin

text \<open>
  The app-side flow generator \<open>mqrc/dr_flow.py\<close>: a producer and a consumer thread on separate
  connections that share one ledger under a lock and a stop flag. A turn of either loop is a
  function of what the outside supplies in it (call outcomes, clock readings, the generated
  identifier); the two threads interleave by turns, since a turn touches the shared ledger in one
  locked append. \<open>reach\<close> holds of every state some interleaving leads to.
\<close>

section \<open>The message\<close>

definition hex_digit :: "nat \<Rightarrow> char" where
  "hex_digit d = (if d < 10 then char_of (48 + d) else char_of (87 + d))"

text \<open>\<open>uuid4().hex\<close> of the 128-bit number \<open>n\<close>: 32 lower-case hexadecimal digits.\<close>

fun hex_digits :: "nat \<Rightarrow> nat \<Rightarrow> string" where
  "hex_digits 0 n = []"
| "hex_digits (Suc k) n = hex_digits k (n div 16) @ [hex_digit (n mod 16)]"

definition uuid_hex :: "nat \<Rightarrow> string" where
  "uuid_hex n = hex_digits 32 n"

definition CORREL_ID_LEN :: nat where
  "CORREL_ID_LEN = 24"

definition new_run_correl_id :: "string \<Rightarrow> string" where
  "new_run_correl_id b = b @ replicate (CORREL_ID_LEN - length b) (CHR 0x00)"

definition parse_reply :: "string \<Rightarrow> (wire_error, WireMessage) result" where
  "parse_reply raw = rbind (split_framed raw) (\<lambda>bm. Inr (snd bm))"

text \<open>Header and body of request \<open>sq\<close>, as the producer builds them.\<close>

definition make_message :: "int \<Rightarrow> string \<Rightarrow> (py_error, string) result" where
  "make_message sq u =
     rbind (to_str (PInt sq)) (\<lambda>t.
     rbind (build_body sq u ''20260608'' (''MSG-'' @ t)) (\<lambda>body.
     rbind (pack_header ''pw'' ''APP01'' ''SVC'' ''20260608'') (\<lambda>header.
     Inr (header @ body))))"

section \<open>The producer\<close>

record producer_env =
  p_in_time :: bool \<comment> \<open>\<open>time.monotonic() < deadline\<close> at the loop head\<close>
  p_connect :: "(bool \<times> mq_call) list"
  p_open :: mq_call
  p_uuid :: nat
  p_put :: mq_call
  p_commit :: mq_call
  p_disconnect :: mq_call
  p_backout :: mq_call
  p_now :: rat \<comment> \<open>\<open>time.time()\<close> at the append\<close>
  p_mono :: rat
  p_mono_after :: rat

record Producer =
  p_conn :: bool
  p_seq :: int
  pending :: "(int \<times> string \<times> string) option"
  last_flush :: rat
  p_file :: "jline list option"

definition ensure_pending :: "producer_env \<Rightarrow> Producer \<Rightarrow> (py_error, Producer) result" where
  "ensure_pending env p =
     (case pending p of
        Some _ \<Rightarrow> Inr p
      | None \<Rightarrow>
          (let s = p_seq p + 1; u = uuid_hex (p_uuid env) in
           rbind (make_message s u) (\<lambda>payload. Inr (p\<lparr>p_seq := s, pending := Some (s, u, payload)\<rparr>))))"

text \<open>The handler of \<open>MQMIError\<close> around put and commit.\<close>

definition producer_error :: "producer_env \<Rightarrow> int \<Rightarrow> Producer \<Rightarrow> exit \<times> Producer \<times> mqi list" where
  "producer_error env reason p =
     (if reason \<in> set RECONNECT then (Running, p\<lparr>p_conn := False\<rparr>, [MqDisconnect (p_disconnect env)])
      else if reason = CALL_INTERRUPTED then (Running, p, [])
      else if reason \<in> set RETRY_INPLACE then (Running, p, [MqBackout (p_backout env)])
      else (Raised (MQMIError reason), p, []))"

definition record_sent :: "producer_env \<Rightarrow> Producer \<Rightarrow> Ledger \<Rightarrow> Producer \<times> Ledger" where
  "record_sent env p l =
     (case pending p of
        None \<Rightarrow> (p, l)
      | Some (s, u, payload) \<Rightarrow>
          (let l' = append_entry l \<lparr>event = SENT, seq = s, uuid = u, ts = p_now env\<rparr>;
               p' = p\<lparr>pending := None\<rparr>
           in if fl (p_mono env - last_flush p) > 2
              then (p'\<lparr>p_file := Some (write_jsonl l'), last_flush := p_mono_after env\<rparr>, l')
              else (p', l')))"

definition put_pending ::
  "string \<Rightarrow> producer_env \<Rightarrow> Producer \<Rightarrow> Ledger \<Rightarrow> exit \<times> Producer \<times> Ledger \<times> mqi list" where
  "put_pending correl env p l =
     (case pending p of
        None \<Rightarrow> (Running, p, l, [])
      | Some (s, u, payload) \<Rightarrow>
          (case p_put env of
             Failed r \<Rightarrow>
               (case producer_error env r p of
                  (x, p', cs) \<Rightarrow> (x, p', l, MqPut correl payload (Failed r) # cs))
           | Done \<Rightarrow>
               (case p_commit env of
                  Failed r \<Rightarrow>
                    (case producer_error env r p of
                       (x, p', cs) \<Rightarrow>
                         (x, p', l, MqPut correl payload Done # MqCommit (Failed r) # cs))
                | Done \<Rightarrow>
                    (case record_sent env p l of
                       (p', l') \<Rightarrow> (Running, p', l', [MqPut correl payload Done, MqCommit Done])))))"

definition producer_iter ::
  "string \<Rightarrow> producer_env \<Rightarrow> bool \<Rightarrow> Producer \<Rightarrow> Ledger \<Rightarrow> exit \<times> Producer \<times> Ledger \<times> mqi list" where
  "producer_iter correl env stop p l =
     (if stop \<or> \<not> p_in_time env then
        (Finished, p, l, if p_conn p then [MqDisconnect (p_disconnect env)] else [])
      else
        (let work = (\<lambda>p. case ensure_pending env p of
                           Inl e \<Rightarrow> (Raised (PyError e), p, l, [])
                         | Inr p' \<Rightarrow> put_pending correl env p' l)
         in if p_conn p then work p
            else case connect_retry (p_connect env) of
              Waiting \<Rightarrow> (Running, p, l, [])
            | GaveUp \<Rightarrow> (Finished, p, l, [])
            | ConnectRaised r \<Rightarrow> (Raised (MQMIError r), p, l, [])
            | Connected \<Rightarrow>
                (case p_open env of
                   Failed r \<Rightarrow> (Raised (MQMIError r), p\<lparr>p_conn := True\<rparr>, l, [])
                 | Done \<Rightarrow> work (p\<lparr>p_conn := True\<rparr>))))"

section \<open>The consumer\<close>

record consumer_env =
  c_connect :: "(bool \<times> mq_call) list"
  c_open :: mq_call
  c_get :: "int + string"
  c_backout :: mq_call
  c_commit :: mq_call
  c_disconnect :: mq_call
  c_now :: rat

text \<open>The handler of \<open>MQMIError\<close> around the commit; the one around the get also goes on when no
  message was available. The result carries whether the connection is kept.\<close>

definition consumer_error :: "consumer_env \<Rightarrow> int \<Rightarrow> exit \<times> bool \<times> mqi list" where
  "consumer_error env reason =
     (if reason \<in> set RECONNECT then (Running, False, [MqDisconnect (c_disconnect env)])
      else if reason \<in> set RETRY_INPLACE \<or> reason = CALL_INTERRUPTED then (Running, True, [])
      else (Raised (MQMIError reason), True, []))"

definition take_reply :: "consumer_env \<Rightarrow> Ledger \<Rightarrow> exit \<times> bool \<times> Ledger \<times> mqi list" where
  "take_reply env l =
     (case c_get env of
        Inl r \<Rightarrow>
          if r = MQRC_NO_MSG_AVAILABLE then (Running, True, l, [])
          else (case consumer_error env r of (x, k, cs) \<Rightarrow> (x, k, l, cs))
      | Inr raw \<Rightarrow>
          (case parse_reply raw of
             Inl _ \<Rightarrow>
               (case c_backout env of
                  Done \<Rightarrow> (Raised NotDRv1, True, l, [MqGet raw, MqBackout Done])
                | Failed r \<Rightarrow> (Raised (MQMIError r), True, l, [MqGet raw, MqBackout (Failed r)]))
           | Inr m \<Rightarrow>
               (case c_commit env of
                  Failed r \<Rightarrow>
                    (case consumer_error env r of
                       (x, k, cs) \<Rightarrow> (x, k, l, MqGet raw # MqCommit (Failed r) # cs))
                | Done \<Rightarrow>
                    (Running, True,
                     append_entry l \<lparr>event = CONFIRMED, seq = w_seq m, uuid = w_uuid m, ts = c_now env\<rparr>,
                     [MqGet raw, MqCommit Done]))))"

definition consumer_iter ::
  "consumer_env \<Rightarrow> bool \<Rightarrow> bool \<Rightarrow> Ledger \<Rightarrow> exit \<times> bool \<times> Ledger \<times> mqi list" where
  "consumer_iter env stop conn l =
     (if stop then (Finished, conn, l, if conn then [MqDisconnect (c_disconnect env)] else [])
      else if conn then take_reply env l
      else case connect_retry (c_connect env) of
        Waiting \<Rightarrow> (Running, False, l, [])
      | GaveUp \<Rightarrow> (Finished, False, l, [])
      | ConnectRaised r \<Rightarrow> (Raised (MQMIError r), False, l, [])
      | Connected \<Rightarrow>
          (case c_open env of
             Failed r \<Rightarrow> (Raised (MQMIError r), True, l, [])
           | Done \<Rightarrow> take_reply env l))"

section \<open>Both threads\<close>

record Flow =
  fl_prod :: Producer
  fl_prod_exit :: exit
  fl_cons :: bool
  fl_cons_exit :: exit
  fl_ledger :: Ledger
  fl_stop :: bool
  fl_errors :: "(string \<times> client_error) list"
  fl_prod_calls :: "mqi list"
  fl_cons_calls :: "mqi list"

definition flow_init :: "rat \<Rightarrow> Flow" where
  "flow_init now =
     \<lparr>fl_prod = \<lparr>p_conn = False, p_seq = 0, pending = None, last_flush = now, p_file = None\<rparr>,
      fl_prod_exit = Running, fl_cons = False, fl_cons_exit = Running, fl_ledger = init_ledger None,
      fl_stop = False, fl_errors = [], fl_prod_calls = [], fl_cons_calls = []\<rparr>"

text \<open>\<open>_guarded\<close>: an exception is recorded and stops the other side.\<close>

definition guarded :: "string \<Rightarrow> exit \<Rightarrow> Flow \<Rightarrow> Flow" where
  "guarded name x f =
     (case x of
        Raised e \<Rightarrow> f\<lparr>fl_errors := fl_errors f @ [(name, e)], fl_stop := True\<rparr>
      | _ \<Rightarrow> f)"

datatype flow_event = ProducerTurn producer_env | ConsumerTurn consumer_env

fun flow_step :: "string \<Rightarrow> flow_event \<Rightarrow> Flow \<Rightarrow> Flow" where
  "flow_step correl (ProducerTurn env) f =
     (if fl_prod_exit f \<noteq> Running then f
      else case producer_iter correl env (fl_stop f) (fl_prod f) (fl_ledger f) of
        (x, p, l, cs) \<Rightarrow> guarded ''producer'' x
          (f\<lparr>fl_prod := p, fl_prod_exit := x, fl_ledger := l, fl_prod_calls := fl_prod_calls f @ cs\<rparr>))"
| "flow_step correl (ConsumerTurn env) f =
     (if fl_cons_exit f \<noteq> Running then f
      else case consumer_iter env (fl_stop f) (fl_cons f) (fl_ledger f) of
        (x, k, l, cs) \<Rightarrow> guarded ''consumer'' x
          (f\<lparr>fl_cons := k, fl_cons_exit := x, fl_ledger := l, fl_cons_calls := fl_cons_calls f @ cs\<rparr>))"

inductive reach :: "string \<Rightarrow> Flow \<Rightarrow> bool" for correl where
  start: "reach correl (flow_init now)"
| turn: "reach correl f \<Longrightarrow> reach correl (flow_step correl ev f)"
| stop: "reach correl f \<Longrightarrow> reach correl (f\<lparr>fl_stop := True\<rparr>)"

record flow_result =
  fr_code :: int
  fr_file :: "jline list"
  fr_sent :: nat
  fr_confirmed :: nat
  fr_errors :: "(string \<times> client_error) list"

definition turns :: "string \<Rightarrow> flow_event list \<Rightarrow> Flow \<Rightarrow> Flow" where
  "turns correl evs f = fold (flow_step correl) evs f"

definition finish :: "Flow \<Rightarrow> flow_result" where
  "finish f =
     \<lparr>fr_code = (if fl_errors f = [] then 0 else 1),
      fr_file = write_jsonl (fl_ledger f),
      fr_sent = card (sent_seqs (fl_ledger f)),
      fr_confirmed = card (confirmed_seqs (fl_ledger f) None),
      fr_errors = fl_errors f\<rparr>"

text \<open>
  \<open>main\<close>: \<open>evs\<close> are the turns until the producer returns, \<open>drain\<close> the consumer's turns in the drain
  interval, \<open>join\<close> its turns between the stop and the end of the join timeout (the consumer may
  still be running then). \<open>None\<close> when the producer has not returned after \<open>evs\<close>.
\<close>

definition flow_main ::
  "string \<Rightarrow> rat \<Rightarrow> flow_event list \<Rightarrow> consumer_env list \<Rightarrow> consumer_env list \<Rightarrow> flow_result option" where
  "flow_main correl now evs drain join =
     (let f1 = turns correl evs (flow_init now) in
      if fl_prod_exit f1 = Running then None
      else
        (let f2 = (if fl_errors f1 = [] then turns correl (map ConsumerTurn drain) f1 else f1);
             f3 = turns correl (map ConsumerTurn join) (f2\<lparr>fl_stop := True\<rparr>)
         in Some (finish f3)))"

section \<open>What the recorded calls show\<close>

text \<open>Two adjacent calls that complete a message: it was put or taken, and the next call committed
  cleanly.\<close>

fun completes :: "mqi \<Rightarrow> mqi \<Rightarrow> string list" where
  "completes (MqPut c m Done) (MqCommit Done) = [m]"
| "completes (MqGet m) (MqCommit Done) = [m]"
| "completes _ _ = []"

fun clean :: "mqi list \<Rightarrow> string list" where
  "clean (x # y # r) = completes x y @ clean (y # r)"
| "clean _ = []"

lemma completes_other: "y \<noteq> MqCommit Done \<Longrightarrow> completes x y = []"
  by (cases "(x, y)" rule: completes.cases) auto

lemma clean_append:
  "ys = [] \<or> hd ys \<noteq> MqCommit Done \<Longrightarrow> clean (xs @ ys) = clean xs @ clean ys"
proof (induction xs)
  case (Cons x xs)
  then show ?case by (cases xs; cases ys) (auto simp: completes_other)
qed simp

definition sent_entries :: "Ledger \<Rightarrow> LedgerEntry list" where
  "sent_entries l = filter (\<lambda>e. event e = SENT) (entries l)"

definition confirmed_entries :: "Ledger \<Rightarrow> LedgerEntry list" where
  "confirmed_entries l = filter (\<lambda>e. event e = CONFIRMED) (entries l)"

lemma entries_of_append [simp]:
  "event e = SENT \<Longrightarrow> sent_entries (append_entry l e) = sent_entries l @ [e]"
  "event e \<noteq> SENT \<Longrightarrow> sent_entries (append_entry l e) = sent_entries l"
  "event e = CONFIRMED \<Longrightarrow> confirmed_entries (append_entry l e) = confirmed_entries l @ [e]"
  "event e \<noteq> CONFIRMED \<Longrightarrow> confirmed_entries (append_entry l e) = confirmed_entries l"
  by (simp_all add: sent_entries_def confirmed_entries_def append_entry_def)

section \<open>The producer's invariant\<close>

definition carries :: "string \<Rightarrow> int \<Rightarrow> string \<Rightarrow> bool" where
  "carries m s u \<longleftrightarrow> make_message s u = Inr m \<and> (\<exists>n. u = uuid_hex n)"

definition entry_carried :: "string \<Rightarrow> LedgerEntry \<Rightarrow> bool" where
  "entry_carried m e \<longleftrightarrow> carries m (seq e) (uuid e)"

definition pending_ok :: "Producer \<Rightarrow> bool" where
  "pending_ok p = (case pending p of None \<Rightarrow> True | Some (s, u, m) \<Rightarrow> s = p_seq p \<and> carries m s u)"

definition done_seq :: "Producer \<Rightarrow> int" where
  "done_seq p = (if pending p = None then p_seq p else p_seq p - 1)"

definition puts_keyed :: "string \<Rightarrow> Producer \<Rightarrow> Ledger \<Rightarrow> mqi list \<Rightarrow> bool" where
  "puts_keyed correl p l cs \<longleftrightarrow>
     (\<forall>c m r. MqPut c m r \<in> set cs \<longrightarrow> c = correl \<and>
        ((\<exists>e \<in> set (sent_entries l). entry_carried m e) \<or> (\<exists>s u. pending p = Some (s, u, m))))"

definition prod_ok :: "string \<Rightarrow> Producer \<Rightarrow> Ledger \<Rightarrow> mqi list \<Rightarrow> bool" where
  "prod_ok correl p l cs \<longleftrightarrow>
     0 \<le> done_seq p \<and> map seq (sent_entries l) = [1..done_seq p] \<and> pending_ok p
     \<and> list_all2 entry_carried (clean cs) (sent_entries l) \<and> puts_keyed correl p l cs"

lemmas prod_ok_defs = prod_ok_def done_seq_def pending_ok_def puts_keyed_def

lemma prod_ok_frame:
  "\<lbrakk>prod_ok correl p l cs; sent_entries l' = sent_entries l; p_seq p' = p_seq p; pending p' = pending p\<rbrakk>
   \<Longrightarrow> prod_ok correl p' l' cs"
  unfolding prod_ok_defs by (cases "pending p") auto

lemma ensure_pending_ok:
  assumes "prod_ok correl p l cs" and "ensure_pending env p = Inr p'"
  shows "prod_ok correl p' l cs"
  using assms
  by (auto simp: ensure_pending_def prod_ok_defs carries_def Let_def result_simps split: option.splits)

text \<open>A turn that commits nothing keeps the ledger and the pending message.\<close>

lemma prod_ok_no_commit:
  assumes "prod_ok correl p l cs" and "pending p = Some (s, u, m)"
    and "cs' = [] \<or> hd cs' \<noteq> MqCommit Done" and "clean cs' = []"
    and "\<forall>c m' r. MqPut c m' r \<in> set cs' \<longrightarrow> c = correl \<and> m' = m"
  shows "prod_ok correl p l (cs @ cs')"
proof -
  have "puts_keyed correl p l cs" using assms(1) by (simp add: prod_ok_def)
  then have "puts_keyed correl p l (cs @ cs')"
    using assms(2,5) unfolding puts_keyed_def set_append Un_iff by blast
  then show ?thesis using assms(1,3,4) by (simp add: prod_ok_def clean_append)
qed

lemma producer_error_ok:
  assumes "producer_error env r p = (x, p', cs)"
  shows "p_seq p' = p_seq p" "pending p' = pending p" "cs = [] \<or> (\<exists>o'. cs = [MqDisconnect o'] \<or> cs = [MqBackout o'])"
  using assms by (auto simp: producer_error_def split: if_splits)

lemma record_sent_eq:
  assumes "pending p = Some (s, u, m)" and "record_sent env p l = (p', l')"
  shows "p_seq p' = p_seq p" "pending p' = None"
    "l' = append_entry l \<lparr>event = SENT, seq = s, uuid = u, ts = p_now env\<rparr>"
  using assms by (auto simp: record_sent_def Let_def split: if_splits)

lemma record_sent_ok:
  assumes ok: "prod_ok correl p l cs" and pend: "pending p = Some (s, u, m)"
    and rec: "record_sent env p l = (p', l')"
  shows "prod_ok correl p' l' (cs @ [MqPut correl m Done, MqCommit Done])"
proof -
  note eq = record_sent_eq[OF pend rec]
  from ok pend have s: "s = p_seq p" "carries m s u" "1 \<le> p_seq p"
    by (auto simp: prod_ok_defs)
  have "[1..p_seq p] = [1..p_seq p - 1] @ [p_seq p]"
    using s(3) upto_rec2[of 1 "p_seq p"] by simp
  then show ?thesis
    using ok pend s by (auto simp: eq prod_ok_defs clean_append list_all2_appendI entry_carried_def)
qed

lemma put_pending_ok:
  assumes ok: "prod_ok correl p l cs" and put: "put_pending correl env p l = (x, p', l', cs')"
  shows "prod_ok correl p' l' (cs @ cs')"
proof (cases "pending p")
  case None
  with put ok show ?thesis by (simp add: put_pending_def)
next
  case (Some sum)
  then obtain s u m where pend: "pending p = Some (s, u, m)" by (cases sum) auto
  show ?thesis
  proof (cases "p_put env = Done \<and> p_commit env = Done")
    case True
    with put pend record_sent_ok[OF ok pend] show ?thesis
      by (auto simp: put_pending_def split: prod.splits)
  next
    case False
    then obtain r cs0 where e: "producer_error env r p = (x, p', cs0)" and l': "l' = l"
      and cs': "cs' = MqPut correl m (Failed r) # cs0 \<or> cs' = MqPut correl m Done # MqCommit (Failed r) # cs0"
      using put pend by (auto simp: put_pending_def split: mq_call.splits prod.splits)
    note err = producer_error_ok[OF e]
    have "prod_ok correl p l (cs @ cs')"
      using cs' err(3) by (intro prod_ok_no_commit[OF ok pend]) auto
    then show ?thesis using err l' by (simp add: prod_ok_frame)
  qed
qed

lemma producer_iter_ok:
  assumes ok: "prod_ok correl p l cs" and it: "producer_iter correl env st p l = (x, p', l', cs')"
  shows "prod_ok correl p' l' (cs @ cs')"
proof -
  have conn: "prod_ok correl (p\<lparr>p_conn := True\<rparr>) l cs" using ok by (rule prod_ok_frame) simp_all
  have disc: "prod_ok correl p l (cs @ [MqDisconnect r])" for r
    using ok by (simp add: prod_ok_defs clean_append)
  have work: "prod_ok correl p' l' (cs @ cs')"
    if "prod_ok correl q l cs" "(case ensure_pending env q of
        Inl e \<Rightarrow> (Raised (PyError e), q, l, []) | Inr q' \<Rightarrow> put_pending correl env q' l) = (x, p', l', cs')" for q
    using that put_pending_ok[OF ensure_pending_ok[OF that(1)]] by (auto split: sum.splits)
  from it ok conn disc work[OF ok] work[OF conn] show ?thesis
    by (auto simp: producer_iter_def Let_def split: if_splits connected.splits mq_call.splits)
qed

section \<open>The consumer's invariant\<close>

definition entry_replied :: "string \<Rightarrow> LedgerEntry \<Rightarrow> bool" where
  "entry_replied raw e \<longleftrightarrow>
     (\<exists>b m. split_framed raw = Inr (b, m) \<and> seq e = w_seq m \<and> uuid e = w_uuid m)"

definition cons_ok :: "Ledger \<Rightarrow> mqi list \<Rightarrow> bool" where
  "cons_ok l cs \<longleftrightarrow> list_all2 entry_replied (clean cs) (confirmed_entries l)"

lemma cons_ok_extend:
  "\<lbrakk>cons_ok l cs; cs' = [] \<or> hd cs' \<noteq> MqCommit Done; clean cs' = []; confirmed_entries l' = confirmed_entries l\<rbrakk>
   \<Longrightarrow> cons_ok l' (cs @ cs')"
  by (simp add: cons_ok_def clean_append)

lemma consumer_error_calls:
  assumes "consumer_error env r = (x, k, cs)"
  shows "cs = [] \<or> cs = [MqDisconnect (c_disconnect env)]"
  using assms by (auto simp: consumer_error_def split: if_splits)

lemma take_reply_ok:
  assumes ok: "cons_ok l cs" and t: "take_reply env l = (x, k, l', cs')"
  shows "cons_ok l' (cs @ cs') \<and> sent_entries l' = sent_entries l"
proof (cases "\<exists>raw m. c_get env = Inr raw \<and> parse_reply raw = Inr m \<and> c_commit env = Done")
  case True
  then obtain raw m where g: "c_get env = Inr raw" "parse_reply raw = Inr m" "c_commit env = Done" by auto
  then obtain b where "split_framed raw = Inr (b, m)"
    by (auto simp: parse_reply_def result_simps)
  with g t ok show ?thesis
    by (auto simp: take_reply_def cons_ok_def clean_append entry_replied_def intro!: list_all2_appendI)
next
  case False
  then have l': "l' = l" and cs': "(cs' = [] \<or> hd cs' \<noteq> MqCommit Done) \<and> clean cs' = []"
    using t by (auto simp: take_reply_def split: sum.splits mq_call.splits prod.splits if_splits
        dest!: consumer_error_calls)
  show ?thesis using cons_ok_extend[OF ok] cs' by (simp add: l')
qed

lemma consumer_iter_ok:
  assumes ok: "cons_ok l cs" and it: "consumer_iter env st conn l = (x, k, l', cs')"
  shows "cons_ok l' (cs @ cs') \<and> sent_entries l' = sent_entries l"
  using it take_reply_ok[OF ok, of env x k l' cs'] cons_ok_extend[OF ok, of cs' l] ok
  by (auto simp: consumer_iter_def split: if_splits connected.splits mq_call.splits)

lemma producer_iter_confirmed:
  "producer_iter correl env st p l = (x, p', l', cs') \<Longrightarrow> confirmed_entries l' = confirmed_entries l"
  by (auto simp: producer_iter_def put_pending_def record_sent_def Let_def
      split: if_splits connected.splits mq_call.splits sum.splits option.splits prod.splits)

section \<open>Reachable states\<close>

fun is_raised :: "exit \<Rightarrow> bool" where
  "is_raised (Raised _) = True"
| "is_raised _ = False"

definition flow_ok :: "string \<Rightarrow> Flow \<Rightarrow> bool" where
  "flow_ok correl f \<longleftrightarrow>
     prod_ok correl (fl_prod f) (fl_ledger f) (fl_prod_calls f)
     \<and> cons_ok (fl_ledger f) (fl_cons_calls f)
     \<and> (fl_errors f \<noteq> [] \<longleftrightarrow> is_raised (fl_prod_exit f) \<or> is_raised (fl_cons_exit f))
     \<and> (fl_errors f \<noteq> [] \<longrightarrow> fl_stop f)"

lemma guarded_simps [simp]:
  "fl_prod (guarded n x f) = fl_prod f" "fl_ledger (guarded n x f) = fl_ledger f"
  "fl_prod_calls (guarded n x f) = fl_prod_calls f" "fl_cons_calls (guarded n x f) = fl_cons_calls f"
  "fl_prod_exit (guarded n x f) = fl_prod_exit f" "fl_cons_exit (guarded n x f) = fl_cons_exit f"
  "fl_errors (guarded n x f) = [] \<longleftrightarrow> fl_errors f = [] \<and> \<not> is_raised x"
  "fl_stop (guarded n x f) \<longleftrightarrow> fl_stop f \<or> is_raised x"
  by (simp_all add: guarded_def split: exit.split)

lemma flow_ok_init: "flow_ok correl (flow_init now)"
  by (simp add: flow_ok_def flow_init_def prod_ok_defs cons_ok_def sent_entries_def
      confirmed_entries_def init_ledger_def)

lemma flow_ok_step:
  assumes "flow_ok correl f"
  shows "flow_ok correl (flow_step correl ev f)"
proof (cases ev)
  case (ProducerTurn env)
  obtain x p l cs where it: "producer_iter correl env (fl_stop f) (fl_prod f) (fl_ledger f) = (x, p, l, cs)"
    by (metis prod_cases4)
  have "prod_ok correl p l (fl_prod_calls f @ cs)"
    using assms it by (intro producer_iter_ok) (auto simp: flow_ok_def)
  moreover have "cons_ok l (fl_cons_calls f)"
    using assms producer_iter_confirmed[OF it] by (simp add: flow_ok_def cons_ok_def)
  ultimately show ?thesis
    using assms it by (auto simp: ProducerTurn flow_ok_def)
next
  case (ConsumerTurn env)
  obtain x k l cs where it: "consumer_iter env (fl_stop f) (fl_cons f) (fl_ledger f) = (x, k, l, cs)"
    by (metis prod_cases4)
  have c: "cons_ok l (fl_cons_calls f @ cs)" "sent_entries l = sent_entries (fl_ledger f)"
    using assms it consumer_iter_ok by (auto simp: flow_ok_def)
  moreover have "prod_ok correl (fl_prod f) l (fl_prod_calls f)"
    using assms c(2) by (auto simp: flow_ok_def intro: prod_ok_frame)
  ultimately show ?thesis
    using assms it by (auto simp: ConsumerTurn flow_ok_def)
qed

lemma reach_flow_ok: "reach correl f \<Longrightarrow> flow_ok correl f"
proof (induction rule: reach.induct)
  case (stop f)
  then show ?case by (simp add: flow_ok_def)
qed (simp_all add: flow_ok_init flow_ok_step del: flow_step.simps)

lemma reach_turns: "reach correl f \<Longrightarrow> reach correl (turns correl evs f)"
  by (induction evs arbitrary: f) (auto simp: turns_def intro: reach.turn)

text \<open>What \<open>main\<close> reports is a reachable state in which the producer has returned.\<close>

lemma prod_exit_turns:
  "fl_prod_exit f \<noteq> Running \<Longrightarrow> fl_prod_exit (turns correl (map ConsumerTurn es) f) = fl_prod_exit f"
proof (induction es arbitrary: f)
  case (Cons e es)
  have "fl_prod_exit (flow_step correl (ConsumerTurn e) f) = fl_prod_exit f"
    by (simp split: prod.split)
  with Cons show ?case by (simp add: turns_def del: flow_step.simps)
qed (simp add: turns_def)

lemma flow_main_reach:
  assumes "flow_main correl now evs drain join = Some r"
  obtains f where "reach correl f" "r = finish f" "fl_prod_exit f \<noteq> Running" "fl_stop f"
proof -
  define f1 where "f1 = turns correl evs (flow_init now)"
  define f2 where "f2 = (if fl_errors f1 = [] then turns correl (map ConsumerTurn drain) f1 else f1)"
  define f3 where "f3 = turns correl (map ConsumerTurn join) (f2\<lparr>fl_stop := True\<rparr>)"
  from assms have r: "r = finish f3" and ex: "fl_prod_exit f1 \<noteq> Running"
    by (auto simp: flow_main_def f1_def[symmetric] f2_def[symmetric] f3_def[symmetric] Let_def split: if_splits)
  have reach1: "reach correl f1" unfolding f1_def by (intro reach_turns reach.start)
  have reach2: "reach correl f2" unfolding f2_def using reach1 reach_turns by simp
  have reach3: "reach correl f3" unfolding f3_def by (intro reach_turns reach.stop reach2)
  have "fl_prod_exit f2 \<noteq> Running" using ex prod_exit_turns f2_def by simp
  then have ex3: "fl_prod_exit f3 \<noteq> Running" using prod_exit_turns f3_def by simp
  have "fl_stop (turns correl es f)" if "fl_stop f" for es f
    using that
  proof (induction es arbitrary: f)
    case (Cons e es)
    have "fl_stop (flow_step correl e f)" using Cons.prems by (cases e) (auto split: prod.split)
    with Cons show ?case by (simp add: turns_def del: flow_step.simps)
  qed (simp add: turns_def)
  then have "fl_stop f3" by (simp add: f3_def)
  with that r reach3 ex3 show ?thesis by blast
qed

section \<open>What a request carries\<close>

lemma hex_digits_char: "c \<in> set (hex_digits k n) \<Longrightarrow> \<exists>d < 16. c = hex_digit d"
proof (induction k n rule: hex_digits.induct)
  case (2 k n)
  moreover have "n mod 16 < 16" by simp
  ultimately show ?case by (simp only: hex_digits.simps set_append Un_iff list.set) blast
qed simp

lemma uuid_hex_chars: "c \<in> set (uuid_hex n) \<Longrightarrow> (of_char c :: nat) < 123 \<and> c \<noteq> CHR ''|''"
proof -
  assume "c \<in> set (uuid_hex n)"
  then obtain d where d: "d < 16" "c = hex_digit d" using hex_digits_char unfolding uuid_hex_def by blast
  then have "(of_char c :: nat) < 123" by (auto simp: hex_digit_def)
  then show ?thesis by auto
qed

lemma carries_framed:
  assumes "carries m s u"
  shows "\<exists>b t. split_framed m = Inr (b, \<lparr>w_seq = s, w_uuid = u, w_session_date = ''20260608'', w_payload = t\<rparr>)"
proof -
  from assms obtain n t body h where u: "u = uuid_hex n" and t: "py_str_int s = Some t"
    and b: "build_body s u ''20260608'' (''MSG-'' @ t) = Inr body"
    and h: "pack_header ''pw'' ''APP01'' ''SVC'' ''20260608'' = Inr h" and m: "m = h @ body"
    by (auto simp: carries_def make_message_def result_simps split: option.splits)
  have ascii: "\<forall>c \<in> set t. (of_char c :: nat) < 128"
    using t int_str_chars by (fastforce simp: py_str_int_def split: if_splits)
  have "utf8_valid (''MSG-'' @ t)" by (rule utf8_valid_ascii) (use ascii in auto)
  moreover have "utf8_valid u" by (rule utf8_valid_ascii) (use u uuid_hex_chars in fastforce)
  moreover have "utf8_valid ''20260608''" by code_simp
  ultimately have "parse_body body = Inr \<lparr>w_seq = s, w_uuid = u, w_session_date = ''20260608'', w_payload = ''MSG-'' @ t\<rparr>"
    using b u uuid_hex_chars by (intro parse_build_body) auto
  moreover have "CHR ''|'' \<notin> set h" by (rule pack_header_no_bar[OF h]) simp
  ultimately show ?thesis using m split_framed_frame by blast
qed

lemma carries_unique: "carries m s u \<Longrightarrow> carries m' s u \<Longrightarrow> m' = m"
  by (simp add: carries_def)

lemma puts_in_range:
  assumes "flow_ok correl f" and "MqPut c m r \<in> set (fl_prod_calls f)"
  obtains s u where "carries m s u" "c = correl"
    "(\<exists>e \<in> set (sent_entries (fl_ledger f)). seq e = s \<and> uuid e = u) \<or> pending (fl_prod f) = Some (s, u, m)"
proof -
  have keyed: "puts_keyed correl (fl_prod f) (fl_ledger f) (fl_prod_calls f)" "pending_ok (fl_prod f)"
    using assms(1) by (auto simp: flow_ok_def prod_ok_def)
  then consider (sent) e where "c = correl" "e \<in> set (sent_entries (fl_ledger f))" "entry_carried m e"
    | (pend) s u where "c = correl" "pending (fl_prod f) = Some (s, u, m)"
    using assms(2) unfolding puts_keyed_def by blast
  then show thesis
  proof cases
    case sent
    then show ?thesis using that[of "seq e" "uuid e"] by (auto simp: entry_carried_def)
  next
    case pend
    then show ?thesis using that[of s u] keyed(2) by (auto simp: pending_ok_def)
  qed
qed

lemma sent_by_seq:
  assumes "flow_ok correl f" and "e \<in> set (sent_entries (fl_ledger f))" and "e' \<in> set (sent_entries (fl_ledger f))"
    and "seq e = seq e'"
  shows "e = e'"
proof -
  have "distinct (map seq (sent_entries (fl_ledger f)))"
    using assms(1) by (simp add: flow_ok_def prod_ok_def)
  with assms show ?thesis by (meson distinct_map inj_onD)
qed

lemma sent_below:
  assumes "flow_ok correl f"
  shows "e \<in> set (sent_entries (fl_ledger f)) \<Longrightarrow> 1 \<le> seq e \<and> seq e \<le> done_seq (fl_prod f)"
proof -
  assume "e \<in> set (sent_entries (fl_ledger f))"
  then have "seq e \<in> set (map seq (sent_entries (fl_ledger f)))" by simp
  with assms show ?thesis by (simp add: flow_ok_def prod_ok_def)
qed

text \<open>A run in which the second request's commit is in doubt (2549) and then its connection breaks, so
  it is put three times; the first request's reply is confirmed.\<close>

definition sample_turn :: "nat \<Rightarrow> mq_call \<Rightarrow> mq_call \<Rightarrow> flow_event" where
  "sample_turn n r1 r2 = ProducerTurn
     \<lparr>p_in_time = True, p_connect = [(True, Failed 2059), (True, Done)], p_open = Done, p_uuid = n,
      p_put = r1, p_commit = r2, p_disconnect = Failed 2009, p_backout = Done, p_now = 1,
      p_mono = 1, p_mono_after = 1\<rparr>"

definition sample_reply :: "string \<Rightarrow> flow_event" where
  "sample_reply raw = ConsumerTurn
     \<lparr>c_connect = [(True, Done)], c_open = Done, c_get = Inr raw, c_backout = Done, c_commit = Done,
      c_disconnect = Done, c_now = 2\<rparr>"

definition sample_flow :: Flow where
  "sample_flow = turns ''run''
     [sample_turn 7 Done Done, sample_turn 8 Done (Failed 2549), sample_turn 9 (Failed 2009) Done,
      sample_reply ''pw      SVC     APP01   20260608DRv1|1|00000000000000000000000000000007|20260608|MSG-1'',
      sample_turn 10 Done Done]
     (flow_init 0)"

lemma sample_reach: "reach ''run'' sample_flow"
  unfolding sample_flow_def by (intro reach_turns reach.start)

lemma sample_eval:
  "done_seq (fl_prod sample_flow) = 2" "length (clean (fl_prod_calls sample_flow)) = 2"
  "length (fl_prod_calls sample_flow) = 8" "map seq (confirmed_entries (fl_ledger sample_flow)) = [1]"
  by code_simp+

section \<open>Properties\<close>

text \<open>C2: in every reachable state of the two threads the ledger is exactly what the queue manager
  acknowledged: the SENT entries are numbered 1, 2, ... in order without a gap, one for each request
  whose put and commit both returned cleanly, carrying that request's number and identifier; the
  CONFIRMED entries are, in order, the replies taken and committed cleanly, with the number and
  identifier found in the reply.\<close>

theorem flow_ledger_exact:
  assumes "reach correl f"
  shows "map seq (sent_entries (fl_ledger f)) = [1..done_seq (fl_prod f)]
    \<and> list_all2 entry_replied (clean (fl_prod_calls f)) (sent_entries (fl_ledger f))
    \<and> list_all2 entry_replied (clean (fl_cons_calls f)) (confirmed_entries (fl_ledger f))"
proof -
  have ok: "flow_ok correl f" using assms by (rule reach_flow_ok)
  have "entry_replied m e" if "entry_carried m e" for m e
    using carries_framed[of m "seq e" "uuid e"] that by (auto simp: entry_carried_def entry_replied_def)
  moreover have "list_all2 entry_carried (clean (fl_prod_calls f)) (sent_entries (fl_ledger f))"
    using ok by (simp add: flow_ok_def prod_ok_def)
  ultimately have "list_all2 entry_replied (clean (fl_prod_calls f)) (sent_entries (fl_ledger f))"
    by (blast intro: list_all2_mono)
  then show ?thesis using ok by (auto simp: flow_ok_def prod_ok_def cons_ok_def)
qed

theorem flow_ledger_exact_witness:
  "reach ''run'' sample_flow
   \<and> map seq (sent_entries (fl_ledger sample_flow)) = [1..done_seq (fl_prod sample_flow)]
   \<and> done_seq (fl_prod sample_flow) = 2 \<and> length (clean (fl_prod_calls sample_flow)) = 2
   \<and> length (fl_prod_calls sample_flow) = 8 \<and> map seq (confirmed_entries (fl_ledger sample_flow)) = [1]"
proof -
  from flow_ledger_exact[OF sample_reach] sample_reach sample_eval show ?thesis by simp
qed

text \<open>C3: no silent loss and no silent re-key across failovers: two puts of one request number are
  byte-identical, however many connections were rebuilt in between; every put carries the run's
  CorrelId; every number put is recorded SENT or is the one message still pending; and the pending
  one is the next number.\<close>

theorem flow_resends_same_message:
  assumes "reach correl f"
    and "MqPut c m r \<in> set (fl_prod_calls f)" and "split_framed m = Inr (b, w)"
    and "MqPut c' m' r' \<in> set (fl_prod_calls f)" and "split_framed m' = Inr (b', w')"
  shows "(w_seq w = w_seq w' \<longrightarrow> m = m') \<and> c = correl
    \<and> 1 \<le> w_seq w \<and> w_seq w \<le> done_seq (fl_prod f) + 1
    \<and> (w_seq w \<in> sent_seqs (fl_ledger f) \<or> pending (fl_prod f) = Some (w_seq w, w_uuid w, m))"
proof -
  have ok: "flow_ok correl f" using assms(1) by (rule reach_flow_ok)
  from puts_in_range[OF ok assms(2)] obtain s u where su: "carries m s u" "c = correl"
    "(\<exists>e \<in> set (sent_entries (fl_ledger f)). seq e = s \<and> uuid e = u) \<or> pending (fl_prod f) = Some (s, u, m)" .
  from puts_in_range[OF ok assms(4)] obtain s' u' where su': "carries m' s' u'"
    "(\<exists>e \<in> set (sent_entries (fl_ledger f)). seq e = s' \<and> uuid e = u') \<or> pending (fl_prod f) = Some (s', u', m')" .
  have w: "w_seq w = s" "w_uuid w = u" "w_seq w' = s'"
    using carries_framed[OF su(1)] carries_framed[OF su'(1)] assms(3,5) by auto
  have pend: "s0 = done_seq (fl_prod f) + 1 \<and> 1 \<le> s0" if "pending (fl_prod f) = Some (s0, u0, m0)" for s0 u0 m0
    using ok that by (auto simp: flow_ok_def prod_ok_defs)
  have below: "1 \<le> seq e \<and> seq e \<le> done_seq (fl_prod f)" if "e \<in> set (sent_entries (fl_ledger f))" for e
    using sent_below[OF ok that] .
  have same: "m = m'" if "s = s'"
  proof -
    have "u = u'"
      using su(3) su'(2) that pend below sent_by_seq[OF ok] by fastforce
    with su(1) su'(1) that show ?thesis by (simp add: carries_unique)
  qed
  have "s \<in> sent_seqs (fl_ledger f) \<or> pending (fl_prod f) = Some (s, u, m)"
    using su(3) by (auto simp: sent_seqs_def sent_entries_def)
  moreover have "1 \<le> s \<and> s \<le> done_seq (fl_prod f) + 1"
    using su(3) pend below by fastforce
  ultimately show ?thesis using w su(2) same by auto
qed

theorem flow_resends_same_message_witness:
  "\<exists>m. MqPut ''run'' m Done \<in> set (fl_prod_calls sample_flow)
     \<and> MqPut ''run'' m (Failed 2009) \<in> set (fl_prod_calls sample_flow)
     \<and> (\<exists>b w. split_framed m = Inr (b, w) \<and> w_seq w = 2 \<and> w_seq w \<in> sent_seqs (fl_ledger sample_flow))"
proof -
  define m where "m = ''pw      APP01   SVC     20260608DRv1|2|00000000000000000000000000000008|20260608|MSG-2''"
  define m' where "m' = hd (rev (clean (fl_prod_calls sample_flow)))"
  have put: "MqPut ''run'' m (Failed 2009) \<in> set (fl_prod_calls sample_flow)"
    "MqPut ''run'' m' Done \<in> set (fl_prod_calls sample_flow)"
    unfolding m_def m'_def by code_simp+
  have w: "split_framed m = Inr (drop 32 m,
      \<lparr>w_seq = 2, w_uuid = ''00000000000000000000000000000008'', w_session_date = ''20260608'', w_payload = ''MSG-2''\<rparr>)"
    and w': "split_framed m' = Inr (drop 32 m',
      \<lparr>w_seq = 2, w_uuid = ''00000000000000000000000000000008'', w_session_date = ''20260608'', w_payload = ''MSG-2''\<rparr>)"
    unfolding m_def m'_def by code_simp+
  have pend: "pending (fl_prod sample_flow) = None" by code_simp
  from flow_resends_same_message[OF sample_reach put(1) w put(2) w'] put pend w show ?thesis by auto
qed

text \<open>\<open>mq-dr-flow\<close> fails loud and leaves its evidence: the exit code is 1 exactly when one of the
  threads ended in an exception (a stray reply without a DR body included), the file it writes reads
  back as the shared ledger, and the number of messages it reports as sent is the number of requests
  it numbered and committed.\<close>

theorem flow_main_fails_loud:
  assumes "flow_main correl now evs drain join = Some r"
  shows "\<exists>f. reach correl f \<and> fl_prod_exit f \<noteq> Running
    \<and> (fr_code r = 0 \<or> fr_code r = 1)
    \<and> (fr_code r = 1 \<longleftrightarrow> is_raised (fl_prod_exit f) \<or> is_raised (fl_cons_exit f))
    \<and> (fr_code r = 0 \<longleftrightarrow> fr_errors r = [])
    \<and> read_jsonl (Some (fr_file r)) = Inr (fl_ledger f)
    \<and> int (fr_sent r) = done_seq (fl_prod f)"
proof -
  from assms obtain f where f: "reach correl f" "r = finish f" "fl_prod_exit f \<noteq> Running"
    by (rule flow_main_reach)
  have ok: "flow_ok correl f" using f(1) by (rule reach_flow_ok)
  have "sent_seqs (fl_ledger f) = set (map seq (sent_entries (fl_ledger f)))"
    by (auto simp: sent_seqs_def sent_entries_def)
  also have "\<dots> = {1..done_seq (fl_prod f)}" using ok by (simp add: flow_ok_def prod_ok_def)
  finally have "int (card (sent_seqs (fl_ledger f))) = done_seq (fl_prod f)"
    using ok by (simp add: flow_ok_def prod_ok_def)
  with f ok show ?thesis
    by (intro exI[of _ f]) (auto simp: finish_def flow_ok_def read_written)
qed

theorem flow_main_fails_loud_witness:
  "\<exists>r f. flow_main ''run'' 0 [sample_turn 7 Done Done, sample_reply ''noise'', sample_turn 8 Done Done] [] [] = Some r
     \<and> fr_code r = 1 \<and> reach ''run'' f \<and> read_jsonl (Some (fr_file r)) = Inr (fl_ledger f)
     \<and> done_seq (fl_prod f) = 1"
proof -
  define res where "res = flow_main ''run'' 0 [sample_turn 7 Done Done, sample_reply ''noise'', sample_turn 8 Done Done] [] []"
  have "res \<noteq> None \<and> map_option fr_code res = Some 1 \<and> map_option fr_sent res = Some 1"
    unfolding res_def by code_simp
  then obtain r where r: "res = Some r" "fr_code r = 1" "fr_sent r = 1" by auto
  from flow_main_fails_loud[OF r(1)[unfolded res_def]] r show ?thesis unfolding res_def by auto
qed

end
