(* ===== verification/DR_Responder.thy ===== *)
theory DR_Responder
  imports DR_Flow
begin

text \<open>
  The service-side Watcher \<open>mqrc/dr_responder.py\<close>: the get/reply/commit loop on one connection
  (\<open>_serve\<close>), the loop that rebuilds the connection (\<open>_run\<close>) with its backout, disconnect and final
  write, and \<open>main\<close>. Outcomes of MQI calls and clock readings are arguments, as in the flow client.
\<close>

section \<open>Definitions\<close>

record serve_args =
  a_qm :: string
  a_in_queue :: string

record serve_env =
  s_in_time :: bool
  s_get :: "int + (string \<times> MD)"
  s_dl :: dl_env
  s_put :: mq_call
  s_commit :: mq_call
  s_now :: rat
  s_now' :: rat
  s_mono :: rat
  s_mono_after :: rat

record Watcher =
  w_ledger :: Ledger
  w_last_flush :: rat
  w_file :: "jline list option"

definition WHO :: string where
  "WHO = ''dr-responder''"

text \<open>The common handler: a rolled-back or in-doubt unit of work is retried, the rest is raised.\<close>

definition serve_error :: "int \<Rightarrow> exit" where
  "serve_error r =
     (if r \<in> set RETRY_INPLACE \<or> r = CALL_INTERRUPTED then Running else Raised (MQMIError r))"

definition record_served :: "serve_env \<Rightarrow> WireMessage \<Rightarrow> Watcher \<Rightarrow> Watcher" where
  "record_served env m w =
     (let l = append_entry
                (append_entry (w_ledger w) \<lparr>event = RECEIVED, seq = w_seq m, uuid = w_uuid m, ts = s_now env\<rparr>)
                \<lparr>event = REPLIED, seq = w_seq m, uuid = w_uuid m, ts = s_now' env\<rparr>
      in if fl (s_mono env - w_last_flush w) > 2
         then w\<lparr>w_ledger := l, w_file := Some (write_jsonl l), w_last_flush := s_mono_after env\<rparr>
         else w\<lparr>w_ledger := l\<rparr>)"

definition serve_foreign ::
  "serve_args \<Rightarrow> MD \<Rightarrow> serve_env \<Rightarrow> string \<Rightarrow> MD \<Rightarrow> exit \<times> mqi list" where
  "serve_foreign args md0 env raw md =
     (case dead_letter (s_dl env) md0 (a_qm args) (a_in_queue args) md raw (MQFB_APPL_FIRST (s_dl env)) WHO of
        (Inl (MQMIError r), cs) \<Rightarrow> (serve_error r, MqGet raw # cs)
      | (Inl e, cs) \<Rightarrow> (Raised e, MqGet raw # cs)
      | (Inr _, cs) \<Rightarrow>
          (case s_commit env of
             Done \<Rightarrow> (Running, MqGet raw # cs @ [MqCommit Done])
           | Failed r \<Rightarrow> (serve_error r, MqGet raw # cs @ [MqCommit (Failed r)])))"

definition serve_request ::
  "serve_env \<Rightarrow> string \<Rightarrow> MD \<Rightarrow> string \<Rightarrow> WireMessage \<Rightarrow> Watcher \<Rightarrow> exit \<times> Watcher \<times> mqi list" where
  "serve_request env raw md body m w =
     (case pack_header ''pw'' ''SVC'' ''APP01'' (w_session_date m) of
        Inl e \<Rightarrow> (Raised (PyError e), w, [MqGet raw])
      | Inr header \<Rightarrow>
          (let reply = header @ body in
           case s_put env of
             Failed r \<Rightarrow> (serve_error r, w, [MqGet raw, MqPut (CorrelId md) reply (Failed r)])
           | Done \<Rightarrow>
               (case s_commit env of
                  Failed r \<Rightarrow>
                    (serve_error r, w,
                     [MqGet raw, MqPut (CorrelId md) reply Done, MqCommit (Failed r)])
                | Done \<Rightarrow>
                    (Running, record_served env m w,
                     [MqGet raw, MqPut (CorrelId md) reply Done, MqCommit Done]))))"

definition serve_turn ::
  "serve_args \<Rightarrow> MD \<Rightarrow> serve_env \<Rightarrow> Watcher \<Rightarrow> exit \<times> Watcher \<times> mqi list" where
  "serve_turn args md0 env w =
     (if \<not> s_in_time env then (Finished, w, [])
      else case s_get env of
        Inl r \<Rightarrow> (if r = MQRC_NO_MSG_AVAILABLE then Running else serve_error r, w, [])
      | Inr (raw, md) \<Rightarrow>
          (case split_framed raw of
             Inl _ \<Rightarrow> (case serve_foreign args md0 env raw md of (x, cs) \<Rightarrow> (x, w, cs))
           | Inr (body, m) \<Rightarrow> serve_request env raw md body m w))"

text \<open>\<open>_serve\<close> over the turns the outside supplies; \<open>Running\<close> when they end before it does.\<close>

fun serve ::
  "serve_args \<Rightarrow> MD \<Rightarrow> serve_env list \<Rightarrow> Watcher \<Rightarrow> exit \<times> Watcher \<times> mqi list" where
  "serve args md0 [] w = (Running, w, [])"
| "serve args md0 (env # envs) w =
     (case serve_turn args md0 env w of
        (Running, w', cs) \<Rightarrow>
          (case serve args md0 envs w' of (x, w'', cs') \<Rightarrow> (x, w'', cs @ cs'))
      | (x, w', cs) \<Rightarrow> (x, w', cs))"

record run_env =
  r_in_time :: bool
  r_connect :: "(bool \<times> mq_call) list"
  r_open_in :: mq_call
  r_open_out :: mq_call
  r_mono :: rat
  r_turns :: "serve_env list"
  r_backout :: mq_call
  r_disconnect :: mq_call

definition serve_connection ::
  "serve_args \<Rightarrow> MD \<Rightarrow> run_env \<Rightarrow> Watcher \<Rightarrow> exit \<times> Watcher \<times> mqi list" where
  "serve_connection args md0 env w =
     (case r_open_in env of
        Failed r \<Rightarrow> (Raised (MQMIError r), w, [])
      | Done \<Rightarrow>
          (case r_open_out env of
             Failed r \<Rightarrow> (Raised (MQMIError r), w, [])
           | Done \<Rightarrow> serve args md0 (r_turns env) (w\<lparr>w_last_flush := r_mono env\<rparr>)))"

text \<open>The \<open>finally\<close> clause writes the ledger.\<close>

definition write_ledger :: "Watcher \<Rightarrow> Watcher" where
  "write_ledger w = w\<lparr>w_file := Some (write_jsonl (w_ledger w))\<rparr>"

fun run :: "serve_args \<Rightarrow> MD \<Rightarrow> run_env list \<Rightarrow> Watcher \<Rightarrow> exit \<times> Watcher \<times> mqi list" where
  "run args md0 [] w = (Running, w, [])"
| "run args md0 (env # envs) w =
     (if \<not> r_in_time env then (Finished, write_ledger w, [])
      else case connect_retry (r_connect env) of
        Waiting \<Rightarrow> (Running, w, [])
      | GaveUp \<Rightarrow> (Finished, write_ledger w, [])
      | ConnectRaised r \<Rightarrow> (Raised (MQMIError r), write_ledger w, [])
      | Connected \<Rightarrow>
          (case serve_connection args md0 env w of
             (Running, w', cs) \<Rightarrow> (Running, w', cs)
           | (Finished, w', cs) \<Rightarrow> (Finished, write_ledger w', cs @ [MqDisconnect (r_disconnect env)])
           | (Raised e, w', cs) \<Rightarrow>
               if (\<exists>r \<in> set RECONNECT. e = MQMIError r) then
                 (case run args md0 envs w' of
                    (x, w'', cs') \<Rightarrow> (x, w'', cs @ MqDisconnect (r_disconnect env) # cs'))
               else
                 (Raised e, write_ledger w',
                  cs @ [MqBackout (r_backout env), MqDisconnect (r_disconnect env)])))"

text \<open>\<open>main\<close>: the exit code, or the exception that leaves the program; \<open>None\<close> while it runs.\<close>

definition responder_main ::
  "serve_args \<Rightarrow> MD \<Rightarrow> rat \<Rightarrow> run_env list \<Rightarrow> (client_error, int \<times> nat) result option \<times> Watcher" where
  "responder_main args md0 now envs =
     (case run args md0 envs \<lparr>w_ledger = init_ledger None, w_last_flush = now, w_file = None\<rparr> of
        (Running, w, _) \<Rightarrow> (None, w)
      | (Finished, w, _) \<Rightarrow> (Some (Inr (0, card (dom (svc_receive_counts (w_ledger w))))), w)
      | (Raised NoDeadLetterQueueError, w, _) \<Rightarrow> (Some (Inr (1, 0)), w)
      | (Raised e, w, _) \<Rightarrow> (Some (Inl e), w))"

section \<open>The ledger and the calls\<close>

definition served_ok :: "Ledger \<Rightarrow> mqi list \<Rightarrow> bool" where
  "served_ok l cs \<longleftrightarrow>
     (\<exists>ps. entries l = concat (map (\<lambda>(a, b). [a, b]) ps)
        \<and> list_all2 (\<lambda>reply (a, b). event a = RECEIVED \<and> event b = REPLIED
             \<and> entry_replied reply a \<and> entry_replied reply b) (clean cs) ps)"

lemma served_ok_extend:
  "\<lbrakk>served_ok l cs; cs' = [] \<or> hd cs' \<noteq> MqCommit Done; clean cs' = []\<rbrakk> \<Longrightarrow> served_ok l (cs @ cs')"
  by (simp add: served_ok_def clean_append)

lemma record_served_ledger:
  "w_ledger (record_served env m w) = \<lparr>entries = entries (w_ledger w) @
     [\<lparr>event = RECEIVED, seq = w_seq m, uuid = w_uuid m, ts = s_now env\<rparr>,
      \<lparr>event = REPLIED, seq = w_seq m, uuid = w_uuid m, ts = s_now' env\<rparr>]\<rparr>"
  by (cases "w_ledger w") (simp add: record_served_def append_entry_def Let_def)

text \<open>The reply frames the request's body, so it carries the same number and identifier.\<close>

lemma reply_carries:
  assumes "split_framed raw = Inr (body, m)" and "pack_header ''pw'' ''SVC'' ''APP01'' (w_session_date m) = Inr h"
  shows "split_framed (h @ body) = Inr (body, m)"
proof -
  from assms(1) obtain t where parse: "parse_body body = Inr m"
    and sp: "split_max CHR ''|'' 4 body = [PREFIX, t, w_uuid m, w_session_date m, w_payload m]"
    by (auto simp: split_framed_def result_simps Let_def parse_body_eq split: option.splits)
  from split_max_three[OF sp] have "CHR ''|'' \<notin> set h"
    by (intro pack_header_no_bar[OF assms(2)]) simp
  then show ?thesis using parse by (rule split_framed_frame)
qed

lemma serve_foreign_calls:
  assumes "serve_foreign args md0 env raw md = (x, cs)"
  shows "clean cs = [] \<and> hd cs = MqGet raw \<and> cs \<noteq> []"
proof -
  obtain r ds where d: "dead_letter (s_dl env) md0 (a_qm args) (a_in_queue args) md raw (MQFB_APPL_FIRST (s_dl env)) WHO = (r, ds)"
    by fastforce
  have ds: "ds = [] \<or> (\<exists>n b c r'. ds = [MqDlqPut n b c r'])" and
    put: "r = Inr () \<Longrightarrow> \<exists>n b c. ds = [MqDlqPut n b c Done]"
    using d by (auto simp: dead_letter_def Let_def split: sum.splits mq_call.splits if_splits)
  show ?thesis
  proof (cases r)
    case (Inl e)
    with assms d ds show ?thesis by (cases e) (auto simp: serve_foreign_def)
  next
    case (Inr u)
    with assms d put show ?thesis by (auto simp: serve_foreign_def split: mq_call.splits)
  qed
qed

lemma serve_turn_ok:
  assumes ok: "served_ok (w_ledger w) cs" and t: "serve_turn args md0 env w = (x, w', cs')"
  shows "served_ok (w_ledger w') (cs @ cs')"
proof (cases "cs' = []")
  case True
  with t ok show ?thesis
    by (auto simp: serve_turn_def serve_request_def Let_def split: if_splits sum.splits prod.splits mq_call.splits
        dest!: serve_foreign_calls)
next
  case False
  with t obtain raw md where g: "s_in_time env" "s_get env = Inr (raw, md)"
    by (auto simp: serve_turn_def split: if_splits sum.splits)
  show ?thesis
  proof (cases "split_framed raw")
    case (Inl e)
    with t g have "w' = w" "serve_foreign args md0 env raw md = (x, cs')"
      by (auto simp: serve_turn_def split: prod.splits)
    with ok serve_foreign_calls show ?thesis by (auto intro: served_ok_extend)
  next
    case (Inr bm)
    then obtain body m where bm: "split_framed raw = Inr (body, m)" by (cases bm) auto
    with t g have req: "serve_request env raw md body m w = (x, w', cs')" by (simp add: serve_turn_def)
    show ?thesis
    proof (cases "\<exists>h. pack_header ''pw'' ''SVC'' ''APP01'' (w_session_date m) = Inr h \<and> s_put env = Done \<and> s_commit env = Done")
      case True
      then obtain h where h: "pack_header ''pw'' ''SVC'' ''APP01'' (w_session_date m) = Inr h"
        "s_put env = Done" "s_commit env = Done" by blast
      from reply_carries[OF bm h(1)] have "entry_replied (h @ body) \<lparr>event = ev, seq = w_seq m, uuid = w_uuid m, ts = n\<rparr>" for ev n
        by (auto simp: entry_replied_def)
      moreover have "clean cs' = [h @ body] \<and> hd cs' = MqGet raw \<and> w' = record_served env m w"
        using req h by (auto simp: serve_request_def Let_def)
      moreover obtain ps where "entries (w_ledger w) = concat (map (\<lambda>(a, b). [a, b]) ps)"
        "list_all2 (\<lambda>reply (a, b). event a = RECEIVED \<and> event b = REPLIED
             \<and> entry_replied reply a \<and> entry_replied reply b) (clean cs) ps"
        using ok by (auto simp: served_ok_def)
      ultimately show ?thesis
        unfolding served_ok_def
        by (intro exI[of _ "ps @ [(\<lparr>event = RECEIVED, seq = w_seq m, uuid = w_uuid m, ts = s_now env\<rparr>,
            \<lparr>event = REPLIED, seq = w_seq m, uuid = w_uuid m, ts = s_now' env\<rparr>)]"])
           (simp add: clean_append record_served_ledger list_all2_appendI)
    next
      case False
      then have "w' = w \<and> clean cs' = [] \<and> hd cs' = MqGet raw"
        using req by (auto simp: serve_request_def Let_def split: sum.splits mq_call.splits)
      with ok show ?thesis by (auto intro: served_ok_extend)
    qed
  qed
qed

lemma serve_ok:
  "\<lbrakk>served_ok (w_ledger w) cs; serve args md0 envs w = (x, w', cs')\<rbrakk>
   \<Longrightarrow> served_ok (w_ledger w') (cs @ cs')"
proof (induction envs arbitrary: w cs cs')
  case (Cons env envs)
  obtain x1 w1 cs1 where t: "serve_turn args md0 env w = (x1, w1, cs1)" by (metis prod_cases3)
  have ok1: "served_ok (w_ledger w1) (cs @ cs1)" using serve_turn_ok[OF Cons.prems(1) t] .
  show ?case
  proof (cases "x1 = Running")
    case True
    with Cons.prems(2) t obtain cs2 where "serve args md0 envs w1 = (x, w', cs2)" "cs' = cs1 @ cs2"
      by (auto split: prod.splits)
    with Cons.IH[OF ok1] show ?thesis by simp
  next
    case False
    with Cons.prems(2) t ok1 show ?thesis by (auto split: exit.splits)
  qed
qed simp

lemma serve_connection_ok:
  "\<lbrakk>served_ok (w_ledger w) cs; serve_connection args md0 env w = (x, w', cs')\<rbrakk>
   \<Longrightarrow> served_ok (w_ledger w') (cs @ cs')"
  using serve_ok[of "w\<lparr>w_last_flush := r_mono env\<rparr>"]
  by (auto simp: serve_connection_def split: mq_call.splits)

lemma write_ledger_simps [simp]:
  "w_ledger (write_ledger w) = w_ledger w" "w_file (write_ledger w) = Some (write_jsonl (w_ledger w))"
  by (simp_all add: write_ledger_def)

lemma run_ok:
  "\<lbrakk>served_ok (w_ledger w) cs; run args md0 envs w = (x, w', cs')\<rbrakk>
   \<Longrightarrow> served_ok (w_ledger w') (cs @ cs')"
proof (induction envs arbitrary: w cs cs')
  case (Cons env envs)
  show ?case
  proof (cases "r_in_time env \<and> connect_retry (r_connect env) = Connected")
    case False
    with Cons.prems show ?thesis by (auto split: if_splits connected.splits)
  next
    case True
    obtain x1 w1 cs1 where t: "serve_connection args md0 env w = (x1, w1, cs1)" by (metis prod_cases3)
    have ok1: "served_ok (w_ledger w1) (cs @ cs1)" using serve_connection_ok[OF Cons.prems(1) t] .
    have more: "served_ok (w_ledger w1) (cs @ cs1 @ [MqDisconnect d])"
      "served_ok (w_ledger w1) (cs @ cs1 @ [MqBackout d', MqDisconnect d])" for d d'
      using served_ok_extend[OF ok1, of "[MqDisconnect d]"]
        served_ok_extend[OF ok1, of "[MqBackout d', MqDisconnect d]"] by simp_all
    show ?thesis
    proof (cases "\<exists>r \<in> set RECONNECT. x1 = Raised (MQMIError r)")
      case lost: True
      with Cons.prems(2) True t obtain cs2 where
        "run args md0 envs w1 = (x, w', cs2)" "cs' = cs1 @ MqDisconnect (r_disconnect env) # cs2"
        by (auto split: prod.splits)
      with Cons.IH[OF more(1)] show ?thesis by simp
    next
      case False
      with Cons.prems(2) True t ok1 more show ?thesis
        by (auto split: exit.splits if_splits)
    qed
  qed
qed simp

text \<open>What one turn of the loop does with the message it took.\<close>

lemma serve_foreign_moves:
  assumes "serve_foreign args md0 env raw md = (x, cs)" and "MqCommit Done \<in> set cs"
  shows "\<exists>v. dl_inquire (s_dl env) = Inr v \<and> mqchar v \<noteq> []
     \<and> cs = [MqGet raw, MqDlqPut (mqchar v) (dl_descriptor (s_dl env) md0 md)
          (dlh_pack (s_dl env) (dl_header (s_dl env) (a_qm args) (a_in_queue args) md
             (MQFB_APPL_FIRST (s_dl env)) WHO) @ raw) Done, MqCommit Done]"
proof -
  obtain r ds where d: "dead_letter (s_dl env) md0 (a_qm args) (a_in_queue args) md raw (MQFB_APPL_FIRST (s_dl env)) WHO = (r, ds)"
    by fastforce
  have no: "MqCommit Done \<notin> set ds" using dead_letter_calls[OF d] by auto
  show ?thesis
  proof (cases r)
    case (Inl e)
    with assms d no show ?thesis by (cases e) (auto simp: serve_foreign_def)
  next
    case (Inr u)
    with d have "dead_letter (s_dl env) md0 (a_qm args) (a_in_queue args) md raw (MQFB_APPL_FIRST (s_dl env)) WHO = (Inr (), ds)" by simp
    from dead_letter_ok[OF this] assms d Inr no show ?thesis
      by (auto simp: serve_foreign_def split: mq_call.splits)
  qed
qed

section \<open>A sample run\<close>

definition sample_md :: MD where
  "sample_md = \<lparr>MsgId = ''M1'', CorrelId = ''run'', MsgType = 8, Persistence = 1, Priority = 0,
     Encoding = 546, CodedCharSetId = 1208, Format = ''MQSTR''\<rparr>"

definition sample_dl :: dl_env where
  "sample_dl = \<lparr>MQAT_UNIX = 6, MQFMT_DEAD_LETTER_HEADER = ''MQDEAD'', MQFB_APPL_FIRST = 65536,
     dlh_pack = (\<lambda>h. ''DLH '' @ dlh_DestQName h), dl_inquire = Inr (MStr ''DEADQ   ''), dl_open = Done,
     dl_put = Done, dl_close = Done, dl_date = ''20260608'', dl_time = ''12000000''\<rparr>"

definition sample_serve :: "string \<Rightarrow> mq_call \<Rightarrow> serve_env" where
  "sample_serve raw r = \<lparr>s_in_time = True, s_get = Inr (raw, sample_md), s_dl = sample_dl, s_put = Done,
     s_commit = r, s_now = 1, s_now' = 1, s_mono = 9, s_mono_after = 9\<rparr>"

definition sample_run :: "serve_env list \<Rightarrow> run_env" where
  "sample_run es = \<lparr>r_in_time = True, r_connect = [(True, Done)], r_open_in = Done, r_open_out = Done,
     r_mono = 0, r_turns = es, r_backout = Done, r_disconnect = Done\<rparr>"

definition sample_args :: serve_args where
  "sample_args = \<lparr>a_qm = ''PCMKSVC'', a_in_queue = ''SVC.REQUEST''\<rparr>"

definition sample_watcher :: Watcher where
  "sample_watcher = \<lparr>w_ledger = init_ledger None, w_last_flush = 0, w_file = None\<rparr>"

section \<open>Properties\<close>

text \<open>C4: the Watcher's ledger is exactly what was committed, over any number of rebuilt connections:
  it is a sequence of RECEIVED/REPLIED pairs, one pair for each reply whose put and commit returned
  cleanly, in order, with the number and identifier that the reply carries. A rolled-back or in-doubt
  unit of work leaves no entry, and the file written at the end reads back as this ledger.\<close>

theorem watcher_ledger_exact:
  assumes "run args md0 envs \<lparr>w_ledger = init_ledger None, w_last_flush = t, w_file = f0\<rparr> = (x, w, cs)"
  shows "served_ok (w_ledger w) cs
    \<and> (x \<noteq> Running \<longrightarrow> map_option (\<lambda>f. read_jsonl (Some f)) (w_file w) = Some (Inr (w_ledger w)))"
proof
  have "served_ok (w_ledger \<lparr>w_ledger = init_ledger None, w_last_flush = t, w_file = f0\<rparr>) []"
    by (simp add: served_ok_def init_ledger_def)
  from run_ok[OF this assms] show "served_ok (w_ledger w) cs" by simp
  have "x \<noteq> Running \<longrightarrow> w_file w = Some (write_jsonl (w_ledger w))"
    if "run args md0 envs w0 = (x, w, cs)" for w0 cs
    using that
  proof (induction envs arbitrary: w0 cs)
    case (Cons env envs)
    show ?case
    proof (cases "r_in_time env \<and> connect_retry (r_connect env) = Connected")
      case False
      with Cons.prems show ?thesis by (auto split: if_splits connected.splits)
    next
      case True
      obtain x1 w1 cs1 where "serve_connection args md0 env w0 = (x1, w1, cs1)" by (metis prod_cases3)
      with True Cons.prems Cons.IH show ?thesis by (fastforce split: exit.splits if_splits prod.splits)
    qed
  qed simp
  from this[OF assms] show "x \<noteq> Running \<longrightarrow> map_option (\<lambda>f. read_jsonl (Some f)) (w_file w) = Some (Inr (w_ledger w))"
    by (simp add: read_written)
qed

theorem watcher_ledger_exact_witness:
  "\<exists>x w cs. run sample_args sample_md
       [sample_run [sample_serve ''DRv1|4|ab|20260608|p'' (Failed 2003), sample_serve ''DRv1|4|ab|20260608|p'' Done,
          sample_serve ''noise'' (Failed 2009)],
        sample_run [(sample_serve ''x'' Done)\<lparr>s_in_time := False\<rparr>]] sample_watcher = (x, w, cs)
     \<and> x = Finished \<and> served_ok (w_ledger w) cs \<and> map seq (entries (w_ledger w)) = [4, 4]
     \<and> map_option (\<lambda>f. read_jsonl (Some f)) (w_file w) = Some (Inr (w_ledger w))"
proof -
  obtain x w cs where r: "run sample_args sample_md
       [sample_run [sample_serve ''DRv1|4|ab|20260608|p'' (Failed 2003), sample_serve ''DRv1|4|ab|20260608|p'' Done,
          sample_serve ''noise'' (Failed 2009)],
        sample_run [(sample_serve ''x'' Done)\<lparr>s_in_time := False\<rparr>]] sample_watcher = (x, w, cs)"
    by (metis prod_cases3)
  have "(case run sample_args sample_md
       [sample_run [sample_serve ''DRv1|4|ab|20260608|p'' (Failed 2003), sample_serve ''DRv1|4|ab|20260608|p'' Done,
          sample_serve ''noise'' (Failed 2009)],
        sample_run [(sample_serve ''x'' Done)\<lparr>s_in_time := False\<rparr>]] sample_watcher of
     (x, w, cs) \<Rightarrow> x = Finished \<and> map seq (entries (w_ledger w)) = [4, 4])"
    by code_simp
  with watcher_ledger_exact[OF r[unfolded sample_watcher_def]] r show ?thesis by auto
qed





end
