(* ===== verification/Orchestrator.thy ===== *)
theory Orchestrator
  imports Py_Value
begin

text \<open>
  The run loop of the lab driver (\<open>mqlab/orchestrator.py\<close>): the bounded retry policy, one step with
  its retries, and the loop over a verb's steps, with the timing record it feeds (\<open>mqlab/perf.py\<close>).

  The command runner is an argument: \<open>env k\<close> is what attempt \<open>k\<close> of a step meets, its start and end
  time, the lines it prints and its exit code. What the renderer, the transcript, the sleeper and
  the pauser are told is the returned list of \<open>act\<close>s in order.
\<close>

section \<open>Retry policy\<close>

record RetryPolicy =
  rp_attempts :: int
  base_delay :: rat
  backoff :: rat
  max_delay :: rat

text \<open>The constructor with its checks.\<close>

definition retry_policy :: "int \<Rightarrow> rat \<Rightarrow> rat \<Rightarrow> rat \<Rightarrow> (py_error, RetryPolicy) result" where
  "retry_policy n base bk cap =
     (if n < 1 then Inl (ValueErr ''attempts'')
      else if base < 0 \<or> bk < 0 \<or> cap < 0 then Inl (ValueErr ''delay'')
      else Inr \<lparr>rp_attempts = n, base_delay = base, backoff = bk, max_delay = cap\<rparr>)"

definition delay_before :: "RetryPolicy \<Rightarrow> nat \<Rightarrow> rat" where
  "delay_before p retry = min (fl (base_delay p * fl (backoff p ^ (retry - 1)))) (max_delay p)"

section \<open>One step\<close>

text \<open>\<open>runner.Command\<close>: an argument vector, a working directory and environment overrides.\<close>

record Command =
  argv :: "string list"
  cwd :: "string option"
  cmd_env :: "(string \<times> string) list option"

definition display :: "Command \<Rightarrow> string" where
  "display c = str_join '' '' (argv c)"

record CommandStep =
  cs_label :: string
  cs_command :: Command
  cs_retry :: "RetryPolicy option"
  cs_phase :: string

record Attempt =
  at_started :: rat
  at_output :: "string list"
  at_exit :: int
  at_ended :: rat

record StepFailedError =
  sf_label :: string
  sf_exit_code :: int
  sf_elapsed :: rat
  sf_retries :: nat

datatype act =
    ACommand string
  | ARun Command
  | AOutput string
  | ARetry string nat int int rat \<comment> \<open>label, attempt, attempts, exit code, delay\<close>
  | ASleep rat
  | AFail string int
  | AOk string rat
  | APause
  | ASummary nat nat rat

definition elapsed :: "Attempt \<Rightarrow> rat" where
  "elapsed a = fl (at_ended a - at_started a)"

definition allowed :: "CommandStep \<Rightarrow> int" where
  "allowed step = (case cs_retry step of Some p \<Rightarrow> rp_attempts p | None \<Rightarrow> 1)"

text \<open>\<open>_run_step_with_retry\<close> after \<open>n\<close> failed attempts: the next one is number \<open>n + 1\<close>.\<close>

function attempt_from ::
  "CommandStep \<Rightarrow> (nat \<Rightarrow> Attempt) \<Rightarrow> nat \<Rightarrow> (StepFailedError, rat \<times> nat) result \<times> act list" where
  "attempt_from step env n =
     (let a = env n; ran = ARun (cs_command step) # map AOutput (at_output a) in
      if at_exit a = 0 then (Inr (elapsed a, n), ran)
      else case cs_retry step of
        Some p \<Rightarrow>
          if int (n + 1) < rp_attempts p then
            (let d = delay_before p (n + 1) in
             case attempt_from step env (n + 1) of
               (r, acts) \<Rightarrow>
                 (r, ran @ ARetry (cs_label step) (n + 1) (rp_attempts p) (at_exit a) d # ASleep d # acts))
          else
            (Inl \<lparr>sf_label = cs_label step, sf_exit_code = at_exit a, sf_elapsed = elapsed a, sf_retries = n\<rparr>,
             ran @ [AFail (cs_label step) (at_exit a)])
      | None \<Rightarrow>
          (Inl \<lparr>sf_label = cs_label step, sf_exit_code = at_exit a, sf_elapsed = elapsed a, sf_retries = n\<rparr>,
           ran @ [AFail (cs_label step) (at_exit a)]))"
  by pat_completeness auto
termination
  by (relation "measure (\<lambda>(step, env, n). nat (allowed step - int n))") (auto simp: allowed_def)

declare attempt_from.simps [simp del]

definition run_step_with_retry ::
  "CommandStep \<Rightarrow> (nat \<Rightarrow> Attempt) \<Rightarrow> (StepFailedError, rat \<times> nat) result \<times> act list" where
  "run_step_with_retry step env = attempt_from step env 0"

section \<open>Timing record\<close>

record StepTiming =
  st_phase :: string
  st_label :: string
  st_seconds :: rat
  st_retries :: nat
  st_ok :: bool

record PhaseTotal =
  pt_seconds :: rat
  pt_retries :: nat
  pt_failed :: nat
  pt_steps :: "StepTiming list"

definition new_phase_total :: PhaseTotal where
  "new_phase_total = \<lparr>pt_seconds = 0, pt_retries = 0, pt_failed = 0, pt_steps = []\<rparr>"

definition phase_total_add :: "PhaseTotal \<Rightarrow> StepTiming \<Rightarrow> PhaseTotal" where
  "phase_total_add t s =
     \<lparr>pt_seconds = fl (pt_seconds t + st_seconds s), pt_retries = pt_retries t + st_retries s,
      pt_failed = pt_failed t + (if st_ok s then 0 else 1), pt_steps = pt_steps t @ [s]\<rparr>"

text \<open>\<open>PerfRecord._phases\<close>: \<open>setdefault(phase, _PhaseTotal()).add(s)\<close> for each step.\<close>

definition phase_add :: "StepTiming \<Rightarrow> (string \<times> PhaseTotal) list \<Rightarrow> (string \<times> PhaseTotal) list" where
  "phase_add s d = AList.update (st_phase s)
     (phase_total_add (case map_of d (st_phase s) of None \<Rightarrow> new_phase_total | Some t \<Rightarrow> t) s) d"

definition phases_of :: "StepTiming list \<Rightarrow> (string \<times> PhaseTotal) list" where
  "phases_of steps = fold phase_add steps []"

definition phase_total_dict :: "PhaseTotal \<Rightarrow> pyval" where
  "phase_total_dict t = PDict
     [(PStr ''seconds'', PFloat (pt_seconds t)), (PStr ''retries'', PInt (int (pt_retries t))),
      (PStr ''steps'', PList (map (\<lambda>s. PDict
         [(PStr ''label'', PStr (st_label s)), (PStr ''seconds'', PFloat (st_seconds s)),
          (PStr ''retries'', PInt (int (st_retries s))), (PStr ''ok'', PBool (st_ok s))]) (pt_steps t))),
      (PStr ''failed'', PInt (int (pt_failed t)))]"

section \<open>The run loop\<close>

text \<open>The loop state: completed steps and the summed seconds; the perf sink is the list of timings.\<close>

fun run_from ::
  "nat \<Rightarrow> nat \<Rightarrow> bool \<Rightarrow> (nat \<Rightarrow> nat \<Rightarrow> Attempt) \<Rightarrow> CommandStep list \<Rightarrow> nat \<Rightarrow> rat
     \<Rightarrow> (StepFailedError, unit) result \<times> StepTiming list \<times> act list" where
  "run_from n_total index step_mode env [] completed secs = (Inr (), [], [ASummary completed n_total secs])"
| "run_from n_total index step_mode env (step # steps) completed secs =
     (case run_step_with_retry step (env index) of
        (Inl e, acts) \<Rightarrow>
          (Inl e,
           [\<lparr>st_phase = cs_phase step, st_label = cs_label step, st_seconds = sf_elapsed e,
             st_retries = sf_retries e, st_ok = False\<rparr>],
           ACommand (display (cs_command step)) # acts)
      | (Inr (secs1, retries), acts) \<Rightarrow>
          (case run_from n_total (index + 1) step_mode env steps (completed + 1) (fl (secs + secs1)) of
             (r, perf, acts') \<Rightarrow>
               (r,
                \<lparr>st_phase = cs_phase step, st_label = cs_label step, st_seconds = secs1,
                  st_retries = retries, st_ok = True\<rparr> # perf,
                ACommand (display (cs_command step)) # acts @ [AOk (cs_label step) secs1]
                @ (if step_mode \<and> index < n_total then [APause] else []) @ acts')))"

definition run_steps ::
  "bool \<Rightarrow> (nat \<Rightarrow> nat \<Rightarrow> Attempt) \<Rightarrow> CommandStep list
     \<Rightarrow> (StepFailedError, unit) result \<times> StepTiming list \<times> act list" where
  "run_steps step_mode env steps = run_from (length steps) 1 step_mode env steps 0 0"

section \<open>Retry lemmas\<close>

definition tries :: "CommandStep \<Rightarrow> nat" where
  "tries step = nat (max 1 (allowed step))"

fun runs :: "act list \<Rightarrow> Command list" where
  "runs [] = []"
| "runs (ARun c # as) = c # runs as"
| "runs (_ # as) = runs as"

fun sleeps :: "act list \<Rightarrow> rat list" where
  "sleeps [] = []"
| "sleeps (ASleep d # as) = d # sleeps as"
| "sleeps (_ # as) = sleeps as"

fun commands :: "act list \<Rightarrow> string list" where
  "commands [] = []"
| "commands (ACommand c # as) = c # commands as"
| "commands (_ # as) = commands as"

lemma runs_append [simp]: "runs (as @ bs) = runs as @ runs bs"
  by (induction as rule: runs.induct) simp_all

lemma sleeps_append [simp]: "sleeps (as @ bs) = sleeps as @ sleeps bs"
  by (induction as rule: sleeps.induct) simp_all

lemma commands_append [simp]: "commands (as @ bs) = commands as @ commands bs"
  by (induction as rule: commands.induct) simp_all

lemma acts_of_output [simp]:
  "runs (map AOutput ls) = []" "sleeps (map AOutput ls) = []" "commands (map AOutput ls) = []"
  by (induction ls) simp_all

text \<open>The waits before retry \<open>i + 1\<close> up to retry \<open>j\<close>.\<close>

definition waits :: "CommandStep \<Rightarrow> nat \<Rightarrow> nat \<Rightarrow> rat list" where
  "waits step i j = (case cs_retry step of None \<Rightarrow> [] | Some p \<Rightarrow> map (\<lambda>k. delay_before p (k + 1)) [i..<j])"

definition attempt_outcome ::
  "CommandStep \<Rightarrow> (nat \<Rightarrow> Attempt) \<Rightarrow> nat \<Rightarrow> (StepFailedError, rat \<times> nat) result \<Rightarrow> act list \<Rightarrow> bool" where
  "attempt_outcome step env n r acts \<longleftrightarrow>
     (case r of
        Inr (t, k) \<Rightarrow> n \<le> k \<and> k < tries step \<and> at_exit (env k) = 0 \<and> (\<forall>j. n \<le> j \<and> j < k \<longrightarrow> at_exit (env j) \<noteq> 0)
          \<and> t = elapsed (env k) \<and> runs acts = replicate (Suc k - n) (cs_command step) \<and> sleeps acts = waits step n k
      | Inl e \<Rightarrow> (\<forall>j. n \<le> j \<and> j < tries step \<longrightarrow> at_exit (env j) \<noteq> 0)
          \<and> e = \<lparr>sf_label = cs_label step, sf_exit_code = at_exit (env (tries step - 1)),
                 sf_elapsed = elapsed (env (tries step - 1)), sf_retries = tries step - 1\<rparr>
          \<and> runs acts = replicate (tries step - n) (cs_command step) \<and> sleeps acts = waits step n (tries step - 1))
     \<and> commands acts = []"

lemma waits_Cons:
  "cs_retry step = Some p \<Longrightarrow> i < j \<Longrightarrow> waits step i j = delay_before p (i + 1) # waits step (i + 1) j"
  by (simp add: waits_def upt_conv_Cons)

lemma waits_empty [simp]: "waits step i i = []"
  by (simp add: waits_def split: option.split)

lemma all_from: "(\<forall>j. n \<le> j \<and> j < k \<longrightarrow> P j) \<longleftrightarrow> (n < k \<longrightarrow> P n) \<and> (\<forall>j. Suc n \<le> j \<and> j < k \<longrightarrow> P j)"
proof -
  have "n \<le> j \<longleftrightarrow> j = n \<or> Suc n \<le> j" for j by auto
  then show ?thesis by auto
qed

lemma attempt_from_outcome:
  assumes "n < tries step" and "attempt_from step env n = (r, acts)"
  shows "attempt_outcome step env n r acts"
  using assms
proof (induction step env n arbitrary: r acts rule: attempt_from.induct)
  case (1 step env n)
  define ran where "ran = ARun (cs_command step) # map AOutput (at_output (env n))"
  have ran: "runs ran = [cs_command step]" "sleeps ran = []" "commands ran = []"
    by (simp_all add: ran_def)
  consider (ok) "at_exit (env n) = 0"
    | (retry) p where "at_exit (env n) \<noteq> 0" "cs_retry step = Some p" "int (n + 1) < rp_attempts p"
    | (exhausted) "at_exit (env n) \<noteq> 0" "\<forall>p. cs_retry step = Some p \<longrightarrow> \<not> int (n + 1) < rp_attempts p"
    by (cases "cs_retry step") auto
  then show ?case
  proof cases
    case ok
    with "1.prems" ran show ?thesis
      by (subst (asm) attempt_from.simps) (auto simp: attempt_outcome_def ran_def Let_def)
  next
    case retry
    obtain r' acts' where rec: "attempt_from step env (n + 1) = (r', acts')" by fastforce
    have acts: "r = r'" "acts = ran @ ARetry (cs_label step) (n + 1) (rp_attempts p) (at_exit (env n))
        (delay_before p (n + 1)) # ASleep (delay_before p (n + 1)) # acts'"
      using "1.prems"(2) retry rec by (subst (asm) attempt_from.simps, simp add: ran_def Let_def)+
    have lt: "n + 1 < tries step" using retry by (simp add: tries_def allowed_def)
    have ih: "attempt_outcome step env (n + 1) r' acts'"
      using "1.IH"[OF _ _ retry(1,2,3) _ lt rec] by simp
    show ?thesis
    proof (cases r')
      case (Inl e)
      with ih lt retry waits_Cons[OF retry(2), of n "tries step - 1"] show ?thesis
        by (auto simp: attempt_outcome_def acts ran all_from[of n] Suc_diff_Suc replicate_Suc[symmetric] simp del: replicate_Suc)
    next
      case (Inr tk)
      obtain t k where tk: "tk = (t, k)" by fastforce
      with ih Inr lt retry waits_Cons[OF retry(2), of n k] show ?thesis
        by (auto simp: attempt_outcome_def acts ran all_from[of n] Suc_diff_le)
    qed
  next
    case exhausted
    then have last: "tries step = n + 1"
      using "1.prems"(1) by (auto simp: tries_def allowed_def split: option.splits)
    have "r = Inl \<lparr>sf_label = cs_label step, sf_exit_code = at_exit (env n), sf_elapsed = elapsed (env n), sf_retries = n\<rparr>"
      "acts = ran @ [AFail (cs_label step) (at_exit (env n))]"
      using "1.prems"(2) exhausted
      by (subst (asm) attempt_from.simps, auto simp: ran_def Let_def split: option.splits)+
    then show ?thesis
      using last exhausted(1) ran by (auto simp: attempt_outcome_def less_Suc_eq_le)
  qed
qed

lemma tries_pos: "0 < tries step"
  by (simp add: tries_def)

lemma step_outcome:
  "run_step_with_retry step env = (r, acts) \<Longrightarrow> attempt_outcome step env 0 r acts"
  unfolding run_step_with_retry_def using attempt_from_outcome tries_pos by blast

section \<open>Run-loop lemmas\<close>

definition step_ok :: "CommandStep \<Rightarrow> (nat \<Rightarrow> Attempt) \<Rightarrow> bool" where
  "step_ok step env \<longleftrightarrow> (\<exists>j < tries step. at_exit (env j) = 0)"

lemma step_ok_iff:
  "run_step_with_retry step env = (r, acts) \<Longrightarrow> step_ok step env \<longleftrightarrow> (\<exists>x. r = Inr x)"
  by (drule step_outcome) (auto simp: step_ok_def attempt_outcome_def split: sum.splits)

text \<open>How many leading steps succeed, the first one having number \<open>i\<close>.\<close>

fun good_prefix :: "(nat \<Rightarrow> nat \<Rightarrow> Attempt) \<Rightarrow> nat \<Rightarrow> CommandStep list \<Rightarrow> nat" where
  "good_prefix env i [] = 0"
| "good_prefix env i (s # ss) = (if step_ok s (env i) then Suc (good_prefix env (i + 1) ss) else 0)"

lemma good_prefix_le: "good_prefix env i ss \<le> length ss"
  by (induction ss arbitrary: i) simp_all

lemma good_prefix_spec:
  "(\<forall>j < good_prefix env i ss. step_ok (ss ! j) (env (i + j)))
   \<and> (good_prefix env i ss < length ss
      \<longrightarrow> \<not> step_ok (ss ! good_prefix env i ss) (env (i + good_prefix env i ss)))"
proof (induction ss arbitrary: i)
  case (Cons s ss)
  from Cons.IH[of "Suc i"] show ?case by (auto simp: less_Suc_eq_0_disj)
qed simp

definition run_outcome ::
  "(nat \<Rightarrow> nat \<Rightarrow> Attempt) \<Rightarrow> nat \<Rightarrow> CommandStep list
     \<Rightarrow> (StepFailedError, unit) result \<Rightarrow> StepTiming list \<Rightarrow> act list \<Rightarrow> bool" where
  "run_outcome env i steps r perf acts \<longleftrightarrow>
     (let k = good_prefix env i steps in
      (r = Inr () \<longleftrightarrow> k = length steps)
      \<and> (\<forall>e. r = Inl e \<longrightarrow> k < length steps \<and> sf_label e = cs_label (steps ! k)
           \<and> sf_exit_code e = at_exit (env (i + k) (tries (steps ! k) - 1)) \<and> sf_exit_code e \<noteq> 0)
      \<and> map st_label perf = map cs_label (take (Suc k) steps)
      \<and> map st_phase perf = map cs_phase (take (Suc k) steps)
      \<and> map st_ok perf = replicate k True @ (if k < length steps then [False] else [])
      \<and> commands acts = map (\<lambda>s. display (cs_command s)) (take (Suc k) steps))"

lemma run_from_outcome:
  assumes "run_from n i mode env steps c secs = (r, perf, acts)"
  shows "run_outcome env i steps r perf acts"
  using assms
proof (induction steps arbitrary: i c secs r perf acts)
  case Nil
  then show ?case by (auto simp: run_outcome_def)
next
  case (Cons s ss)
  obtain sr sacts where st: "run_step_with_retry s (env i) = (sr, sacts)" by fastforce
  note out = step_outcome[OF st]
  have cmds: "commands sacts = []" using out by (simp add: attempt_outcome_def)
  show ?case
  proof (cases sr)
    case (Inl e)
    then have "\<not> step_ok s (env i)" using step_ok_iff[OF st] by simp
    moreover have "sf_label e = cs_label s \<and> sf_exit_code e = at_exit (env i (tries s - 1)) \<and> sf_exit_code e \<noteq> 0"
      using out Inl tries_pos[of s] by (auto simp: attempt_outcome_def)
    ultimately show ?thesis
      using Cons.prems st Inl cmds by (auto simp: run_outcome_def)
  next
    case (Inr x)
    obtain t k where x: "x = (t, k)" by fastforce
    obtain r' perf' acts' where rec: "run_from n (i + 1) mode env ss (c + 1) (fl (secs + t)) = (r', perf', acts')"
      by (metis prod_cases3)
    have ok: "step_ok s (env i)" using step_ok_iff[OF st] Inr by simp
    have ih: "run_outcome env (i + 1) ss r' perf' acts'" using Cons.IH[OF rec] .
    have eqs: "r = r'" "acts = ACommand (display (cs_command s)) # sacts @ [AOk (cs_label s) t]
        @ (if mode \<and> i < n then [APause] else []) @ acts'"
      "perf = \<lparr>st_phase = cs_phase s, st_label = cs_label s, st_seconds = t, st_retries = k, st_ok = True\<rparr> # perf'"
      using Cons.prems st Inr x rec by (auto simp: run_outcome_def)
    show ?thesis
      using ih ok cmds unfolding run_outcome_def Let_def eqs by auto
  qed
qed

lemma phase_add_lookup:
  "map_of (phase_add s d) p =
     (if p = st_phase s
      then Some (phase_total_add (case map_of d p of None \<Rightarrow> new_phase_total | Some t \<Rightarrow> t) s)
      else map_of d p)"
  by (simp add: phase_add_def update_conv')

lemma phase_add_keys: "map fst (phase_add s d) = add_new (st_phase s) (map fst d)"
  by (simp only: phase_add_def keys_alist_update add_new_def)

lemma phases_of_snoc: "phases_of (ss @ [s]) = phase_add s (phases_of ss)"
  by (simp add: phases_of_def)

definition total_of :: "StepTiming list \<Rightarrow> PhaseTotal" where
  "total_of ss = \<lparr>pt_seconds = fold (\<lambda>s acc. fl (acc + st_seconds s)) ss 0,
     pt_retries = (\<Sum>s \<leftarrow> ss. st_retries s), pt_failed = length (filter (\<lambda>s. \<not> st_ok s) ss), pt_steps = ss\<rparr>"

lemma total_of_snoc: "phase_total_add (total_of ss) s = total_of (ss @ [s])"
  by (simp add: phase_total_add_def total_of_def)

lemma phases_of_lookup:
  "map_of (phases_of ss) p =
     (let own = filter (\<lambda>s. st_phase s = p) ss in if own = [] then None else Some (total_of own))"
proof (induction ss rule: rev_induct)
  case (snoc s ss)
  have new: "new_phase_total = total_of []" by (simp add: new_phase_total_def total_of_def)
  show ?case using snoc
    by (auto simp: phases_of_snoc phase_add_lookup Let_def total_of_snoc new split: if_splits)
qed (simp add: phases_of_def)

lemma phases_of_keys: "map fst (phases_of ss) = add_all_new (map st_phase ss) []"
proof (induction ss rule: rev_induct)
  case (snoc s ss)
  then show ?case by (simp add: phases_of_snoc phase_add_keys add_all_new_def)
qed (simp add: phases_of_def add_all_new_def)

section \<open>Properties\<close>

text \<open>C9: a step's retries are bounded and honest: the command runs once per attempt and never more
  often than the policy allows (once without a policy); the step succeeds exactly when one of the
  allowed attempts exits zero, and reports the time of the first such attempt and the number of
  failures before it; otherwise it fails with the exit code and time of the last allowed attempt; and
  no wait is longer than the policy's cap.\<close>

theorem step_retry_exact:
  assumes "run_step_with_retry step env = (r, acts)"
  shows "runs acts = replicate (length (runs acts)) (cs_command step)
    \<and> (step_ok step env \<longleftrightarrow> (\<exists>x. r = Inr x))
    \<and> (\<forall>t k. r = Inr (t, k) \<longrightarrow> at_exit (env k) = 0 \<and> (\<forall>j < k. at_exit (env j) \<noteq> 0) \<and> t = elapsed (env k)
          \<and> length (runs acts) = Suc k \<and> k < tries step)
    \<and> (\<forall>e. r = Inl e \<longrightarrow> (\<forall>j < tries step. at_exit (env j) \<noteq> 0)
          \<and> sf_exit_code e = at_exit (env (tries step - 1)) \<and> sf_elapsed e = elapsed (env (tries step - 1))
          \<and> length (runs acts) = tries step \<and> sf_retries e = tries step - 1)
    \<and> (\<forall>p. cs_retry step = Some p \<longrightarrow> (\<forall>d \<in> set (sleeps acts). d \<le> max_delay p))
    \<and> length (sleeps acts) = length (runs acts) - 1"
proof -
  note out = step_outcome[OF assms]
  have some: "cs_retry step \<noteq> None \<or> tries step = 1" by (cases "cs_retry step") (auto simp: tries_def allowed_def)
  have "length (waits step 0 k) = k" if "k < tries step" for k
    using that some by (auto simp: waits_def split: option.splits)
  moreover have "d \<le> max_delay p" if "cs_retry step = Some p" "d \<in> set (waits step i j)" for p d i j
    using that by (auto simp: waits_def delay_before_def)
  ultimately show ?thesis
    using out step_ok_iff[OF assms] tries_pos[of step]
    by (cases r) (auto simp: attempt_outcome_def)
qed

definition sample_attempt :: "int \<Rightarrow> rat \<Rightarrow> Attempt" where
  "sample_attempt code t = \<lparr>at_started = 1, at_output = [], at_exit = code, at_ended = 1 + t\<rparr>"

definition sample_step :: "string \<Rightarrow> RetryPolicy option \<Rightarrow> CommandStep" where
  "sample_step l p = \<lparr>cs_label = l, cs_command = \<lparr>argv = [l], cwd = None, cmd_env = None\<rparr>,
     cs_retry = p, cs_phase = ''vms''\<rparr>"

definition sample_policy :: RetryPolicy where
  "sample_policy = \<lparr>rp_attempts = 3, base_delay = 5, backoff = 2, max_delay = 8\<rparr>"

definition flaky :: "nat \<Rightarrow> Attempt" where
  "flaky k = (if k < 2 then sample_attempt 1 4 else sample_attempt 0 7)"

theorem step_retry_exact_witness:
  "\<exists>acts. run_step_with_retry (sample_step ''up'' (Some sample_policy)) flaky = (Inr (7, 2), acts)
     \<and> length (runs acts) = 3 \<and> sleeps acts = [5, 8]
     \<and> at_exit (flaky 2) = 0 \<and> at_exit (flaky 1) \<noteq> 0"
proof -
  obtain r acts where st: "run_step_with_retry (sample_step ''up'' (Some sample_policy)) flaky = (r, acts)"
    by fastforce
  have ev: "(case run_step_with_retry (sample_step ''up'' (Some sample_policy)) flaky of
      (r, acts) \<Rightarrow> r = Inr (7, 2) \<and> sleeps acts = [5, 8])" by code_simp
  from step_retry_exact[OF st] st ev show ?thesis by auto
qed

text \<open>The run halts at the first step that fails and says so: every step before it was run, in
  order, and recorded as successful; the failing step is recorded, last, as failed with its label,
  phase and non-zero exit code; nothing after it is started; and the run succeeds exactly when every
  step does.\<close>

theorem run_steps_halts_loud:
  assumes "run_steps mode env steps = (r, perf, acts)"
  shows "\<exists>k \<le> length steps.
    (\<forall>j < k. step_ok (steps ! j) (env (1 + j)))
    \<and> (k < length steps \<longrightarrow> \<not> step_ok (steps ! k) (env (1 + k)))
    \<and> (r = Inr () \<longleftrightarrow> k = length steps)
    \<and> (\<forall>e. r = Inl e \<longrightarrow> sf_label e = cs_label (steps ! k) \<and> sf_exit_code e \<noteq> 0)
    \<and> map st_label perf = map cs_label (take (Suc k) steps)
    \<and> map st_ok perf = replicate k True @ (if k < length steps then [False] else [])
    \<and> commands acts = map (\<lambda>s. display (cs_command s)) (take (Suc k) steps)"
proof -
  have out: "run_outcome env 1 steps r perf acts"
    using assms run_from_outcome by (simp add: run_steps_def)
  from good_prefix_spec[of env 1 steps] out good_prefix_le[of env 1 steps] show ?thesis
    by (intro exI[of _ "good_prefix env 1 steps"]) (auto simp: run_outcome_def Let_def)
qed

theorem run_steps_halts_loud_witness:
  "\<exists>e perf acts. run_steps False (\<lambda>i. if i = 2 then (\<lambda>_. sample_attempt 9 1) else flaky)
       [sample_step ''a'' (Some sample_policy), sample_step ''b'' None, sample_step ''c'' None] = (Inl e, perf, acts)
     \<and> sf_exit_code e \<noteq> 0 \<and> map st_ok perf = [True, False] \<and> commands acts = [''a'', ''b'']"
proof -
  define steps where "steps = [sample_step ''a'' (Some sample_policy), sample_step ''b'' None, sample_step ''c'' None]"
  define env where "env = (\<lambda>i :: nat. if i = 2 then (\<lambda>_. sample_attempt 9 1) else flaky)"
  obtain r perf acts where run: "run_steps False env steps = (r, perf, acts)" by (metis prod_cases3)
  have ev: "(case run_steps False env steps of (r, perf, acts) \<Rightarrow>
      isl r \<and> map st_ok perf = [True, False] \<and> commands acts = [''a'', ''b''])"
    unfolding env_def steps_def by code_simp
  then obtain e where e: "r = Inl e" using run by (auto simp: isl_def)
  from run_steps_halts_loud[OF run] e have "sf_exit_code e \<noteq> 0" by auto
  with e ev run show ?thesis unfolding env_def steps_def by auto
qed

text \<open>The timing report loses no step: its phases are the steps' phases in order of first
  appearance, and each phase's entry lists exactly that phase's steps in run order, with the sum of
  their retries and the number of failed ones.\<close>

theorem phases_of_exact:
  "map fst (phases_of ss) = add_all_new (map st_phase ss) []
   \<and> map_of (phases_of ss) p =
      (let own = filter (\<lambda>s. st_phase s = p) ss
       in if own = [] then None
          else Some \<lparr>pt_seconds = fold (\<lambda>s acc. fl (acc + st_seconds s)) own 0,
                     pt_retries = (\<Sum>s \<leftarrow> own. st_retries s),
                     pt_failed = length (filter (\<lambda>s. \<not> st_ok s) own), pt_steps = own\<rparr>)"
  using phases_of_keys[of ss] phases_of_lookup[of ss p] by (simp add: total_of_def Let_def)

end
