(* ===== verification/Perf_Report.thy ===== *)
theory Perf_Report
  imports Orchestrator "HOL-Library.List_Lexorder" "HOL-Library.Char_ord" "HOL-Library.Product_Lexorder"
begin

text \<open>
  The timing report as a document and the comparison of two of them: the record of a run
  (\<open>mqlab/perf.py\<close>, the part after the step totals of \<open>Orchestrator\<close>) with its JSON value, and
  \<open>mqlab/perfdiff.py\<close> without its text rendering. A \<open>PerfDiffError\<close> is a \<open>ValueErr\<close>; the notes of a
  comparison are values that say what each text says. Reading the file is not modelled: \<open>load_report\<close>
  starts from the parsed document.
\<close>

section \<open>The record of a run\<close>

record GuestSample =
  g_steal :: "rat option"
  g_busy :: "rat option"
  g_iowait :: "rat option"
  g_load1 :: "rat option"
  g_load5 :: "rat option"
  g_load15 :: "rat option"

record LocalSample =
  l_steal :: "rat option"
  l_busy :: "rat option"
  l_iowait :: "rat option"

record HostContentionSample =
  hc_t :: rat
  hc_cpu :: "rat option"
  hc_iowait :: "rat option"
  hc_cpus :: "int option"
  hc_guests :: "(string \<times> GuestSample) list"
  hc_local :: "LocalSample option"

definition opt_float :: "rat option \<Rightarrow> pyval" where
  "opt_float x = (case x of None \<Rightarrow> PNone | Some q \<Rightarrow> PFloat q)"

definition guest_dict :: "GuestSample \<Rightarrow> pyval" where
  "guest_dict g = PDict
     [(PStr ''steal'', opt_float (g_steal g)), (PStr ''busy'', opt_float (g_busy g)), (PStr ''iowait'', opt_float (g_iowait g)),
      (PStr ''load1'', opt_float (g_load1 g)), (PStr ''load5'', opt_float (g_load5 g)), (PStr ''load15'', opt_float (g_load15 g))]"

definition sample_dict :: "HostContentionSample \<Rightarrow> pyval" where
  "sample_dict s = PDict
     [(PStr ''t'', PFloat (hc_t s)),
      (PStr ''host'', PDict
         [(PStr ''cpu'', opt_float (hc_cpu s)), (PStr ''iowait'', opt_float (hc_iowait s)),
          (PStr ''cpus'', case hc_cpus s of None \<Rightarrow> PNone | Some n \<Rightarrow> PInt n),
          (PStr ''self_steal'', case hc_local s of None \<Rightarrow> PNone | Some l \<Rightarrow> opt_float (l_steal l)),
          (PStr ''self_busy'', case hc_local s of None \<Rightarrow> PNone | Some l \<Rightarrow> opt_float (l_busy l)),
          (PStr ''self_iowait'', case hc_local s of None \<Rightarrow> PNone | Some l \<Rightarrow> opt_float (l_iowait l))]),
      (PStr ''guests'', PDict (map (\<lambda>(n, g). (PStr n, guest_dict g)) (hc_guests s)))]"

record PerfRecord =
  pr_stack :: string
  pr_started_at :: rat
  pr_steps :: "StepTiming list"
  pr_milestones :: "(string \<times> rat) list"
  pr_notes :: "string list"
  pr_samples :: "HostContentionSample list"
  pr_env :: "string option"
  pr_env_source :: "string option"

definition set_env :: "string option \<Rightarrow> string \<Rightarrow> PerfRecord \<Rightarrow> PerfRecord" where
  "set_env e src r = r\<lparr>pr_env := e, pr_env_source := Some src\<rparr>"

definition add_note :: "string \<Rightarrow> PerfRecord \<Rightarrow> PerfRecord" where
  "add_note t r = r\<lparr>pr_notes := pr_notes r @ [t]\<rparr>"

definition add_sample :: "HostContentionSample \<Rightarrow> PerfRecord \<Rightarrow> PerfRecord" where
  "add_sample s r = r\<lparr>pr_samples := pr_samples r @ [s]\<rparr>"

definition add_step :: "StepTiming \<Rightarrow> PerfRecord \<Rightarrow> PerfRecord" where
  "add_step s r = r\<lparr>pr_steps := pr_steps r @ [s]\<rparr>"

definition add_milestone :: "string \<Rightarrow> rat \<Rightarrow> PerfRecord \<Rightarrow> PerfRecord" where
  "add_milestone n s r = r\<lparr>pr_milestones := AList.update n s (pr_milestones r)\<rparr>"

definition opt_text :: "string option \<Rightarrow> pyval" where
  "opt_text x = (case x of None \<Rightarrow> PNone | Some s \<Rightarrow> PStr s)"

text \<open>The value \<open>to_json\<close> dumps.\<close>

definition perf_json :: "PerfRecord \<Rightarrow> pyval" where
  "perf_json r = PDict
     [(PStr ''stack'', PStr (pr_stack r)), (PStr ''started_at'', PFloat (pr_started_at r)),
      (PStr ''phases'', PDict (map (\<lambda>(n, t). (PStr n, phase_total_dict t)) (phases_of (pr_steps r)))),
      (PStr ''milestones'', PDict (map (\<lambda>(n, s). (PStr n, PFloat s)) (pr_milestones r))),
      (PStr ''notes'', PList (map PStr (pr_notes r))),
      (PStr ''samples'', PList (map sample_dict (pr_samples r))),
      (PStr ''env'', opt_text (pr_env r)), (PStr ''env_source'', opt_text (pr_env_source r))]"

section \<open>Comparing\<close>

record Compared =
  cm_name :: pyval
  cm_a :: "rat option"
  cm_b :: "rat option"

definition cm_delta :: "'z Compared_scheme \<Rightarrow> rat option" where
  "cm_delta c = (case (cm_a c, cm_b c) of (Some a, Some b) \<Rightarrow> Some (fl (a - b)) | _ \<Rightarrow> None)"

definition cm_ratio :: "'z Compared_scheme \<Rightarrow> rat option" where
  "cm_ratio c = (case (cm_a c, cm_b c) of
     (Some a, Some b) \<Rightarrow> if b = 0 then None else Some (fl (a / b))
   | _ \<Rightarrow> None)"

record PhaseDelta = Compared +
  pd_a_retries :: "int option"
  pd_b_retries :: "int option"
  pd_a_failed :: "int option"
  pd_b_failed :: "int option"

record StealContributor =
  sc_guest :: string
  sc_mean :: rat
  sc_samples :: nat

datatype diff_note =
    StacksDiffer
  | NoSamples bool \<comment> \<open>side B when true\<close>
  | NotAList bool
  | EmptySamples bool
  | NoReadableSteal bool nat
  | NoHostMapping bool nat

record DiffReport =
  dr_a_stack :: "string option"
  dr_b_stack :: "string option"
  dr_phases :: "PhaseDelta list"
  dr_milestones :: "Compared list"
  dr_dominant :: "PhaseDelta option"
  dr_steal_a :: "StealContributor list option"
  dr_steal_b :: "StealContributor list option"
  dr_host_a :: "(string \<times> rat option) list option"
  dr_host_b :: "(string \<times> rat option) list option"
  dr_a_notes :: "string list"
  dr_b_notes :: "string list"
  dr_notes :: "diff_note list"

subsection \<open>Validation\<close>

fun is_num :: "pyval \<Rightarrow> bool" where
  "is_num (PInt _) = True"
| "is_num (PFloat _) = True"
| "is_num _ = False"

fun is_int :: "pyval \<Rightarrow> bool" where
  "is_int (PInt _) = True"
| "is_int _ = False"

text \<open>\<open>float(v)\<close> and \<open>int(v)\<close> of a value that passed the test.\<close>

fun num_of :: "pyval \<Rightarrow> rat" where
  "num_of (PInt i) = fl (of_int i)"
| "num_of (PFloat q) = q"
| "num_of _ = 0"

fun int_of_val :: "pyval \<Rightarrow> int" where
  "int_of_val (PInt i) = i"
| "int_of_val _ = 0"

definition phase_body :: "pyval \<Rightarrow> (py_error, rat \<times> int \<times> int) result" where
  "phase_body body =
     (if is_dict body \<and> is_num (get_or_none body ''seconds'') \<and> is_int (get_or_none body ''retries'')
         \<and> is_int (get_default body ''failed'' (PInt 0))
      then Inr (num_of (get_or_none body ''seconds''), int_of_val (get_or_none body ''retries''),
                int_of_val (get_default body ''failed'' (PInt 0)))
      else Inl (ValueErr ''phase''))"

definition report_phases :: "pyval \<Rightarrow> (py_error, (pyval \<times> rat \<times> int \<times> int) list) result" where
  "report_phases rec = (case get_or_none rec ''phases'' of
     PDict raw \<Rightarrow> traverse (\<lambda>(n, body). rbind (phase_body body) (\<lambda>b. Inr (n, b))) raw
   | _ \<Rightarrow> Inl (ValueErr ''phases''))"

definition report_milestones :: "pyval \<Rightarrow> (py_error, (pyval \<times> rat) list) result" where
  "report_milestones rec = (case get_or_none rec ''milestones'' of
     PDict raw \<Rightarrow> traverse (\<lambda>(n, s). if is_num s then Inr (n, num_of s) else Inl (ValueErr ''milestone'')) raw
   | _ \<Rightarrow> Inl (ValueErr ''milestones''))"

definition report_stack :: "pyval \<Rightarrow> (py_error, string option) result" where
  "report_stack rec = (case get_or_none rec ''stack'' of
     PNone \<Rightarrow> Inr None
   | PStr s \<Rightarrow> Inr (Some s)
   | _ \<Rightarrow> Inl (ValueErr ''stack''))"

definition report_notes :: "pyval \<Rightarrow> (py_error, string list) result" where
  "report_notes rec = (case get_default rec ''notes'' (PList []) of
     PList ns \<Rightarrow> if list_all is_str ns
       then traverse (\<lambda>v. case v of PStr s \<Rightarrow> Inr s | _ \<Rightarrow> Inl (ValueErr ''notes'')) ns
       else Inl (ValueErr ''notes'')
   | _ \<Rightarrow> Inl (ValueErr ''notes''))"

subsection \<open>Contention samples\<close>

definition STEAL_KEYS :: "string list" where
  "STEAL_KEYS = [''steal'', ''steal_pct'']"

definition guest_steal :: "pyval \<Rightarrow> rat option" where
  "guest_steal v =
     (let w = (if is_dict v
               then (case find (\<lambda>k. is_num (get_or_none v k)) STEAL_KEYS of None \<Rightarrow> PNone | Some k \<Rightarrow> get_or_none v k)
               else v)
      in if is_num w then Some (num_of w) else None)"

definition is_baseline :: "pyval \<Rightarrow> bool" where
  "is_baseline v \<longleftrightarrow> is_dict v \<and> list_ex (\<lambda>k. lookup v k = Some PNone) STEAL_KEYS"

definition TOP_STEAL :: nat where
  "TOP_STEAL = 5"

text \<open>The state of the loop over the samples: the readings per guest and the entries skipped.\<close>

definition steal_guest ::
  "pyval \<times> pyval \<Rightarrow> (string \<times> rat list) list \<times> nat \<Rightarrow> (py_error, (string \<times> rat list) list \<times> nat) result" where
  "steal_guest gv st = (case (gv, st) of ((guest, v), (per, bad)) \<Rightarrow>
     case guest_steal v of
       None \<Rightarrow> Inr (per, bad + (if is_baseline v then 0 else 1))
     | Some x \<Rightarrow> rbind (to_str guest) (\<lambda>g.
         Inr (AList.update g ((case map_of per g of None \<Rightarrow> [] | Some xs \<Rightarrow> xs) @ [x]) per, bad)))"

definition steal_sample ::
  "pyval \<Rightarrow> (string \<times> rat list) list \<times> nat \<Rightarrow> (py_error, (string \<times> rat list) list \<times> nat) result" where
  "steal_sample smp st =
     (case (if is_dict smp then get_or_none smp ''guests'' else PNone) of
        PDict gs \<Rightarrow> foldr_res steal_guest gs st
      | _ \<Rightarrow> Inr (fst st, snd st + 1))"

definition fmean :: "rat list \<Rightarrow> rat" where
  "fmean xs = fl (fsum xs / of_nat (length xs))"

definition report_steal :: "bool \<Rightarrow> pyval \<Rightarrow> (py_error, StealContributor list option \<times> diff_note list) result" where
  "report_steal side rec =
     (case lookup rec ''samples'' of
        None \<Rightarrow> Inr (None, [NoSamples side])
      | Some (PList smps) \<Rightarrow>
          if smps = [] then Inr (Some [], [EmptySamples side])
          else rbind (foldr_res steal_sample smps ([], 0)) (\<lambda>(per, bad).
            Inr (Some (take TOP_STEAL (sort_key (\<lambda>c. (- sc_mean c, sc_guest c))
                   (map (\<lambda>(g, xs). \<lparr>sc_guest = g, sc_mean = fmean xs, sc_samples = length xs\<rparr>) per))),
                 if bad = 0 then [] else [NoReadableSteal side bad]))
      | Some _ \<Rightarrow> Inr (None, [NotAList side]))"

definition HOST_KEYS :: "string list" where
  "HOST_KEYS = [''cpu'', ''iowait'', ''self_steal'', ''self_busy'', ''self_iowait'']"

definition host_of_sample :: "pyval \<Rightarrow> pyval option" where
  "host_of_sample smp = (case (if is_dict smp then get_or_none smp ''host'' else PNone) of PDict d \<Rightarrow> Some (PDict d) | _ \<Rightarrow> None)"

definition host_means :: "bool \<Rightarrow> pyval \<Rightarrow> (string \<times> rat option) list option \<times> diff_note list" where
  "host_means side rec =
     (case get_or_none rec ''samples'' of
        PList smps \<Rightarrow>
          if smps = [] then (None, [])
          else (let hosts = List.map_filter host_of_sample smps; bad = length smps - length hosts in
            (Some (map (\<lambda>k. (k, let xs = map (\<lambda>h. num_of (get_or_none h k)) (filter (\<lambda>h. is_num (get_or_none h k)) hosts)
                                in if xs = [] then None else Some (fmean xs))) HOST_KEYS),
             if bad = 0 then [] else [NoHostMapping side bad]))
      | _ \<Rightarrow> (None, []))"

subsection \<open>The comparison\<close>

definition key_union :: "('k \<times> 'v) list \<Rightarrow> ('k \<times> 'w) list \<Rightarrow> 'k list" where
  "key_union a b = map fst a @ filter (\<lambda>k. k \<notin> set (map fst a)) (map fst b)"

definition phase_delta ::
  "(pyval \<times> rat \<times> int \<times> int) list \<Rightarrow> (pyval \<times> rat \<times> int \<times> int) list \<Rightarrow> pyval \<Rightarrow> PhaseDelta" where
  "phase_delta pa pb n =
     \<lparr>cm_name = n, cm_a = map_option fst (map_of pa n), cm_b = map_option fst (map_of pb n),
      pd_a_retries = map_option (fst \<circ> snd) (map_of pa n), pd_b_retries = map_option (fst \<circ> snd) (map_of pb n),
      pd_a_failed = map_option (snd \<circ> snd) (map_of pa n), pd_b_failed = map_option (snd \<circ> snd) (map_of pb n)\<rparr>"

definition diverges :: "PhaseDelta \<Rightarrow> bool" where
  "diverges p \<longleftrightarrow> (case cm_delta p of None \<Rightarrow> False | Some d \<Rightarrow> d \<noteq> 0)"

definition gap :: "PhaseDelta \<Rightarrow> rat" where
  "gap p = \<bar>case cm_delta p of None \<Rightarrow> 0 | Some d \<Rightarrow> d\<bar>"

text \<open>\<open>max(xs, key=...)\<close>: the first of the largest.\<close>

fun first_max :: "('a \<Rightarrow> 'b :: linorder) \<Rightarrow> 'a list \<Rightarrow> 'a option" where
  "first_max key [] = None"
| "first_max key (x # xs) = Some (fold (\<lambda>y m. if key m < key y then y else m) xs x)"

definition perf_diff :: "pyval \<Rightarrow> pyval \<Rightarrow> (py_error, DiffReport) result" where
  "perf_diff a b =
     rbind (ensure (is_dict a) (ValueErr ''report A'')) (\<lambda>_.
     rbind (ensure (is_dict b) (ValueErr ''report B'')) (\<lambda>_.
     rbind (report_phases a) (\<lambda>pa.
     rbind (report_phases b) (\<lambda>pb.
     rbind (report_milestones a) (\<lambda>ma.
     rbind (report_milestones b) (\<lambda>mb.
     rbind (report_stack a) (\<lambda>sa.
     rbind (report_stack b) (\<lambda>sb.
     rbind (report_steal False a) (\<lambda>(steal_a, na).
     rbind (report_steal True b) (\<lambda>(steal_b, nb).
     rbind (report_notes a) (\<lambda>notes_a.
     rbind (report_notes b) (\<lambda>notes_b.
     let phases = map (phase_delta pa pb) (key_union pa pb) in
     Inr \<lparr>dr_a_stack = sa, dr_b_stack = sb, dr_phases = phases,
          dr_milestones = map (\<lambda>n. \<lparr>cm_name = n, cm_a = map_of ma n, cm_b = map_of mb n\<rparr>) (key_union ma mb),
          dr_dominant = first_max gap (filter diverges phases),
          dr_steal_a = steal_a, dr_steal_b = steal_b,
          dr_host_a = fst (host_means False a), dr_host_b = fst (host_means True b),
          dr_a_notes = notes_a, dr_b_notes = notes_b,
          dr_notes = (if sa \<noteq> sb then [StacksDiffer] else []) @ na @ nb
            @ snd (host_means False a) @ snd (host_means True b)\<rparr>))))))))))))"

text \<open>\<open>load\<close> from the parsed document: only a JSON object is a report.\<close>

definition load_report :: "pyval \<Rightarrow> (py_error, pyval) result" where
  "load_report data = (if is_dict data then Inr data else Inl (ValueErr ''must be a JSON object''))"

section \<open>The largest gap\<close>

lemma first_max_fold:
  "\<exists>pre post. x # xs = pre @ fold (\<lambda>y m. if key m < key y then y else m) xs x # post
     \<and> (\<forall>y \<in> set pre. key y < key (fold (\<lambda>y m. if key m < key y then y else m) xs x))
     \<and> (\<forall>y \<in> set post. key y \<le> (key (fold (\<lambda>y m. if key m < key y then y else m) xs x) :: 'b :: linorder))"
proof (induction xs rule: rev_induct)
  case (snoc z xs)
  define m where "m = fold (\<lambda>y m. if key m < key y then y else m) xs x"
  from snoc obtain pre post where ih: "x # xs = pre @ m # post" "\<forall>y \<in> set pre. key y < key m" "\<forall>y \<in> set post. key y \<le> key m"
    by (auto simp: m_def)
  show ?case
  proof (cases "key m < key z")
    case True
    with ih have "\<forall>y \<in> set (x # xs). key y < key z" by force
    with True show ?thesis by (intro exI[of _ "x # xs"] exI[of _ "[]"]) (auto simp: m_def[symmetric])
  next
    case False
    have "x # xs @ [z] = pre @ m # (post @ [z])" using ih(1) by (metis append.assoc append_Cons)
    with ih(2,3) False show ?thesis by (intro exI[of _ pre] exI[of _ "post @ [z]"]) (auto simp: m_def[symmetric])
  qed
qed (auto intro: exI[of _ "[]"])

lemma first_max_spec:
  "first_max key xs = Some m \<Longrightarrow>
     \<exists>pre post. xs = pre @ m # post \<and> (\<forall>y \<in> set pre. key y < key m) \<and> (\<forall>y \<in> set post. key y \<le> key m)"
  by (cases xs) (auto simp: first_max_fold)

lemma first_max_None: "first_max key xs = None \<longleftrightarrow> xs = []"
  by (cases xs) auto

section \<open>What a run writes\<close>

definition phase_values :: "PerfRecord \<Rightarrow> (pyval \<times> rat \<times> int \<times> int) list" where
  "phase_values r = map (\<lambda>(n, t). (PStr n, pt_seconds t, int (pt_retries t), int (pt_failed t))) (phases_of (pr_steps r))"

lemma phase_body_total: "phase_body (phase_total_dict t) = Inr (pt_seconds t, int (pt_retries t), int (pt_failed t))"
  by (simp add: phase_body_def phase_total_dict_def get_or_none_def get_default_def lookup_def)

lemma perf_json_get:
  "get_or_none (perf_json r) ''phases'' = PDict (map (\<lambda>(n, t). (PStr n, phase_total_dict t)) (phases_of (pr_steps r)))"
  "get_or_none (perf_json r) ''milestones'' = PDict (map (\<lambda>(n, s). (PStr n, PFloat s)) (pr_milestones r))"
  "get_or_none (perf_json r) ''stack'' = PStr (pr_stack r)"
  "get_default (perf_json r) ''notes'' d = PList (map PStr (pr_notes r))"
  "lookup (perf_json r) ''samples'' = Some (PList (map sample_dict (pr_samples r)))"
  "is_dict (perf_json r)"
  by (simp_all add: perf_json_def get_or_none_def get_default_def lookup_def)

lemma report_phases_perf: "report_phases (perf_json r) = Inr (phase_values r)"
proof -
  have "traverse (\<lambda>(n, body). rbind (phase_body body) (\<lambda>b. Inr (n, b))) (map (\<lambda>(n, t). (PStr n, phase_total_dict t)) ps)
      = Inr (map (\<lambda>(n, t). (PStr n, pt_seconds t, int (pt_retries t), int (pt_failed t))) ps)" for ps
    by (induction ps) (auto simp: phase_body_total)
  then show ?thesis by (simp add: report_phases_def perf_json_get phase_values_def)
qed

lemma report_milestones_perf: "report_milestones (perf_json r) = Inr (map (\<lambda>(n, s). (PStr n, s)) (pr_milestones r))"
proof -
  have "traverse (\<lambda>(n, s). if is_num s then Inr (n, num_of s) else Inl (ValueErr ''milestone'')) (map (\<lambda>(n, s). (PStr n, PFloat s)) ms)
      = Inr (map (\<lambda>(n, s). (PStr n, s)) ms)" for ms
    by (induction ms) auto
  then show ?thesis by (simp add: report_milestones_def perf_json_get)
qed

lemma report_notes_perf: "report_notes (perf_json r) = Inr (pr_notes r)"
proof -
  have "traverse (\<lambda>v. case v of PStr s \<Rightarrow> Inr s | _ \<Rightarrow> Inl (ValueErr ''notes'')) (map PStr ns) = Inr ns" for ns
    by (induction ns) auto
  then show ?thesis by (simp add: report_notes_def perf_json_get list_all_iff)
qed

text \<open>Reading the samples of a written report never fails, and skips no guest reading.\<close>

lemma steal_guests_perf: "\<exists>per. foldr_res steal_guest (map (\<lambda>(n, g). (PStr n, guest_dict g)) gs) (per0, bad) = Inr (per, bad)"
proof (induction gs arbitrary: per0)
  case (Cons ng gs)
  obtain n g where ng: "ng = (n, g)" by fastforce
  have steal: "guest_steal (guest_dict g) = g_steal g" "g_steal g = None \<Longrightarrow> is_baseline (guest_dict g)"
    by (auto simp: guest_steal_def guest_dict_def is_baseline_def STEAL_KEYS_def get_or_none_def lookup_def opt_float_def Let_def
        split: option.splits)
  show ?case
    using Cons steal by (cases "g_steal g") (simp_all add: ng steal_guest_def)
qed simp

lemma report_steal_perf: "\<exists>x. report_steal side (perf_json r) = Inr x"
proof -
  have one: "\<exists>per'. steal_sample (sample_dict s) (per, bad) = Inr (per', bad)" for s per bad
    using steal_guests_perf[of "hc_guests s" per bad] by (simp add: steal_sample_def sample_dict_def get_or_none_def lookup_def)
  have "\<exists>per. foldr_res steal_sample (map sample_dict ss) (per0, bad) = Inr (per, bad)" for ss per0 bad
  proof (induction ss arbitrary: per0)
    case (Cons s ss)
    from one[of s per0 bad] obtain per' where "steal_sample (sample_dict s) (per0, bad) = Inr (per', bad)" by blast
    with Cons[of per'] show ?case by simp
  qed simp
  then obtain per where per: "foldr_res steal_sample (map sample_dict (pr_samples r)) ([], 0) = Inr (per, 0)" by blast
  show ?thesis by (cases "pr_samples r = []") (simp_all add: report_steal_def perf_json_get per)
qed

section \<open>Properties\<close>

text \<open>A comparison loses nothing and points at the right phase: it lists every phase of either report
  once, in the order of A and then of B, with each side's figures or their absence, and its dominant
  phase is the first one with the largest absolute difference; there is none exactly when no phase
  present on both sides differs.\<close>

theorem perf_diff_exact:
  assumes "perf_diff a b = Inr rep"
  shows "\<exists>pa pb. report_phases a = Inr pa \<and> report_phases b = Inr pb
    \<and> dr_phases rep = map (phase_delta pa pb) (map fst pa @ filter (\<lambda>n. n \<notin> fst ` set pa) (map fst pb))
    \<and> (dr_dominant rep = None \<longleftrightarrow> (\<forall>p \<in> set (dr_phases rep). \<not> diverges p))
    \<and> (\<forall>d. dr_dominant rep = Some d \<longrightarrow> diverges d \<and>
         (\<exists>pre post. filter diverges (dr_phases rep) = pre @ d # post
            \<and> (\<forall>p \<in> set pre. gap p < gap d) \<and> (\<forall>p \<in> set post. gap p \<le> gap d)))"
proof -
  from assms obtain pa pb where p: "report_phases a = Inr pa" "report_phases b = Inr pb"
    and ph: "dr_phases rep = map (phase_delta pa pb) (key_union pa pb)"
    and dom: "dr_dominant rep = first_max gap (filter diverges (dr_phases rep))"
    by (auto simp: perf_diff_def rbind_eq_Inr Let_def)
  have "diverges d \<and> (\<exists>pre post. filter diverges (dr_phases rep) = pre @ d # post
            \<and> (\<forall>p \<in> set pre. gap p < gap d) \<and> (\<forall>p \<in> set post. gap p \<le> gap d))" if "dr_dominant rep = Some d" for d
  proof -
    from first_max_spec[OF that[unfolded dom]] obtain pre post where split: "filter diverges (dr_phases rep) = pre @ d # post"
      and "\<forall>p \<in> set pre. gap p < gap d" "\<forall>p \<in> set post. gap p \<le> gap d" by blast
    moreover have "diverges d"
    proof -
      have "d \<in> set (filter diverges (dr_phases rep))" by (simp only: split) simp
      then show ?thesis by (simp only: set_filter mem_Collect_eq)
    qed
    ultimately show ?thesis by (intro conjI exI[of _ pre] exI[of _ post]) auto
  qed
  moreover have "dr_dominant rep = None \<longleftrightarrow> (\<forall>p \<in> set (dr_phases rep). \<not> diverges p)"
    by (simp add: dom first_max_None filter_empty_conv)
  ultimately show ?thesis using p ph by (auto simp: key_union_def)
qed

text \<open>Two reports: a retried second phase in A, and a phase that only B has.\<close>

definition phase_doc :: "int \<Rightarrow> int \<Rightarrow> pyval" where
  "phase_doc secs retries = PDict [(PStr ''seconds'', PInt secs), (PStr ''retries'', PInt retries)]"

definition doc_a :: pyval where
  "doc_a = PDict
     [(PStr ''stack'', PStr ''rdqm''), (PStr ''milestones'', PDict []),
      (PStr ''phases'', PDict [(PStr ''vms'', phase_doc 8 0), (PStr ''install'', phase_doc 64 1)])]"

definition doc_b :: pyval where
  "doc_b = PDict
     [(PStr ''stack'', PStr ''rdqm''), (PStr ''milestones'', PDict []),
      (PStr ''phases'', PDict [(PStr ''vms'', phase_doc 4 0), (PStr ''install'', phase_doc 16 0), (PStr ''verify'', phase_doc 2 0)])]"

theorem perf_diff_exact_witness:
  "\<exists>rep pre post. perf_diff doc_a doc_b = Inr rep
     \<and> map cm_name (dr_phases rep) = [PStr ''vms'', PStr ''install'', PStr ''verify'']
     \<and> map cm_delta (dr_phases rep) = [Some 4, Some 48, None]
     \<and> (\<exists>d. dr_dominant rep = Some d \<and> cm_name d = PStr ''install'' \<and> filter diverges (dr_phases rep) = pre @ d # post
          \<and> (\<forall>p \<in> set pre. gap p < gap d) \<and> (\<forall>p \<in> set post. gap p \<le> gap d))"
proof -
  define rep where "rep = projr (perf_diff doc_a doc_b)"
  have ok: "perf_diff doc_a doc_b = Inr rep"
  proof -
    have "\<not> isl (perf_diff doc_a doc_b)" by code_simp
    then show ?thesis by (cases "perf_diff doc_a doc_b") (simp_all add: rep_def)
  qed
  have dom: "map_option cm_name (dr_dominant rep) = Some (PStr ''install'')"
    and names: "map cm_name (dr_phases rep) = [PStr ''vms'', PStr ''install'', PStr ''verify'']"
    and deltas: "map cm_delta (dr_phases rep) = [Some 4, Some 48, None]"
    unfolding rep_def by code_simp+
  from dom obtain d where d: "dr_dominant rep = Some d" "cm_name d = PStr ''install''" by auto
  from perf_diff_exact[OF ok] d(1) obtain pre post where "filter diverges (dr_phases rep) = pre @ d # post"
    "\<forall>p \<in> set pre. gap p < gap d" "\<forall>p \<in> set post. gap p \<le> gap d" by blast
  with ok names deltas d show ?thesis
    by (intro exI[of _ rep] exI[of _ pre] exI[of _ post] conjI exI[of _ d]) simp_all
qed

text \<open>C27: whatever a run records, its report is accepted: two reports written by the program always compare,
  and the figures compared are the totals of the steps that ran.\<close>

theorem perf_reports_compare:
  "\<exists>rep. perf_diff (perf_json r1) (perf_json r2) = Inr rep
     \<and> dr_a_stack rep = Some (pr_stack r1) \<and> dr_b_stack rep = Some (pr_stack r2)
     \<and> dr_phases rep = map (phase_delta (phase_values r1) (phase_values r2)) (key_union (phase_values r1) (phase_values r2))
     \<and> map fst (phase_values r1) = map PStr (add_all_new (map st_phase (pr_steps r1)) [])
     \<and> dr_a_notes rep = pr_notes r1 \<and> dr_b_notes rep = pr_notes r2"
proof -
  from report_steal_perf[of False r1] report_steal_perf[of True r2] obtain x y
    where "report_steal False (perf_json r1) = Inr x" "report_steal True (perf_json r2) = Inr y" by blast
  then have "\<exists>rep. perf_diff (perf_json r1) (perf_json r2) = Inr rep
     \<and> dr_a_stack rep = Some (pr_stack r1) \<and> dr_b_stack rep = Some (pr_stack r2)
     \<and> dr_phases rep = map (phase_delta (phase_values r1) (phase_values r2)) (key_union (phase_values r1) (phase_values r2))
     \<and> dr_a_notes rep = pr_notes r1 \<and> dr_b_notes rep = pr_notes r2"
    by (cases x; cases y)
      (simp add: perf_diff_def perf_json_get report_phases_perf report_milestones_perf report_notes_perf report_stack_def Let_def)
  moreover have "map fst (phase_values r1) = map PStr (add_all_new (map st_phase (pr_steps r1)) [])"
  proof -
    have "map fst (phase_values r1) = map PStr (map fst (phases_of (pr_steps r1)))"
      by (simp add: phase_values_def o_def case_prod_beta')
    then show ?thesis by (simp only: phases_of_keys)
  qed
  ultimately show ?thesis by blast
qed

end
