(* ===== verification/Perf_Sampler.thy ===== *)
theory Perf_Sampler
  imports Perf_Report
begin

text \<open>
  The contention sampler, \<open>mqlab/perfsampler.py\<close>: the \<open>Sampler\<close> that turns one reading after
  another into samples and notes of the run's record, the parsers of the readings, and the lab's
  own source of readings (\<open>RealSource\<close>) with its multiplexed guest probes.

  What a probe answers is an argument (\<open>Probes\<close>): the host, the sampling machine and each guest either
  give a reading or raise. An exception is any value; \<open>msg\<close> is its \<open>type(exc).__name__: exc\<close> text. An
  operation that may raise half-way carries the state it had reached in its left component. The
  thread's waiting is not modelled: a run is a list of ticks, and \<open>stop\<close> is told whether the thread
  still lives. Guest probes that run at the same time are a step relation over a pool of threads.
\<close>

section \<open>The sampler\<close>

record HostSample =
  h_cpu :: rat
  h_iowait :: rat
  h_cpus :: "int option"

record Sampler =
  sm_fail_count :: "(string \<times> nat) list"
  sm_last_error :: "(string \<times> string) list"
  sm_record :: PerfRecord

record 'e Probes =
  pb_now :: rat
  pb_host :: "('e, HostSample) result"
  pb_local :: "('e, LocalSample) result"
  pb_guest :: "nat \<Rightarrow> ('e, GuestSample) result"
  pb_notes :: "('e, string list) result"

definition new_sampler :: "PerfRecord \<Rightarrow> Sampler" where
  "new_sampler r = \<lparr>sm_fail_count = [], sm_last_error = [], sm_record = r\<rparr>"

definition sm_note :: "string \<Rightarrow> Sampler \<Rightarrow> Sampler" where
  "sm_note t s = s\<lparr>sm_record := add_note t (sm_record s)\<rparr>"

definition unavailable_note :: "string \<Rightarrow> string \<Rightarrow> string" where
  "unavailable_note key m = key @ '': sample unavailable ('' @ m @ '')''"

definition recovered_note :: "string \<Rightarrow> nat \<Rightarrow> string" where
  "recovered_note key n = key @ '': sample recovered after '' @ nat_str n @ '' failed probe(s)''"

definition still_note :: "string \<Rightarrow> nat \<Rightarrow> string" where
  "still_note key n = key @ '': still unavailable at stop ('' @ nat_str n @ '' consecutive failed probe(s))''"

definition failed :: "string \<Rightarrow> string \<Rightarrow> Sampler \<Rightarrow> Sampler" where
  "failed key m s =
     (let s1 = s\<lparr>sm_fail_count := AList.update key
            (case map_of (sm_fail_count s) key of None \<Rightarrow> 1 | Some n \<Rightarrow> n + 1) (sm_fail_count s)\<rparr>
      in if map_of (sm_last_error s1) key \<noteq> Some m
         then sm_note (unavailable_note key m) (s1\<lparr>sm_last_error := AList.update key m (sm_last_error s1)\<rparr>)
         else s1)"

text \<open>\<open>self._fail_count.pop(key)\<close> raises a \<open>KeyError\<close> when the key is absent.\<close>

definition succeeded :: "string \<Rightarrow> Sampler \<Rightarrow> (py_error \<times> Sampler, Sampler) result" where
  "succeeded key s =
     (if map_of (sm_last_error s) key = None then Inr s
      else let s1 = s\<lparr>sm_last_error := AList.delete key (sm_last_error s)\<rparr> in
        case map_of (sm_fail_count s1) key of
          None \<Rightarrow> Inl (KeyErr key, s1)
        | Some n \<Rightarrow> Inr (sm_note (recovered_note key n) (s1\<lparr>sm_fail_count := AList.delete key (sm_fail_count s1)\<rparr>)))"

text \<open>What \<open>tick\<close> does with the outcome of one probe.\<close>

definition account :: "('e \<Rightarrow> string) \<Rightarrow> string \<Rightarrow> ('e, 'a) result \<Rightarrow> Sampler \<Rightarrow> (py_error \<times> Sampler, Sampler) result" where
  "account msg key out s = (case out of Inl e \<Rightarrow> Inr (failed key (msg e) s) | Inr _ \<Rightarrow> succeeded key s)"

definition guest_key :: "string \<Rightarrow> string" where
  "guest_key name = ''guest '' @ name"

definition guest_results :: "string list \<Rightarrow> ('e, 'z) Probes_scheme \<Rightarrow> (string \<times> ('e, GuestSample) result) list" where
  "guest_results guests p = zip guests (map (pb_guest p) [0..<length guests])"

definition readings :: "(string \<times> ('e, GuestSample) result) list \<Rightarrow> (string \<times> GuestSample) list" where
  "readings rs = fold (\<lambda>(n, r) d. case r of Inl _ \<Rightarrow> d | Inr g \<Rightarrow> AList.update n g d) rs []"

definition drain_source_notes :: "('e \<Rightarrow> string) \<Rightarrow> ('e, string list) result \<Rightarrow> Sampler \<Rightarrow> Sampler" where
  "drain_source_notes msg out s = (case out of
     Inl e \<Rightarrow> sm_note (''sampler: source notes unavailable ('' @ msg e @ '')'') s
   | Inr ms \<Rightarrow> fold (\<lambda>m. sm_note (''sampler: '' @ m)) ms s)"

definition tick_sample :: "string list \<Rightarrow> rat \<Rightarrow> ('e, 'z) Probes_scheme \<Rightarrow> HostContentionSample" where
  "tick_sample guests started p =
     \<lparr>hc_t = fl (pb_now p - started),
      hc_cpu = (case pb_host p of Inl _ \<Rightarrow> None | Inr h \<Rightarrow> Some (h_cpu h)),
      hc_iowait = (case pb_host p of Inl _ \<Rightarrow> None | Inr h \<Rightarrow> Some (h_iowait h)),
      hc_cpus = (case pb_host p of Inl _ \<Rightarrow> None | Inr h \<Rightarrow> h_cpus h),
      hc_guests = readings (guest_results guests p),
      hc_local = (case pb_local p of Inl _ \<Rightarrow> None | Inr l \<Rightarrow> Some l)\<rparr>"

definition tick :: "('e \<Rightarrow> string) \<Rightarrow> string list \<Rightarrow> 'e Probes \<Rightarrow> Sampler \<Rightarrow> (py_error \<times> Sampler, Sampler) result" where
  "tick msg guests p s =
     rbind (account msg ''host'' (pb_host p) s) (\<lambda>s1.
     rbind (account msg ''vergil-vm'' (pb_local p) s1) (\<lambda>s2.
     rbind (foldr_res (\<lambda>(n, r). account msg (guest_key n) r) (guest_results guests p) s2) (\<lambda>s3.
     let s4 = drain_source_notes msg (pb_notes p) s3
     in Inr (s4\<lparr>sm_record := add_sample (tick_sample guests (pr_started_at (sm_record s)) p) (sm_record s4)\<rparr>))))"

text \<open>One round of \<open>_loop\<close>: an exception of the tick becomes a note. \<open>rend\<close> renders it.\<close>

definition loop_tick :: "(py_error \<Rightarrow> string) \<Rightarrow> ('e \<Rightarrow> string) \<Rightarrow> string list \<Rightarrow> 'e Probes \<Rightarrow> Sampler \<Rightarrow> Sampler" where
  "loop_tick rend msg guests p s = (case tick msg guests p s of
     Inr t \<Rightarrow> t
   | Inl (e, t) \<Rightarrow> sm_note (''sampler: tick failed ('' @ rend e @ ''); continuing'') t)"

definition sampler_loop :: "(py_error \<Rightarrow> string) \<Rightarrow> ('e \<Rightarrow> string) \<Rightarrow> string list \<Rightarrow> 'e Probes list \<Rightarrow> Sampler \<Rightarrow> Sampler" where
  "sampler_loop rend msg guests ps s = fold (loop_tick rend msg guests) ps s"

text \<open>\<open>stop\<close>: \<open>alive\<close> is the text of the join timeout when the thread outlived it, \<open>cres\<close> what \<open>close\<close> answered.\<close>

definition stop_sampler :: "('e \<Rightarrow> string) \<Rightarrow> string option \<Rightarrow> ('e, string list) result \<Rightarrow> Sampler \<Rightarrow> Sampler" where
  "stop_sampler msg alive cres s =
     (let s1 = (case alive of None \<Rightarrow> s
          | Some t \<Rightarrow> sm_note (''sampler: thread did not stop within '' @ t @ ''s; abandoning it (daemon)'') s);
          s2 = s1\<lparr>sm_fail_count := [], sm_last_error := []\<rparr>;
          s3 = fold (\<lambda>(k, n). sm_note (still_note k n)) (sm_fail_count s1) s2
      in case cres of
           Inl e \<Rightarrow> sm_note (''sampler: source cleanup failed ('' @ msg e @ '')'') s3
         | Inr ps \<Rightarrow> fold (\<lambda>p. sm_note (''sampler: '' @ p)) ps s3)"

section \<open>What the log should say\<close>

text \<open>
  The reference: a key's outcomes in order, \<open>Some m\<close> a failure with message \<open>m\<close>. A failure is noted unless the
  outcome before it failed with the same message; a success is noted when the outcome before it
  failed, with the length of the streak it ends.
\<close>

definition streak :: "string option list \<Rightarrow> nat" where
  "streak h = length (takeWhile (\<lambda>x. x \<noteq> None) (rev h))"

definition note_at :: "string \<Rightarrow> string option list \<Rightarrow> string option \<Rightarrow> string list" where
  "note_at key before now = (case now of
     Some m \<Rightarrow> if before \<noteq> [] \<and> last before = Some m then [] else [unavailable_note key m]
   | None \<Rightarrow> if before \<noteq> [] \<and> last before \<noteq> None then [recovered_note key (streak before)] else [])"

definition outcome :: "('e \<Rightarrow> string) \<Rightarrow> ('e, 'a) result \<Rightarrow> string option" where
  "outcome msg r = (case r of Inl e \<Rightarrow> Some (msg e) | Inr _ \<Rightarrow> None)"

text \<open>The probes of a tick in the order they are accounted.\<close>

definition tick_outcomes :: "('e \<Rightarrow> string) \<Rightarrow> string list \<Rightarrow> ('e, 'z) Probes_scheme \<Rightarrow> (string \<times> string option) list" where
  "tick_outcomes msg guests p =
     (''host'', outcome msg (pb_host p)) # (''vergil-vm'', outcome msg (pb_local p))
       # map (\<lambda>(n, r). (guest_key n, outcome msg r)) (guest_results guests p)"

definition history :: "('e \<Rightarrow> string) \<Rightarrow> string list \<Rightarrow> 'e Probes list \<Rightarrow> string \<Rightarrow> string option list" where
  "history msg guests ps key = List.map_filter (\<lambda>p. map_of (tick_outcomes msg guests p) key) ps"

definition source_notes :: "('e \<Rightarrow> string) \<Rightarrow> ('e, 'z) Probes_scheme \<Rightarrow> string list" where
  "source_notes msg p = (case pb_notes p of
     Inl e \<Rightarrow> [''sampler: source notes unavailable ('' @ msg e @ '')'']
   | Inr ms \<Rightarrow> map (\<lambda>m. ''sampler: '' @ m) ms)"

definition tick_notes :: "('e \<Rightarrow> string) \<Rightarrow> string list \<Rightarrow> 'e Probes list \<Rightarrow> 'e Probes \<Rightarrow> string list" where
  "tick_notes msg guests before p =
     concat (map (\<lambda>(k, x). note_at k (history msg guests before k) x) (tick_outcomes msg guests p)) @ source_notes msg p"

fun log_notes :: "('e \<Rightarrow> string) \<Rightarrow> string list \<Rightarrow> 'e Probes list \<Rightarrow> 'e Probes list \<Rightarrow> string list" where
  "log_notes msg guests before [] = []"
| "log_notes msg guests before (p # ps) = tick_notes msg guests before p @ log_notes msg guests (before @ [p]) ps"


section \<open>The tracking dictionaries\<close>

lemma streak_simps [simp]:
  "streak [] = 0"
  "streak [None] = 0"
  "streak [Some m] = 1"
  "streak (h @ [None]) = 0"
  "streak (h @ [Some m]) = Suc (streak h)"
  by (simp_all add: streak_def)

lemma streak_0_iff: "streak h = 0 \<longleftrightarrow> h = [] \<or> last h = None"
  by (cases h rule: rev_cases) (auto simp: streak_def)

text \<open>The invariant: the two dictionaries hold, for every key, the streak its history ends with.\<close>

definition tracks :: "(string \<Rightarrow> string option list) \<Rightarrow> Sampler \<Rightarrow> bool" where
  "tracks H s \<longleftrightarrow> distinct (map fst (sm_fail_count s))
     \<and> (\<forall>k. map_of (sm_fail_count s) k = (if streak (H k) = 0 then None else Some (streak (H k))))
     \<and> (\<forall>k. map_of (sm_last_error s) k = (if H k = [] then None else last (H k)))"

definition add_notes :: "string list \<Rightarrow> PerfRecord \<Rightarrow> PerfRecord" where
  "add_notes ns r = r\<lparr>pr_notes := pr_notes r @ ns\<rparr>"

definition account_out :: "string \<Rightarrow> string option \<Rightarrow> Sampler \<Rightarrow> (py_error \<times> Sampler, Sampler) result" where
  "account_out key x s = (case x of Some m \<Rightarrow> Inr (failed key m s) | None \<Rightarrow> succeeded key s)"

lemma account_outcome: "account msg key r = account_out key (outcome msg r)"
  by (rule ext) (simp add: account_def account_out_def outcome_def split: sum.split)

lemma add_notes_simps [simp]:
  "add_notes [] r = r"
  "add_notes b (add_notes a r) = add_notes (a @ b) r"
  "pr_notes (add_notes a r) = pr_notes r @ a"
  "pr_started_at (add_notes a r) = pr_started_at r"
  "pr_samples (add_notes a r) = pr_samples r"
  "add_sample x (add_notes a r) = add_notes a (add_sample x r)"
  by (simp_all add: add_notes_def add_sample_def)

lemma sm_note_simps [simp]:
  "sm_fail_count (sm_note t s) = sm_fail_count s"
  "sm_last_error (sm_note t s) = sm_last_error s"
  "sm_record (sm_note t s) = add_notes [t] (sm_record s)"
  by (simp_all add: sm_note_def add_note_def add_notes_def)

lemma sm_notes_fold:
  "fold (\<lambda>x. sm_note (f x)) xs s = s\<lparr>sm_record := add_notes (map f xs) (sm_record s)\<rparr>"
  by (induction xs arbitrary: s) (simp_all add: sm_note_def add_note_def add_notes_def)

lemma account_out_tracks:
  assumes "tracks H s"
  shows "\<exists>t. account_out key x s = Inr t \<and> tracks (H(key := H key @ [x])) t
    \<and> sm_record t = add_notes (note_at key (H key) x) (sm_record s)"
proof (cases x)
  case (Some m)
  have "distinct (map fst (sm_fail_count (failed key m s)))"
    using assms by (simp add: tracks_def failed_def Let_def distinct_update)
  with assms Some show ?thesis
    by (auto simp: tracks_def account_out_def failed_def Let_def update_conv' note_at_def streak_0_iff)
next
  case None
  show ?thesis
  proof (cases "streak (H key) = 0")
    case True
    then have "account_out key x s = Inr s" "note_at key (H key) x = []"
      using assms None by (auto simp: tracks_def account_out_def succeeded_def note_at_def streak_0_iff)
    with assms True None show ?thesis by (auto simp: tracks_def streak_0_iff)
  next
    case False
    then obtain m where "H key \<noteq> []" "last (H key) = Some m" by (auto simp: streak_0_iff)
    with assms False None show ?thesis
      by (auto simp: tracks_def account_out_def succeeded_def note_at_def Let_def delete_conv' distinct_delete)
  qed
qed

lemma account_all_tracks:
  assumes "tracks H s" and "distinct (map fst kxs)"
  shows "\<exists>t. foldr_res (\<lambda>(k, x). account_out k x) kxs s = Inr t
    \<and> tracks (\<lambda>k. case map_of kxs k of None \<Rightarrow> H k | Some x \<Rightarrow> H k @ [x]) t
    \<and> sm_record t = add_notes (concat (map (\<lambda>(k, x). note_at k (H k) x) kxs)) (sm_record s)"
  using assms
proof (induction kxs arbitrary: H s)
  case (Cons kx kxs)
  obtain k x where kx: "kx = (k, x)" by fastforce
  let ?H = "H(k := H k @ [x])"
  from account_out_tracks[OF Cons.prems(1)] obtain s1 where s1: "account_out k x s = Inr s1" "tracks ?H s1"
    "sm_record s1 = add_notes (note_at k (H k) x) (sm_record s)" by blast
  from Cons.IH[OF s1(2)] Cons.prems(2) obtain t where t: "foldr_res (\<lambda>(k, x). account_out k x) kxs s1 = Inr t"
    "tracks (\<lambda>k'. case map_of kxs k' of None \<Rightarrow> ?H k' | Some x \<Rightarrow> ?H k' @ [x]) t"
    "sm_record t = add_notes (concat (map (\<lambda>(k, x). note_at k (?H k) x) kxs)) (sm_record s1)" by auto
  have fresh: "k \<notin> set (map fst kxs)" using Cons.prems(2) kx by simp
  then have "map (\<lambda>(k, x). note_at k (?H k) x) kxs = map (\<lambda>(k, x). note_at k (H k) x) kxs" by force
  then have "sm_record t = add_notes (concat (map (\<lambda>(k, x). note_at k (H k) x) (kx # kxs))) (sm_record s)"
    by (simp only: t(3) s1(3) kx) simp
  moreover have "(\<lambda>k'. case map_of kxs k' of None \<Rightarrow> ?H k' | Some x \<Rightarrow> ?H k' @ [x])
      = (\<lambda>k'. case map_of (kx # kxs) k' of None \<Rightarrow> H k' | Some x \<Rightarrow> H k' @ [x])"
    using fresh by (auto simp: kx fun_eq_iff map_of_eq_None_iff[symmetric] split: option.splits)
  ultimately show ?case using s1(1) t(1,2) by (simp add: kx)
qed simp

lemma guest_keys: "map fst (map (\<lambda>(n, r). (guest_key n, outcome msg r)) (guest_results guests p)) = map guest_key guests"
proof -
  have "map fst (guest_results guests p) = guests" by (simp add: guest_results_def)
  moreover have "map fst (map (\<lambda>(n, r). (guest_key n, outcome msg r)) rs) = map guest_key (map fst rs)" for rs :: "(string \<times> ('a, GuestSample) result) list"
    by (induction rs) auto
  ultimately show ?thesis by metis
qed

lemma tick_keys: "map fst (tick_outcomes msg guests p) = ''host'' # ''vergil-vm'' # map guest_key guests"
  unfolding tick_outcomes_def list.map fst_conv guest_keys ..

lemma distinct_tick_keys: "distinct guests \<Longrightarrow> distinct (map fst (tick_outcomes msg guests p))"
  by (auto simp: tick_keys guest_key_def distinct_map inj_on_def)

lemma tick_unfold:
  "tick msg guests p s =
     rbind (foldr_res (\<lambda>(k, x). account_out k x) (tick_outcomes msg guests p) s) (\<lambda>s3.
       let s4 = drain_source_notes msg (pb_notes p) s3
       in Inr (s4\<lparr>sm_record := add_sample (tick_sample guests (pr_started_at (sm_record s)) p) (sm_record s4)\<rparr>))"
proof -
  have "foldr_res (\<lambda>(n, r). account_out (guest_key n) (outcome msg r)) rs u
      = foldr_res (\<lambda>(k, x). account_out k x) (map (\<lambda>(n, r). (guest_key n, outcome msg r)) rs) u" for rs :: "(string \<times> ('a, GuestSample) result) list" and u
    by (induction rs arbitrary: u) (auto simp: fun_eq_iff intro!: arg_cong2[where f = rbind])
  then show ?thesis
    by (simp add: tick_def account_outcome tick_outcomes_def rbind_assoc)
qed

lemma drain_notes:
  "drain_source_notes msg (pb_notes p) s = s\<lparr>sm_record := add_notes (source_notes msg p) (sm_record s)\<rparr>"
  by (simp add: drain_source_notes_def source_notes_def sm_notes_fold sm_note_def add_note_def add_notes_def split: sum.split)

lemma history_snoc:
  "history msg guests (ps @ [p]) k = (case map_of (tick_outcomes msg guests p) k of
     None \<Rightarrow> history msg guests ps k | Some x \<Rightarrow> history msg guests ps k @ [x])"
  by (simp add: history_def map_filter_append List.map_filter_simps split: option.split)

lemma tick_tracks:
  assumes "tracks (history msg guests ps) s" and "distinct guests"
  shows "\<exists>t. tick msg guests p s = Inr t \<and> tracks (history msg guests (ps @ [p])) t
    \<and> sm_record t = add_notes (tick_notes msg guests ps p) (add_sample (tick_sample guests (pr_started_at (sm_record s)) p) (sm_record s))"
proof -
  from account_all_tracks[OF assms(1) distinct_tick_keys[OF assms(2)]] obtain u where
    u: "foldr_res (\<lambda>(k, x). account_out k x) (tick_outcomes msg guests p) s = Inr u"
    "tracks (\<lambda>k. case map_of (tick_outcomes msg guests p) k of None \<Rightarrow> history msg guests ps k
        | Some x \<Rightarrow> history msg guests ps k @ [x]) u"
    "sm_record u = add_notes (concat (map (\<lambda>(k, x). note_at k (history msg guests ps k) x) (tick_outcomes msg guests p)))
        (sm_record s)" by blast
  from u(2) have "tracks (history msg guests (ps @ [p])) u" by (simp add: tracks_def history_snoc)
  then show ?thesis using u(1,3)
    by (auto simp: tick_unfold drain_notes tracks_def tick_notes_def Let_def)
qed

lemma loop_tracks:
  assumes "tracks (history msg guests before) s" and "distinct guests"
  shows "tracks (history msg guests (before @ ps)) (sampler_loop rend msg guests ps s)
    \<and> pr_notes (sm_record (sampler_loop rend msg guests ps s)) = pr_notes (sm_record s) @ log_notes msg guests before ps
    \<and> pr_samples (sm_record (sampler_loop rend msg guests ps s))
        = pr_samples (sm_record s) @ map (tick_sample guests (pr_started_at (sm_record s))) ps"
  using assms
proof (induction ps arbitrary: before s)
  case (Cons p ps)
  from tick_tracks[OF Cons.prems] obtain t where t: "tick msg guests p s = Inr t" "tracks (history msg guests (before @ [p])) t"
    "sm_record t = add_notes (tick_notes msg guests before p) (add_sample (tick_sample guests (pr_started_at (sm_record s)) p) (sm_record s))"
    by blast
  have "pr_started_at (sm_record t) = pr_started_at (sm_record s)" by (simp add: t(3)) (simp add: add_sample_def)
  moreover have "pr_notes (sm_record t) = pr_notes (sm_record s) @ tick_notes msg guests before p"
    by (simp add: t(3)) (simp add: add_sample_def)
  moreover have "pr_samples (sm_record t) = pr_samples (sm_record s) @ [tick_sample guests (pr_started_at (sm_record s)) p]"
    by (simp add: t(3)) (simp add: add_sample_def)
  moreover have "sampler_loop rend msg guests (p # ps) s = sampler_loop rend msg guests ps t"
    by (simp add: sampler_loop_def loop_tick_def t(1))
  ultimately show ?case using Cons.IH[OF t(2) Cons.prems(2)] by simp
qed (simp add: sampler_loop_def)

lemma new_sampler_tracks: "tracks (history msg guests []) (new_sampler r)"
  by (simp add: tracks_def new_sampler_def history_def List.map_filter_simps)

lemma stop_notes:
  "pr_notes (sm_record (stop_sampler msg None (Inr problems) s))
     = pr_notes (sm_record s) @ map (\<lambda>(k, n). still_note k n) (sm_fail_count s) @ map (\<lambda>p. ''sampler: '' @ p) problems"
proof -
  have "fold (\<lambda>(k, n). sm_note (still_note k n)) xs u = fold (\<lambda>x. sm_note ((\<lambda>(k, n). still_note k n) x)) xs u" for xs u
    by (rule fold_cong) auto
  then show ?thesis by (simp add: stop_sampler_def sm_notes_fold)
qed

text \<open>C24: the log of a sampled run is exactly its failures and recoveries: with distinct guests, whatever the
  probes answer, no tick raises, every tick appends one sample with the readings it got, and the notes
  are the reference log - a failure noted once per message, a recovery with the number of failed probes
  it ends. At the stop each probe whose last outcome failed is noted with the length of its streak, and
  no other, before the problems of closing.\<close>

theorem sampler_log_exact:
  assumes "distinct guests"
  shows "\<exists>still. pr_notes (sm_record (stop_sampler msg None (Inr problems) (sampler_loop rend msg guests ps (new_sampler r))))
      = pr_notes r @ log_notes msg guests [] ps @ map (\<lambda>k. still_note k (streak (history msg guests ps k))) still
          @ map (\<lambda>p. ''sampler: '' @ p) problems
    \<and> distinct still \<and> set still = {k. streak (history msg guests ps k) \<noteq> 0}
    \<and> pr_samples (sm_record (sampler_loop rend msg guests ps (new_sampler r)))
        = pr_samples r @ map (tick_sample guests (pr_started_at r)) ps"
proof -
  let ?s = "sampler_loop rend msg guests ps (new_sampler r)"
  from loop_tracks[OF new_sampler_tracks assms, where rend = rend and ps = ps and r1 = r]
  have s: "tracks (history msg guests ps) ?s" "pr_notes (sm_record ?s) = pr_notes r @ log_notes msg guests [] ps"
    "pr_samples (sm_record ?s) = pr_samples r @ map (tick_sample guests (pr_started_at r)) ps"
    by (simp_all add: new_sampler_def)
  let ?still = "map fst (sm_fail_count ?s)"
  have count: "n = streak (history msg guests ps k) \<and> n \<noteq> 0" if "(k, n) \<in> set (sm_fail_count ?s)" for k n
  proof -
    have "map_of (sm_fail_count ?s) k = Some n"
      using s(1) by (intro map_of_is_SomeI that) (simp add: tracks_def)
    with s(1) show ?thesis by (auto simp: tracks_def split: if_splits)
  qed
  have "map (\<lambda>(k, n). still_note k n) (sm_fail_count ?s) = map (\<lambda>k. still_note k (streak (history msg guests ps k))) ?still"
    using count by auto
  moreover have "set ?still = {k. streak (history msg guests ps k) \<noteq> 0}"
  proof -
    have "set ?still = {k. map_of (sm_fail_count ?s) k \<noteq> None}" by (rule alist_dict.keys_get)
    then show ?thesis using s(1) by (auto simp: tracks_def split: if_splits)
  qed
  moreover have "distinct ?still" using s(1) by (simp add: tracks_def)
  ultimately show ?thesis using s(2,3) by (intro exI[of _ ?still]) (simp add: stop_notes)
qed


text \<open>Three ticks over one guest: it fails twice with the same message while the host answers, recovers, and fails
  again.\<close>

definition demo_probes :: "(string, GuestSample) result \<Rightarrow> string Probes" where
  "demo_probes g =
     \<lparr>pb_now = 20, pb_host = Inr \<lparr>h_cpu = 50, h_iowait = 1, h_cpus = Some 8\<rparr>,
      pb_local = Inr \<lparr>l_steal = None, l_busy = None, l_iowait = None\<rparr>, pb_guest = (\<lambda>_. g), pb_notes = Inr []\<rparr>"

definition demo_reading :: GuestSample where
  "demo_reading = \<lparr>g_steal = Some 2, g_busy = Some 40, g_iowait = None, g_load1 = None, g_load5 = None, g_load15 = None\<rparr>"

definition demo_record :: PerfRecord where
  "demo_record = \<lparr>pr_stack = ''rdqm'', pr_started_at = 5, pr_steps = [], pr_milestones = [], pr_notes = [],
     pr_samples = [], pr_env = None, pr_env_source = None\<rparr>"

definition demo_ticks :: "string Probes list" where
  "demo_ticks = map demo_probes [Inl ''down'', Inl ''down'', Inr demo_reading, Inl ''down'']"

theorem sampler_log_exact_witness:
  "pr_notes (sm_record (stop_sampler id None (Inr []) (sampler_loop (\<lambda>_. []) id [''a''] demo_ticks (new_sampler demo_record))))
    = [''guest a: sample unavailable (down)'', ''guest a: sample recovered after 2 failed probe(s)'',
       ''guest a: sample unavailable (down)'', ''guest a: still unavailable at stop (1 consecutive failed probe(s))'']"
proof -
  let ?h = "history id [''a''] demo_ticks"
  have log: "log_notes id [''a''] [] demo_ticks
    = [''guest a: sample unavailable (down)'', ''guest a: sample recovered after 2 failed probe(s)'', ''guest a: sample unavailable (down)'']"
    by code_simp
  have "distinct [''a'']" by simp
  from sampler_log_exact[OF this, of id "[]" "\<lambda>_. []" demo_ticks demo_record] obtain still where
    ns: "pr_notes (sm_record (stop_sampler id None (Inr []) (sampler_loop (\<lambda>_. []) id [''a''] demo_ticks (new_sampler demo_record))))
      = pr_notes demo_record @ log_notes id [''a''] [] demo_ticks @ map (\<lambda>k. still_note k (streak (?h k))) still"
    and d: "distinct still" and set: "set still = {k. streak (?h k) \<noteq> 0}" by auto
  have keys: "streak (?h ''host'') = 0" "streak (?h ''vergil-vm'') = 0" "streak (?h ''guest a'') = 1" by code_simp+
  have "streak (?h k) \<noteq> 0 \<longleftrightarrow> k = ''guest a''" for k
  proof -
    have "?h k = []" if "k \<notin> {''host'', ''vergil-vm'', ''guest a''}"
      using that by (simp add: history_def demo_ticks_def List.map_filter_simps tick_outcomes_def guest_results_def guest_key_def)
    with keys show ?thesis by (cases "k \<in> {''host'', ''vergil-vm'', ''guest a''}") auto
  qed
  with set have "set still = {''guest a''}" by blast
  with d have "still = [''guest a'']" by (cases still; cases "tl still") auto
  moreover have "still_note ''guest a'' 1 = ''guest a: still unavailable at stop (1 consecutive failed probe(s))''" by code_simp
  ultimately show ?thesis using ns log keys(3) by (simp add: demo_record_def)
qed

section \<open>Parsing the readings\<close>

record CpuCounters =
  cc_steal :: int
  cc_total :: int
  cc_busy :: int
  cc_iowait :: int

record CpuPcts =
  cp_steal :: rat
  cp_busy :: rat
  cp_iowait :: rat

record LoadAvg =
  la_1 :: rat
  la_5 :: rat
  la_15 :: rat

definition STEAL_COL :: nat where "STEAL_COL = 7"
definition IOWAIT_COL :: nat where "IOWAIT_COL = 4"
definition BUSY_COLS :: "nat list" where "BUSY_COLS = [0, 1, 2, 5, 6]"
definition TOTAL_COLS :: nat where "TOTAL_COLS = 8"

text \<open>\<open>float(s)\<close> of a plain decimal such as \<open>0.52\<close>; any other text is outside the model.\<close>

definition float_text :: "string \<Rightarrow> (py_error, rat) result" where
  "float_text s = (case split_once (CHR ''.'') s of
     (a, b) \<Rightarrow> let f = (case b of None \<Rightarrow> [] | Some d \<Rightarrow> d) in
       if a \<noteq> [] \<and> list_all (\<lambda>c. digit_val c \<noteq> None) (a @ f)
       then Inr (fl (of_nat (fold (\<lambda>c n. 10 * n + (case digit_val c of None \<Rightarrow> 0 | Some d \<Rightarrow> d)) (a @ f) 0) / 10 ^ length f))
       else Inl (Unmodelled ''float of text''))"

text \<open>\<open>line.partition(":")\<close> with its parts stripped, when the separator is there.\<close>

definition named_field :: "string \<Rightarrow> (string \<times> string) option" where
  "named_field line = (case split_once (CHR '':'') line of
     (_, None) \<Rightarrow> None | (n, Some v) \<Rightarrow> Some (py_strip n, py_strip v))"

definition parse_nodecpustats :: "string \<Rightarrow> (py_error, rat \<times> rat) result" where
  "parse_nodecpustats t =
     rbind (foldr_res (\<lambda>line fields. case named_field line of
          None \<Rightarrow> Inr fields
        | Some (n, v) \<Rightarrow> if suffix ''%'' v
            then rbind (float_text (rstrip_when (\<lambda>c. c = CHR ''%'') v)) (\<lambda>x. Inr (AList.update n x fields))
            else Inr fields) (splitlines t) []) (\<lambda>fields.
     case (map_of fields ''usage'', map_of fields ''iowait'') of
       (Some u, Some w) \<Rightarrow> Inr (u, w)
     | _ \<Rightarrow> Inl (ValueErr ''virsh nodecpustats output lacks''))"

definition parse_nodeinfo_cpus :: "string \<Rightarrow> (py_error, int) result" where
  "parse_nodeinfo_cpus t =
     (case find (\<lambda>line. case named_field line of None \<Rightarrow> False | Some (n, _) \<Rightarrow> n = ''CPU(s)'') (splitlines t) of
        None \<Rightarrow> Inl (ValueErr ''virsh nodeinfo output lacks a CPU(s) line'')
      | Some line \<Rightarrow> (case named_field line of None \<Rightarrow> Inl (ValueErr ''CPU(s)'') | Some (_, v) \<Rightarrow> to_int (PStr v)))"

definition parse_proc_stat_cpu :: "string \<Rightarrow> (py_error, CpuCounters) result" where
  "parse_proc_stat_cpu t =
     (let parts = split_ws t in
      rbind (ensure (TOTAL_COLS + 1 \<le> length parts \<and> hd parts = ''cpu'') (ValueErr ''not an aggregate /proc/stat cpu line'')) (\<lambda>_.
      rbind (traverse (\<lambda>v. to_int (PStr v)) (take TOTAL_COLS (tl parts))) (\<lambda>values.
      Inr \<lparr>cc_steal = values ! STEAL_COL, cc_total = sum_list values,
           cc_busy = sum_list (map (\<lambda>i. values ! i) BUSY_COLS), cc_iowait = values ! IOWAIT_COL\<rparr>)))"

text \<open>A conversion that fails and a missing field are both the \<open>ValueError\<close> that is raised again.\<close>

definition parse_loadavg :: "string \<Rightarrow> (py_error, LoadAvg) result" where
  "parse_loadavg t =
     rbind (traverse float_text (take 3 (split_ws t))) (\<lambda>vs.
     case vs of [a, b, c] \<Rightarrow> Inr \<lparr>la_1 = a, la_5 = b, la_15 = c\<rparr> | _ \<Rightarrow> Inl (ValueErr ''not a /proc/loadavg line''))"

definition parse_guest_probe :: "string \<Rightarrow> (py_error, CpuCounters \<times> LoadAvg) result" where
  "parse_guest_probe t = (case splitlines t of
     l0 # l1 # _ \<Rightarrow> rbind (parse_proc_stat_cpu l0) (\<lambda>c. rbind (parse_loadavg l1) (\<lambda>l. Inr (c, l)))
   | _ \<Rightarrow> Inl (ValueErr ''guest probe output''))"

definition pct :: "int \<Rightarrow> int \<Rightarrow> rat" where
  "pct d t = fl (fl (of_int d / of_int t) * 100)"

definition cpu_pcts :: "CpuCounters \<Rightarrow> CpuCounters \<Rightarrow> CpuPcts option" where
  "cpu_pcts prev cur =
     (let d_total = cc_total cur - cc_total prev; d_steal = cc_steal cur - cc_steal prev;
          d_busy = cc_busy cur - cc_busy prev; d_iowait = cc_iowait cur - cc_iowait prev
      in if d_total \<le> 0 \<or> min (min d_steal d_busy) d_iowait < 0 then None
         else Some \<lparr>cp_steal = pct d_steal d_total, cp_busy = pct d_busy d_total, cp_iowait = pct d_iowait d_total\<rparr>)"


lemma parse_proc_stat_idle:
  assumes "parse_proc_stat_cpu t = Inr c" and "to_int (PStr (split_ws t ! 4)) = Inr i"
  shows "cc_total c = cc_steal c + cc_busy c + cc_iowait c + i"
proof -
  let ?ws = "take 8 (tl (split_ws t))"
  from assms(1) obtain vs where len: "9 \<le> length (split_ws t)" and vs: "traverse (\<lambda>v. to_int (PStr v)) ?ws = Inr vs"
    and c: "c = \<lparr>cc_steal = vs ! 7, cc_total = sum_list vs, cc_busy = sum_list (map (\<lambda>i. vs ! i) [0, 1, 2, 5, 6]), cc_iowait = vs ! 4\<rparr>"
    by (auto simp: parse_proc_stat_cpu_def rbind_eq_Inr Let_def TOTAL_COLS_def STEAL_COL_def BUSY_COLS_def IOWAIT_COL_def)
  have rel: "list_all2 (\<lambda>x y. to_int (PStr x) = Inr y) ?ws vs" using vs by (simp only: traverse_Inr_iff)
  have lws: "length ?ws = 8" using len by simp
  with list_all2_lengthD[OF rel] have lvs: "length vs = 8" by simp
  have "to_int (PStr (?ws ! 3)) = Inr (vs ! 3)" using list_all2_nthD[OF rel] lws by simp
  moreover have "?ws ! 3 = split_ws t ! 4" using len by (simp add: nth_tl)
  ultimately have i: "vs ! 3 = i" using assms(2) by simp
  obtain v0 v1 v2 v3 v4 v5 v6 v7 where "vs = [v0, v1, v2, v3, v4, v5, v6, v7]"
    using lvs by (auto simp: length_Suc_conv eval_nat_numeral)
  then show ?thesis using i by (simp add: c)
qed

lemma pct_range:
  assumes "0 \<le> d" and "d \<le> t" and "0 < t"
  shows "0 \<le> pct d t \<and> pct d t \<le> 100"
proof -
  let ?q = "fl (of_int d / of_int t)"
  have "0 \<le> (of_int d / of_int t :: rat)" "(of_int d / of_int t :: rat) \<le> of_int 1" using assms by simp_all
  then have q: "0 \<le> ?q" "?q \<le> 1" using fl_le_int[of "of_int d / of_int t" 1] by (simp_all add: fl_nonneg)
  then have "fl (?q * 100) \<le> of_int 100" by (intro fl_le_int) simp_all
  with q show ?thesis by (simp add: pct_def fl_nonneg)
qed

text \<open>A percentage is a percentage: for two readings of the aggregate line between which the idle column did not
  go down, the steal, busy and iowait figures, whenever there are any, lie between 0 and 100 after the
  float division and multiplication.\<close>

theorem cpu_pcts_range:
  assumes "parse_proc_stat_cpu t1 = Inr a" and "parse_proc_stat_cpu t2 = Inr b"
    and "to_int (PStr (split_ws t1 ! 4)) = Inr i1" and "to_int (PStr (split_ws t2 ! 4)) = Inr i2" and "i1 \<le> i2"
    and "cpu_pcts a b = Some p"
  shows "cp_steal p \<in> {0..100} \<and> cp_busy p \<in> {0..100} \<and> cp_iowait p \<in> {0..100}"
proof -
  from assms(6) have pos: "0 < cc_total b - cc_total a"
    and d: "0 \<le> cc_steal b - cc_steal a" "0 \<le> cc_busy b - cc_busy a" "0 \<le> cc_iowait b - cc_iowait a"
    and p: "p = \<lparr>cp_steal = pct (cc_steal b - cc_steal a) (cc_total b - cc_total a),
      cp_busy = pct (cc_busy b - cc_busy a) (cc_total b - cc_total a),
      cp_iowait = pct (cc_iowait b - cc_iowait a) (cc_total b - cc_total a)\<rparr>"
    by (auto simp: cpu_pcts_def Let_def split: if_splits)
  from parse_proc_stat_idle[OF assms(1,3)] parse_proc_stat_idle[OF assms(2,4)] d assms(5)
  have "cc_steal b - cc_steal a \<le> cc_total b - cc_total a" "cc_busy b - cc_busy a \<le> cc_total b - cc_total a"
    "cc_iowait b - cc_iowait a \<le> cc_total b - cc_total a" by linarith+
  with d pos show ?thesis by (simp add: p pct_range)
qed

definition stat_line1 :: string where "stat_line1 = ''cpu  100 0 50 800 10 0 0 4 0 0''"
definition stat_line2 :: string where "stat_line2 = ''cpu  150 0 64 848 10 0 0 20 0 0''"
definition stat_line3 :: string where "stat_line3 = ''cpu  150 0 64 752 10 0 0 20 0 0''"

definition pcts_of_lines :: "string \<Rightarrow> string \<Rightarrow> CpuPcts option" where
  "pcts_of_lines s t = (case (parse_proc_stat_cpu s, parse_proc_stat_cpu t) of (Inr a, Inr b) \<Rightarrow> cpu_pcts a b | _ \<Rightarrow> None)"

theorem cpu_pcts_range_witness:
  "\<exists>p. pcts_of_lines stat_line1 stat_line2 = Some p \<and> cp_busy p = 50 \<and> cp_steal p \<in> {0..100} \<and> cp_iowait p \<in> {0..100}"
proof -
  define a b where "a = projr (parse_proc_stat_cpu stat_line1)" and "b = projr (parse_proc_stat_cpu stat_line2)"
  have ab: "parse_proc_stat_cpu stat_line1 = Inr a" "parse_proc_stat_cpu stat_line2 = Inr b"
    unfolding a_def b_def by code_simp+
  have busy: "map_option cp_busy (pcts_of_lines stat_line1 stat_line2) = Some 50" by code_simp
  then obtain p where p: "pcts_of_lines stat_line1 stat_line2 = Some p" "cp_busy p = 50" by auto
  then have cp: "cpu_pcts a b = Some p" by (simp add: pcts_of_lines_def ab)
  have idle: "to_int (PStr (split_ws stat_line1 ! 4)) = Inr 800" "to_int (PStr (split_ws stat_line2 ! 4)) = Inr 848"
    by code_simp+
  have "(800 :: int) \<le> 848" by simp
  from cpu_pcts_range[OF ab idle this cp] p show ?thesis by blast
qed

text \<open>Without the condition on the idle column the figure is no percentage: only the three counters and the total are
  compared, so an idle counter that went backwards by less than the rest advanced is not seen.\<close>

lemma idle_backwards_not_detected:
  "\<exists>p. pcts_of_lines stat_line1 stat_line3 = Some p \<and> cp_busy p = 200"
proof -
  have "map_option cp_busy (pcts_of_lines stat_line1 stat_line3) = Some 200" by code_simp
  then show ?thesis by auto
qed

end
