(* ===== verification/Perf_Source.thy ===== *)
theory Perf_Source
  imports Perf_Sampler
begin

text \<open>
  The lab's source of readings, \<open>RealSource\<close> of \<open>mqlab/perfsampler.py\<close>: the host through \<open>virsh\<close>, the sampling
  machine through its own \<open>/proc/stat\<close>, and every guest through one ssh call that is multiplexed while the
  control sockets work.

  What the operating system answers - a finished or timed-out command, the state of the control
  directory - is an argument. The guest probes of one tick run on a pool of threads that share the
  mux flag, the queued notes and the set of masters, so \<open>_probe\<close> is modelled twice: as the sequential
  function, and as one thread of a pool whose steps interleave (\<open>pool_step\<close>); a thread's step is what
  it does between two accesses to the shared state. The lock makes \<open>_disable_mux\<close> and \<open>notes\<close> one step each.
\<close>

section \<open>Commands\<close>

datatype exn =
    Exn string string \<comment> \<open>the name of its type and its text\<close>
  | ProbeError string int string string \<comment> \<open>command, return code, stderr, detail\<close>
  | Malformed py_error \<comment> \<open>raised by a parser\<close>

text \<open>\<open>type(exc).__name__\<close> and \<open>str(exc)\<close> of the exceptions a mux failure is reported with.\<close>

definition exn_name :: "exn \<Rightarrow> string" where
  "exn_name e = (case e of Exn n _ \<Rightarrow> n | ProbeError _ _ _ _ \<Rightarrow> ''ProbeError'' | Malformed _ \<Rightarrow> ''ValueError'')"

definition exn_str :: "exn \<Rightarrow> string" where
  "exn_str e = (case e of
     Exn _ t \<Rightarrow> t
   | ProbeError a rc _ d \<Rightarrow> a @ '' exited '' @ int_str rc @ '': '' @ d
   | Malformed _ \<Rightarrow> '''')"

datatype finished =
    TimedOut
  | Exited int string string \<comment> \<open>return code, stdout, stderr\<close>
  | NotStarted exn

definition run_bounded :: "string \<Rightarrow> string \<Rightarrow> finished \<Rightarrow> (exn, string) result" where
  "run_bounded argv0 timeout f = (case f of
     TimedOut \<Rightarrow> Inl (Exn ''RuntimeError'' (argv0 @ '' timed out after '' @ timeout @ ''s''))
   | NotStarted e \<Rightarrow> Inl e
   | Exited rc out err \<Rightarrow>
       if rc \<noteq> 0
       then Inl (ProbeError argv0 rc err (if py_strip err \<noteq> [] then py_strip err else py_strip out))
       else Inr out)"

definition SSH_OWN_ERROR_RC :: int where
  "SSH_OWN_ERROR_RC = 255"

definition MUX_FAILURE_MARKERS :: "string list" where
  "MUX_FAILURE_MARKERS = [''muxserver_listen'', ''mux_client'', ''ControlSocket'', ''ontrol socket'', ''unix_listener'']"

definition is_mux_failure :: "exn \<Rightarrow> bool" where
  "is_mux_failure e = (case e of
     ProbeError _ rc err _ \<Rightarrow> rc = SSH_OWN_ERROR_RC \<and> list_ex (\<lambda>m. find_sub m err \<noteq> None) MUX_FAILURE_MARKERS
   | _ \<Rightarrow> False)"

section \<open>The control directory\<close>

record dir_stat =
  ds_mkdir :: "exn option" \<comment> \<open>what \<open>mkdir\<close> or \<open>lstat\<close> raised\<close>
  ds_is_dir :: bool
  ds_uid :: nat
  ds_mode :: nat
  ds_chmod :: "exn option"

definition ssh_mux_dir :: "string option \<Rightarrow> string \<Rightarrow> nat \<Rightarrow> string" where
  "ssh_mux_dir runtime tmp uid = (case runtime of
     Some r \<Rightarrow> if r \<noteq> [] then r @ ''/mqlab-ssh-mux'' else tmp @ ''/mqlab-ssh-mux-'' @ nat_str uid
   | None \<Rightarrow> tmp @ ''/mqlab-ssh-mux-'' @ nat_str uid)"

text \<open>The mode the directory is left with, or what was raised. \<open>0o077\<close> is the low six bits, 448 is \<open>0o700\<close>.\<close>

definition ensure_private_dir :: "string \<Rightarrow> nat \<Rightarrow> dir_stat \<Rightarrow> (exn, nat) result" where
  "ensure_private_dir path me st =
     (case ds_mkdir st of
        Some e \<Rightarrow> Inl e
      | None \<Rightarrow>
          if \<not> ds_is_dir st then Inl (Exn ''RuntimeError'' (''ssh control dir '' @ path @ '' is not a directory''))
          else if ds_uid st \<noteq> me
          then Inl (Exn ''RuntimeError'' (''ssh control dir '' @ path @ '' is owned by uid '' @ nat_str (ds_uid st) @ '', not us''))
          else if ds_mode st mod 64 \<noteq> 0
          then (case ds_chmod st of Some e \<Rightarrow> Inl e | None \<Rightarrow> Inr 448)
          else Inr (ds_mode st))"

section \<open>The ssh command line\<close>

definition SSH_COMMON_ARGS :: "string list" where
  "SSH_COMMON_ARGS = [''-o'', ''StrictHostKeyChecking=no'']"

definition SSH_PROBE_ARGS :: "string list" where
  "SSH_PROBE_ARGS = [''-n'', ''-o'', ''BatchMode=yes'', ''-o'', ''ConnectTimeout=5'', ''-o'', ''LogLevel=ERROR'']"

definition SSH_MUX_ARGS :: "string list" where
  "SSH_MUX_ARGS = [''-o'', ''ControlMaster=auto'', ''-o'', ''ControlPath=%C'', ''-o'', ''ControlPersist=60'',
     ''-o'', ''ServerAliveInterval=5'', ''-o'', ''ServerAliveCountMax=2'']"

definition SSH_NO_MUX_ARGS :: "string list" where
  "SSH_NO_MUX_ARGS = [''-o'', ''ControlMaster=no'', ''-o'', ''ControlPath=none'']"

definition GUEST_PROBE_CMD :: string where
  "GUEST_PROBE_CMD = ''head -n1 /proc/stat && cat /proc/loadavg''"

definition ssh_argv :: "string \<Rightarrow> bool \<Rightarrow> string list \<Rightarrow> string list" where
  "ssh_argv key mux tail =
     [''ssh''] @ SSH_COMMON_ARGS @ SSH_PROBE_ARGS @ (if mux then SSH_MUX_ARGS else SSH_NO_MUX_ARGS) @ [''-i'', key] @ tail"

section \<open>The source\<close>

record RealSource =
  rs_addresses :: "(string \<times> string) list"
  rs_mux_dir :: string
  rs_cpus :: "int option"
  rs_prev :: "(string \<times> CpuCounters) list"
  rs_prev_local :: "CpuCounters option"
  rs_masters :: "string list"
  rs_mux_ok :: bool
  rs_notes :: "string list"

definition new_source :: "(string \<times> string) list \<Rightarrow> string \<Rightarrow> RealSource" where
  "new_source addresses dir =
     \<lparr>rs_addresses = addresses, rs_mux_dir = dir, rs_cpus = None, rs_prev = [], rs_prev_local = None,
      rs_masters = [], rs_mux_ok = True, rs_notes = []\<rparr>"

text \<open>\<open>from_topology\<close>: the address of every node that has one on the management network. A document of another
  shape than the code expects is a \<open>TypeErr\<close>.\<close>

definition mgmt_address :: "pyval \<times> pyval \<Rightarrow> (py_error, (pyval \<times> string) option) result" where
  "mgmt_address ns = (case ns of (name, spec) \<Rightarrow>
     rbind (dict_get (or_empty spec) ''nics'' PNone) (\<lambda>nics.
     rbind (dict_get (or_empty nics) ''net-mgmt'' PNone) (\<lambda>ip.
     if truthy ip then rbind (to_str ip) (\<lambda>a. Inr (Some (name, a))) else Inr None)))"

definition from_topology :: "pyval \<Rightarrow> (py_error, (pyval \<times> string) list) result" where
  "from_topology topo =
     rbind (dict_get topo ''nodes'' PNone) (\<lambda>nodes.
     rbind (dict_items (or_empty nodes)) (\<lambda>its.
     rbind (traverse mgmt_address its) (\<lambda>as. Inr (List.map_filter id as))))"

text \<open>\<open>host\<close>: the CPU count is read once and kept.\<close>

definition source_host ::
  "(exn, string) result \<Rightarrow> (exn, string) result \<Rightarrow> RealSource \<Rightarrow> (exn, HostSample) result \<times> RealSource" where
  "source_host nodeinfo stats s =
     (let cpus = (case rs_cpus s of
          Some n \<Rightarrow> Inr n
        | None \<Rightarrow> rbind nodeinfo (\<lambda>t. case parse_nodeinfo_cpus t of Inl e \<Rightarrow> Inl (Malformed e) | Inr n \<Rightarrow> Inr n))
      in case cpus of
           Inl e \<Rightarrow> (Inl e, s)
         | Inr n \<Rightarrow>
             (rbind stats (\<lambda>t. case parse_nodecpustats t of
                Inl e \<Rightarrow> Inl (Malformed e)
              | Inr (u, w) \<Rightarrow> Inr \<lparr>h_cpu = u, h_iowait = w, h_cpus = Some n\<rparr>),
              s\<lparr>rs_cpus := Some n\<rparr>))"

definition delta :: "CpuCounters option \<Rightarrow> CpuCounters \<Rightarrow> CpuPcts option" where
  "delta prev cur = (case prev of None \<Rightarrow> None | Some p \<Rightarrow> cpu_pcts p cur)"

definition source_local :: "(exn, string) result \<Rightarrow> RealSource \<Rightarrow> (exn, LocalSample) result \<times> RealSource" where
  "source_local line s =
     (case rbind line (\<lambda>t. case parse_proc_stat_cpu t of Inl e \<Rightarrow> Inl (Malformed e) | Inr c \<Rightarrow> Inr c) of
        Inl e \<Rightarrow> (Inl e, s)
      | Inr cur \<Rightarrow>
          (let d = delta (rs_prev_local s) cur in
           (Inr \<lparr>l_steal = map_option cp_steal d, l_busy = map_option cp_busy d, l_iowait = map_option cp_iowait d\<rparr>,
            s\<lparr>rs_prev_local := Some cur\<rparr>)))"

definition source_drain :: "RealSource \<Rightarrow> string list \<times> RealSource" where
  "source_drain s = (rs_notes s, s\<lparr>rs_notes := []\<rparr>)"

definition mux_note :: "string \<Rightarrow> string" where
  "mux_note reason = ''ssh multiplexing unavailable ('' @ reason
     @ ''); guest probes fall back to plain non-multiplexed ssh (one login per probe) for the rest of the run''"

definition disable_mux :: "string \<Rightarrow> RealSource \<Rightarrow> RealSource" where
  "disable_mux reason s =
     (if \<not> rs_mux_ok s then s else s\<lparr>rs_mux_ok := False, rs_notes := rs_notes s @ [mux_note reason]\<rparr>)"

definition dir_reason :: "string \<Rightarrow> exn \<Rightarrow> string" where
  "dir_reason dir e = ''control dir '' @ dir @ '': '' @ exn_name e @ '': '' @ exn_str e"

definition socket_reason :: "string \<Rightarrow> exn \<Rightarrow> string" where
  "socket_reason dir e = ''control socket in '' @ dir @ '': '' @ exn_str e"

text \<open>What the operating system will answer to one probe: the control directory, the multiplexed command and the
  plain one.\<close>

record probe_env =
  pe_dir :: "(exn, nat) result"
  pe_mux :: "(exn, string) result"
  pe_plain :: "(exn, string) result"

definition probe :: "string \<Rightarrow> probe_env \<Rightarrow> RealSource \<Rightarrow> (exn, string) result \<times> RealSource" where
  "probe name env s =
     (if rs_mux_ok s
      then (case pe_dir env of
              Inl e \<Rightarrow> (pe_plain env, disable_mux (dir_reason (rs_mux_dir s) e) s)
            | Inr _ \<Rightarrow>
                (case pe_mux env of
                   Inr out \<Rightarrow> (Inr out, s\<lparr>rs_masters := add_new name (rs_masters s)\<rparr>)
                 | Inl e \<Rightarrow>
                     if is_mux_failure e then (pe_plain env, disable_mux (socket_reason (rs_mux_dir s) e) s)
                     else (Inl e, s)))
      else (pe_plain env, s))"

text \<open>\<open>guest\<close> after its probe answered.\<close>

definition guest_reading :: "string \<Rightarrow> (exn, string) result \<Rightarrow> RealSource \<Rightarrow> (exn, GuestSample) result \<times> RealSource" where
  "guest_reading name out s =
     (case rbind out (\<lambda>t. case parse_guest_probe t of Inl e \<Rightarrow> Inl (Malformed e) | Inr c \<Rightarrow> Inr c) of
        Inl e \<Rightarrow> (Inl e, s)
      | Inr (cur, load) \<Rightarrow>
          (let d = delta (map_of (rs_prev s) name) cur in
           (Inr \<lparr>g_steal = map_option cp_steal d, g_busy = map_option cp_busy d, g_iowait = map_option cp_iowait d,
                 g_load1 = Some (la_1 load), g_load5 = Some (la_5 load), g_load15 = Some (la_15 load)\<rparr>,
            s\<lparr>rs_prev := AList.update name cur (rs_prev s)\<rparr>)))"

definition source_guest :: "string \<Rightarrow> probe_env \<Rightarrow> RealSource \<Rightarrow> (exn, GuestSample) result \<times> RealSource" where
  "source_guest name env s =
     (case map_of (rs_addresses s) name of
        None \<Rightarrow> (Inl (Exn ''LookupError'' (''no net-mgmt address for guest '' @ [CHR 0x27] @ name @ [CHR 0x27] @ '' in topology'')), s)
      | Some _ \<Rightarrow> (case probe name env s of (out, s1) \<Rightarrow> guest_reading name out s1))"

text \<open>\<open>close\<close>: the masters in sorted order, each answered by its own \<open>ssh -O exit\<close>.\<close>

definition close_note :: "(exn \<Rightarrow> string) \<Rightarrow> string \<Rightarrow> exn \<Rightarrow> string" where
  "close_note msg name e = ''guest '' @ name @ '': ssh master not closed ('' @ msg e
     @ ''); it exits on its own after 60s idle (ControlPersist)''"

definition source_close ::
  "(exn \<Rightarrow> string) \<Rightarrow> (string \<Rightarrow> (exn, string) result) \<Rightarrow> RealSource \<Rightarrow> string list \<times> RealSource" where
  "source_close msg answer s =
     (List.map_filter (\<lambda>n. case answer n of Inl e \<Rightarrow> Some (close_note msg n e) | Inr _ \<Rightarrow> None) (sort (rs_masters s)),
      s\<lparr>rs_masters := []\<rparr>)"

section \<open>Concurrent probes\<close>

text \<open>Where a thread of the pool is in \<open>_probe\<close>.\<close>

datatype pc =
    Enter
  | AtDir
  | AtMux
  | Disabling string
  | AtPlain
  | Answered "(exn, string) result"

text \<open>One step of the thread that probes \<open>name\<close>, with what the system answers to it.\<close>

definition thread_step :: "string \<Rightarrow> probe_env \<Rightarrow> pc \<Rightarrow> RealSource \<Rightarrow> pc \<times> RealSource" where
  "thread_step name env c s = (case c of
     Enter \<Rightarrow> (if rs_mux_ok s then AtDir else AtPlain, s)
   | AtDir \<Rightarrow> (case pe_dir env of Inl e \<Rightarrow> Disabling (dir_reason (rs_mux_dir s) e) | Inr _ \<Rightarrow> AtMux, s)
   | AtMux \<Rightarrow> (case pe_mux env of
        Inr out \<Rightarrow> (Answered (Inr out), s\<lparr>rs_masters := add_new name (rs_masters s)\<rparr>)
      | Inl e \<Rightarrow> (if is_mux_failure e then Disabling (socket_reason (rs_mux_dir s) e) else Answered (Inl e), s))
   | Disabling reason \<Rightarrow> (AtPlain, disable_mux reason s)
   | AtPlain \<Rightarrow> (Answered (pe_plain env), s)
   | Answered r \<Rightarrow> (Answered r, s))"

text \<open>The run: the threads of every tick so far (name, environment, position), the shared source, and the notes the
  sampler has drained. A tick may submit a probe, any thread may move, and the notes may be drained at
  any moment.\<close>

record Pool =
  po_threads :: "(string \<times> probe_env \<times> pc) list"
  po_source :: RealSource
  po_drained :: "string list"

inductive pool_step :: "Pool \<Rightarrow> Pool \<Rightarrow> bool" where
  submit: "pool_step p (p\<lparr>po_threads := po_threads p @ [(name, env, Enter)]\<rparr>)"
| move: "i < length (po_threads p) \<Longrightarrow> po_threads p ! i = (name, env, c) \<Longrightarrow> thread_step name env c (po_source p) = (c', s')
    \<Longrightarrow> pool_step p (p\<lparr>po_threads := (po_threads p)[i := (name, env, c')], po_source := s'\<rparr>)"
| drain: "source_drain (po_source p) = (ns, s')
    \<Longrightarrow> pool_step p (p\<lparr>po_source := s', po_drained := po_drained p @ ns\<rparr>)"

inductive pool_reach :: "RealSource \<Rightarrow> Pool \<Rightarrow> bool" for s0 where
  start: "pool_reach s0 \<lparr>po_threads = [], po_source = s0, po_drained = []\<rparr>"
| step: "pool_reach s0 p \<Longrightarrow> pool_step p q \<Longrightarrow> pool_reach s0 q"

text \<open>Schedules: explicit interleavings, for running the relation.\<close>

datatype act = Submit string probe_env | Move nat | Drain

definition pool_act :: "act \<Rightarrow> Pool \<Rightarrow> Pool" where
  "pool_act a p = (case a of
     Submit name env \<Rightarrow> p\<lparr>po_threads := po_threads p @ [(name, env, Enter)]\<rparr>
   | Move i \<Rightarrow>
       if i < length (po_threads p)
       then (case po_threads p ! i of (name, env, c) \<Rightarrow> case thread_step name env c (po_source p) of (c', s') \<Rightarrow>
              p\<lparr>po_threads := (po_threads p)[i := (name, env, c')], po_source := s'\<rparr>)
       else p
   | Drain \<Rightarrow> (case source_drain (po_source p) of (ns, s') \<Rightarrow> p\<lparr>po_source := s', po_drained := po_drained p @ ns\<rparr>))"

definition pool_start :: "RealSource \<Rightarrow> Pool" where
  "pool_start s0 = \<lparr>po_threads = [], po_source = s0, po_drained = []\<rparr>"

section \<open>The shared state\<close>

lemma pool_act_step: "pool_act a p = p \<or> pool_step p (pool_act a p)"
proof (cases a)
  case (Submit name env)
  then show ?thesis by (simp add: pool_act_def pool_step.submit)
next
  case (Move i)
  obtain name env c where t: "po_threads p ! i = (name, env, c)" by (metis prod_cases3)
  obtain c' s' where "thread_step name env c (po_source p) = (c', s')" by fastforce
  with Move t pool_step.move[of i p name env c c' s'] show ?thesis by (simp add: pool_act_def)
next
  case Drain
  then show ?thesis using pool_step.drain[of p] by (simp add: pool_act_def source_drain_def)
qed

lemma pool_run_reach: "pool_reach s0 p \<Longrightarrow> pool_reach s0 (fold pool_act as p)"
proof (induction as arbitrary: p)
  case (Cons a as)
  have "pool_reach s0 (pool_act a p)" using pool_act_step[of a p] Cons.prems pool_reach.step by metis
  with Cons.IH show ?case by simp
qed simp

text \<open>An answer is the plain command's, or the multiplexed one's when that did not fail for the socket's sake.\<close>

definition answer_ok :: "probe_env \<Rightarrow> pc \<Rightarrow> bool" where
  "answer_ok env c = (case c of
     Answered r \<Rightarrow> r = pe_plain env \<or> r = pe_mux env \<and> (case r of Inl e \<Rightarrow> \<not> is_mux_failure e | Inr _ \<Rightarrow> True)
   | _ \<Rightarrow> True)"

definition pool_inv :: "Pool \<Rightarrow> bool" where
  "pool_inv p \<longleftrightarrow>
     length (po_drained p @ rs_notes (po_source p)) = (if rs_mux_ok (po_source p) then 0 else 1)
     \<and> (\<forall>(name, env, c) \<in> set (po_threads p). answer_ok env c)
     \<and> (\<forall>m \<in> set (rs_masters (po_source p)). \<exists>env out. (m, env, Answered (Inr out)) \<in> set (po_threads p) \<and> pe_mux env = Inr out)
     \<and> distinct (rs_masters (po_source p))"

text \<open>The interface behind the note: a resource that is given up for good and reports it once, through a queue that
  is drained now and then. With \<open>k\<close> notes drained so far, exactly one exists once the resource is down.\<close>

locale one_shot_note =
  fixes up :: "'s \<Rightarrow> bool" and queued :: "'s \<Rightarrow> 'n list"
    and give_up :: "'r \<Rightarrow> 's \<Rightarrow> 's" and drain :: "'s \<Rightarrow> 'n list \<times> 's"
  assumes give_up_down: "\<not> up (give_up r s)"
    and give_up_queue: "length (queued (give_up r s)) = length (queued s) + (if up s then 1 else 0)"
    and drain_all: "fst (drain s) = queued s" "queued (snd (drain s)) = []"
    and drain_up: "up (snd (drain s)) = up s"
begin

lemma give_up_balance:
  "k + length (queued s) = (if up s then 0 else 1) \<Longrightarrow> k + length (queued (give_up r s)) = (if up (give_up r s) then 0 else 1)"
  by (auto simp: give_up_down give_up_queue split: if_splits)

lemma drain_balance:
  "k + length (queued s) = (if up s then 0 else 1)
    \<Longrightarrow> k + length (fst (drain s)) + length (queued (snd (drain s))) = (if up (snd (drain s)) then 0 else 1)"
  by (simp add: drain_all drain_up)

end

interpretation mux: one_shot_note rs_mux_ok rs_notes disable_mux source_drain
  by unfold_locales (simp_all add: disable_mux_def source_drain_def)

lemma disable_mux_simps [simp]:
  "rs_masters (disable_mux r s) = rs_masters s"
  "\<not> rs_mux_ok (disable_mux r s)"
  by (simp_all add: disable_mux_def)

lemma thread_step_answer: "answer_ok env c \<Longrightarrow> thread_step name env c s = (c', s') \<Longrightarrow> answer_ok env c'"
  by (cases c) (auto simp: thread_step_def answer_ok_def split: if_splits sum.splits)

lemma thread_step_notes:
  assumes "thread_step name env c s = (c', s')"
    and "k + length (rs_notes s) = (if rs_mux_ok s then 0 else 1)"
  shows "k + length (rs_notes s') = (if rs_mux_ok s' then 0 else 1) \<and> (rs_mux_ok s' \<longrightarrow> rs_mux_ok s)"
proof (cases c)
  case (Disabling reason)
  with assms(1) have "s' = disable_mux reason s" by (simp add: thread_step_def)
  with mux.give_up_balance[OF assms(2)] show ?thesis by simp
qed (use assms in \<open>auto simp: thread_step_def split: if_splits sum.splits\<close>)

lemma thread_step_masters:
  assumes "thread_step name env c s = (c', s')"
  shows "rs_masters s' = rs_masters s
    \<or> rs_masters s' = add_new name (rs_masters s) \<and> (\<exists>out. c' = Answered (Inr out) \<and> pe_mux env = Inr out)"
  using assms by (cases c) (auto simp: thread_step_def split: if_splits sum.splits)

text \<open>An answered thread stays as it is.\<close>

lemma thread_step_Answered: "thread_step name env (Answered r) s = (c', s') \<Longrightarrow> c' = Answered r \<and> s' = s"
  by (simp add: thread_step_def)

lemma pool_inv_step:
  assumes "pool_step p q" and "pool_inv p"
  shows "pool_inv q"
  using assms
proof induction
  case (submit p name env)
  then show ?case by (fastforce simp: pool_inv_def answer_ok_def)
next
  case (move i p name env c c' s')
  let ?ts = "po_threads p" and ?s = "po_source p"
  have old: "(name, env, c) \<in> set ?ts" using move(1,2) by (metis nth_mem)
  have one: "length (po_drained p) + length (rs_notes s') = (if rs_mux_ok s' then 0 else 1)"
    using thread_step_notes[OF move(3), of "length (po_drained p)"] move.prems by (simp add: pool_inv_def)
  have ok: "answer_ok env c'" using thread_step_answer[OF _ move(3)] move.prems old by (fastforce simp: pool_inv_def)
  have ans: "\<forall>(name, env, c) \<in> set (?ts[i := (name, env, c')]). answer_ok env c"
    using ok move.prems set_update_subset_insert[of ?ts i "(name, env, c')"] by (auto simp: pool_inv_def)
  have kept: "(m, e, Answered r) \<in> set (?ts[i := (name, env, c')])" if "(m, e, Answered r) \<in> set ?ts" for m e r
  proof -
    from that obtain j where j: "j < length ?ts" "?ts ! j = (m, e, Answered r)" by (auto simp: in_set_conv_nth)
    show ?thesis
    proof (cases "j = i")
      case True
      with j move(1,2) have "name = m" "env = e" "c = Answered r" by simp_all
      with move(3) have "(name, env, c') = (m, e, Answered r)" by (simp add: thread_step_Answered)
      then show ?thesis using move(1) by (metis set_update_memI)
    next
      case False
      with j show ?thesis by (metis length_list_update nth_list_update_neq nth_mem)
    qed
  qed
  have new: "(name, env, c') \<in> set (?ts[i := (name, env, c')])" using move(1) by (rule set_update_memI)
  have masters: "\<exists>e out. (m, e, Answered (Inr out)) \<in> set (?ts[i := (name, env, c')]) \<and> pe_mux e = Inr out"
    if "m \<in> set (rs_masters s')" for m
  proof (cases "m \<in> set (rs_masters ?s)")
    case True
    with move.prems kept show ?thesis by (fastforce simp: pool_inv_def)
  next
    case False
    with that thread_step_masters[OF move(3)] obtain out where "m = name" "c' = Answered (Inr out)" "pe_mux env = Inr out"
      by auto
    with new show ?thesis by blast
  qed
  have "distinct (rs_masters s')" using thread_step_masters[OF move(3)] move.prems by (auto simp: pool_inv_def)
  with one ans masters show ?case by (simp add: pool_inv_def)
next
  case (drain p ns s')
  have "length (po_drained p) + length ns + length (rs_notes s') = (if rs_mux_ok s' then 0 else 1)"
    using mux.drain_balance[of "length (po_drained p)" "po_source p"] drain by (simp add: pool_inv_def)
  with drain show ?case by (auto simp: pool_inv_def source_drain_def)
qed

lemma pool_reach_inv:
  assumes "pool_reach (new_source addrs dir) p"
  shows "pool_inv p"
  using assms
proof induction
  case start
  show ?case by (simp add: pool_inv_def new_source_def)
next
  case (step p q)
  then show ?case using pool_inv_step by blast
qed

text \<open>Progress of one thread: every own step brings it closer to its answer, and a step of another thread does not
  touch it.\<close>

definition rank :: "pc \<Rightarrow> nat" where
  "rank c = (case c of Enter \<Rightarrow> 5 | AtDir \<Rightarrow> 4 | AtMux \<Rightarrow> 3 | Disabling _ \<Rightarrow> 2 | AtPlain \<Rightarrow> 1 | Answered _ \<Rightarrow> 0)"

lemma rank_step: "rank c \<noteq> 0 \<Longrightarrow> rank (fst (thread_step name env c s)) < rank c"
  by (cases c) (auto simp: rank_def thread_step_def split: sum.splits)

fun thread_run :: "nat \<Rightarrow> string \<Rightarrow> probe_env \<Rightarrow> pc \<times> RealSource \<Rightarrow> pc \<times> RealSource" where
  "thread_run 0 name env cs = cs"
| "thread_run (Suc n) name env cs = thread_run n name env (thread_step name env (fst cs) (snd cs))"

lemma thread_run_5: "thread_run 5 name env cs
   = (let f = (\<lambda>cs. thread_step name env (fst cs) (snd cs)) in f (f (f (f (f cs)))))"
  by (simp add: eval_nat_numeral Let_def)

section \<open>Properties\<close>

text \<open>C22: in every interleaving of the guest probes, submissions and drains, multiplexing is given up at most once and
  for good, with exactly one note when it is and none before; a probe answers what the plain command answered, or what
  the multiplexed one did, but never a failure to set up the control socket of the multiplexed one; and every master to be
  closed at the end was opened by a multiplexed probe of that guest that succeeded.\<close>

theorem mux_given_up_once:
  assumes "pool_reach (new_source addrs dir) p" and "pool_step p q"
  shows "length (po_drained q @ rs_notes (po_source q)) = (if rs_mux_ok (po_source q) then 0 else 1)
    \<and> (rs_mux_ok (po_source q) \<longrightarrow> rs_mux_ok (po_source p))
    \<and> (\<forall>name env r. (name, env, Answered r) \<in> set (po_threads q) \<longrightarrow>
         r = pe_plain env \<or> r = pe_mux env \<and> (\<forall>e. r = Inl e \<longrightarrow> \<not> is_mux_failure e))
    \<and> (\<forall>m \<in> set (rs_masters (po_source q)). \<exists>env out. (m, env, Answered (Inr out)) \<in> set (po_threads q) \<and> pe_mux env = Inr out)"
proof -
  have inv: "pool_inv p" "pool_inv q" using pool_reach_inv[OF assms(1)] pool_inv_step[OF assms(2)] by blast+
  have "rs_mux_ok (po_source q) \<longrightarrow> rs_mux_ok (po_source p)" using assms(2) inv(1)
  proof induction
    case (move i p name env c c' s')
    then show ?case using thread_step_notes[OF move(3), of "length (po_drained p)"] by (simp add: pool_inv_def)
  qed (auto simp: source_drain_def)
  moreover have "r = pe_plain env \<or> r = pe_mux env \<and> (\<forall>e. r = Inl e \<longrightarrow> \<not> is_mux_failure e)"
    if "(name, env, Answered r) \<in> set (po_threads q)" for name env r
  proof -
    from inv(2) that have "answer_ok env (Answered r)" unfolding pool_inv_def by blast
    then show ?thesis by (auto simp: answer_ok_def)
  qed
  ultimately show ?thesis using inv(2) by (simp add: pool_inv_def)
qed

text \<open>Two guests whose multiplexed probes both failed on the socket: the second to give up finds the flag down.\<close>

definition demo_env :: probe_env where
  "demo_env = \<lparr>pe_dir = Inr 448, pe_mux = Inl (ProbeError ''ssh'' 255 ''unix_listener: cannot bind'' ''cannot bind''),
     pe_plain = Inr ''ok''\<rparr>"

definition demo_pool :: Pool where
  "demo_pool = fold pool_act
     [Submit ''a'' demo_env, Submit ''b'' demo_env, Move 0, Move 1, Move 0, Move 1, Move 0, Move 1, Move 0]
     (pool_start (new_source [] ''/run/mux''))"

theorem mux_given_up_once_witness:
  "\<not> rs_mux_ok (po_source demo_pool) \<and> snd (snd (po_threads demo_pool ! 1)) \<noteq> AtPlain
    \<and> pool_step demo_pool (pool_act (Move 1) demo_pool)
    \<and> length (po_drained (pool_act (Move 1) demo_pool) @ rs_notes (po_source (pool_act (Move 1) demo_pool))) = 1"
proof -
  have reach: "pool_reach (new_source [] ''/run/mux'') demo_pool"
    unfolding demo_pool_def pool_start_def by (intro pool_run_reach pool_reach.start)
  have moved: "snd (snd (po_threads demo_pool ! 1)) \<noteq> AtPlain" "snd (snd (po_threads (pool_act (Move 1) demo_pool) ! 1)) = AtPlain"
    by code_simp+
  then have "pool_act (Move 1) demo_pool \<noteq> demo_pool" by metis
  with pool_act_step have step: "pool_step demo_pool (pool_act (Move 1) demo_pool)" by blast
  have off: "\<not> rs_mux_ok (po_source demo_pool)" by code_simp
  with mux_given_up_once[OF reach step] have "\<not> rs_mux_ok (po_source (pool_act (Move 1) demo_pool))" by blast
  with mux_given_up_once[OF reach step] off moved(1) step show ?thesis by simp
qed


end
