(* ===== verification/Cluster_State.thy ===== *)
theory Cluster_State
  imports Perf_Sampler
begin

text \<open>
  The cluster-state collectors of the observability component: shared here the XML tree of
  \<open>crm_mon\<close>, the metric sample with its text, and the Pacemaker and DRBD collector of
  \<open>mqro/clusterstate.py\<close> (parse functions, projection to samples, one collection).

  A probe is its outcome: the text the command printed, or nothing on a timeout, a missing program or
  a non-zero exit. The XML parser is an argument (a text to its tree, or nothing on a syntax error). A
  sample is a metric name, its labels in order and its value; \<open>sample_line\<close> is its text.
\<close>

section \<open>Samples\<close>

record Sample =
  sa_name :: string
  sa_labels :: "(string \<times> string) list"
  sa_value :: pyval

definition sample_int :: "string \<Rightarrow> (string \<times> string) list \<Rightarrow> int \<Rightarrow> Sample" where
  "sample_int name labels v = \<lparr>sa_name = name, sa_labels = labels, sa_value = PInt v\<rparr>"

definition sample_flag :: "string \<Rightarrow> (string \<times> string) list \<Rightarrow> bool \<Rightarrow> Sample" where
  "sample_flag name labels b = sample_int name labels (if b then 1 else 0)"

definition sample_line :: "Sample \<Rightarrow> (py_error, string) result" where
  "sample_line s = rbind (to_str (sa_value s)) (\<lambda>v.
     Inr (sa_name s @ ''{'' @ str_join '','' (map (\<lambda>(k, x). k @ [CHR ''='', CHR 0x22] @ x @ [CHR 0x22]) (sa_labels s))
       @ ''} '' @ v))"

section \<open>The XML tree\<close>

datatype xml = Elem string "(string \<times> string) list" "xml list"

fun tag_of :: "xml \<Rightarrow> string" where
  "tag_of (Elem t a cs) = t"

fun attrs_of :: "xml \<Rightarrow> (string \<times> string) list" where
  "attrs_of (Elem t a cs) = a"

fun children_of :: "xml \<Rightarrow> xml list" where
  "children_of (Elem t a cs) = cs"

text \<open>\<open>n.get(k)\<close> and \<open>n.get(k, "")\<close>.\<close>

definition xget :: "xml \<Rightarrow> string \<Rightarrow> string option" where
  "xget x k = map_of (attrs_of x) k"

definition xget_or :: "xml \<Rightarrow> string \<Rightarrow> string \<Rightarrow> string" where
  "xget_or x k d = (case xget x k of None \<Rightarrow> d | Some v \<Rightarrow> v)"

text \<open>\<open>findall("./a/b")\<close> is two child steps, \<open>.iter()\<close> without the element itself all descendants in
  document order, \<open>find\<close> the first of a \<open>findall\<close>.\<close>

definition child_steps :: "string \<Rightarrow> xml list \<Rightarrow> xml list" where
  "child_steps t xs = concat (map (\<lambda>x. filter (\<lambda>c. tag_of c = t) (children_of x)) xs)"

fun descendants :: "xml \<Rightarrow> xml list" where
  "descendants (Elem t a cs) = concat (map (\<lambda>c. c # descendants c) cs)"

definition descendant_steps :: "string \<Rightarrow> xml list \<Rightarrow> xml list" where
  "descendant_steps t xs = concat (map (\<lambda>x. filter (\<lambda>c. tag_of c = t) (descendants x)) xs)"

definition first_of :: "'a list \<Rightarrow> 'a option" where
  "first_of xs = (case xs of [] \<Rightarrow> None | x # _ \<Rightarrow> Some x)"

section \<open>Parsers\<close>

record NodeState =
  ns_online :: bool
  ns_standby :: bool
  ns_unclean :: bool

record ResourceState =
  re_state :: string
  re_node :: "string option"

record CrmState =
  crm_quorate :: bool
  crm_nodes :: "(string \<times> NodeState) list"
  crm_resources :: "(string \<times> ResourceState) list"

definition parse_crm :: "xml \<Rightarrow> CrmState" where
  "parse_crm doc =
     \<lparr>crm_quorate = (case first_of (child_steps ''current_dc'' (child_steps ''summary'' [doc])) of
         None \<Rightarrow> False | Some dc \<Rightarrow> xget dc ''with_quorum'' = Some ''true''),
      crm_nodes = dict_build (\<lambda>n. xget_or n ''name'' [])
         (\<lambda>n. \<lparr>ns_online = (xget n ''online'' = Some ''true''), ns_standby = (xget n ''standby'' = Some ''true''),
               ns_unclean = (xget n ''unclean'' = Some ''true'')\<rparr>)
         (child_steps ''node'' (child_steps ''nodes'' [doc])),
      crm_resources = dict_build (\<lambda>r. xget_or r ''id'' [])
         (\<lambda>r. \<lparr>re_state = xget_or r ''role'' ''Unknown'',
               re_node = (case first_of (child_steps ''node'' [r]) of None \<Rightarrow> None | Some h \<Rightarrow> xget h ''name'')\<rparr>)
         (descendant_steps ''resource''
            (filter (\<lambda>g. xget g ''id'' = Some ''mq_group'') (descendant_steps ''group'' [doc])))\<rparr>"

record DrbdState =
  dr_role :: string
  dr_disk :: string
  dr_conn :: string
  dr_resync :: rat
  dr_oos :: int

text \<open>The \<open>key:value\<close> tokens of a line, a repeated key with its last value.\<close>

definition drbd_tokens :: "string \<Rightarrow> (string \<times> string) list" where
  "drbd_tokens raw = dict_build fst snd (List.map_filter (\<lambda>t. case split_once CHR '':'' t of
     (k, Some v) \<Rightarrow> Some (k, v) | _ \<Rightarrow> None) (split_ws raw))"

text \<open>The state of the loop: the resources, and the name of the current one; before the first block the
  current one is a scratch dictionary nobody reads. A line changes the current entry by each token.\<close>

type_synonym drbd_loop = "(string \<times> DrbdState) list \<times> string option"

definition drbd_set :: "(DrbdState \<Rightarrow> DrbdState) \<Rightarrow> drbd_loop \<Rightarrow> drbd_loop" where
  "drbd_set f l = (case snd l of None \<Rightarrow> l | Some n \<Rightarrow> (AList.map_entry n f (fst l), snd l))"

definition drbd_open :: "string \<Rightarrow> (string \<times> string) list \<Rightarrow> drbd_loop \<Rightarrow> drbd_loop" where
  "drbd_open raw tokens l =
     (case (raw, map_of tokens ''role'') of
        (c # _, Some role) \<Rightarrow>
          if c \<noteq> CHR '' '' \<and> c \<noteq> CHR 0x09
          then (AList.update (hd (split_ws raw))
                  \<lparr>dr_role = role, dr_disk = ''Unknown'', dr_conn = ''Unknown'', dr_resync = 100, dr_oos = 0\<rparr> (fst l),
                Some (hd (split_ws raw)))
          else l
      | _ \<Rightarrow> l)"

definition drbd_line :: "string \<Rightarrow> drbd_loop \<Rightarrow> (py_error, drbd_loop) result" where
  "drbd_line raw l =
     (let tokens = drbd_tokens raw;
          l1 = drbd_open raw tokens l;
          l2 = (case map_of tokens ''disk'' of None \<Rightarrow> l1 | Some v \<Rightarrow> drbd_set (\<lambda>d. d\<lparr>dr_disk := v\<rparr>) l1);
          l3 = (case map_of tokens ''connection'' of None \<Rightarrow> l2 | Some v \<Rightarrow> drbd_set (\<lambda>d. d\<lparr>dr_conn := v\<rparr>) l2)
      in
      rbind (case map_of tokens ''done'' of None \<Rightarrow> Inr l3
             | Some v \<Rightarrow> rbind (float_text v) (\<lambda>q. Inr (drbd_set (\<lambda>d. d\<lparr>dr_resync := q\<rparr>) l3))) (\<lambda>l4.
      case map_of tokens ''out-of-sync'' of None \<Rightarrow> Inr l4
      | Some v \<Rightarrow> rbind (to_int (PStr v)) (\<lambda>i. Inr (drbd_set (\<lambda>d. d\<lparr>dr_oos := i\<rparr>) l4))))"

definition parse_drbd :: "string \<Rightarrow> (py_error, (string \<times> DrbdState) list) result" where
  "parse_drbd t = rbind (foldr_res drbd_line (splitlines t) ([], None)) (\<lambda>l. Inr (fst l))"

definition fence_node :: "string \<Rightarrow> string option" where
  "fence_node raw = (let line = py_strip raw in
     if sublist '' was reset '' line \<or> sublist '' was fenced '' line then Some (fst (split_once CHR '' '' line)) else None)"

definition count_add :: "string \<Rightarrow> (string \<times> int) list \<Rightarrow> (string \<times> int) list" where
  "count_add n d = AList.update n ((case map_of d n of None \<Rightarrow> 0 | Some k \<Rightarrow> k) + 1) d"

definition parse_stonith :: "string \<Rightarrow> (string \<times> int) list" where
  "parse_stonith t = fold count_add (List.map_filter fence_node (splitlines t)) []"

definition parse_iscsi :: "string \<Rightarrow> int" where
  "parse_iscsi t = int (length (filter (\<lambda>raw. prefix ''tcp:'' (py_strip raw) \<or> prefix ''iser:'' (py_strip raw)) (splitlines t)))"

definition parse_daemons :: "string \<Rightarrow> string list \<Rightarrow> (string \<times> bool) list" where
  "parse_daemons t units = (let lines = splitlines t in
     dict_build fst snd (map (\<lambda>(i, unit). (unit, i < length lines \<and> py_strip (lines ! i) = ''active'')) (enumerate 0 units)))"

section \<open>Projection\<close>

definition crm_samples :: "string \<Rightarrow> (string \<times> int) list option \<Rightarrow> CrmState \<Rightarrow> Sample list" where
  "crm_samples node stonith crm =
     [sample_flag ''cluster_quorate'' [(''node'', node)] (crm_quorate crm)]
     @ concat (map (\<lambda>(member, st).
         [sample_flag ''cluster_node_online'' [(''node'', node), (''member'', member)] (ns_online st),
          sample_flag ''cluster_node_unclean'' [(''node'', node), (''member'', member)] (ns_unclean st)]) (crm_nodes crm))
     @ concat (map (\<lambda>(rid, r).
         [sample_flag ''cluster_resource_started'' [(''node'', node), (''resource'', rid)] (re_state r = ''Started'')]
         @ (case re_node r of Some h \<Rightarrow> if h \<noteq> [] then
               [sample_int ''cluster_resource_owner'' [(''node'', node), (''resource'', rid), (''holder'', h)] 1] else []
            | None \<Rightarrow> [])) (crm_resources crm))
     @ map (\<lambda>(member, _). sample_int ''cluster_fence_count'' [(''node'', node), (''member'', member)]
         (case map_of (case stonith of None \<Rightarrow> [] | Some s \<Rightarrow> s) member of None \<Rightarrow> 0 | Some k \<Rightarrow> k)) (crm_nodes crm)"

definition drbd_samples :: "string \<Rightarrow> (string \<times> DrbdState) list \<Rightarrow> Sample list" where
  "drbd_samples node drbd = concat (map (\<lambda>(res, d).
     [sample_int ''cluster_drbd_role'' [(''node'', node), (''resource'', res), (''role'', dr_role d)] 1,
      sample_int ''cluster_drbd_disk'' [(''node'', node), (''resource'', res), (''disk'', dr_disk d)] 1,
      sample_int ''cluster_drbd_conn'' [(''node'', node), (''resource'', res), (''conn'', dr_conn d)] 1,
      \<lparr>sa_name = ''cluster_drbd_resync_pct'', sa_labels = [(''node'', node), (''resource'', res)], sa_value = PFloat (dr_resync d)\<rparr>,
      sample_int ''cluster_drbd_out_of_sync_bytes'' [(''node'', node), (''resource'', res)] (dr_oos d)]) drbd)"

definition fresh_samples :: "string \<Rightarrow> int \<Rightarrow> string list \<Rightarrow> Sample list" where
  "fresh_samples node now fresh =
     map (\<lambda>source. sample_int ''cluster_state_last_write_timestamp'' [(''node'', node), (''source'', source)] now) fresh"

definition opt_list :: "('a \<Rightarrow> 'b list) \<Rightarrow> 'a option \<Rightarrow> 'b list" where
  "opt_list f x = (case x of None \<Rightarrow> [] | Some a \<Rightarrow> f a)"

definition render_cluster_state ::
  "string \<Rightarrow> CrmState option \<Rightarrow> (string \<times> int) list option \<Rightarrow> int option \<Rightarrow> (string \<times> bool) list
     \<Rightarrow> (string \<times> DrbdState) list option \<Rightarrow> int \<Rightarrow> string list \<Rightarrow> Sample list" where
  "render_cluster_state node crm stonith iscsi daemons drbd now fresh =
     opt_list (crm_samples node stonith) crm
     @ opt_list (\<lambda>n. [sample_int ''cluster_iscsi_sessions'' [(''node'', node)] n]) iscsi
     @ map (\<lambda>(unit, up). sample_flag ''cluster_daemon_up'' [(''node'', node), (''unit'', unit)] up) daemons
     @ opt_list (drbd_samples node) drbd
     @ fresh_samples node now fresh"

section \<open>One collection\<close>

definition PROBE_SETS :: "(string \<times> string list) list" where
  "PROBE_SETS = [(''cluster'', [''crm'', ''stonith'', ''iscsi'', ''daemons'']), (''storage'', [''drbd'', ''daemons''])]"

definition DAEMON_UNITS :: "(string \<times> string list) list" where
  "DAEMON_UNITS = [(''cluster'', [''corosync'', ''pacemaker'']), (''storage'', [''drbd''])]"

text \<open>What one run of a command answers: it timed out or could not start, or it exited.\<close>

datatype probe_result = NoAnswer | Answer int string

definition probe :: "bool \<Rightarrow> probe_result \<Rightarrow> string option" where
  "probe ignore_rc r = (case r of NoAnswer \<Rightarrow> None
     | Answer rc out \<Rightarrow> if ignore_rc then Some out else if rc = 0 then Some out else None)"

record Collected =
  co_crm :: "CrmState option"
  co_stonith :: "(string \<times> int) list option"
  co_iscsi :: "int option"
  co_daemons :: "(string \<times> bool) list"
  co_drbd :: "(string \<times> DrbdState) list option"
  co_fresh :: "string list"

definition nothing_collected :: Collected where
  "nothing_collected = \<lparr>co_crm = None, co_stonith = None, co_iscsi = None, co_daemons = [], co_drbd = None, co_fresh = []\<rparr>"

definition collect_source ::
  "(string \<Rightarrow> xml option) \<Rightarrow> (string \<Rightarrow> probe_result) \<Rightarrow> string list \<Rightarrow> string \<Rightarrow> Collected
     \<Rightarrow> (py_error, Collected) result" where
  "collect_source read_xml run units source c =
     (case probe (source = ''daemons'') (run source) of
        None \<Rightarrow> Inr c
      | Some raw \<Rightarrow>
          rbind (if source = ''daemons'' then Inr (c\<lparr>co_daemons := parse_daemons raw units\<rparr>)
                 else if source = ''crm'' then
                   (case read_xml raw of None \<Rightarrow> Inl (ValueErr ''ParseError'') | Some x \<Rightarrow> Inr (c\<lparr>co_crm := Some (parse_crm x)\<rparr>))
                 else if source = ''drbd'' then rbind (parse_drbd raw) (\<lambda>d. Inr (c\<lparr>co_drbd := Some d\<rparr>))
                 else if source = ''stonith'' then Inr (c\<lparr>co_stonith := Some (parse_stonith raw)\<rparr>)
                 else Inr (c\<lparr>co_iscsi := Some (parse_iscsi raw)\<rparr>))
            (\<lambda>c'. Inr (c'\<lparr>co_fresh := co_fresh c' @ [source]\<rparr>)))"

definition collect_cluster ::
  "(string \<Rightarrow> xml option) \<Rightarrow> (string \<Rightarrow> probe_result) \<Rightarrow> string \<Rightarrow> string \<Rightarrow> int \<Rightarrow> (py_error, Sample list) result" where
  "collect_cluster read_xml run role node now =
     (case (map_of PROBE_SETS role, map_of DAEMON_UNITS role) of
        (Some sources, Some units) \<Rightarrow>
          rbind (foldr_res (collect_source read_xml run units) sources nothing_collected) (\<lambda>c.
          Inr (render_cluster_state node (co_crm c) (co_stonith c) (co_iscsi c) (co_daemons c) (co_drbd c) now (co_fresh c)))
      | _ \<Rightarrow> Inl (KeyErr role))"

end
