(* ===== verification/Hosts.thy ===== *)
theory Hosts
  imports Py_Value
begin

text \<open>
  What the lab driver reads off the host and its hypervisor: guest and network states
  (\<open>mqlab/lifecycle.py\<close>, the parser of \<open>mqlab/netsel.py\<close>), the network metrics and peer lists of
  \<open>mqlab/netstate.py\<close>, the selection of names by pattern (\<open>mqlab/netsel.py\<close>, \<open>mqlab/guestsel.py\<close>) and
  the host facts of \<open>mqlab/hostfacts.py\<close>. The regular-expression search is an argument; file contents
  are arguments.
\<close>

section \<open>Guest and network states\<close>

datatype life = ABSENT | OFF | RUNNING | INACTIVE | ACTIVE

definition classify_guest :: "(string \<rightharpoonup> string) \<Rightarrow> string \<Rightarrow> life" where
  "classify_guest states guest =
     (case states (''lab_'' @ guest) of
        None \<Rightarrow> ABSENT
      | Some raw \<Rightarrow> if raw = ''running'' then RUNNING else OFF)"

definition is_live :: "(string \<rightharpoonup> string) \<Rightarrow> string \<Rightarrow> bool" where
  "is_live states guest =
     (case states (''lab_'' @ guest) of None \<Rightarrow> False | Some raw \<Rightarrow> raw \<noteq> ''shut off'')"

definition classify_net :: "(string \<rightharpoonup> string) \<Rightarrow> string \<Rightarrow> life" where
  "classify_net states net =
     (case states net of
        None \<Rightarrow> ABSENT
      | Some raw \<Rightarrow> if raw = ''active'' then ACTIVE else INACTIVE)"

text \<open>One line of \<open>virsh net-list --all\<close>: a name and a state, or nothing.\<close>

definition net_line :: "string \<Rightarrow> (string \<times> string) option" where
  "net_line raw =
     (let line = py_strip raw in
      if line = [] \<or> prefix ''Name'' line \<or> set line \<subseteq> {CHR ''-''} then None
      else case split_ws line of
        a # b # _ \<Rightarrow> Some (a, b)
      | _ \<Rightarrow> None)"

definition parse_net_states :: "string \<Rightarrow> (string \<times> string) list" where
  "parse_net_states text = fold (\<lambda>raw d. case net_line raw of None \<Rightarrow> d | Some (n, s) \<Rightarrow> AList.update n s d)
     (splitlines text) []"

section \<open>Network metrics and peers\<close>

fun state_code :: "life \<Rightarrow> int" where
  "state_code ABSENT = 0"
| "state_code INACTIVE = 1"
| "state_code ACTIVE = 2"
| "state_code _ = - 1" \<comment> \<open>no key of the code table; never reached by \<open>classify_net\<close>\<close>

definition EXCLUDED_NETS :: "pyval list" where
  "EXCLUDED_NETS = [PStr ''net-mgmt'']"

definition net_state_sample :: "(string \<rightharpoonup> string) \<Rightarrow> string \<Rightarrow> string" where
  "net_state_sample states net =
     ''lab_network_state{network='' @ [CHR 0x22] @ net @ [CHR 0x22] @ ''} ''
     @ int_str (state_code (classify_net states net))"

definition render_net_state_prom :: "string list \<Rightarrow> (string \<rightharpoonup> string) \<Rightarrow> string" where
  "render_net_state_prom net_names states =
     str_join [CHR 0x0A]
       ([''# HELP lab_network_state libvirt network state (0=absent,1=inactive,2=active)'',
         ''# TYPE lab_network_state gauge'']
        @ map (net_state_sample states) net_names) @ [CHR 0x0A]"

text \<open>The attachments of one node: host, network and address of each interface that is not excluded.\<close>

definition node_nics :: "pyval \<times> pyval \<Rightarrow> (py_error, (pyval \<times> pyval \<times> string) list) result" where
  "node_nics hs = (case hs of (host, spec) \<Rightarrow>
     rbind (dict_get (or_empty spec) ''nics'' PNone) (\<lambda>v.
     rbind (dict_items (or_empty v)) (\<lambda>nics.
     traverse (\<lambda>(net, ip). rbind (to_str ip) (\<lambda>s. Inr (host, net, s)))
       (filter (\<lambda>(net, ip). net \<notin> set EXCLUDED_NETS) nics))))"

definition add_member ::
  "pyval \<times> pyval \<times> string \<Rightarrow> (pyval \<times> (pyval \<times> string) list) list \<Rightarrow> (pyval \<times> (pyval \<times> string) list) list" where
  "add_member t m = (case t of (host, net, ip) \<Rightarrow>
     AList.update net ((case map_of m net of None \<Rightarrow> [] | Some hs \<Rightarrow> hs) @ [(host, ip)]) m)"

type_synonym peer_table = "(pyval \<times> (pyval \<times> (pyval \<times> string) list) list) list"

definition add_peers ::
  "pyval \<times> (pyval \<times> string) list \<Rightarrow> pyval \<Rightarrow> peer_table \<Rightarrow> peer_table" where
  "add_peers nh host res = (case nh of (net, hosts) \<Rightarrow>
     let peers = filter (\<lambda>(p, ip). p \<noteq> host) hosts in
     if peers = [] then res
     else AList.update host
            (AList.update net peers (case map_of res host of None \<Rightarrow> [] | Some d \<Rightarrow> d)) res)"

definition net_peers :: "pyval \<Rightarrow> (py_error, peer_table) result" where
  "net_peers topo =
     rbind (dict_get topo ''nodes'' (PDict [])) (\<lambda>nodes.
     rbind (dict_items nodes) (\<lambda>ns.
     rbind (traverse node_nics ns) (\<lambda>tss.
     let members = fold add_member (concat tss) []
     in Inr (fold (\<lambda>nh res. fold (add_peers nh) (map fst (snd nh)) res) members []))))"

section \<open>Selection by pattern\<close>

definition ALL_KEYWORD :: string where
  "ALL_KEYWORD = ''all''"

definition select_nets :: "(string \<Rightarrow> string \<Rightarrow> bool) \<Rightarrow> string \<Rightarrow> string list \<Rightarrow> string list" where
  "select_nets re_search pat names = (if pat = ALL_KEYWORD then names else filter (re_search pat) names)"

definition select_guests :: "(string \<Rightarrow> string \<Rightarrow> bool) \<Rightarrow> string \<Rightarrow> string list \<Rightarrow> string list" where
  "select_guests re_search pat names = (if pat = ALL_KEYWORD then names else filter (re_search pat) names)"

section \<open>Host facts\<close>

definition AARCH64 :: string where
  "AARCH64 = ''aarch64''"

definition X86_64 :: string where
  "X86_64 = ''x86_64''"

definition ARCH_ALIASES :: "(string \<times> string) list" where
  "ARCH_ALIASES = [(''aarch64'', AARCH64), (''arm64'', AARCH64), (''x86_64'', X86_64), (''amd64'', X86_64)]"

definition APT :: "string list" where
  "APT = [''ubuntu'', ''debian'']"

definition DNF :: "string list" where
  "DNF = [''rhel'', ''fedora'', ''centos'', ''almalinux'', ''rocky'']"

definition X86_64_V3_FLAGS :: "string list" where
  "X86_64_V3_FLAGS = [''abm'', ''avx2'', ''bmi1'', ''bmi2'', ''f16c'', ''fma'', ''movbe'', ''xsave'']"

record HostFacts =
  hf_arch :: string
  hf_kvm :: bool
  hf_distro_family :: string
  hf_in_vergil :: bool
  hf_x86_64_v3 :: bool
  hf_x86_64_v3_missing :: "string list"

definition normalize_arch :: "string \<Rightarrow> (py_error, string) result" where
  "normalize_arch machine =
     (case map_of ARCH_ALIASES (py_lower (py_strip machine)) of
        None \<Rightarrow> Inl (ValueErr (''unsupported host architecture: '' @ machine))
      | Some a \<Rightarrow> Inr a)"

definition os_release_ids :: "string \<Rightarrow> (string \<times> string) list" where
  "os_release_ids text = fold (\<lambda>line d. case split_once CHR ''='' line of
       (k, Some v) \<Rightarrow> AList.update (py_strip k) (py_lower (strip_when (\<lambda>c. c = CHR 0x22) (py_strip v))) d
     | (k, None) \<Rightarrow> d) (splitlines text) []"

definition distro_family :: "string \<Rightarrow> string" where
  "distro_family text =
     (let ids = os_release_ids text;
          get = (\<lambda>k. case map_of ids k of None \<Rightarrow> [] | Some v \<Rightarrow> v);
          tokens = get ''ID'' # split_ws (get ''ID_LIKE'')
      in if list_ex (\<lambda>t. List.member APT t) tokens then ''apt''
         else if list_ex (\<lambda>t. List.member DNF t) tokens then ''dnf'' else ''unknown'')"

fun first_flags :: "string list \<Rightarrow> string list" where
  "first_flags [] = []"
| "first_flags (line # ls) =
     (case split_once CHR '':'' line of
        (k, Some v) \<Rightarrow> if py_strip k = ''flags'' then split_ws v else first_flags ls
      | (k, None) \<Rightarrow> first_flags ls)"

definition cpu_flags :: "string \<Rightarrow> string list" where
  "cpu_flags cpuinfo = first_flags (splitlines cpuinfo)"

definition x86_64_v3_missing :: "string \<Rightarrow> string list" where
  "x86_64_v3_missing cpuinfo = filter (\<lambda>f. \<not> List.member (cpu_flags cpuinfo) f) X86_64_V3_FLAGS"

definition x86_64_v3_gap :: "HostFacts \<Rightarrow> string" where
  "x86_64_v3_gap facts =
     (if hf_x86_64_v3_missing facts \<noteq> []
      then ''this host's CPU lacks '' @ str_join '', '' (hf_x86_64_v3_missing facts)
      else if hf_arch facts \<noteq> X86_64 then ''this host is '' @ hf_arch facts @ '', not x86_64''
      else ''this host has no usable KVM, and x86-64-v3 is not measured under TCG emulation, so it counts as absent'')"

definition from_raw :: "string \<Rightarrow> bool \<Rightarrow> string \<Rightarrow> bool \<Rightarrow> string \<Rightarrow> (py_error, HostFacts) result" where
  "from_raw machine kvm_usable os_release vergil cpuinfo =
     rbind (normalize_arch machine) (\<lambda>arch.
     let missing = (if arch = X86_64 then x86_64_v3_missing cpuinfo else [])
     in Inr \<lparr>hf_arch = arch, hf_kvm = kvm_usable, hf_distro_family = distro_family os_release,
             hf_in_vergil = vergil, hf_x86_64_v3 = (arch = X86_64 \<and> kvm_usable \<and> missing = []),
             hf_x86_64_v3_missing = missing\<rparr>)"

section \<open>Selectors as an interface\<close>

text \<open>What a destructive verb relies on: \<open>all\<close> is every name, any other pattern selects only names that
  match, in the given order.\<close>

locale selector =
  fixes select :: "(string \<Rightarrow> string \<Rightarrow> bool) \<Rightarrow> string \<Rightarrow> string list \<Rightarrow> string list"
  assumes select_all: "select m ALL_KEYWORD names = names"
    and select_some: "pat \<noteq> ALL_KEYWORD \<Longrightarrow> select m pat names = filter (m pat) names"
begin

lemma selected_known: "set (select m pat names) \<subseteq> set names"
  by (cases "pat = ALL_KEYWORD") (auto simp: select_all select_some)

lemma selected_order: "subseq (select m pat names) names"
  by (cases "pat = ALL_KEYWORD") (auto simp: select_all select_some)

lemma selected_distinct: "distinct names \<Longrightarrow> distinct (select m pat names)"
  by (cases "pat = ALL_KEYWORD") (auto simp: select_all select_some)

lemma selected_iff: "n \<in> set (select m pat names) \<longleftrightarrow> n \<in> set names \<and> (pat = ALL_KEYWORD \<or> m pat n)"
  by (cases "pat = ALL_KEYWORD") (auto simp: select_all select_some)

end

interpretation nets: selector select_nets
  by unfold_locales (simp_all add: select_nets_def)

interpretation guests: selector select_guests
  by unfold_locales (simp_all add: select_guests_def)

section \<open>Lemmas\<close>

lemma parse_net_states_lookup:
  "map_of (parse_net_states text) n =
     map_option snd (find (\<lambda>p. fst p = n) (rev (List.map_filter net_line (splitlines text))))"
proof -
  have "map_of (fold (\<lambda>raw d. case net_line raw of None \<Rightarrow> d | Some (n, s) \<Rightarrow> AList.update n s d) ls d) n =
      (case find (\<lambda>p. fst p = n) (rev (List.map_filter net_line ls)) of None \<Rightarrow> map_of d n | Some p \<Rightarrow> Some (snd p))" for ls d
  proof (induction ls arbitrary: d rule: rev_induct)
    case (snoc l ls)
    then show ?case by (auto simp: map_filter_simps map_filter_append update_conv' split: option.splits)
  qed (simp add: map_filter_simps)
  then show ?thesis unfolding parse_net_states_def by (simp split: option.splits)
qed

definition members_of :: "(pyval \<times> pyval \<times> string) list \<Rightarrow> pyval \<Rightarrow> (pyval \<times> string) list" where
  "members_of ts net = map (\<lambda>(h, n, ip). (h, ip)) (filter (\<lambda>(h, n, ip). n = net) ts)"

lemma members_lookup:
  "map_of (fold add_member ts []) net = (if members_of ts net = [] then None else Some (members_of ts net))"
proof (induction ts rule: rev_induct)
  case (snoc t ts)
  obtain h n ip where "t = (h, n, ip)" by (cases t)
  with snoc show ?case by (auto simp: add_member_def update_conv' members_of_def)
qed (simp add: members_of_def)

lemma members_distinct: "distinct (map fst (fold add_member ts []))"
proof (induction ts rule: rev_induct)
  case (snoc t ts)
  then show ?case by (cases t) (simp add: add_member_def distinct_update)
qed simp

definition peers_in :: "peer_table \<Rightarrow> pyval \<Rightarrow> pyval \<Rightarrow> (pyval \<times> string) list" where
  "peers_in res h n = (case map_of res h of None \<Rightarrow> [] | Some d \<Rightarrow> (case map_of d n of None \<Rightarrow> [] | Some ps \<Rightarrow> ps))"

lemma peers_in_add:
  "peers_in (add_peers (n, hs) h res) h' n' =
     (let ps = filter (\<lambda>(p, ip). p \<noteq> h) hs in
      if h' = h \<and> n' = n \<and> ps \<noteq> [] then ps else peers_in res h' n')"
  by (auto simp: add_peers_def peers_in_def Let_def update_conv' split: option.splits)

lemma peers_in_fold:
  assumes "peers_in res h n = []"
  shows "peers_in (fold (add_peers (n, hs)) hosts res) h n =
    (if h \<in> set hosts then filter (\<lambda>(p, ip). p \<noteq> h) hs else [])"
  using assms
proof (induction hosts rule: rev_induct)
  case (snoc x xs)
  then show ?case by (auto simp: peers_in_add Let_def)
qed simp

lemma peers_in_fold_other:
  "n' \<noteq> n \<Longrightarrow> peers_in (fold (add_peers (n', hs)) hosts res) h n = peers_in res h n"
  by (induction hosts rule: rev_induct) (simp_all add: peers_in_add Let_def)

lemma peers_in_all:
  assumes "distinct (map fst members)"
  shows "peers_in (fold (\<lambda>nh res. fold (add_peers nh) (map fst (snd nh)) res) members []) h n =
    (case map_of members n of
       None \<Rightarrow> []
     | Some hs \<Rightarrow> if h \<in> fst ` set hs then filter (\<lambda>(p, ip). p \<noteq> h) hs else [])"
  using assms
proof (induction members rule: rev_induct)
  case (snoc m ms)
  obtain n' hs where m: "m = (n', hs)" by (cases m)
  show ?case
  proof (cases "n' = n")
    case True
    with snoc.prems m have "map_of ms n = None" by (simp add: map_of_eq_None_iff)
    with True snoc m show ?thesis by (simp add: peers_in_fold map_add_def)
  next
    case False
    with snoc m show ?thesis by (simp add: peers_in_fold_other map_add_def split: option.split)
  qed
qed (simp add: peers_in_def)

text \<open>All attachments of a topology, in its order.\<close>

definition attachments :: "pyval \<Rightarrow> (pyval \<times> pyval \<times> string) list" where
  "attachments topo = concat (map (\<lambda>hs. case node_nics hs of Inr xs \<Rightarrow> xs | Inl e \<Rightarrow> [])
     (items (get_default topo ''nodes'' (PDict []))))"

lemma traverse_concat:
  "traverse f xs = Inr yss \<Longrightarrow> concat (map (\<lambda>x. case f x of Inr ys \<Rightarrow> ys | Inl e \<Rightarrow> []) xs) = concat yss"
  by (induction xs arbitrary: yss) (auto simp: result_simps)

lemma node_nics_excluded:
  "node_nics hs = Inr ts \<Longrightarrow> (h, n, ip) \<in> set ts \<Longrightarrow> n \<notin> set EXCLUDED_NETS"
  by (auto simp: node_nics_def result_simps split: prod.splits dest!: traverse_memD)

section \<open>Properties\<close>

text \<open>Every host's peer list on a network is exactly the other hosts attached to that network in
  the topology, in topology order, with their addresses; the management network never appears, a host
  is never its own peer, and being a peer is mutual.\<close>

theorem net_peers_exact:
  assumes "net_peers topo = Inr res"
  shows "peers_in res h n =
      (if (\<exists>ip. (h, n, ip) \<in> set (attachments topo))
       then map (\<lambda>(p, n', ip). (p, ip)) (filter (\<lambda>(p, n', ip). n' = n \<and> p \<noteq> h) (attachments topo))
       else [])
    \<and> (p \<in> fst ` set (peers_in res h n) \<longleftrightarrow> h \<in> fst ` set (peers_in res p n))
    \<and> h \<notin> fst ` set (peers_in res h n)
    \<and> peers_in res h (PStr ''net-mgmt'') = []"
proof -
  define ts where "ts = attachments topo"
  from assms obtain ns tss where ns: "dict_items (get_default topo ''nodes'' (PDict [])) = Inr ns"
    and tss: "traverse node_nics ns = Inr tss"
    and res: "res = fold (\<lambda>nh res. fold (add_peers nh) (map fst (snd nh)) res) (fold add_member (concat tss) []) []"
    by (auto simp: net_peers_def result_simps Let_def dict_get_def split: if_splits)
  have ts_eq: "ts = concat tss"
    using ns traverse_concat[OF tss] by (simp add: ts_def attachments_def dict_items_def split: if_splits)
  have peers: "peers_in res h n =
      (if (\<exists>ip. (h, n, ip) \<in> set ts)
       then map (\<lambda>(p, n', ip). (p, ip)) (filter (\<lambda>(p, n', ip). n' = n \<and> p \<noteq> h) ts) else [])" for h n
  proof -
    have "filter (\<lambda>(p, ip). p \<noteq> h) (members_of ts n)
        = map (\<lambda>(p, n', ip). (p, ip)) (filter (\<lambda>(p, n', ip). n' = n \<and> p \<noteq> h) ts)"
      by (simp add: members_of_def filter_map filter_filter case_prod_unfold comp_def conj_commute)
    moreover have "h \<in> fst ` set (members_of ts n) \<longleftrightarrow> (\<exists>ip. (h, n, ip) \<in> set ts)"
      by (force simp: members_of_def)
    ultimately show ?thesis
      unfolding res ts_eq[symmetric] peers_in_all[OF members_distinct] members_lookup by auto
  qed
  have mem: "q \<in> fst ` set (peers_in res h n) \<longleftrightarrow>
      q \<noteq> h \<and> (\<exists>ip. (h, n, ip) \<in> set ts) \<and> (\<exists>ip. (q, n, ip) \<in> set ts)" for q h n
    unfolding peers by force
  have "n' \<notin> set EXCLUDED_NETS" if "(h', n', ip) \<in> set ts" for h' n' ip
  proof -
    from that obtain hs xs where "node_nics hs = Inr xs" "(h', n', ip) \<in> set xs"
      unfolding ts_def attachments_def by (auto split: sum.splits dest!: sym[of "Inr _"])
    then show ?thesis by (rule node_nics_excluded)
  qed
  then have "\<not> (\<exists>ip. (h, PStr ''net-mgmt'', ip) \<in> set ts)" by (auto simp: EXCLUDED_NETS_def)
  then have "peers_in res h (PStr ''net-mgmt'') = []" unfolding peers by simp
  then show ?thesis using peers mem unfolding ts_def by auto
qed

definition sample_topo :: pyval where
  "sample_topo = PDict [(PStr ''nodes'', PDict
     [(PStr ''a'', PDict [(PStr ''nics'', PDict [(PStr ''net-mgmt'', PStr ''10.0.0.1''), (PStr ''net-x'', PStr ''10.1.0.1'')])]),
      (PStr ''b'', PDict [(PStr ''nics'', PDict [(PStr ''net-x'', PStr ''10.1.0.2'')])]),
      (PStr ''c'', PNone)])]"

theorem net_peers_exact_witness:
  "\<exists>res. net_peers sample_topo = Inr res \<and> peers_in res (PStr ''a'') (PStr ''net-x'') = [(PStr ''b'', ''10.1.0.2'')]
     \<and> peers_in res (PStr ''a'') (PStr ''net-mgmt'') = []"
proof -
  have "\<not> isl (net_peers sample_topo)" by code_simp
  then obtain res where r: "net_peers sample_topo = Inr res" using not_isl_Inr by blast
  have "attachments sample_topo = [(PStr ''a'', PStr ''net-x'', ''10.1.0.1''), (PStr ''b'', PStr ''net-x'', ''10.1.0.2'')]"
    by code_simp
  with net_peers_exact[OF r, of "PStr ''a''" "PStr ''net-x''" "PStr ''b''"] r show ?thesis by auto
qed

text \<open>The network metric says what the hypervisor said: for every declared network the sample's
  value is 0 exactly when no line of the listing names it, 2 exactly when the last line that names it
  calls it active, and 1 otherwise; a network that is not defined still has a sample.\<close>

theorem net_metric_faithful:
  "let states = map_of (parse_net_states text);
       named = map snd (filter (\<lambda>p. fst p = net) (List.map_filter net_line (splitlines text)))
   in state_code (classify_net states net) =
        (if named = [] then 0 else if last named = ''active'' then 2 else 1)
      \<and> (\<exists>pre post. render_net_state_prom (nets1 @ net # nets2) states =
           pre @ CHR 0x0A # net_state_sample states net @ CHR 0x0A # post)"
proof -
  define named where "named = filter (\<lambda>p. fst p = net) (List.map_filter net_line (splitlines text))"
  have look: "map_of (parse_net_states text) net = (if named = [] then None else Some (snd (last named)))"
    unfolding parse_net_states_lookup find_rev named_def by simp
  have join: "\<exists>post. str_join [CHR 0x0A] (x # ys) @ [CHR 0x0A] = x @ CHR 0x0A # post" for x ys
    by (cases ys) auto
  have "\<exists>pre post. str_join [CHR 0x0A] ((a # xs) @ x # ys) @ [CHR 0x0A] = pre @ CHR 0x0A # x @ CHR 0x0A # post" for a xs x ys
  proof (induction xs arbitrary: a)
    case Nil
    from join[of x ys] obtain post where "str_join [CHR 0x0A] (x # ys) @ [CHR 0x0A] = x @ CHR 0x0A # post" by blast
    then show ?case by (intro exI[of _ a] exI[of _ post]) simp
  next
    case (Cons b xs)
    then obtain pre post where "str_join [CHR 0x0A] ((b # xs) @ x # ys) @ [CHR 0x0A] = pre @ CHR 0x0A # x @ CHR 0x0A # post" by blast
    then show ?case by (intro exI[of _ "a @ CHR 0x0A # pre"] exI[of _ post]) simp
  qed
  note line = this
  have "\<exists>pre post. render_net_state_prom (nets1 @ net # nets2) st = pre @ CHR 0x0A # net_state_sample st net @ CHR 0x0A # post" for st
    using line[of "''# HELP lab_network_state libvirt network state (0=absent,1=inactive,2=active)''"
        "''# TYPE lab_network_state gauge'' # map (net_state_sample st) nets1" "net_state_sample st net"
        "map (net_state_sample st) nets2"]
    by (simp only: render_net_state_prom_def map_append list.map append_Cons append_Nil)
  moreover have "map snd named \<noteq> [] \<Longrightarrow> last (map snd named) = snd (last named)" by (simp add: last_map)
  ultimately show ?thesis
    by (auto simp: Let_def classify_net_def look named_def[symmetric] split: option.splits)
qed

text \<open>The host counts as x86-64-v3 exactly when it is an x86_64 machine with usable KVM whose first
  flags line carries all eight flags; the architecture is one of the two known ones, an unknown one is
  refused; and when the host does not count, the explanation names the reason: the missing flags, the
  other architecture, or the missing KVM.\<close>

theorem host_facts_v3:
  "case from_raw machine kvm osr vergil cpuinfo of
     Inl e \<Rightarrow> map_of ARCH_ALIASES (py_lower (py_strip machine)) = None
   | Inr f \<Rightarrow>
       hf_arch f \<in> {AARCH64, X86_64} \<and> hf_kvm f = kvm
       \<and> (hf_x86_64_v3 f \<longleftrightarrow> hf_arch f = X86_64 \<and> kvm \<and> set X86_64_V3_FLAGS \<subseteq> set (cpu_flags cpuinfo))
       \<and> set (hf_x86_64_v3_missing f) = (if hf_arch f = X86_64 then set X86_64_V3_FLAGS - set (cpu_flags cpuinfo) else {})
       \<and> (\<not> hf_x86_64_v3 f \<longrightarrow> x86_64_v3_gap f =
            (if hf_arch f = AARCH64 then ''this host is aarch64, not x86_64''
             else if hf_x86_64_v3_missing f \<noteq> [] then ''this host's CPU lacks '' @ str_join '', '' (hf_x86_64_v3_missing f)
             else ''this host has no usable KVM, and x86-64-v3 is not measured under TCG emulation, so it counts as absent''))"
proof (cases "map_of ARCH_ALIASES (py_lower (py_strip machine))")
  case None
  then show ?thesis by (simp add: from_raw_def normalize_arch_def)
next
  case (Some arch)
  then have "arch \<in> {AARCH64, X86_64}"
    by (auto simp: ARCH_ALIASES_def split: if_splits)
  moreover have "AARCH64 \<noteq> X86_64" by (simp add: AARCH64_def X86_64_def)
  ultimately show ?thesis
    using Some by (auto simp: from_raw_def normalize_arch_def x86_64_v3_missing_def x86_64_v3_gap_def
        List.member_iff filter_empty_conv Let_def AARCH64_def X86_64_def)
qed

theorem host_facts_v3_witness:
  "\<exists>f. from_raw ''x86_64'' True ''ID=ubuntu'' False ''flags : fpu avx avx2'' = Inr f
     \<and> \<not> hf_x86_64_v3 f \<and> set (hf_x86_64_v3_missing f) = set X86_64_V3_FLAGS - {''fpu'', ''avx'', ''avx2''}
     \<and> x86_64_v3_gap f = ''this host's CPU lacks '' @ str_join '', '' (hf_x86_64_v3_missing f)"
proof -
  have ev: "(case from_raw ''x86_64'' True ''ID=ubuntu'' False ''flags : fpu avx avx2'' of Inl e \<Rightarrow> False
     | Inr f \<Rightarrow> \<not> hf_x86_64_v3 f \<and> hf_arch f = X86_64 \<and> hf_x86_64_v3_missing f \<noteq> [])" by code_simp
  then obtain f where f: "from_raw ''x86_64'' True ''ID=ubuntu'' False ''flags : fpu avx avx2'' = Inr f" by (auto split: sum.splits)
  have "set (cpu_flags ''flags : fpu avx avx2'') = {''fpu'', ''avx'', ''avx2''}" by code_simp
  moreover have "AARCH64 \<noteq> X86_64" by code_simp
  ultimately show ?thesis
    using host_facts_v3[where machine = "''x86_64''" and kvm = True and osr = "''ID=ubuntu''" and vergil = False
      and cpuinfo = "''flags : fpu avx avx2''"] f ev by auto
qed

end
