(* ===== verification/Topology.thy ===== *)
theory Topology
  imports Hosts Orchestrator
begin

text \<open>
  The effective topology (\<open>mqlab/topology.py\<close>): which environment profile applies and how it is merged
  onto the declared topology, and the huge-page sizing that reads it (\<open>mqlab/hugepages.py\<close>). The
  topology document is a value; the DMI files, the answer of \<open>systemd-detect-virt\<close> and the contents
  of \<open>/proc/meminfo\<close> are arguments. Error texts are reduced to what they are about.
\<close>

section \<open>Environment\<close>

definition KNOWN_ENVS :: "string list" where
  "KNOWN_ENVS = [''macos'', ''cloud'']"

definition DMI_PRODUCT_PREFIXES :: "(string \<times> string) list" where
  "DMI_PRODUCT_PREFIXES = [(''Apple Virtualization'', ''macos''), (''Google Compute Engine'', ''cloud'')]"

definition DETECT_VIRT_IDS :: "(string \<times> string) list" where
  "DETECT_VIRT_IDS = [(''apple'', ''macos''), (''google'', ''cloud'')]"

datatype source = EXPLICIT | DETECTED | INCONCLUSIVE

record EnvResolution =
  er_env :: "string option"
  er_source :: source

text \<open>\<open>run_detect_virt\<close>: \<open>None\<close> when the program could not be run, else what it printed.\<close>

definition run_detect_virt :: "string option \<Rightarrow> string option" where
  "run_detect_virt out = (case out of None \<Rightarrow> None | Some s \<Rightarrow> map_of DETECT_VIRT_IDS (py_strip s))"

definition detect_platform :: "string option \<Rightarrow> string option \<Rightarrow> string option" where
  "detect_platform product virt_out =
     (case product of
        Some p \<Rightarrow>
          (case find (\<lambda>(pre, env). p \<noteq> [] \<and> prefix pre p) DMI_PRODUCT_PREFIXES of
             Some (pre, env) \<Rightarrow> Some env
           | None \<Rightarrow> run_detect_virt virt_out)
      | None \<Rightarrow> run_detect_virt virt_out)"

definition check_known :: "string \<Rightarrow> (py_error, unit) result" where
  "check_known selected = ensure (List.member KNOWN_ENVS selected) (ValueErr ''not a known environment'')"

text \<open>\<open>resolve_env\<close>: the value of \<open>$MQLAB_ENV\<close> (empty when unset) and the two detections.\<close>

definition resolve_env :: "string \<Rightarrow> string option \<Rightarrow> string option \<Rightarrow> (py_error, EnvResolution) result" where
  "resolve_env explicit product virt_out =
     (if explicit \<noteq> [] then
        rbind (check_known explicit) (\<lambda>_. Inr \<lparr>er_env = Some explicit, er_source = EXPLICIT\<rparr>)
      else case detect_platform product virt_out of
        None \<Rightarrow> Inr \<lparr>er_env = None, er_source = INCONCLUSIVE\<rparr>
      | Some env \<Rightarrow> Inr \<lparr>er_env = Some env, er_source = DETECTED\<rparr>)"

section \<open>Merging a profile\<close>

definition PROFILES_KEY :: string where
  "PROFILES_KEY = ''env_profiles''"

definition MEMORY_BACKING :: string where
  "MEMORY_BACKING = ''memory_backing''"

definition HUGEPAGES :: string where
  "HUGEPAGES = ''hugepages''"

definition TOP_LEVEL_LEVERS :: "string list" where
  "TOP_LEVEL_LEVERS = [''boot_batch'', MEMORY_BACKING]"

definition NODE_LEVERS :: "string list" where
  "NODE_LEVERS = [''cpus'']"

definition check_value :: "string \<Rightarrow> pyval \<Rightarrow> (py_error, unit) result" where
  "check_value key v = ensure (key = MEMORY_BACKING \<longrightarrow> v = PStr HUGEPAGES) (ValueErr key)"

text \<open>\<open>nodes[name] = {**(nodes[name] or {}), key: value}\<close> for each override of one node.\<close>

definition apply_node_key ::
  "pyval \<Rightarrow> pyval \<times> pyval \<Rightarrow> (pyval \<times> pyval) list \<Rightarrow> (py_error, (pyval \<times> pyval) list) result" where
  "apply_node_key name kv nodes = (case kv of (key, v) \<Rightarrow>
     rbind (ensure (key \<in> PStr ` set NODE_LEVERS) (ValueErr ''may not override'')) (\<lambda>_.
     let old = or_empty (case map_of nodes name of None \<Rightarrow> PNone | Some w \<Rightarrow> w) in
     rbind (dict_items old) (\<lambda>fields. Inr (AList.update name (PDict (AList.update key v fields)) nodes))))"

definition apply_node ::
  "pyval \<times> pyval \<Rightarrow> (pyval \<times> pyval) list \<Rightarrow> (py_error, (pyval \<times> pyval) list) result" where
  "apply_node no nodes = (case no of (name, over) \<Rightarrow>
     rbind (ensure (name \<in> fst ` set nodes) (ValueErr ''unknown node'')) (\<lambda>_.
     rbind (ensure (is_dict over) (ValueErr ''must be a mapping'')) (\<lambda>_.
     foldr_res (apply_node_key name) (items over) nodes)))"

definition apply_nodes ::
  "(pyval \<times> pyval) list \<Rightarrow> pyval \<Rightarrow> (py_error, (pyval \<times> pyval) list) result" where
  "apply_nodes nodes overrides =
     rbind (ensure (is_dict overrides) (ValueErr ''nodes must be a mapping'')) (\<lambda>_.
     foldr_res apply_node (items overrides) nodes)"

text \<open>One entry of a profile. The node table is changed in place: when the topology has none, the
  overrides apply to a fresh empty table, which accepts no node.\<close>

definition apply_key :: "pyval \<times> pyval \<Rightarrow> pyval \<Rightarrow> (py_error, pyval) result" where
  "apply_key kv topo = (case kv of (key, v) \<Rightarrow>
     if key = PStr ''nodes'' then
       rbind (dict_items (or_empty (get_or_none topo ''nodes''))) (\<lambda>nodes.
       rbind (apply_nodes nodes v) (\<lambda>nodes'.
       Inr (if truthy (get_or_none topo ''nodes'') then put ''nodes'' (PDict nodes') topo else topo)))
     else case find (\<lambda>l. key = PStr l) TOP_LEVEL_LEVERS of
       Some l \<Rightarrow> rbind (check_value l v) (\<lambda>_. Inr (put l v topo))
     | None \<Rightarrow> Inl (ValueErr ''may not override''))"

definition apply_profile :: "pyval \<Rightarrow> pyval \<Rightarrow> (py_error, pyval) result" where
  "apply_profile topo profile =
     rbind (ensure (is_dict profile) (ValueErr ''must be a mapping'')) (\<lambda>_.
     foldr_res apply_key (items profile) topo)"

text \<open>\<open>effective(topo, env)\<close>; the empty environment is the base topology.\<close>

definition effective :: "pyval \<Rightarrow> string \<Rightarrow> (py_error, pyval) result" where
  "effective topo env =
     rbind (ensure (is_dict topo) (TypeErr ''pop'')) (\<lambda>_.
     let profiles = or_empty (get_or_none topo PROFILES_KEY);
         out = remove PROFILES_KEY topo
     in
     rbind (ensure (is_dict profiles) (ValueErr PROFILES_KEY)) (\<lambda>_.
     rbind (ensure (list_all (\<lambda>(k, v). k \<in> PStr ` set KNOWN_ENVS) (items profiles)) (ValueErr ''unknown key'')) (\<lambda>_.
     if env = [] then Inr out
     else
       rbind (check_known env) (\<lambda>_.
       case lookup profiles env of
         None \<Rightarrow> Inl (ValueErr ''no profile'')
       | Some p \<Rightarrow> apply_profile out (or_empty p)))))"

definition memory_backing :: "pyval \<Rightarrow> (py_error, string option) result" where
  "memory_backing topo =
     rbind (dict_get topo MEMORY_BACKING PNone) (\<lambda>v.
     if v = PNone then Inr None
     else rbind (check_value MEMORY_BACKING v) (\<lambda>_. rbind (to_str v) (\<lambda>s. Inr (Some s))))"

section \<open>Huge pages\<close>

definition PAGE_MIB :: int where
  "PAGE_MIB = 2048 div 1024"

definition MARGIN_PAGES :: int where
  "MARGIN_PAGES = 128"

definition hugepages_enabled :: "pyval \<Rightarrow> (py_error, bool) result" where
  "hugepages_enabled topo = rbind (memory_backing topo) (\<lambda>b. Inr (b = Some HUGEPAGES))"

definition guest_memory_mib :: "pyval \<Rightarrow> string \<Rightarrow> (py_error, int) result" where
  "guest_memory_mib topo guest =
     rbind (dict_get topo ''nodes'' PNone) (\<lambda>v.
     rbind (dict_items (or_empty v)) (\<lambda>nodes.
     case map_of nodes (PStr guest) of
       None \<Rightarrow> Inl (ValueErr ''not a topology node'')
     | Some spec \<Rightarrow>
         rbind (dict_get topo ''defaults'' PNone) (\<lambda>dv.
         rbind (dict_get (or_empty dv) ''memory'' (PInt 1024)) (\<lambda>dm.
         rbind (dict_get (or_empty spec) ''memory'' dm) to_int))))"

text \<open>\<open>-(-memory_mib // PAGE_MIB)\<close>.\<close>

definition pages_for :: "int \<Rightarrow> int" where
  "pages_for memory_mib = - ((- memory_mib) div PAGE_MIB)"

definition needed_pages :: "pyval \<Rightarrow> string list \<Rightarrow> (py_error, int) result" where
  "needed_pages topo guests =
     (if guests = [] then Inr 0
      else rbind (traverse (guest_memory_mib topo) guests) (\<lambda>ms.
           Inr (sum_list (map pages_for ms) + MARGIN_PAGES)))"

definition hugepage_play :: "string \<Rightarrow> string list \<Rightarrow> Command" where
  "hugepage_play repo_root extra =
     \<lparr>argv = [''ansible-playbook'', ''host-hugepages.yml'', ''-c'', ''local'', ''-i'', ''localhost,''] @ extra,
      cwd = Some (repo_root @ ''/ansible''), cmd_env = None\<rparr>"

definition reserve_command :: "string \<Rightarrow> int \<Rightarrow> (py_error, Command) result" where
  "reserve_command repo_root needed =
     rbind (ensure (1 \<le> needed) (ValueErr ''needs a positive page count'')) (\<lambda>_.
     rbind (to_str (PInt needed)) (\<lambda>t.
     Inr (hugepage_play repo_root [''-e'', ''hugepages_needed='' @ t])))"

definition release_command :: "string \<Rightarrow> Command" where
  "release_command repo_root = hugepage_play repo_root [''-e'', ''hugepages_release=true'']"

definition MEMINFO_KEYS :: "string list" where
  "MEMINFO_KEYS = [''HugePages_Total'', ''HugePages_Free'', ''HugePages_Rsvd'', ''Hugepagesize'']"

definition meminfo_line :: "string \<Rightarrow> (string \<times> int) list \<Rightarrow> (py_error, (string \<times> int) list) result" where
  "meminfo_line line found =
     (case split_once CHR '':'' line of (key, rest) \<Rightarrow>
        if List.member MEMINFO_KEYS key then
          (case split_ws (case rest of None \<Rightarrow> [] | Some r \<Rightarrow> r) of
             [] \<Rightarrow> Inl (ValueErr ''list index out of range'')
           | w # _ \<Rightarrow> rbind (to_int (PStr w)) (\<lambda>n. Inr (AList.update key n found)))
        else Inr found)"

definition read_meminfo :: "string \<Rightarrow> (py_error, (string \<times> int) list) result" where
  "read_meminfo text =
     rbind (foldr_res meminfo_line (splitlines text) []) (\<lambda>found.
     rbind (ensure (list_all (\<lambda>k. map_of found k \<noteq> None) MEMINFO_KEYS) (ValueErr ''kernel lacks hugetlb support''))
       (\<lambda>_. Inr found))"

section \<open>What a merge keeps\<close>

definition node_attr :: "(pyval \<times> pyval) list \<Rightarrow> pyval \<Rightarrow> pyval \<Rightarrow> pyval option" where
  "node_attr nodes n k = map_of (items (or_empty (case map_of nodes n of None \<Rightarrow> PNone | Some w \<Rightarrow> w))) k"

definition node_table :: "pyval \<Rightarrow> (pyval \<times> pyval) list" where
  "node_table topo = items (or_empty (get_or_none topo ''nodes''))"

text \<open>The same nodes in the same order, each with the same attributes outside the node levers.\<close>

definition nodes_kept :: "(pyval \<times> pyval) list \<Rightarrow> (pyval \<times> pyval) list \<Rightarrow> bool" where
  "nodes_kept ns ms \<longleftrightarrow> map fst ms = map fst ns
     \<and> (\<forall>n k. k \<notin> PStr ` set NODE_LEVERS \<longrightarrow> node_attr ms n k = node_attr ns n k)"

definition topo_kept :: "pyval \<Rightarrow> pyval \<Rightarrow> bool" where
  "topo_kept t u \<longleftrightarrow> (\<forall>k. k \<notin> set TOP_LEVEL_LEVERS \<and> k \<noteq> ''nodes'' \<longrightarrow> lookup u k = lookup t k)
     \<and> nodes_kept (node_table t) (node_table u)"

lemma nodes_kept_refl [simp]: "nodes_kept ns ns"
  by (simp add: nodes_kept_def)

lemma nodes_kept_trans: "nodes_kept a b \<Longrightarrow> nodes_kept b c \<Longrightarrow> nodes_kept a c"
  by (simp add: nodes_kept_def)

lemma apply_node_key_kept:
  assumes "apply_node_key name kv ms = Inr ms'" and "name \<in> fst ` set ms"
  shows "nodes_kept ms ms' \<and> name \<in> fst ` set ms'"
proof -
  obtain key v where kv: "kv = (key, v)" by (cases kv)
  from assms(1) kv obtain fields where key: "key \<in> PStr ` set NODE_LEVERS"
    and fields: "dict_items (or_empty (case map_of ms name of None \<Rightarrow> PNone | Some w \<Rightarrow> w)) = Inr fields"
    and ms': "ms' = AList.update name (PDict (AList.update key v fields)) ms"
    by (auto simp: apply_node_key_def result_simps Let_def)
  have "map fst ms' = map fst ms" using assms(2) unfolding ms' keys_alist_update by auto
  moreover have "node_attr ms' n k = node_attr ms n k" if "k \<notin> PStr ` set NODE_LEVERS" for n k
    using that key fields
    by (auto simp: node_attr_def ms' update_conv' dict_items_def split: if_splits)
  ultimately show ?thesis using assms(2) by (auto simp: nodes_kept_def simp flip: set_map)
qed

lemma apply_node_kept:
  assumes "apply_node no ms = Inr ms'"
  shows "nodes_kept ms ms'"
proof -
  obtain name over where no: "no = (name, over)" by (cases no)
  with assms have name: "name \<in> fst ` set ms" and
    run: "foldr_res (apply_node_key name) (items over) ms = Inr ms'"
    by (auto simp: apply_node_def result_simps)
  have "nodes_kept ms ms' \<and> name \<in> fst ` set ms'"
    by (rule foldr_res_invariant[OF run])
       (use name in \<open>auto dest: apply_node_key_kept intro: nodes_kept_trans\<close>)
  then show ?thesis ..
qed

lemma apply_nodes_kept:
  assumes "apply_nodes ns overrides = Inr ms"
  shows "nodes_kept ns ms"
proof -
  from assms have run: "foldr_res apply_node (items overrides) ns = Inr ms"
    by (auto simp: apply_nodes_def result_simps)
  show ?thesis
    by (rule foldr_res_invariant[OF run]) (auto dest: apply_node_kept intro: nodes_kept_trans)
qed

lemma topo_kept_refl [simp]: "topo_kept t t"
  by (simp add: topo_kept_def)

lemma topo_kept_trans: "topo_kept a b \<Longrightarrow> topo_kept b c \<Longrightarrow> topo_kept a c"
  by (auto simp: topo_kept_def intro: nodes_kept_trans)

lemma node_table_put: "node_table (put k v t) = (if k = ''nodes'' then items (or_empty v) else node_table t)"
  by (simp add: node_table_def get_or_none_def lookup_put)

lemma apply_key_kept:
  assumes "apply_key kv t = Inr u"
  shows "topo_kept t u"
proof -
  obtain key v where kv: "kv = (key, v)" by (cases kv)
  show ?thesis
  proof (cases "key = PStr ''nodes''")
    case True
    with assms kv obtain ns ms where ns: "dict_items (or_empty (get_or_none t ''nodes'')) = Inr ns"
      and ms: "apply_nodes ns v = Inr ms"
      and u: "u = (if truthy (get_or_none t ''nodes'') then put ''nodes'' (PDict ms) t else t)"
      by (auto simp: apply_key_def result_simps)
    have "node_table t = ns" using ns by (simp add: node_table_def dict_items_def split: if_splits)
    with apply_nodes_kept[OF ms] u show ?thesis
      by (auto simp: topo_kept_def lookup_put node_table_put)
  next
    case False
    with assms kv obtain l where l: "find (\<lambda>l. key = PStr l) TOP_LEVEL_LEVERS = Some l" and u: "u = put l v t"
      by (auto simp: apply_key_def result_simps split: option.splits)
    from l have "l \<in> set TOP_LEVEL_LEVERS" by (auto simp: find_Some_iff)
    moreover from this have "l \<noteq> ''nodes''" by (auto simp: TOP_LEVEL_LEVERS_def MEMORY_BACKING_def)
    ultimately show ?thesis by (auto simp: u topo_kept_def lookup_put node_table_put)
  qed
qed

lemma apply_profile_kept:
  assumes "apply_profile t profile = Inr u"
  shows "topo_kept t u"
proof -
  from assms have run: "foldr_res apply_key (items profile) t = Inr u"
    by (auto simp: apply_profile_def result_simps)
  show ?thesis
    by (rule foldr_res_invariant[OF run]) (auto dest: apply_key_kept intro: topo_kept_trans)
qed

lemma pages_for_bounds: "m \<le> PAGE_MIB * pages_for m \<and> PAGE_MIB * pages_for m < m + PAGE_MIB"
  by (simp add: pages_for_def PAGE_MIB_def) presburger

section \<open>Properties\<close>

text \<open>C12: an environment profile changes only its levers: the effective topology has the same nodes in
  the same order, every node keeps every attribute but its vCPU count, every top-level entry but the
  boot batch size and the memory backing is the declared one, and the profiles themselves are gone.
  Without an environment the topology is the declared one less the profiles.\<close>

theorem effective_only_levers:
  assumes "effective topo env = Inr out"
  shows "map fst (node_table out) = map fst (node_table topo)
    \<and> (\<forall>n k. k \<noteq> PStr ''cpus'' \<longrightarrow> node_attr (node_table out) n k = node_attr (node_table topo) n k)
    \<and> (\<forall>k. k \<notin> {''boot_batch'', ''memory_backing'', ''nodes'', ''env_profiles''} \<longrightarrow> lookup out k = lookup topo k)
    \<and> lookup out ''env_profiles'' = None
    \<and> (env = [] \<longrightarrow> out = remove ''env_profiles'' topo) \<and> (env \<noteq> [] \<longrightarrow> env \<in> {''macos'', ''cloud''})"
proof -
  let ?base = "remove PROFILES_KEY topo"
  have kept: "topo_kept ?base out" and env: "env = [] \<longrightarrow> out = ?base" "env \<noteq> [] \<longrightarrow> env \<in> set KNOWN_ENVS"
    using assms by (auto simp: effective_def check_known_def result_simps Let_def List.member_iff
        split: if_splits option.splits dest: apply_profile_kept)
  have base: "node_table ?base = node_table topo" "lookup ?base k = (if k = PROFILES_KEY then None else lookup topo k)" for k
    by (simp_all add: node_table_def get_or_none_def lookup_remove PROFILES_KEY_def)
  from kept have top: "lookup out k = (if k = ''env_profiles'' then None else lookup topo k)"
    if "k \<notin> {''boot_batch'', ''memory_backing'', ''nodes''}" for k
    using that by (simp add: topo_kept_def TOP_LEVEL_LEVERS_def MEMORY_BACKING_def PROFILES_KEY_def lookup_remove)
  from kept have nodes: "map fst (node_table out) = map fst (node_table topo)"
    "\<forall>n k. k \<noteq> PStr ''cpus'' \<longrightarrow> node_attr (node_table out) n k = node_attr (node_table topo) n k"
    unfolding topo_kept_def nodes_kept_def base NODE_LEVERS_def by simp_all
  have rest: "\<forall>k. k \<notin> {''boot_batch'', ''memory_backing'', ''nodes'', ''env_profiles''} \<longrightarrow> lookup out k = lookup topo k"
    "lookup out ''env_profiles'' = None"
    using top by simp_all
  have "env = [] \<longrightarrow> out = remove ''env_profiles'' topo" "env \<noteq> [] \<longrightarrow> env \<in> {''macos'', ''cloud''}"
    using env unfolding PROFILES_KEY_def KNOWN_ENVS_def by simp_all
  with nodes rest show ?thesis by blast
qed

definition sample_lab :: pyval where
  "sample_lab = PDict
     [(PStr ''boot_batch'', PInt 4),
      (PStr ''nodes'', PDict [(PStr ''obs'', PDict [(PStr ''cpus'', PInt 12), (PStr ''memory'', PInt 10241)]), (PStr ''a'', PNone)]),
      (PStr ''env_profiles'', PDict [(PStr ''macos'', PDict
         [(PStr ''memory_backing'', PStr ''hugepages''), (PStr ''nodes'', PDict [(PStr ''obs'', PDict [(PStr ''cpus'', PInt 6)])])])])]"

theorem effective_only_levers_witness:
  "\<exists>out. effective sample_lab ''macos'' = Inr out
     \<and> node_attr (node_table out) (PStr ''obs'') (PStr ''memory'') = Some (PInt 10241)
     \<and> node_attr (node_table out) (PStr ''obs'') (PStr ''cpus'') = Some (PInt 6)
     \<and> memory_backing out = Inr (Some ''hugepages'')"
proof -
  have ev: "(case effective sample_lab ''macos'' of Inl e \<Rightarrow> False
      | Inr out \<Rightarrow> node_attr (node_table out) (PStr ''obs'') (PStr ''cpus'') = Some (PInt 6)
          \<and> memory_backing out = Inr (Some ''hugepages''))" by code_simp
  then obtain out where out: "effective sample_lab ''macos'' = Inr out" by (auto split: sum.splits)
  have "node_attr (node_table sample_lab) (PStr ''obs'') (PStr ''memory'') = Some (PInt 10241)" by code_simp
  with effective_only_levers[OF out] out ev show ?thesis by auto
qed

text \<open>The huge-page reservation always covers the guests about to boot: 2 MiB times the pages is at
  least their summed memory plus the 256 MiB margin, and less than one page per guest more; with
  nothing to boot nothing is reserved, and a guest that is not a node is refused.\<close>

theorem needed_pages_cover:
  assumes "needed_pages topo guests = Inr n"
  shows "(guests = [] \<longrightarrow> n = 0)
    \<and> (guests \<noteq> [] \<longrightarrow> (\<exists>ms. traverse (guest_memory_mib topo) guests = Inr ms
         \<and> sum_list ms + 256 \<le> 2 * n \<and> 2 * n < sum_list ms + 256 + 2 * int (length guests)))"
proof (cases "guests = []")
  case True
  with assms show ?thesis by (simp add: needed_pages_def)
next
  case False
  with assms obtain ms where ms: "traverse (guest_memory_mib topo) guests = Inr ms"
    and n: "n = sum_list (map pages_for ms) + MARGIN_PAGES"
    by (auto simp: needed_pages_def result_simps)
  have len: "length ms = length guests" using ms by (simp add: traverse_Inr_iff list_all2_lengthD)
  have "sum_list ms \<le> 2 * sum_list (map pages_for ms)
      \<and> (ms \<noteq> [] \<longrightarrow> 2 * sum_list (map pages_for ms) < sum_list ms + 2 * int (length ms))" for ms
  proof (induction ms)
    case (Cons m ms)
    with pages_for_bounds[of m] show ?case by (cases "ms = []") (auto simp: PAGE_MIB_def)
  qed simp
  from this[of ms] len False show ?thesis by (auto simp: ms n MARGIN_PAGES_def)
qed

theorem needed_pages_cover_witness:
  "needed_pages sample_lab [''obs'', ''a''] = Inr 5761 \<and> 10241 + 1024 + 256 \<le> 2 * (5761 :: int)"
proof -
  have n: "needed_pages sample_lab [''obs'', ''a''] = Inr 5761" by code_simp
  have ms: "traverse (guest_memory_mib sample_lab) [''obs'', ''a''] = Inr [10241, 1024]" by code_simp
  from needed_pages_cover[OF n] n ms show ?thesis by auto
qed

end
