(* ===== verification/Stacks.thy ===== *)
theory Stacks
  imports Topology
begin

text \<open>
  The stack registry of \<open>mqlab/stacks.py\<close>: stacks as declared in the topology, the queue-manager names
  derived from their short token, and the hosts a stack brings up. The effective topology is an
  argument. Fields that the code copies unchecked from the document stay document values.
\<close>

section \<open>Definitions\<close>

definition MECH_LABEL :: "(string \<times> string) list" where
  "MECH_LABEL = [(''pacemaker-san'', ''PCMK''), (''pacemaker-drbd'', ''PCMK-DRBD''), (''rdqm'', ''RDQM''),
     (''native-ha'', ''Native HA'')]"

definition OS_LABEL :: "(string \<times> string) list" where
  "OS_LABEL = [(''ubuntu'', ''Ubuntu''), (''rhel'', ''RHEL'')]"

definition dashboard_folder_for :: "string \<Rightarrow> string \<Rightarrow> (py_error, string) result" where
  "dashboard_folder_for mechanism os_family =
     (case map_of MECH_LABEL mechanism of
        None \<Rightarrow> Inl (ValueErr ''mechanism'')
      | Some mech \<Rightarrow>
          (case map_of OS_LABEL os_family of
             None \<Rightarrow> Inl (ValueErr ''os_family'')
           | Some os \<Rightarrow> Inr (mech @ '' ('' @ os @ '')'')))"

record QmConfig =
  qm_name :: string
  qm_short :: string
  qm_vip :: pyval
  qm_vip_ext :: pyval
  qm_svc_conn :: string
  qm_svc :: string

definition chl_to_svc :: "QmConfig \<Rightarrow> string" where
  "chl_to_svc q = qm_name q @ ''.'' @ qm_svc q"

definition chl_to_app :: "QmConfig \<Rightarrow> string" where
  "chl_to_app q = qm_svc q @ ''.'' @ qm_name q"

definition req_queue :: "QmConfig \<Rightarrow> string" where
  "req_queue q = (if qm_short q \<noteq> [] then qm_short q @ ''.SVC.REQUEST'' else [])"

record Stack =
  stk_name :: pyval
  stk_mechanism :: pyval
  stk_os_family :: pyval
  stk_short :: string
  stk_verbs :: "(pyval \<times> pyval) list"
  stk_cluster_group :: pyval
  stk_groups :: "pyval list"
  stk_dr_groups :: "pyval list"
  stk_qm :: QmConfig
  stk_provision :: pyval
  stk_secrets :: "pyval list"
  stk_alloc :: "(pyval \<times> pyval) list"

text \<open>Whether the refusal text is returned; the text itself is fixed.\<close>

definition rhel_stack_unsupported :: "Stack \<Rightarrow> HostFacts \<Rightarrow> bool" where
  "rhel_stack_unsupported stk facts \<longleftrightarrow> stk_os_family stk = PStr ''rhel'' \<and> hf_arch facts = AARCH64"

text \<open>\<open>list(v)\<close> and iteration over a document value.\<close>

fun py_list :: "pyval \<Rightarrow> (py_error, pyval list) result" where
  "py_list (PList xs) = Inr xs"
| "py_list (PDict d) = Inr (map fst d)"
| "py_list (PStr s) = Inr (map (\<lambda>c. PStr [c]) s)"
| "py_list _ = Inl (TypeErr ''not iterable'')"

definition or_list :: "pyval \<Rightarrow> pyval" where
  "or_list v = (if truthy v then v else PList [])"

definition svc_identity :: "pyval \<Rightarrow> (py_error, string \<times> string) result" where
  "svc_identity topo =
     rbind (dict_get topo ''svc'' PNone) (\<lambda>sv.
     rbind (dict_get (or_empty sv) ''short'' PNone) (\<lambda>short.
     rbind (dict_get (or_empty sv) ''conn'' PNone) (\<lambda>conn.
     rbind (ensure (truthy short \<and> truthy conn) (ValueErr ''svc block'')) (\<lambda>_.
     rbind (to_str short) (\<lambda>s.
     rbind (to_str conn) (\<lambda>c. Inr (s @ ''QM'', c)))))))"

definition qm_from_stack :: "string \<Rightarrow> pyval \<Rightarrow> string \<Rightarrow> string \<Rightarrow> QmConfig" where
  "qm_from_stack short qm_cfg svc_name svc_conn =
     \<lparr>qm_name = short @ ''APP'', qm_short = short, qm_vip = get_default qm_cfg ''vip'' (PStr []),
      qm_vip_ext = get_default qm_cfg ''vip_ext'' (PStr []), qm_svc_conn = svc_conn, qm_svc = svc_name\<rparr>"

text \<open>One entry of the stacks block; \<open>short\<close> is a text in every topology the lab loads, and its
  rendering is what the names are built from.\<close>

definition stack_entry ::
  "string \<Rightarrow> string \<Rightarrow> pyval \<times> pyval \<Rightarrow> (py_error, pyval \<times> Stack) result" where
  "stack_entry svc_name svc_conn nc = (case nc of (name, cfg0) \<Rightarrow>
     let cfg = or_empty cfg0 in
     rbind (item cfg ''short'') (\<lambda>shortv.
     rbind (item cfg ''mechanism'') (\<lambda>mech.
     rbind (item cfg ''os_family'') (\<lambda>fam.
     rbind (dict_items (or_empty (get_or_none cfg ''verbs''))) (\<lambda>verbs.
     rbind (py_list (or_list (get_or_none cfg ''groups''))) (\<lambda>groups.
     rbind (py_list (or_list (get_or_none cfg ''dr_groups''))) (\<lambda>dr.
     rbind (to_str shortv) (\<lambda>short.
     rbind (dict_items (or_empty (get_or_none cfg ''qm''))) (\<lambda>qm.
     rbind (py_list (or_list (get_or_none cfg ''secrets''))) (\<lambda>secrets.
     rbind (dict_items (or_empty (get_or_none cfg ''alloc''))) (\<lambda>alloc.
     Inr (name,
       \<lparr>stk_name = name, stk_mechanism = mech, stk_os_family = fam, stk_short = short, stk_verbs = verbs,
        stk_cluster_group = (let g = get_or_none cfg ''cluster_group'' in if truthy g then g else PNone),
        stk_groups = groups, stk_dr_groups = dr,
        stk_qm = qm_from_stack short (PDict qm) svc_name svc_conn,
        stk_provision = get_or_none cfg ''provision'', stk_secrets = secrets, stk_alloc = alloc\<rparr>))))))))))))"

definition lab_stacks :: "pyval \<Rightarrow> (py_error, (pyval \<times> Stack) list) result" where
  "lab_stacks topo =
     rbind (dict_get topo ''stacks'' PNone) (\<lambda>sv.
     rbind (if truthy sv then svc_identity topo else Inr ([], [])) (\<lambda>(svc_name, svc_conn).
     rbind (dict_items (or_empty sv)) (\<lambda>cfgs.
     rbind (traverse (stack_entry svc_name svc_conn) cfgs) (\<lambda>es.
     Inr (dict_build fst snd es)))))"

text \<open>The hosts of the listed groups, flattened in declared order, each once.\<close>

definition group_table :: "pyval \<Rightarrow> (py_error, (pyval \<times> pyval list) list) result" where
  "group_table topo =
     rbind (dict_get topo ''groups'' PNone) (\<lambda>gv.
     rbind (dict_items (or_empty gv)) (\<lambda>gs.
     traverse (\<lambda>(g, hosts). rbind (py_list hosts) (\<lambda>hs. Inr (g, hs))) gs))"

definition hosts_of_groups :: "(pyval \<times> pyval list) list \<Rightarrow> pyval list \<Rightarrow> pyval list" where
  "hosts_of_groups table gs =
     fold (\<lambda>g acc. add_all_new (case map_of table g of None \<Rightarrow> [] | Some hs \<Rightarrow> hs) acc) gs []"

definition stack_members :: "pyval \<Rightarrow> string \<Rightarrow> (py_error, pyval list option) result" where
  "stack_members topo name =
     rbind (dict_get topo ''stacks'' PNone) (\<lambda>sv.
     rbind (dict_items (or_empty sv)) (\<lambda>stacks.
     case map_of stacks (PStr name) of
       None \<Rightarrow> Inr None
     | Some cfg \<Rightarrow>
         rbind (group_table topo) (\<lambda>table.
         rbind (dict_get (or_empty cfg) ''groups'' (PList [])) (\<lambda>gv.
         rbind (py_list gv) (\<lambda>gs. Inr (Some (hosts_of_groups table gs)))))))"

definition stack_dr_hosts :: "pyval \<Rightarrow> string \<Rightarrow> (py_error, pyval list) result" where
  "stack_dr_hosts topo name =
     rbind (dict_get topo ''stacks'' PNone) (\<lambda>sv.
     rbind (dict_items (or_empty sv)) (\<lambda>stacks.
     rbind (group_table topo) (\<lambda>table.
     rbind (dict_get (or_empty (case map_of stacks (PStr name) of None \<Rightarrow> PNone | Some c \<Rightarrow> c)) ''dr_groups'' (PList []))
       (\<lambda>gv. rbind (py_list gv) (\<lambda>gs. Inr (hosts_of_groups table gs))))))"

definition stack_members_effective :: "pyval \<Rightarrow> string \<Rightarrow> bool \<Rightarrow> (py_error, pyval list option) result" where
  "stack_members_effective topo name no_dr =
     rbind (stack_members topo name) (\<lambda>members.
     case members of
       None \<Rightarrow> Inr None
     | Some ms \<Rightarrow>
         if \<not> no_dr then Inr (Some ms)
         else rbind (stack_dr_hosts topo name) (\<lambda>dr. Inr (Some (filter (\<lambda>m. m \<notin> set dr) ms))))"

text \<open>\<open>guestsel.resolve_guests\<close>: a stack name wins over a pattern on the sorted guest names.\<close>

definition resolve_guests ::
  "pyval \<Rightarrow> (string \<Rightarrow> string \<Rightarrow> bool) \<Rightarrow> string list \<Rightarrow> string \<Rightarrow> (py_error, pyval list) result" where
  "resolve_guests topo re_search guests pat =
     rbind (stack_members topo pat) (\<lambda>members.
     case members of
       Some ms \<Rightarrow> Inr ms
     | None \<Rightarrow> Inr (map PStr (select_guests re_search pat guests)))"

section \<open>Lemmas\<close>

lemma hosts_of_groups_acc:
  "distinct acc \<Longrightarrow>
     set (fold (\<lambda>g acc. add_all_new (case map_of table g of None \<Rightarrow> [] | Some hs \<Rightarrow> hs) acc) gs acc) =
       set acc \<union> (\<Union>g \<in> set gs. case map_of table g of None \<Rightarrow> {} | Some hs \<Rightarrow> set hs)
     \<and> distinct (fold (\<lambda>g acc. add_all_new (case map_of table g of None \<Rightarrow> [] | Some hs \<Rightarrow> hs) acc) gs acc)"
  by (induction gs arbitrary: acc) (auto split: option.splits)

lemma set_hosts_of_groups:
  "set (hosts_of_groups table gs) = (\<Union>g \<in> set gs. case map_of table g of None \<Rightarrow> {} | Some hs \<Rightarrow> set hs)"
  using hosts_of_groups_acc[of "[]" table gs] by (simp add: hosts_of_groups_def)

lemma distinct_hosts_of_groups: "distinct (hosts_of_groups table gs)"
  using hosts_of_groups_acc[of "[]" table gs] by (simp add: hosts_of_groups_def)

lemma stack_entry_names:
  assumes "stack_entry svc conn nc = Inr (name, stk)"
  shows "stk_qm stk = qm_from_stack (stk_short stk) (PDict (items (or_empty (get_or_none (or_empty (snd nc)) ''qm'')))) svc conn
     \<and> stk_name stk = name \<and> name = fst nc"
  using assms
  by (auto simp: stack_entry_def result_simps Let_def dict_items_def split: prod.splits if_splits)

section \<open>Properties\<close>

text \<open>The guests of a bring-up: each host once, exactly the hosts of the stack's groups, and with
  \<open>--no-dr\<close> exactly those of them that no DR group contributes, in the same order; an unknown stack has
  no members.\<close>

theorem stack_members_effective_exact:
  assumes "stack_members topo name = Inr (Some ms)" and "stack_dr_hosts topo name = Inr dr"
  shows "distinct ms
    \<and> stack_members_effective topo name False = Inr (Some ms)
    \<and> (\<exists>es. stack_members_effective topo name True = Inr (Some es)
         \<and> set es = set ms - set dr \<and> subseq es ms \<and> distinct es)
    \<and> (\<exists>table gs. group_table topo = Inr table
         \<and> set ms = (\<Union>g \<in> set gs. case map_of table g of None \<Rightarrow> {} | Some hs \<Rightarrow> set hs)
         \<and> py_list (get_default (or_empty (get_or_none (or_empty (get_or_none topo ''stacks'')) name)) ''groups'' (PList [])) = Inr gs)"
proof -
  from assms(1) obtain cfg table gv gs where
    cfg: "map_of (items (or_empty (get_or_none topo ''stacks''))) (PStr name) = Some cfg"
    and table: "group_table topo = Inr table"
    and gs: "gv = get_default (or_empty cfg) ''groups'' (PList [])" "py_list gv = Inr gs"
    and ms: "ms = hosts_of_groups table gs"
    by (auto simp: stack_members_def result_simps dict_get_def dict_items_def get_default_def get_or_none_def
        split: option.splits if_splits)
  have "distinct ms" by (simp add: ms distinct_hosts_of_groups)
  then show ?thesis
    using assms cfg table gs ms set_hosts_of_groups[of table gs]
    by (auto simp: stack_members_effective_def get_or_none_def lookup_def
        intro!: exI[of _ "filter (\<lambda>m. m \<notin> set dr) ms"])
qed

definition sample_registry :: pyval where
  "sample_registry = PDict
     [(PStr ''svc'', PDict [(PStr ''short'', PStr ''SVC''), (PStr ''conn'', PStr ''svc(1414)'')]),
      (PStr ''groups'', PDict [(PStr ''site_a'', PList [PStr ''a1'', PStr ''a2'']), (PStr ''site_b'', PList [PStr ''b1'', PStr ''a2''])]),
      (PStr ''stacks'', PDict
         [(PStr ''pcmk'', PDict [(PStr ''short'', PStr ''PCMK''), (PStr ''mechanism'', PStr ''pacemaker-san''),
             (PStr ''os_family'', PStr ''ubuntu''), (PStr ''groups'', PList [PStr ''site_a'', PStr ''site_b'']),
             (PStr ''dr_groups'', PList [PStr ''site_b''])]),
          (PStr ''rdqm'', PDict [(PStr ''short'', PStr ''RDQM''), (PStr ''mechanism'', PStr ''rdqm''), (PStr ''os_family'', PStr ''rhel'')])])]"

theorem stack_members_effective_exact_witness:
  "\<exists>ms es. stack_members sample_registry ''pcmk'' = Inr (Some ms) \<and> ms = [PStr ''a1'', PStr ''a2'', PStr ''b1'']
     \<and> stack_members_effective sample_registry ''pcmk'' True = Inr (Some es) \<and> set es = {PStr ''a1''}"
proof -
  have ms: "stack_members sample_registry ''pcmk'' = Inr (Some [PStr ''a1'', PStr ''a2'', PStr ''b1''])" by code_simp
  have dr: "stack_dr_hosts sample_registry ''pcmk'' = Inr [PStr ''b1'', PStr ''a2'']" by code_simp
  from stack_members_effective_exact[OF ms dr] ms show ?thesis by auto
qed

text \<open>Stacks do not share names: two stacks of the registry with different short tokens have
  different app queue managers, request queues and channels in both directions, all on the one shared
  counterparty.\<close>

theorem stack_names_independent:
  assumes "lab_stacks topo = Inr d" and "(a, sa) \<in> set d" and "(b, sb) \<in> set d"
    and "stk_short sa \<noteq> stk_short sb"
  shows "qm_name (stk_qm sa) \<noteq> qm_name (stk_qm sb) \<and> req_queue (stk_qm sa) \<noteq> req_queue (stk_qm sb)
    \<and> chl_to_svc (stk_qm sa) \<noteq> chl_to_svc (stk_qm sb) \<and> chl_to_app (stk_qm sa) \<noteq> chl_to_app (stk_qm sb)
    \<and> qm_svc (stk_qm sa) = qm_svc (stk_qm sb) \<and> qm_svc_conn (stk_qm sa) = qm_svc_conn (stk_qm sb)"
proof -
  from assms(1) obtain svc conn cfgs es where es: "traverse (stack_entry svc conn) cfgs = Inr es"
    and d: "d = dict_build fst snd es"
    by (auto simp: lab_stacks_def result_simps split: prod.splits)
  have entry: "\<exists>qm. stk_qm s = qm_from_stack (stk_short s) qm svc conn" if "(n, s) \<in> set d" for n s
  proof -
    have "distinct (map fst d)" unfolding d by (rule distinct_dict_build)
    with that have "map_of d n = Some s" by (simp add: map_of_eq_Some_iff)
    then obtain x where "x \<in> set es" and "snd x = s" unfolding d by (blast dest: dict_build_lookupD)
    then obtain nc where "stack_entry svc conn nc = Inr (fst x, s)"
      using traverse_memD[OF es] \<open>snd x = s\<close> by (metis prod.collapse)
    from stack_entry_names[OF this] show ?thesis by blast
  qed
  from entry[OF assms(2)] entry[OF assms(3)] assms(4) show ?thesis
    by (auto simp: qm_from_stack_def req_queue_def chl_to_svc_def chl_to_app_def)
qed

theorem stack_names_independent_witness:
  "\<exists>d sa sb. lab_stacks sample_registry = Inr d \<and> map fst d = [PStr ''pcmk'', PStr ''rdqm'']
     \<and> map_of d (PStr ''pcmk'') = Some sa \<and> map_of d (PStr ''rdqm'') = Some sb
     \<and> req_queue (stk_qm sa) \<noteq> req_queue (stk_qm sb) \<and> qm_svc (stk_qm sa) = qm_svc (stk_qm sb)"
proof -
  have ev: "(case lab_stacks sample_registry of Inl e \<Rightarrow> False
     | Inr d \<Rightarrow> map fst d = [PStr ''pcmk'', PStr ''rdqm'']
         \<and> map_option stk_short (map_of d (PStr ''pcmk'')) = Some ''PCMK''
         \<and> map_option stk_short (map_of d (PStr ''rdqm'')) = Some ''RDQM'')" by code_simp
  then obtain d where d: "lab_stacks sample_registry = Inr d" by (auto split: sum.splits)
  with ev obtain sa sb where s: "map_of d (PStr ''pcmk'') = Some sa" "stk_short sa = ''PCMK''"
    "map_of d (PStr ''rdqm'') = Some sb" "stk_short sb = ''RDQM''" by auto
  have "stk_short sa \<noteq> stk_short sb" using s by simp
  from stack_names_independent[OF d map_of_SomeD[OF s(1)] map_of_SomeD[OF s(3)] this] d s ev
  show ?thesis by auto
qed

end
