(* ===== verification/Versions.thy ===== *)
theory Versions
  imports Stacks
begin

text \<open>
  The version layer of \<open>mqlab/versions.py\<close>: the catalog of operating systems, box roles and stacks with
  its eager validation, the resolution of a stack's operating system on a host, and the box every
  topology node boots. A \<open>VersionError\<close> is a \<open>ValueErr\<close> naming what is wrong. The parsed YAML document,
  the set of component projects on disk and the instance records of running stacks are arguments.
\<close>

section \<open>Vocabulary\<close>

definition FAMILIES :: "(string \<times> string) list" where
  "FAMILIES = [(''ubuntu'', ''Ubuntu''), (''rhel'', ''RHEL'')]"

definition INFRA_ROLES :: "string list" where
  "INFRA_ROLES = [''infra'', ''obs'', ''san'']"

definition INFRA_MQ_ROLES :: "string list" where
  "INFRA_MQ_ROLES = [''mq-client'']"

definition SHARED_ROLES :: "string list" where
  "SHARED_ROLES = INFRA_ROLES @ INFRA_MQ_ROLES"

definition X86_64_V3 :: string where
  "X86_64_V3 = ''x86-64-v3''"

definition KNOWN_REQUIREMENTS :: "string list" where
  "KNOWN_REQUIREMENTS = [X86_64_V3]"

definition HOST_ARCHES :: "string list" where
  "HOST_ARCHES = [''aarch64'', ''x86_64'']"

definition is_digit :: "char \<Rightarrow> bool" where
  "is_digit c \<longleftrightarrow> digit_val c \<noteq> None"

definition is_lower :: "char \<Rightarrow> bool" where
  "is_lower c = (let k = (of_char c :: nat) in 97 \<le> k \<and> k \<le> 122)"

definition is_upper :: "char \<Rightarrow> bool" where
  "is_upper c = (let k = (of_char c :: nat) in 65 \<le> k \<and> k \<le> 90)"

text \<open>\<open>fullmatch\<close> of a character class repeated at least once.\<close>

definition all_in :: "(char \<Rightarrow> bool) \<Rightarrow> string \<Rightarrow> bool" where
  "all_in p s \<longleftrightarrow> s \<noteq> [] \<and> list_all p s"

record OsRef =
  os_family :: string
  os_major :: int

text \<open>\<open>OsRef.parse\<close>: the pattern \<open>([a-z]+):([0-9]+)\<close>, then a known family.\<close>

definition parse_ref :: "string \<Rightarrow> (py_error, OsRef) result" where
  "parse_ref text =
     (case split_once CHR '':'' text of
        (f, Some m) \<Rightarrow>
          if all_in is_lower f \<and> all_in is_digit m \<and> map_of FAMILIES f \<noteq> None
          then rbind (to_int (PStr m)) (\<lambda>i. Inr \<lparr>os_family = f, os_major = i\<rparr>)
          else Inl (ValueErr ''bad OS reference'')
      | _ \<Rightarrow> Inl (ValueErr ''bad OS reference''))"

definition os_token :: "OsRef \<Rightarrow> string" where
  "os_token r = os_family r @ int_str (os_major r)"

definition os_str :: "OsRef \<Rightarrow> string" where
  "os_str r = os_family r @ '':'' @ int_str (os_major r)"

record LabDefaultDecision =
  d_decided :: string
  d_ref :: string

record OsEntry =
  oe_ref :: OsRef
  oe_base_box :: string
  oe_base_box_version :: "string option"
  oe_point :: "string option"
  oe_iso :: "string option"
  oe_arch_pin :: "string option"
  oe_requires :: "string list"
  oe_ibm_unsupported_source :: "string option"
  oe_lab_default_decision :: "LabDefaultDecision option"

record BoxEntry =
  b_name :: string
  b_role :: string
  b_os :: OsEntry
  b_bake_stem :: string
  b_mq_bearing :: bool
  b_components :: "string list"

record BuildFile =
  bf_os :: "OsRef option"

record RuntimePin =
  rt_version :: string
  rt_pbs_release :: string
  rt_sha256 :: "(string \<times> string) list"

definition rt_minor :: "RuntimePin \<Rightarrow> (py_error, string) result" where
  "rt_minor r = (case split_on (\<lambda>c. c = CHR ''.'') (rt_version r) of
     [major, minor, patch] \<Rightarrow> Inr (major @ ''.'' @ minor)
   | _ \<Rightarrow> Inl (ValueErr ''unpack''))"

definition rt_token :: "RuntimePin \<Rightarrow> string" where
  "rt_token r = rt_version r @ ''+'' @ rt_pbs_release r"

definition rt_tarball :: "RuntimePin \<Rightarrow> string \<Rightarrow> (py_error, string) result" where
  "rt_tarball r arch =
     (if map_of (rt_sha256 r) arch = None then Inl (ValueErr ''no build for arch'')
      else Inr (''cpython-'' @ rt_token r @ ''-'' @ arch @ ''-unknown-linux-gnu-install_only.tar.gz''))"

definition rt_url :: "RuntimePin \<Rightarrow> string \<Rightarrow> (py_error, string) result" where
  "rt_url r arch = rbind (rt_tarball r arch) (\<lambda>t.
     Inr (''https://github.com/astral-sh/python-build-standalone/releases/download/''
          @ rt_pbs_release r @ ''/'' @ t))"

record RoleSpec =
  r_bake :: "(string \<times> string) list"
  r_mq_bearing :: bool
  r_components :: "string list"

record StackSpec =
  s_supported :: "OsRef list"
  s_default :: OsRef

record Catalog =
  c_oses :: "(OsRef \<times> OsEntry) list"
  c_roles :: "(string \<times> RoleSpec) list"
  c_infra :: OsRef
  c_infra_mq :: OsRef
  c_stacks :: "(string \<times> StackSpec) list"
  c_runtime :: RuntimePin

section \<open>Catalog queries\<close>

definition cat_entry :: "Catalog \<Rightarrow> OsRef \<Rightarrow> (py_error, OsEntry) result" where
  "cat_entry cat ref = (case map_of (c_oses cat) ref of
     None \<Rightarrow> Inl (ValueErr ''OS is not in the catalog'') | Some e \<Rightarrow> Inr e)"

definition cat_box :: "Catalog \<Rightarrow> string \<Rightarrow> OsRef \<Rightarrow> (py_error, BoxEntry) result" where
  "cat_box cat role ref =
     (case map_of (c_roles cat) role of
        None \<Rightarrow> Inl (ValueErr ''unknown box role'')
      | Some spec \<Rightarrow>
          rbind (cat_entry cat ref) (\<lambda>entry.
          case map_of (r_bake spec) (os_family ref) of
            None \<Rightarrow> Inl (ValueErr ''role has no bake'')
          | Some stem \<Rightarrow> Inr
              \<lparr>b_name = role @ ''-'' @ os_token ref, b_role = role, b_os = entry, b_bake_stem = stem,
               b_mq_bearing = r_mq_bearing spec, b_components = r_components spec\<rparr>))"

definition cat_stack :: "Catalog \<Rightarrow> string \<Rightarrow> (py_error, StackSpec) result" where
  "cat_stack cat stk = (case map_of (c_stacks cat) stk of
     None \<Rightarrow> Inl (ValueErr ''unknown stack'') | Some s \<Rightarrow> Inr s)"

definition shared_os :: "Catalog \<Rightarrow> string \<Rightarrow> (py_error, OsRef) result" where
  "shared_os cat role =
     (if List.member INFRA_MQ_ROLES role then Inr (c_infra_mq cat)
      else if List.member INFRA_ROLES role then Inr (c_infra cat)
      else Inl (ValueErr ''not a shared role''))"

definition default_os :: "Catalog \<Rightarrow> string \<Rightarrow> (py_error, OsRef) result" where
  "default_os cat stk = rbind (cat_stack cat stk) (\<lambda>s. Inr (s_default s))"

definition arch_ok :: "OsEntry \<Rightarrow> HostFacts \<Rightarrow> bool" where
  "arch_ok entry facts = (case oe_arch_pin entry of None \<Rightarrow> True | Some a \<Rightarrow> a = hf_arch facts)"

definition host_can_run :: "OsEntry \<Rightarrow> HostFacts \<Rightarrow> bool" where
  "host_can_run entry facts \<longleftrightarrow>
     arch_ok entry facts \<and> (\<not> List.member (oe_requires entry) X86_64_V3 \<or> hf_x86_64_v3 facts)"

text \<open>The system asked for: the build file's, or the stack's default.\<close>

definition requested_os :: "StackSpec \<Rightarrow> BuildFile option \<Rightarrow> OsRef" where
  "requested_os spec build =
     (case build of None \<Rightarrow> s_default spec
      | Some b \<Rightarrow> (case bf_os b of None \<Rightarrow> s_default spec | Some r \<Rightarrow> r))"

definition stack_os :: "Catalog \<Rightarrow> string \<Rightarrow> BuildFile option \<Rightarrow> HostFacts \<Rightarrow> (py_error, OsRef) result" where
  "stack_os cat stk build facts =
     rbind (cat_stack cat stk) (\<lambda>spec.
     let ref = requested_os spec build in
     rbind (ensure (os_family ref = os_family (s_default spec)) (ValueErr ''family'')) (\<lambda>_.
     rbind (ensure (ref \<in> set (s_supported spec)) (ValueErr ''supports'')) (\<lambda>_.
     rbind (cat_entry cat ref) (\<lambda>entry.
     rbind (ensure (arch_ok entry facts) (ValueErr ''needs another host'')) (\<lambda>_.
     rbind (ensure (\<not> (List.member (oe_requires entry) X86_64_V3 \<and> \<not> hf_x86_64_v3 facts)) (ValueErr ''x86-64-v3''))
       (\<lambda>_. Inr ref))))))"

text \<open>The support warnings, as the facts they state: the reference, the source and the decision.\<close>

definition support_warning ::
  "Catalog \<Rightarrow> OsRef \<Rightarrow> (py_error, (OsRef \<times> string \<times> LabDefaultDecision option) option) result" where
  "support_warning cat ref =
     rbind (cat_entry cat ref) (\<lambda>entry.
     Inr (case oe_ibm_unsupported_source entry of
            None \<Rightarrow> None | Some src \<Rightarrow> Some (ref, src, oe_lab_default_decision entry)))"

definition infra_mq_warning ::
  "Catalog \<Rightarrow> (py_error, (OsRef \<times> string \<times> LabDefaultDecision option) option) result" where
  "infra_mq_warning cat = support_warning cat (c_infra_mq cat)"

definition add_box :: "BoxEntry \<Rightarrow> (string \<times> BoxEntry) list \<Rightarrow> (string \<times> BoxEntry) list" where
  "add_box b out = (if map_of out (b_name b) = None then out @ [(b_name b, b)] else out)"

definition shared_box :: "Catalog \<Rightarrow> string \<Rightarrow> (py_error, BoxEntry) result" where
  "shared_box cat role = rbind (shared_os cat role) (cat_box cat role)"

text \<open>\<open>all_boxes\<close>; \<open>stack_roles\<close> gives each stack its roles in sorted order. An operating system a stack
  supports is in the catalog, or the lookup raises a \<open>KeyError\<close>.\<close>

definition all_boxes ::
  "Catalog \<Rightarrow> HostFacts option \<Rightarrow> (string \<times> string list) list \<Rightarrow> (py_error, BoxEntry list) result" where
  "all_boxes cat facts roles_of =
     rbind (foldr_res (\<lambda>role out. rbind (shared_box cat role) (\<lambda>b. Inr (add_box b out))) SHARED_ROLES []) (\<lambda>out0.
     rbind (foldr_res (\<lambda>(stk, roles) out1.
         rbind (cat_stack cat stk) (\<lambda>spec.
         foldr_res (\<lambda>ref out2.
             rbind (case facts of None \<Rightarrow> Inr True
                    | Some f \<Rightarrow> (case map_of (c_oses cat) ref of None \<Rightarrow> Inl (KeyErr ''os'') | Some e \<Rightarrow> Inr (host_can_run e f)))
               (\<lambda>go. if \<not> go then Inr out2
                     else foldr_res (\<lambda>role out3. rbind (cat_box cat role ref) (\<lambda>b. Inr (add_box b out3))) roles out2))
           (s_supported spec) out1)) roles_of out0) (\<lambda>out.
     Inr (map snd out)))"

section \<open>Nodes and boxes\<close>

definition node_role :: "pyval \<Rightarrow> (py_error, string) result" where
  "node_role spec = (case (if is_dict spec then get_or_none spec ''box'' else PNone) of
     PStr r \<Rightarrow> (if r \<noteq> [] then Inr r else Inl (ValueErr ''declares no box role''))
   | _ \<Rightarrow> Inl (ValueErr ''declares no box role''))"

definition add_owner ::
  "pyval \<Rightarrow> pyval \<Rightarrow> (pyval \<times> pyval list) list \<Rightarrow> (pyval \<times> pyval list) list" where
  "add_owner stk host out =
     AList.update host (add_new stk (case map_of out host of None \<Rightarrow> [] | Some os \<Rightarrow> os)) out"

definition node_stacks :: "pyval \<Rightarrow> (py_error, (pyval \<times> pyval list) list) result" where
  "node_stacks topo =
     rbind (dict_get topo ''groups'' PNone) (\<lambda>gv.
     rbind (dict_get topo ''nodes'' PNone) (\<lambda>nv.
     rbind (dict_items (or_empty nv)) (\<lambda>nodes.
     rbind (dict_get topo ''stacks'' PNone) (\<lambda>sv.
     rbind (dict_items (or_empty sv)) (\<lambda>stacks.
     foldr_res (\<lambda>(stk, cfg) out.
         rbind (dict_get (or_empty cfg) ''groups'' PNone) (\<lambda>gs.
         rbind (py_list (or_list gs)) (\<lambda>groups.
         foldr_res (\<lambda>g out1.
             rbind (dict_items (or_empty gv)) (\<lambda>table.
             rbind (py_list (or_list (case map_of table g of None \<Rightarrow> PNone | Some v \<Rightarrow> v))) (\<lambda>hosts.
             Inr (fold (add_owner stk) hosts out1))))
           groups out)))
       stacks (dict_build fst (\<lambda>_. []) nodes))))))"

definition known_role :: "Catalog \<Rightarrow> string \<Rightarrow> (py_error, string) result" where
  "known_role cat role =
     (if map_of (c_roles cat) role = None then Inl (ValueErr ''box role is not in versions'') else Inr role)"

definition stack_ref :: "(string \<Rightarrow> OsRef option) \<Rightarrow> Catalog \<Rightarrow> string \<Rightarrow> (py_error, OsRef) result" where
  "stack_ref record_of cat stk = (case record_of stk of Some r \<Rightarrow> Inr r | None \<Rightarrow> default_os cat stk)"

text \<open>The operating system of one stack of the topology, checked against the declared family.\<close>

definition checked_ref ::
  "(string \<Rightarrow> OsRef option) \<Rightarrow> Catalog \<Rightarrow> pyval \<times> pyval \<Rightarrow> (py_error, pyval \<times> OsRef) result" where
  "checked_ref record_of cat nc = (case nc of (name, cfg) \<Rightarrow>
     rbind (to_str name) (\<lambda>stk.
     rbind (stack_ref record_of cat stk) (\<lambda>ref.
     rbind (dict_get (or_empty cfg) ''os_family'' PNone) (\<lambda>declared.
     rbind (ensure (declared = PStr (os_family ref)) (ValueErr ''os_family disagrees'')) (\<lambda>_.
     Inr (name, ref))))))"

definition node_box ::
  "Catalog \<Rightarrow> (pyval \<times> pyval list) list \<Rightarrow> (pyval \<times> OsRef) list \<Rightarrow> pyval \<times> pyval
     \<Rightarrow> (py_error, pyval \<times> BoxEntry) result" where
  "node_box cat owners refs ns = (case ns of (node, spec) \<Rightarrow>
     rbind (rbind (node_role spec) (known_role cat)) (\<lambda>role.
     rbind (if List.member SHARED_ROLES role then shared_box cat role
            else case map_of owners node of
              Some [stk] \<Rightarrow>
                (case map_of refs stk of None \<Rightarrow> Inl (KeyErr ''refs'') | Some ref \<Rightarrow> cat_box cat role ref)
            | _ \<Rightarrow> Inl (ValueErr ''exactly one stack''))
       (\<lambda>b. Inr (node, b))))"

definition node_boxes ::
  "(string \<Rightarrow> OsRef option) \<Rightarrow> pyval \<Rightarrow> Catalog \<Rightarrow> (py_error, (pyval \<times> BoxEntry) list) result" where
  "node_boxes record_of topo cat =
     rbind (node_stacks topo) (\<lambda>owners.
     rbind (dict_items (or_empty (get_or_none topo ''stacks''))) (\<lambda>stacks.
     rbind (traverse (checked_ref record_of cat) stacks) (\<lambda>refs.
     rbind (dict_items (or_empty (get_or_none topo ''nodes''))) (\<lambda>nodes.
     traverse (node_box cat owners refs) nodes))))"

definition stack_roles :: "pyval \<Rightarrow> Catalog \<Rightarrow> (py_error, (pyval \<times> string list) list) result" where
  "stack_roles topo cat =
     rbind (dict_get topo ''nodes'' PNone) (\<lambda>nv.
     rbind (node_stacks topo) (\<lambda>owners.
     rbind (dict_items (or_empty nv)) (\<lambda>nodes.
     foldr_res (\<lambda>(node, spec) out.
         rbind (rbind (node_role spec) (known_role cat)) (\<lambda>role.
         if List.member SHARED_ROLES role then Inr out
         else Inr (fold (\<lambda>stk o'. AList.update stk (add_new role (case map_of o' stk of None \<Rightarrow> [] | Some rs \<Rightarrow> rs)) o')
                (case map_of owners node of None \<Rightarrow> [] | Some ss \<Rightarrow> ss) out)))
       nodes (map (\<lambda>(stk, cfg). (stk, [])) (items (or_empty (get_or_none topo ''stacks'')))))))"

end
