(* ===== verification/HA_State.thy ===== *)
theory HA_State
  imports Cluster_State Versions
begin

text \<open>
  The collectors of the two other queue-manager arrangements: Native HA (\<open>mqro/nativehastate.py\<close>) with its
  log-health companion (\<open>mqro/loglifecycle.py\<close>), and RDQM (\<open>mqro/rdqmstate.py\<close>). Each has its parsers, its
  projection to samples and one collection over probe outcomes, as in the theory on the cluster state.
\<close>

section \<open>Native HA\<close>

text \<open>\<open>findall\<close> of \<open>(\w+)\(([^)]*)\)\<close>: a run of word characters right before a parenthesis, and the text up
  to the next closing one.\<close>

definition field_char :: "char \<Rightarrow> bool" where
  "field_char c \<longleftrightarrow> is_digit c \<or> is_lower c \<or> is_upper c \<or> c = CHR ''_''"

lemma dropWhile_shrinks: "dropWhile P s = y # ys \<Longrightarrow> length ys < length s"
  using length_dropWhile_le[of P s] by (simp add: Suc_le_eq)

lemma rest_shorter:
  assumes "dropWhile (\<lambda>c. \<not> field_char c) s = c # cs" and "dropWhile field_char (c # cs) = p # ps"
  shows "length (p # ps) < length s"
proof -
  have "field_char c" using assms(1) hd_dropWhile[of "\<lambda>c. \<not> field_char c" s] by auto
  then have "length (p # ps) \<le> length cs" using assms(2) length_dropWhile_le[of field_char cs] by simp
  moreover have "length (c # cs) \<le> length s" using length_dropWhile_le[of "\<lambda>c. \<not> field_char c" s] assms(1) by simp
  ultimately show ?thesis by simp
qed

function field_list :: "string \<Rightarrow> (string \<times> string) list" where
  "field_list s =
     (case dropWhile (\<lambda>c. \<not> field_char c) s of
        [] \<Rightarrow> []
      | c # cs \<Rightarrow>
          let k = takeWhile field_char (c # cs); r = dropWhile field_char (c # cs) in
          case r of
            [] \<Rightarrow> []
          | p # ps \<Rightarrow>
              if p \<noteq> CHR ''('' then field_list r
              else (case dropWhile (\<lambda>x. x \<noteq> CHR '')'') ps of
                      [] \<Rightarrow> field_list ps
                    | _ # rest \<Rightarrow> (k, takeWhile (\<lambda>x. x \<noteq> CHR '')'') ps) # field_list rest))"
  by pat_completeness auto

termination
proof (relation "measure length", goal_cases)
  case 1
  then show ?case by simp
next
  case (2 s c cs k r p ps)
  then show ?case using rest_shorter[of s c cs p ps] by (metis in_measure)
next
  case (3 s c cs k r p ps)
  then have "length (p # ps) < length s" using rest_shorter[of s c cs p ps] by metis
  then show ?case by simp
next
  case (4 s c cs k r p ps z rest)
  then have "length (p # ps) < length s" using rest_shorter[of s c cs p ps] by metis
  moreover have "length rest < length ps" by (rule dropWhile_shrinks[OF 4(6)])
  ultimately show ?case by simp
qed

declare field_list.simps [simp del]

definition line_fields :: "string \<Rightarrow> (string \<times> string) list" where
  "line_fields line = dict_build fst snd (field_list line)"

definition int_or_none :: "string option \<Rightarrow> int option" where
  "int_or_none v = (case v of None \<Rightarrow> None | Some t \<Rightarrow> py_int t)"

record HaInstance =
  hi_role :: string
  hi_insync :: bool
  hi_hastatus :: string

record HaView =
  ha_quorum_current :: "int option"
  ha_quorum_total :: "int option"
  ha_group_role :: "string option"
  ha_instances :: "(string \<times> HaInstance) list"

definition field_or :: "(string \<times> string) list \<Rightarrow> string \<Rightarrow> string \<Rightarrow> string" where
  "field_or f k d = (case map_of f k of None \<Rightarrow> d | Some v \<Rightarrow> v)"

definition nativeha_line :: "string \<Rightarrow> HaView \<Rightarrow> HaView" where
  "nativeha_line line v =
     (let f = line_fields line in
      case map_of f ''QUORUM'' of
        Some q \<Rightarrow> v\<lparr>ha_quorum_current := int_or_none (Some (fst (split_once CHR ''/'' q))),
            ha_quorum_total := int_or_none (Some (case snd (split_once CHR ''/'' q) of None \<Rightarrow> [] | Some t \<Rightarrow> t)),
            ha_group_role := map_of f ''GRPROLE''\<rparr>
      | None \<Rightarrow>
          (case (map_of f ''INSTANCE'', map_of f ''ROLE'') of
             (Some i, Some r) \<Rightarrow> v\<lparr>ha_instances := AList.update i
                \<lparr>hi_role = r, hi_insync = (map_of f ''INSYNC'' = Some ''yes''), hi_hastatus = field_or f ''HASTATUS'' ''Unknown''\<rparr>
                (ha_instances v)\<rparr>
           | _ \<Rightarrow> v))"

definition parse_nativeha_x :: "string \<Rightarrow> HaView" where
  "parse_nativeha_x t = fold nativeha_line (splitlines t)
     \<lparr>ha_quorum_current = None, ha_quorum_total = None, ha_group_role = None, ha_instances = []\<rparr>"

record HaGroup =
  hg_role :: string
  hg_status :: string
  hg_connected :: "bool option"
  hg_insync :: "bool option"
  hg_backlog :: "int option"

definition yn :: "(string \<times> string) list \<Rightarrow> string \<Rightarrow> bool option" where
  "yn f k = (case map_of f k of None \<Rightarrow> None | Some v \<Rightarrow> Some (v = ''yes''))"

definition nativeha_group :: "string \<Rightarrow> (string \<times> HaGroup) list \<Rightarrow> (string \<times> HaGroup) list" where
  "nativeha_group line gs =
     (let f = line_fields line in
      case map_of f ''GRPNAME'' of
        None \<Rightarrow> gs
      | Some g \<Rightarrow> if map_of f ''QUORUM'' \<noteq> None then gs
          else AList.update g \<lparr>hg_role = field_or f ''GRPROLE'' ''Unknown'', hg_status = field_or f ''GRSTATUS'' ''Unknown'',
                 hg_connected = yn f ''CONNGRP'', hg_insync = yn f ''INSYNC'', hg_backlog = int_or_none (map_of f ''BACKLOG'')\<rparr> gs)"

definition parse_nativeha_g :: "string \<Rightarrow> (string \<times> HaGroup) list" where
  "parse_nativeha_g t = fold nativeha_group (splitlines t) []"

definition NHA_ROLE_CODE :: "(string \<times> int) list" where
  "NHA_ROLE_CODE = [(''Active'', 2), (''Leader'', 3), (''Replica'', 1)]"

definition code_of :: "(string \<times> int) list \<Rightarrow> string option \<Rightarrow> int" where
  "code_of codes r = (case r of None \<Rightarrow> 0 | Some x \<Rightarrow> (case map_of codes x of None \<Rightarrow> 0 | Some c \<Rightarrow> c))"

definition quorum_samples :: "string \<Rightarrow> HaView \<Rightarrow> Sample list" where
  "quorum_samples node v =
     (case (ha_quorum_current v, ha_quorum_total v) of
        (Some cur, Some seats) \<Rightarrow>
          [sample_flag ''cluster_quorate'' [(''node'', node)] (seats div 2 + 1 \<le> cur),
           sample_int ''cluster_nha_quorum'' [(''node'', node)] cur]
      | _ \<Rightarrow> [])"

definition instance_samples :: "string \<Rightarrow> string \<Rightarrow> string \<times> HaInstance \<Rightarrow> Sample list" where
  "instance_samples node qm ms = (case ms of (member, st) \<Rightarrow>
     let b = [(''node'', node), (''member'', member)] in
     [sample_flag ''cluster_node_online'' b (hi_role st \<noteq> ''Unknown''),
      sample_int ''cluster_nha_role'' (b @ [(''role'', hi_role st)]) 1,
      sample_int ''cluster_nha_role_code'' b (code_of NHA_ROLE_CODE (Some (hi_role st))),
      sample_flag ''cluster_nha_insync'' b (hi_insync st),
      sample_int ''cluster_nha_hastatus'' (b @ [(''status'', hi_hastatus st)]) 1,
      sample_flag ''cluster_nha_hastatus_ok'' b (hi_hastatus st = ''Normal'')]
     @ (if hi_role st = ''Active''
        then [sample_int ''cluster_resource_owner'' [(''node'', node), (''resource'', qm), (''holder'', member)] 1] else []))"

definition group_samples :: "string \<Rightarrow> string \<times> HaGroup \<Rightarrow> Sample list" where
  "group_samples node ng = (case ng of (name, g) \<Rightarrow>
     let b = [(''node'', node), (''group'', name)] in
     [sample_int ''cluster_nha_group_role'' (b @ [(''role'', hg_role g)]) 1,
      sample_int ''cluster_nha_group_status'' (b @ [(''status'', hg_status g)]) 1]
     @ opt_list (\<lambda>c. [sample_flag ''cluster_nha_connected'' b c]) (hg_connected g)
     @ opt_list (\<lambda>c. [sample_flag ''cluster_nha_group_insync'' b c]) (hg_insync g)
     @ opt_list (\<lambda>n. [sample_int ''cluster_nha_group_backlog'' b n]) (hg_backlog g))"

definition render_nativeha_state ::
  "string \<Rightarrow> string \<Rightarrow> HaView option \<Rightarrow> (string \<times> HaGroup) list option \<Rightarrow> int \<Rightarrow> string list \<Rightarrow> Sample list" where
  "render_nativeha_state node qm hax grp now fresh =
     opt_list (\<lambda>v. quorum_samples node v @ concat (map (instance_samples node qm) (ha_instances v))) hax
     @ opt_list (\<lambda>gs. concat (map (group_samples node) gs)) grp
     @ fresh_samples node now fresh"

definition collect_nativeha :: "(string \<Rightarrow> probe_result) \<Rightarrow> string \<Rightarrow> string \<Rightarrow> int \<Rightarrow> Sample list" where
  "collect_nativeha run node qm now =
     (let x = probe False (run ''nativeha_x''); g = probe False (run ''nativeha_g'') in
      render_nativeha_state node qm (map_option parse_nativeha_x x) (map_option parse_nativeha_g g) now
        ((if x \<noteq> None then [''nativeha_x''] else []) @ (if g \<noteq> None then [''nativeha_g''] else [])))"

section \<open>Log health\<close>

text \<open>Used and total bytes of the last line of \<open>df -P\<close>, columns counted from the right; an absent column or
  a value that is no number gives nothing for both.\<close>

definition nth_last :: "nat \<Rightarrow> 'a list \<Rightarrow> 'a option" where
  "nth_last k xs = (if k \<le> length xs \<and> 0 < k then Some (xs ! (length xs - k)) else None)"

definition parse_disk :: "string \<Rightarrow> (int \<times> int) option" where
  "parse_disk t =
     (let lines = filter (\<lambda>l. py_strip l \<noteq> []) (splitlines t) in
      if length lines < 2 then None
      else let f = split_ws (last lines) in
        case (map_option py_int (nth_last 5 f), map_option py_int (nth_last 4 f)) of
          (Some (Some blocks), Some (Some used)) \<Rightarrow> Some (used * 1024, blocks * 1024)
        | _ \<Rightarrow> None)"

text \<open>\<open>^([SR])\d+\.LOG$\<close> on a stripped name.\<close>

definition extent_kind :: "string \<Rightarrow> char option" where
  "extent_kind name =
     (case name of
        k # r \<Rightarrow> if (k = CHR ''S'' \<or> k = CHR ''R'') \<and> takeWhile is_digit r \<noteq> [] \<and> dropWhile is_digit r = ''.LOG''
                 then Some k else None
      | [] \<Rightarrow> None)"

definition count_extents :: "string list \<Rightarrow> int \<times> int" where
  "count_extents listing =
     (let kinds = List.map_filter (\<lambda>n. extent_kind (py_strip n)) listing in
      (int (length (filter (\<lambda>k. k = CHR ''S'') kinds)), int (length (filter (\<lambda>k. k \<noteq> CHR ''S'') kinds))))"

definition instance_role :: "string \<Rightarrow> string \<Rightarrow> string" where
  "instance_role out inst = (case map_of (ha_instances (parse_nativeha_x out)) inst of
     None \<Rightarrow> ''unknown'' | Some i \<Rightarrow> py_lower (hi_role i))"

definition render_log_prom ::
  "string \<Rightarrow> string \<Rightarrow> string \<Rightarrow> (int \<times> int) option \<Rightarrow> (int \<times> int) option \<Rightarrow> bool \<Rightarrow> Sample list" where
  "render_log_prom qm inst role disk extents stale =
     (let labels = [(''qm'', qm), (''instance'', inst), (''role'', role)] in
      opt_list (\<lambda>(used, blocks). [sample_int ''mqlab_log_disk_used_bytes'' labels used,
          sample_int ''mqlab_log_disk_total_bytes'' labels blocks]) disk
      @ opt_list (\<lambda>(active, inactive). [sample_int ''mqlab_log_extents_active'' labels active,
          sample_int ''mqlab_log_extents_inactive'' labels inactive]) extents
      @ [sample_flag ''mqlab_log_sample_stale'' labels stale])"

definition collect_log :: "(string \<Rightarrow> probe_result) \<Rightarrow> string \<Rightarrow> string \<Rightarrow> Sample list" where
  "collect_log run inst qm =
     (let role = (case probe False (run ''role'') of None \<Rightarrow> ''unknown'' | Some out \<Rightarrow> instance_role out inst);
          df = probe False (run ''disk''); ls = probe False (run ''extents'')
      in
      render_log_prom qm inst role (case df of None \<Rightarrow> None | Some t \<Rightarrow> parse_disk t)
        (map_option (\<lambda>t. count_extents (splitlines t)) ls) (df = None \<or> ls = None))"

section \<open>RDQM\<close>

definition INFINITY :: int where
  "INFINITY = 1000000"

definition PM_CODE :: "(string \<times> int) list" where
  "PM_CODE = [(''Started'', 2), (''Promoted'', 2), (''Master'', 2), (''Unpromoted'', 1), (''Slave'', 1)]"

definition RDQM_ROLE_CODE :: "(string \<times> int) list" where
  "RDQM_ROLE_CODE = [(''Primary'', 2), (''Secondary'', 1)]"

definition DR_ROLE_CODE :: "(string \<times> int) list" where
  "DR_ROLE_CODE = [(''Primary'', 2), (''Secondary'', 3)]"

definition rdqm_resource_base :: "string \<Rightarrow> (py_error, string) result" where
  "rdqm_resource_base qm =
     (if qm = [] \<or> CHR ''.'' \<in> set qm \<or> CHR ''/'' \<in> set qm then Inl (ValueErr ''cannot derive RDQM resource names'')
      else Inr (py_lower qm))"

definition rdqm_pm_resources :: "string \<Rightarrow> (py_error, string list) result" where
  "rdqm_pm_resources qm = rbind (rdqm_resource_base qm) (\<lambda>b.
     Inr [b, ''p_drbd_'' @ b, ''p_drbd_dr_'' @ b, ''p_ip_'' @ b])"

record RdqmStatus =
  rs_node :: "string option"
  rs_ha_status :: string
  rs_qm_status :: "string option"
  rs_ha_role :: "string option"
  rs_current :: "string option"
  rs_preferred :: "string option"
  rs_floating_ip :: "string option"
  rs_floating_if :: "string option"
  rs_dr_role :: "string option"
  rs_dr_status :: "string option"
  rs_members :: "(string \<times> string) list"

text \<open>The blocks of the report, newest last; a line with a colon starts a block or is a field of the last one.\<close>

definition rdqm_line :: "string \<Rightarrow> (string \<times> string) list list \<Rightarrow> (string \<times> string) list list" where
  "rdqm_line raw blocks =
     (if py_strip raw = [] then blocks
      else case split_once CHR '':'' raw of
        (_, None) \<Rightarrow> blocks
      | (k, Some v) \<Rightarrow>
          if py_strip k = ''Node'' then blocks @ [[(''node'', py_strip v)]]
          else if blocks = [] then blocks
          else butlast blocks @ [AList.update (py_strip k) (py_strip v) (last blocks)])"

definition parse_rdqmstatus :: "string \<Rightarrow> RdqmStatus" where
  "parse_rdqmstatus t =
     (let blocks = fold rdqm_line (splitlines t) []; local = (case blocks of [] \<Rightarrow> [] | b # _ \<Rightarrow> b) in
      \<lparr>rs_node = map_of local ''node'', rs_ha_status = field_or local ''HA status'' ''Unknown'',
       rs_qm_status = map_of local ''Queue manager status'', rs_ha_role = map_of local ''HA role'',
       rs_current = map_of local ''HA current location'', rs_preferred = map_of local ''HA preferred location'',
       rs_floating_ip = map_of local ''HA floating IP address'', rs_floating_if = map_of local ''HA floating IP interface'',
       rs_dr_role = map_of local ''DR role'', rs_dr_status = map_of local ''DR status'',
       rs_members = dict_build (\<lambda>b. field_or b ''node'' []) (\<lambda>b. field_or b ''HA status'' ''Unknown'') blocks\<rparr>)"

definition parse_failcount :: "string option \<Rightarrow> (py_error, int) result" where
  "parse_failcount fc =
     (case fc of
        None \<Rightarrow> Inr 0
      | Some t \<Rightarrow>
          if t = ''INFINITY'' then Inr INFINITY
          else if all_in is_digit (lstrip_when (\<lambda>c. c = CHR ''-'') t) then to_int (PStr t)
          else Inr 0)"

record RdqmCrm =
  rc_nodes :: "(string \<times> bool) list"
  rc_roles :: "(string \<times> (string \<times> string) list) list"
  rc_failcount :: "(string \<times> int) list"

definition role_add :: "xml \<Rightarrow> (string \<times> (string \<times> string) list) list \<Rightarrow> (string \<times> (string \<times> string) list) list" where
  "role_add res out =
     (case first_of (child_steps ''node'' [res]) of
        None \<Rightarrow> out
      | Some held \<Rightarrow>
          let rid = xget_or res ''id'' [] in
          AList.update rid (AList.update (xget_or held ''name'' []) (xget_or res ''role'' [])
            (case map_of out rid of None \<Rightarrow> [] | Some d \<Rightarrow> d)) out)"

definition failcount_add :: "string \<Rightarrow> xml \<Rightarrow> (string \<times> int) list \<Rightarrow> (py_error, (string \<times> int) list) result" where
  "failcount_add base n out =
     foldr_res (\<lambda>rh o'. if xget rh ''id'' = Some base
         then rbind (parse_failcount (xget rh ''fail-count'')) (\<lambda>k. Inr (AList.update (xget_or n ''name'' []) k o'))
         else Inr o') (child_steps ''resource_history'' [n]) out"

definition parse_rdqm_crm :: "xml \<Rightarrow> string \<Rightarrow> (py_error, RdqmCrm) result" where
  "parse_rdqm_crm doc qm =
     (let roles = (case first_of (child_steps ''resources'' [doc]) of
            None \<Rightarrow> [] | Some parent \<Rightarrow> fold role_add (descendant_steps ''resource'' [parent]) [])
      in
      rbind (rdqm_resource_base qm) (\<lambda>b.
      rbind (foldr_res (failcount_add b) (child_steps ''node'' (descendant_steps ''node_history'' [doc])) []) (\<lambda>fcs.
      Inr \<lparr>rc_nodes = dict_build (\<lambda>n. xget_or n ''name'' []) (\<lambda>n. xget n ''online'' = Some ''true'')
             (child_steps ''node'' (child_steps ''nodes'' [doc])),
           rc_roles = roles, rc_failcount = fcs\<rparr>)))"

definition resolve_location :: "string \<Rightarrow> string \<Rightarrow> string" where
  "resolve_location location node = (if location = ''This node'' then node else location)"

definition rdqm_running :: "RdqmStatus \<Rightarrow> bool" where
  "rdqm_running s \<longleftrightarrow> rs_qm_status s = Some ''Running''"

definition rdqm_status_samples :: "string \<Rightarrow> string \<Rightarrow> RdqmStatus \<Rightarrow> Sample list" where
  "rdqm_status_samples node qm s =
     (let me = [(''node'', node), (''member'', node)]; ok = (rs_ha_status s = ''Normal'') in
      [sample_flag ''cluster_quorate'' [(''node'', node)] ok,
       sample_flag ''cluster_rdqm_ha_status_ok'' [(''node'', node)] ok,
       sample_int ''cluster_rdqm_ha_status'' [(''node'', node), (''status'', rs_ha_status s)] 1]
      @ opt_list (\<lambda>r. [sample_int ''cluster_rdqm_role'' (me @ [(''role'', r)]) 1]) (rs_ha_role s)
      @ [sample_int ''cluster_rdqm_role_code'' me (code_of RDQM_ROLE_CODE (rs_ha_role s)),
         sample_flag ''cluster_rdqm_qm_running'' me (rdqm_running s)]
      @ concat (map (\<lambda>(m, st). [sample_flag ''cluster_node_online'' [(''node'', node), (''member'', m)] (st = ''Normal''),
           sample_int ''cluster_rdqm_member_status'' [(''node'', node), (''member'', m), (''status'', st)] 1]) (rs_members s))
      @ (if rdqm_running s then opt_list (\<lambda>ip. [sample_int ''cluster_rdqm_floating_ip''
           [(''node'', node), (''ip'', ip), (''interface'', case rs_floating_if s of None \<Rightarrow> ''None'' | Some i \<Rightarrow> i)] 1])
           (rs_floating_ip s) else [])
      @ opt_list (\<lambda>loc. [sample_int ''cluster_rdqm_location''
            [(''node'', node), (''kind'', ''current''), (''holder'', resolve_location loc node)] 1]
          @ (if rdqm_running s then [sample_int ''cluster_resource_owner''
            [(''node'', node), (''resource'', qm), (''holder'', resolve_location loc node)] 1] else [])) (rs_current s)
      @ opt_list (\<lambda>loc. [sample_int ''cluster_rdqm_location''
            [(''node'', node), (''kind'', ''preferred''), (''holder'', resolve_location loc node)] 1]) (rs_preferred s)
      @ opt_list (\<lambda>r. [sample_int ''cluster_rdqm_dr_role'' [(''node'', node), (''role'', r)] 1,
            sample_int ''cluster_rdqm_dr_role_code'' [(''node'', node)] (code_of DR_ROLE_CODE (Some r))]) (rs_dr_role s)
      @ opt_list (\<lambda>st. if prefix ''See '' st then [] else
           [sample_int ''cluster_rdqm_dr_status'' [(''node'', node), (''status'', st)] 1,
            sample_flag ''cluster_rdqm_dr_status_ok'' [(''node'', node)] (st = ''Normal'')]) (rs_dr_status s))"

definition rdqm_failcount :: "RdqmCrm \<Rightarrow> string \<Rightarrow> int" where
  "rdqm_failcount c member = (case map_of (rc_failcount c) member of None \<Rightarrow> 0 | Some k \<Rightarrow> k)"

definition rdqm_role_of :: "RdqmCrm \<Rightarrow> string \<Rightarrow> string \<Rightarrow> string option" where
  "rdqm_role_of c res member = (case map_of (rc_roles c) res of None \<Rightarrow> None | Some d \<Rightarrow> map_of d member)"

definition rdqm_node_samples :: "string \<Rightarrow> RdqmCrm \<Rightarrow> string list \<Rightarrow> string \<times> bool \<Rightarrow> Sample list" where
  "rdqm_node_samples node c resources mo = (case mo of (member, online) \<Rightarrow>
     let b = [(''node'', node), (''member'', member)]; fc = rdqm_failcount c member; startable = (fc < INFINITY) in
     [sample_flag ''cluster_rdqm_pm_online'' b online]
     @ map (\<lambda>res. sample_int ''cluster_rdqm_pm_state'' (b @ [(''resource'', res)]) (code_of PM_CODE (rdqm_role_of c res member))) resources
     @ [sample_int ''cluster_rdqm_failcount'' b fc,
        sample_flag ''cluster_rdqm_qm_startable'' b startable,
        sample_flag ''cluster_rdqm_node_ready'' b (online \<and> startable)])"

definition render_rdqm_state ::
  "string \<Rightarrow> string \<Rightarrow> RdqmStatus option \<Rightarrow> (string \<times> DrbdState) list option \<Rightarrow> RdqmCrm option \<Rightarrow> int \<Rightarrow> string list
     \<Rightarrow> (py_error, Sample list) result" where
  "render_rdqm_state node qm status drbd crm now fresh =
     rbind (case crm of None \<Rightarrow> Inr [] | Some c \<Rightarrow>
        if rc_nodes c = [] then Inr []
        else rbind (rdqm_pm_resources qm) (\<lambda>rs. Inr (concat (map (rdqm_node_samples node c rs) (rc_nodes c))))) (\<lambda>cs.
     Inr (opt_list (rdqm_status_samples node qm) status @ opt_list (drbd_samples node) drbd @ cs @ fresh_samples node now fresh))"

definition collect_rdqm ::
  "(string \<Rightarrow> xml option) \<Rightarrow> (string \<Rightarrow> probe_result) \<Rightarrow> string \<Rightarrow> string \<Rightarrow> int \<Rightarrow> (py_error, Sample list) result" where
  "collect_rdqm read_xml run node qm now =
     rbind (rdqm_resource_base qm) (\<lambda>_.
     let status = map_option parse_rdqmstatus (probe False (run ''rdqmstatus''));
         raw_drbd = probe False (run ''drbd''); raw_crm = probe False (run ''crm'') in
     rbind (case raw_drbd of None \<Rightarrow> Inr None | Some t \<Rightarrow> rbind (parse_drbd t) (\<lambda>d. Inr (Some d))) (\<lambda>drbd.
     rbind (case raw_crm of None \<Rightarrow> Inr None
        | Some t \<Rightarrow> (case read_xml t of None \<Rightarrow> Inl (ValueErr ''ParseError'')
            | Some x \<Rightarrow> rbind (parse_rdqm_crm x qm) (\<lambda>c. Inr (Some c)))) (\<lambda>crm.
     render_rdqm_state node qm status drbd crm now
       ((if status \<noteq> None then [''rdqmstatus''] else []) @ (if raw_drbd \<noteq> None then [''drbd''] else [])
        @ (if raw_crm \<noteq> None then [''crm''] else [])))))"

section \<open>Freshness\<close>

definition STAMP :: string where
  "STAMP = ''cluster_state_last_write_timestamp''"

definition stamps :: "Sample list \<Rightarrow> Sample list" where
  "stamps ss = filter (\<lambda>s. sa_name s = STAMP) ss"

named_theorems stamp_simps

lemma stamps_basic [stamp_simps]:
  "stamps [] = []" "stamps (s # ss) = (if sa_name s = STAMP then s # stamps ss else stamps ss)"
  "stamps (xs @ ys) = stamps xs @ stamps ys"
  by (simp_all add: stamps_def)

lemma stamps_Nil: "stamps ss = [] \<longleftrightarrow> (\<forall>s \<in> set ss. sa_name s \<noteq> STAMP)"
  by (simp add: stamps_def filter_empty_conv)

lemma stamps_concat: "(\<And>x. stamps (f x) = []) \<Longrightarrow> stamps (concat (map f xs)) = []"
  by (induction xs) (simp_all add: stamp_simps)

lemma stamps_map: "(\<And>x. sa_name (f x) \<noteq> STAMP) \<Longrightarrow> stamps (map f xs) = []"
  by (induction xs) (simp_all add: stamp_simps)

lemma stamps_opt: "(\<And>x. stamps (f x) = []) \<Longrightarrow> stamps (opt_list f x) = []"
  by (cases x) (simp_all add: opt_list_def stamp_simps)

lemma sample_names [stamp_simps]:
  "sa_name (sample_int n l v) = n" "sa_name (sample_flag n l b) = n"
  by (simp_all add: sample_int_def sample_flag_def)

lemma stamps_fresh [stamp_simps]: "stamps (fresh_samples node now fresh) = fresh_samples node now fresh"
  by (induction fresh) (simp_all add: fresh_samples_def stamp_simps STAMP_def)

lemma stamps_drbd [stamp_simps]: "stamps (drbd_samples node drbd) = []"
  unfolding drbd_samples_def by (intro stamps_concat) (simp add: stamp_simps STAMP_def split_beta)

lemma stamps_crm [stamp_simps]: "stamps (crm_samples node stonith crm) = []"
  by (auto simp: stamps_Nil crm_samples_def stamp_simps STAMP_def split: option.splits if_splits)

lemma stamps_quorum [stamp_simps]: "stamps (quorum_samples node v) = []"
  by (simp add: quorum_samples_def stamp_simps STAMP_def split: option.splits)

lemma stamps_instance [stamp_simps]: "stamps (instance_samples node qm ms) = []"
  by (cases ms) (simp add: instance_samples_def stamp_simps STAMP_def Let_def)

lemma stamps_group [stamp_simps]: "stamps (group_samples node ng) = []"
  by (cases ng) (simp add: group_samples_def stamp_simps STAMP_def Let_def stamps_opt)

lemma stamps_rdqm_node [stamp_simps]: "stamps (rdqm_node_samples node c rs mo) = []"
  by (cases mo) (simp add: rdqm_node_samples_def stamp_simps STAMP_def Let_def stamps_map)

lemma stamps_rdqm_status [stamp_simps]: "stamps (rdqm_status_samples node qm s) = []"
proof -
  have m: "stamps (concat (map (\<lambda>(m, st). [sample_flag ''cluster_node_online'' [(''node'', node), (''member'', m)] (st = ''Normal''),
           sample_int ''cluster_rdqm_member_status'' [(''node'', node), (''member'', m), (''status'', st)] 1]) (rs_members s))) = []"
    by (intro stamps_concat) (simp add: stamp_simps STAMP_def split_beta)
  show ?thesis
    unfolding rdqm_status_samples_def Let_def stamps_basic(3) m
    by (simp add: stamp_simps STAMP_def stamps_opt)
qed

lemma collect_source_fresh:
  assumes "collect_source read_xml run units source c = Inr c'"
  shows "co_fresh c' = co_fresh c @ (if probe (source = ''daemons'') (run source) \<noteq> None then [source] else [])"
  using assms by (auto simp: collect_source_def rbind_eq_Inr split: option.splits if_splits)

lemma collect_sources_fresh:
  assumes "foldr_res (collect_source read_xml run units) sources c = Inr c'"
  shows "co_fresh c' = co_fresh c @ filter (\<lambda>s. probe (s = ''daemons'') (run s) \<noteq> None) sources"
  using assms
proof (induction sources arbitrary: c)
  case (Cons s sources)
  then obtain d where d: "collect_source read_xml run units s c = Inr d"
      "foldr_res (collect_source read_xml run units) sources d = Inr c'"
    by (auto simp: rbind_eq_Inr)
  from Cons.IH[OF d(2)] collect_source_fresh[OF d(1)] show ?case by simp
qed simp

lemma cluster_fresh:
  assumes "collect_cluster read_xml run role node now = Inr ss"
  shows "\<exists>sources. map_of PROBE_SETS role = Some sources
    \<and> stamps ss = fresh_samples node now (filter (\<lambda>s. probe (s = ''daemons'') (run s) \<noteq> None) sources)"
proof -
  from assms obtain sources units c where c: "map_of PROBE_SETS role = Some sources"
      "foldr_res (collect_source read_xml run units) sources nothing_collected = Inr c"
      "ss = render_cluster_state node (co_crm c) (co_stonith c) (co_iscsi c) (co_daemons c) (co_drbd c) now (co_fresh c)"
    by (auto simp: collect_cluster_def rbind_eq_Inr split: option.splits)
  have d: "stamps (map (\<lambda>(unit, up). sample_flag ''cluster_daemon_up'' [(''node'', node), (''unit'', unit)] up) ds) = []" for ds
    by (intro stamps_map) (simp add: stamp_simps STAMP_def split_beta)
  have "stamps ss = fresh_samples node now (co_fresh c)"
    unfolding c(3) render_cluster_state_def stamps_basic(3) d
    by (simp add: stamp_simps STAMP_def stamps_opt)
  with c(1) collect_sources_fresh[OF c(2)] show ?thesis by (simp add: nothing_collected_def)
qed

lemma nativeha_fresh:
  "stamps (collect_nativeha run node qm now) =
     fresh_samples node now (filter (\<lambda>s. probe False (run s) \<noteq> None) [''nativeha_x'', ''nativeha_g''])"
proof -
  have "stamps (concat (map (instance_samples node qm) xs)) = []" for xs by (intro stamps_concat) (simp add: stamp_simps)
  moreover have "stamps (concat (map (group_samples node) gs)) = []" for gs by (intro stamps_concat) (simp add: stamp_simps)
  ultimately show ?thesis
    by (simp add: collect_nativeha_def Let_def render_nativeha_state_def stamp_simps stamps_opt)
qed

lemma rdqm_fresh:
  assumes "collect_rdqm read_xml run node qm now = Inr ss"
  shows "stamps ss = fresh_samples node now (filter (\<lambda>s. probe False (run s) \<noteq> None) [''rdqmstatus'', ''drbd'', ''crm''])"
proof -
  have n: "stamps (concat (map (rdqm_node_samples node c rs) ms)) = []" for c rs ms
    by (intro stamps_concat) (simp add: stamp_simps)
  from assms show ?thesis
    by (auto simp: collect_rdqm_def Let_def rbind_eq_Inr render_rdqm_state_def stamp_simps stamps_opt n split: option.splits if_splits)
qed


definition sample_tree :: xml where
  "sample_tree = Elem ''crm_mon'' []
     [Elem ''summary'' [] [Elem ''current_dc'' [(''with_quorum'', ''true'')] []],
      Elem ''nodes'' [] [Elem ''node'' [(''name'', ''n1''), (''online'', ''true'')] [], Elem ''node'' [(''name'', ''n2''), (''online'', ''true'')] []],
      Elem ''resources'' [] [Elem ''resource'' [(''id'', ''qm''), (''role'', ''Started'')] [Elem ''node'' [(''name'', ''n1'')] []]],
      Elem ''node_history'' [] [Elem ''node'' [(''name'', ''n2'')]
        [Elem ''resource_history'' [(''id'', ''qm''), (''fail-count'', ''INFINITY'')] []]]]"

definition sample_probes :: "string \<Rightarrow> probe_result" where
  "sample_probes s = (if s = ''crm'' then Answer 0 ''xml'' else if s = ''daemons'' then Answer 3 ''active'' else NoAnswer)"


section \<open>What the figures say\<close>

text \<open>Fencing: every member has one figure, the number of its events in the history.\<close>

lemma count_add_lookup:
  "(case map_of (fold count_add ns d) n of None \<Rightarrow> 0 | Some k \<Rightarrow> k)
     = (case map_of d n of None \<Rightarrow> 0 | Some k \<Rightarrow> k) + int (count_list ns n)"
proof (induction ns arbitrary: d)
  case (Cons m ns)
  show ?case unfolding fold_simps(2) comp_def Cons.IH by (auto simp: count_add_def update_conv' split: option.splits)
qed simp

lemma fence_figures:
  "filter (\<lambda>s. sa_name s = ''cluster_fence_count'') (crm_samples node (Some (parse_stonith t)) crm)
     = map (\<lambda>(m, _). sample_int ''cluster_fence_count'' [(''node'', node), (''member'', m)]
         (int (count_list (List.map_filter fence_node (splitlines t)) m))) (crm_nodes crm)"
proof -
  have "filter (\<lambda>s. sa_name s = ''cluster_fence_count'') (concat (map (\<lambda>(member, st).
         [sample_flag ''cluster_node_online'' [(''node'', node), (''member'', member)] (ns_online st),
          sample_flag ''cluster_node_unclean'' [(''node'', node), (''member'', member)] (ns_unclean st)]) (crm_nodes crm))) = []"
    by (auto simp: filter_empty_conv stamp_simps)
  moreover have "filter (\<lambda>s. sa_name s = ''cluster_fence_count'') (concat (map (\<lambda>(rid, r).
         [sample_flag ''cluster_resource_started'' [(''node'', node), (''resource'', rid)] (re_state r = ''Started'')]
         @ (case re_node r of Some h \<Rightarrow> if h \<noteq> [] then
               [sample_int ''cluster_resource_owner'' [(''node'', node), (''resource'', rid), (''holder'', h)] 1] else []
            | None \<Rightarrow> [])) (crm_resources crm))) = []"
    by (auto simp: filter_empty_conv stamp_simps split: option.splits if_splits)
  moreover have "filter (\<lambda>s. sa_name s = ''cluster_fence_count'') (map (\<lambda>(m, _). sample_int ''cluster_fence_count'' (l m) (f m)) xs)
      = map (\<lambda>(m, _). sample_int ''cluster_fence_count'' (l m) (f m)) xs" for l f and xs :: "(string \<times> NodeState) list"
    by (induction xs) (auto simp: stamp_simps)
  ultimately show ?thesis
    by (simp add: crm_samples_def stamp_simps parse_stonith_def count_add_lookup)
qed

text \<open>Native HA: the group is reported quorate exactly with a strict majority, so of two disjoint parts of one
  group at most one is.\<close>

lemma quorate_majority:
  "sample_flag ''cluster_quorate'' [(''node'', node)] True \<in> set (quorum_samples node v)
     \<longleftrightarrow> (\<exists>cur seats. ha_quorum_current v = Some cur \<and> ha_quorum_total v = Some seats \<and> seats < 2 * cur)"
proof (cases "ha_quorum_current v")
  case None
  then show ?thesis by (simp add: quorum_samples_def split: option.splits)
next
  case (Some cur)
  have maj: "(seats div 2 + 1 \<le> cur) = (seats < 2 * cur)" for seats :: int by presburger
  show ?thesis
    by (cases "ha_quorum_total v") (auto simp: quorum_samples_def Some sample_flag_def sample_int_def maj)
qed

lemma one_quorate_part:
  assumes "ha_quorum_current v = Some a" and "ha_quorum_current w = Some b" and "a + b \<le> seats"
    and "ha_quorum_total v = Some seats" and "ha_quorum_total w = Some seats"
  shows "\<not> (sample_flag ''cluster_quorate'' [(''node'', m)] True \<in> set (quorum_samples m v)
    \<and> sample_flag ''cluster_quorate'' [(''node'', n)] True \<in> set (quorum_samples n w))"
  using assms unfolding quorate_majority by auto

text \<open>Log health: every extent of the listing is counted once, as active or as inactive.\<close>

lemma extents_counted:
  "fst (count_extents ls) + snd (count_extents ls) = int (length (filter (\<lambda>n. extent_kind (py_strip n) \<noteq> None) ls))"
proof -
  have "length (filter (\<lambda>k. k = CHR ''S'') ks) + length (filter (\<lambda>k. k \<noteq> CHR ''S'') ks) = length ks" for ks
    by (induction ks) auto
  moreover have "length (List.map_filter (\<lambda>n. extent_kind (py_strip n)) ls) = length (filter (\<lambda>n. extent_kind (py_strip n) \<noteq> None) ls)"
    by (simp add: List.map_filter_def)
  ultimately show ?thesis by (simp add: count_extents_def Let_def flip: of_nat_add)
qed

text \<open>An answer of \<open>df\<close> that cannot be read leaves the disk figures out, and the sample still reads fresh.\<close>

lemma garbled_disk_reads_fresh:
  assumes "run ''disk'' = Answer 0 t" and "parse_disk t = None" and "run ''extents'' = Answer 0 u"
  shows "sample_flag ''mqlab_log_sample_stale''
      [(''qm'', qm), (''instance'', inst), (''role'', case probe False (run ''role'') of None \<Rightarrow> ''unknown'' | Some out \<Rightarrow> instance_role out inst)]
      False \<in> set (collect_log run inst qm)
    \<and> (\<forall>s \<in> set (collect_log run inst qm). sa_name s \<noteq> ''mqlab_log_disk_used_bytes'')"
  using assms
  by (auto simp: collect_log_def render_log_prom_def probe_def Let_def opt_list_def stamp_simps split: prod.splits)

text \<open>A fail count with a doubled sign passes the digit test and then raises, although garbage is to read 0.\<close>

lemma failcount_double_sign: "parse_failcount (Some ''--5'') = Inl (ValueErr ''int'')"
  by code_simp

lemma rdqm_status_gated:
  assumes "s \<in> set (rdqm_status_samples node qm st)"
  shows "(sa_name s \<in> {''cluster_resource_owner'', ''cluster_rdqm_floating_ip''} \<longrightarrow> rdqm_running st)
    \<and> sa_name s \<noteq> ''cluster_rdqm_node_ready''"
  using assms
  by (auto simp: rdqm_status_samples_def Let_def opt_list_def stamp_simps split: option.splits if_splits)

lemma drbd_names: "s \<in> set (drbd_samples node drbd) \<Longrightarrow> sa_name s \<in> {''cluster_drbd_role'', ''cluster_drbd_disk'',
    ''cluster_drbd_conn'', ''cluster_drbd_resync_pct'', ''cluster_drbd_out_of_sync_bytes''}"
  by (auto simp: drbd_samples_def stamp_simps)

lemma fresh_names: "s \<in> set (fresh_samples node now fresh) \<Longrightarrow> sa_name s = STAMP"
  by (auto simp: fresh_samples_def stamp_simps STAMP_def)

lemma rdqm_node_names:
  assumes "s \<in> set (rdqm_node_samples node c rs (m, online))"
  shows "sa_name s \<notin> {''cluster_resource_owner'', ''cluster_rdqm_floating_ip''}
    \<and> (sa_name s = ''cluster_rdqm_node_ready'' \<longrightarrow>
        s = sample_flag ''cluster_rdqm_node_ready'' [(''node'', node), (''member'', m)] (online \<and> rdqm_failcount c m < INFINITY))"
  using assms by (auto simp: rdqm_node_samples_def Let_def stamp_simps)

text \<open>C37: Under RDQM only the node that runs the queue manager claims its ownership or its floating address,
  and a node is published as ready exactly when it is online in Pacemaker and its fail count has not
  reached the ban.\<close>

theorem rdqm_claims_sound:
  assumes "render_rdqm_state node qm status drbd crm now fresh = Inr ss" and "s \<in> set ss"
  shows "(sa_name s \<in> {''cluster_resource_owner'', ''cluster_rdqm_floating_ip''}
        \<longrightarrow> (\<exists>st. status = Some st \<and> rdqm_running st))
    \<and> (sa_name s = ''cluster_rdqm_node_ready'' \<longrightarrow> (\<exists>c m online. crm = Some c \<and> (m, online) \<in> set (rc_nodes c)
        \<and> s = sample_flag ''cluster_rdqm_node_ready'' [(''node'', node), (''member'', m)] (online \<and> rdqm_failcount c m < INFINITY)))"
proof -
  from assms(1) obtain cs where ss: "ss = opt_list (rdqm_status_samples node qm) status @ opt_list (drbd_samples node) drbd
      @ cs @ fresh_samples node now fresh"
    and cs: "cs \<noteq> [] \<Longrightarrow> \<exists>c rs. crm = Some c \<and> cs = concat (map (rdqm_node_samples node c rs) (rc_nodes c))"
    by (auto simp: render_rdqm_state_def rbind_eq_Inr split: option.splits if_splits)
  from assms(2) consider st where "status = Some st" "s \<in> set (rdqm_status_samples node qm st)"
    | d where "s \<in> set (drbd_samples node d)" | "s \<in> set cs" | "s \<in> set (fresh_samples node now fresh)"
    unfolding ss by (auto simp: opt_list_def split: option.splits)
  then show ?thesis
  proof cases
    case 1
    with rdqm_status_gated[OF 1(2)] show ?thesis by auto
  next
    case 2
    with drbd_names[OF 2] show ?thesis by auto
  next
    case 3
    with cs obtain c rs where c: "crm = Some c" "cs = concat (map (rdqm_node_samples node c rs) (rc_nodes c))" by (cases cs) auto
    with 3 obtain m online where "(m, online) \<in> set (rc_nodes c)" "s \<in> set (rdqm_node_samples node c rs (m, online))" by auto
    with rdqm_node_names[OF this(2)] c(1) show ?thesis by auto
  next
    case 4
    with fresh_names[OF 4] show ?thesis by (auto simp: STAMP_def)
  qed
qed

definition sample_status :: RdqmStatus where
  "sample_status = parse_rdqmstatus (''Node: n1'' @ [CHR 0x0A] @ ''Queue manager status: Running'' @ [CHR 0x0A]
     @ ''HA current location: This node'')"

definition sample_rdqm_crm :: RdqmCrm where
  "sample_rdqm_crm = \<lparr>rc_nodes = [(''n2'', True)], rc_roles = [], rc_failcount = [(''n2'', 1000000)]\<rparr>"

theorem rdqm_claims_sound_witness:
  "\<exists>ss. render_rdqm_state ''n1'' ''QM'' (Some sample_status) None (Some sample_rdqm_crm) 7 [] = Inr ss
     \<and> sample_flag ''cluster_rdqm_node_ready'' [(''node'', ''n1''), (''member'', ''n2'')] False \<in> set ss
     \<and> rdqm_running sample_status"
proof -
  define own where "own = sample_int ''cluster_resource_owner'' [(''node'', ''n1''), (''resource'', ''QM''), (''holder'', ''n1'')] 1"
  define ready where "ready = sample_flag ''cluster_rdqm_node_ready'' [(''node'', ''n1''), (''member'', ''n2'')] False"
  have "case render_rdqm_state ''n1'' ''QM'' (Some sample_status) None (Some sample_rdqm_crm) 7 [] of
      Inl e \<Rightarrow> False | Inr ss \<Rightarrow> List.member ss own \<and> List.member ss ready"
    unfolding own_def ready_def by code_simp
  then obtain ss where r: "render_rdqm_state ''n1'' ''QM'' (Some sample_status) None (Some sample_rdqm_crm) 7 [] = Inr ss"
      and m: "own \<in> set ss" "ready \<in> set ss"
    by (auto split: sum.splits)
  from rdqm_claims_sound[OF r m(1)] r m(2) show ?thesis by (auto simp: own_def ready_def stamp_simps)
qed

end
