(* ===== verification/Lab_Effects.thy ===== *)
theory Lab_Effects
  imports Orchestrator "HOL-Library.List_Lexorder" "HOL-Library.Char_ord"
begin

text \<open>
  Operations with effects, shared by the theories on boxes, guest components and their caches: a
  computation that changes a state and may raise (the state reached so far survives the exception,
  as files do in Python), its loops, and a file store.

  A file system is an association list from full paths to contents. A content is a text or a parsed
  document (a JSON or TOML file stands for the value its parser returns, and a text for one the
  parsers refuse). A directory is there when a file is below it; empty directories are not represented.
\<close>

section \<open>Operations\<close>

type_synonym ('s, 'e, 'a) op = "'s \<Rightarrow> ('e, 'a) result \<times> 's"

definition op_return :: "'a \<Rightarrow> ('s, 'e, 'a) op" where
  "op_return x s = (Inr x, s)"

definition op_raise :: "'e \<Rightarrow> ('s, 'e, 'a) op" where
  "op_raise e s = (Inl e, s)"

definition op_bind :: "('s, 'e, 'a) op \<Rightarrow> ('a \<Rightarrow> ('s, 'e, 'b) op) \<Rightarrow> ('s, 'e, 'b) op" where
  "op_bind m f s = (case m s of (Inl e, t) \<Rightarrow> (Inl e, t) | (Inr x, t) \<Rightarrow> f x t)"

definition op_get :: "('s \<Rightarrow> 'a) \<Rightarrow> ('s, 'e, 'a) op" where
  "op_get f s = (Inr (f s), s)"

definition op_modify :: "('s \<Rightarrow> 's) \<Rightarrow> ('s, 'e, unit) op" where
  "op_modify f s = (Inr (), f s)"

text \<open>A pure computation that may raise, its exception renamed.\<close>

definition op_lift :: "('d \<Rightarrow> 'e) \<Rightarrow> ('d, 'a) result \<Rightarrow> ('s, 'e, 'a) op" where
  "op_lift h r s = ((case r of Inl e \<Rightarrow> Inl (h e) | Inr x \<Rightarrow> Inr x), s)"

definition op_guard :: "bool \<Rightarrow> 'e \<Rightarrow> ('s, 'e, unit) op" where
  "op_guard ok e = (if ok then op_return () else op_raise e)"

definition op_when :: "bool \<Rightarrow> ('s, 'e, unit) op \<Rightarrow> ('s, 'e, unit) op" where
  "op_when c m = (if c then m else op_return ())"

text \<open>\<open>try ... except\<close>: the handler runs in the state the exception left.\<close>

definition op_catch :: "('s, 'e, 'a) op \<Rightarrow> ('e \<Rightarrow> ('s, 'd, 'a) op) \<Rightarrow> ('s, 'd, 'a) op" where
  "op_catch m h s = (case m s of (Inl e, t) \<Rightarrow> h e t | (Inr x, t) \<Rightarrow> (Inr x, t))"

fun op_each :: "('a \<Rightarrow> ('s, 'e, 'b) op) \<Rightarrow> 'a list \<Rightarrow> ('s, 'e, 'b list) op" where
  "op_each f [] = op_return []"
| "op_each f (x # xs) = op_bind (f x) (\<lambda>y. op_bind (op_each f xs) (\<lambda>ys. op_return (y # ys)))"

subsection \<open>What an operation keeps\<close>

named_theorems op_intros

text \<open>\<open>keeps P m\<close>: from a state with \<open>P\<close>, also when it raises, \<open>m\<close> ends in one.\<close>

definition keeps :: "('s \<Rightarrow> bool) \<Rightarrow> ('s, 'e, 'a) op \<Rightarrow> bool" where
  "keeps P m \<longleftrightarrow> (\<forall>s. P s \<longrightarrow> P (snd (m s)))"

lemma keepsD: "keeps P m \<Longrightarrow> P s \<Longrightarrow> m s = (r, t) \<Longrightarrow> P t"
  by (force simp: keeps_def)

lemma keeps_return [op_intros]: "keeps P (op_return x)"
  by (simp add: keeps_def op_return_def)

lemma keeps_raise [op_intros]: "keeps P (op_raise e)"
  by (simp add: keeps_def op_raise_def)

lemma keeps_get [op_intros]: "keeps P (op_get f)"
  by (simp add: keeps_def op_get_def)

lemma keeps_lift [op_intros]: "keeps P (op_lift h r)"
  by (simp add: keeps_def op_lift_def)

lemma keeps_guard [op_intros]: "keeps P (op_guard ok e)"
  by (simp add: op_guard_def keeps_return keeps_raise)

lemma keeps_bind [op_intros]:
  "keeps P m \<Longrightarrow> (\<And>x. keeps P (f x)) \<Longrightarrow> keeps P (op_bind m f)"
  unfolding keeps_def op_bind_def by (fastforce split: prod.splits sum.splits)

lemma keeps_when [op_intros]: "(c \<Longrightarrow> keeps P m) \<Longrightarrow> keeps P (op_when c m)"
  by (simp add: op_when_def keeps_return)

lemma keeps_if [op_intros]: "(c \<Longrightarrow> keeps P m) \<Longrightarrow> (\<not> c \<Longrightarrow> keeps P n) \<Longrightarrow> keeps P (if c then m else n)"
  by simp

lemma keeps_modify: "(\<And>s. P s \<Longrightarrow> P (f s)) \<Longrightarrow> keeps P (op_modify f)"
  by (simp add: keeps_def op_modify_def)

lemma keeps_catch [op_intros]:
  "keeps P m \<Longrightarrow> (\<And>e. keeps P (h e)) \<Longrightarrow> keeps P (op_catch m h)"
  unfolding keeps_def op_catch_def by (fastforce split: prod.splits sum.splits)

lemma keeps_each:
  "(\<And>x. x \<in> set xs \<Longrightarrow> keeps P (f x)) \<Longrightarrow> keeps P (op_each f xs)"
  by (induction xs) (auto intro!: op_intros)

subsection \<open>What an operation returns\<close>

lemma op_bind_Inr:
  "op_bind m f s = (Inr y, u) \<longleftrightarrow> (\<exists>x t. m s = (Inr x, t) \<and> f x t = (Inr y, u))"
  by (auto simp: op_bind_def split: prod.splits sum.splits)

lemma op_bind_Inl:
  "op_bind m f s = (Inl e, u) \<longleftrightarrow> m s = (Inl e, u) \<or> (\<exists>x t. m s = (Inr x, t) \<and> f x t = (Inl e, u))"
  by (auto simp: op_bind_def split: prod.splits sum.splits)

lemma op_basic [simp]:
  "op_return x s = (r, t) \<longleftrightarrow> r = Inr x \<and> t = s"
  "op_raise e s = (r, t) \<longleftrightarrow> r = Inl e \<and> t = s"
  "op_get f s = (r, t) \<longleftrightarrow> r = Inr (f s) \<and> t = s"
  "op_modify g s = (r', t) \<longleftrightarrow> r' = Inr () \<and> t = g s"
  by (auto simp: op_return_def op_raise_def op_get_def op_modify_def)

lemma op_guard_Inr [simp]: "op_guard ok e s = (Inr u, t) \<longleftrightarrow> ok \<and> t = s"
  by (auto simp: op_guard_def)

lemma op_guard_Inl [simp]: "op_guard ok e s = (Inl d, t) \<longleftrightarrow> \<not> ok \<and> d = e \<and> t = s"
  by (auto simp: op_guard_def)

lemma op_lift_Inr [simp]: "op_lift h r s = (Inr x, t) \<longleftrightarrow> r = Inr x \<and> t = s"
  by (auto simp: op_lift_def split: sum.splits)

lemma op_lift_Inl [simp]: "op_lift h r s = (Inl e, t) \<longleftrightarrow> (\<exists>d. r = Inl d \<and> e = h d) \<and> t = s"
  by (auto simp: op_lift_def split: sum.splits)

lemmas op_steps = op_bind_Inr op_bind_Inl

section \<open>Files\<close>

datatype content =
    Text string
  | Doc pyval

type_synonym files = "(string \<times> content) list"

definition is_file :: "files \<Rightarrow> string \<Rightarrow> bool" where
  "is_file fs p \<longleftrightarrow> map_of fs p \<noteq> None"

text \<open>\<open>below d p\<close>: the path \<open>p\<close> lies under the directory \<open>d\<close>.\<close>

definition below :: "string \<Rightarrow> string \<Rightarrow> bool" where
  "below d p \<longleftrightarrow> prefix (d @ ''/'') p"

definition write_file :: "string \<Rightarrow> content \<Rightarrow> files \<Rightarrow> files" where
  "write_file p c fs = AList.update p c fs"

definition unlink :: "string \<Rightarrow> files \<Rightarrow> files" where
  "unlink p fs = AList.delete p fs"

text \<open>\<open>shutil.rmtree(d, ignore_errors=True)\<close>.\<close>

definition rmtree :: "string \<Rightarrow> files \<Rightarrow> files" where
  "rmtree d fs = filter (\<lambda>(p, c). \<not> below d p) fs"

text \<open>\<open>src.replace(dst)\<close> of a directory over one that is gone.\<close>

definition move_tree :: "string \<Rightarrow> string \<Rightarrow> files \<Rightarrow> files" where
  "move_tree src dst fs =
     filter (\<lambda>(p, c). \<not> below src p \<and> \<not> below dst p) fs
     @ map (\<lambda>(p, c). (dst @ drop (length src) p, c)) (filter (\<lambda>(p, c). below src p) fs)"

text \<open>\<open>src.replace(dst)\<close> of a file, which overwrites the target.\<close>

definition move_file :: "string \<Rightarrow> string \<Rightarrow> files \<Rightarrow> files" where
  "move_file src dst fs = (case map_of fs src of None \<Rightarrow> fs | Some c \<Rightarrow> write_file dst c (unlink src fs))"

text \<open>The names in a directory, sorted.\<close>

definition dir_names :: "string \<Rightarrow> files \<Rightarrow> string list" where
  "dir_names d fs = sort (remdups (map (\<lambda>(p, c). takeWhile (\<lambda>x. x \<noteq> CHR ''/'') (drop (length d + 1) p))
     (filter (\<lambda>(p, c). below d p) fs)))"

definition read_text :: "files \<Rightarrow> string \<Rightarrow> (py_error, string) result" where
  "read_text fs p = (case map_of fs p of
     None \<Rightarrow> Inl (FileNotFound p)
   | Some (Text s) \<Rightarrow> Inr s
   | Some (Doc v) \<Rightarrow> Inl (Unmodelled ''text of a document''))"

definition read_doc :: "files \<Rightarrow> string \<Rightarrow> (py_error, pyval) result" where
  "read_doc fs p = (case map_of fs p of
     None \<Rightarrow> Inl (FileNotFound p)
   | Some (Text s) \<Rightarrow> Inl (ValueErr ''not a document'')
   | Some (Doc v) \<Rightarrow> Inr v)"

lemma map_of_write [simp]: "map_of (write_file p c fs) q = (if q = p then Some c else map_of fs q)"
  by (simp add: write_file_def update_conv')

lemma map_of_unlink [simp]: "map_of (unlink p fs) q = (if q = p then None else map_of fs q)"
  by (simp add: unlink_def delete_conv')

lemma map_of_filter_key: "map_of (filter (\<lambda>(p, c). P p) fs) q = (if P q then map_of fs q else None)"
  by (induction fs) auto

lemma map_of_rmtree [simp]: "map_of (rmtree d fs) q = (if below d q then None else map_of fs q)"
  by (simp add: rmtree_def map_of_filter_key)

lemma map_of_move_file [simp]:
  "src \<noteq> dst \<Longrightarrow> map_of fs src = Some c \<Longrightarrow>
     map_of (move_file src dst fs) q = (if q = dst then Some c else if q = src then None else map_of fs q)"
  by (simp add: move_file_def)

lemma map_of_relocated:
  "map_of (map (\<lambda>(p, c). (dst @ drop (length src) p, c)) (filter (\<lambda>(p, c). below src p) fs)) (dst @ r)
     = (if below src (src @ r) then map_of fs (src @ r) else None)"
proof (induction fs)
  case (Cons x fs)
  show ?case
  proof (cases "below src (fst x)")
    case True
    then obtain z where "fst x = src @ z" by (auto simp: below_def prefix_def)
    with True Cons.IH show ?thesis by (cases x) auto
  next
    case False
    then have "fst x \<noteq> src @ r \<or> \<not> below src (src @ r)" by auto
    with False Cons.IH show ?thesis by (cases x) auto
  qed
qed simp

lemma below_append [simp]: "below d (d @ r) \<longleftrightarrow> prefix ''/'' r"
  by (simp add: below_def)

lemma map_of_relocated_None:
  assumes "\<not> below dst q"
  shows "map_of (map (\<lambda>(p, c). (dst @ drop (length src) p, c)) (filter (\<lambda>(p, c). below src p) fs)) q = None"
proof -
  have "below dst (dst @ drop (length src) p)" if "below src p" for p
    using that by (auto simp: below_def prefix_def)
  with assms show ?thesis by (auto simp: map_of_eq_None_iff)
qed

lemma map_of_move_tree:
  "map_of (move_tree src dst fs) q =
     (if below dst q then map_of fs (src @ drop (length dst) q) else if below src q then None else map_of fs q)"
proof (cases "below dst q")
  case True
  then obtain r where r: "q = dst @ ''/'' @ r" by (auto simp: below_def prefix_def)
  then show ?thesis
    using map_of_relocated[of dst src fs "''/'' @ r"]
    by (simp add: move_tree_def map_add_def map_of_filter_key[of "\<lambda>p. \<not> below src p \<and> \<not> below dst p"])
next
  case False
  from map_of_relocated_None[OF this, of src fs] False show ?thesis
    by (simp add: move_tree_def map_add_def map_of_filter_key[of "\<lambda>p. \<not> below src p \<and> \<not> below dst p"]
      split: option.splits)
qed

lemma dir_names_mem:
  assumes "map_of fs (d @ ''/'' @ n @ r) \<noteq> None" and "CHR ''/'' \<notin> set n" and "r = [] \<or> hd r = CHR ''/''"
  shows "n \<in> set (dir_names d fs)"
proof -
  from assms(1) obtain c where "(d @ ''/'' @ n @ r, c) \<in> set fs" by (auto dest: map_of_SomeD)
  moreover have "takeWhile (\<lambda>x. x \<noteq> CHR ''/'') (n @ r) = n"
    using assms(2,3) by (cases r) (auto simp: takeWhile_append takeWhile_eq_all_conv)
  ultimately show ?thesis
    unfolding dir_names_def by (force simp: below_def image_iff)
qed

lemma dir_names_memD:
  assumes "n \<in> set (dir_names d fs)"
  shows "\<exists>p. map_of fs p \<noteq> None \<and> below d p \<and> n = takeWhile (\<lambda>x. x \<noteq> CHR ''/'') (drop (length d + 1) p)"
proof -
  from assms obtain p c where "(p, c) \<in> set fs" "below d p"
      "n = takeWhile (\<lambda>x. x \<noteq> CHR ''/'') (drop (length d + 1) p)"
    by (auto simp: dir_names_def)
  then show ?thesis by (metis weak_map_of_SomeI option.distinct(1))
qed

lemma distinct_dir_names [simp]: "distinct (dir_names d fs)"
  by (simp add: dir_names_def)

end
