(* ===== verification/App_Client.thy ===== *)
theory App_Client
  imports DR_MQI Lab_Effects
begin

text \<open>
  The workload clients: the always-on requester \<open>mqrc/app_requester.py\<close> with its round-trip figures and
  metric file, and the benchmark \<open>mqrc/bench_client.py\<close>. The outcomes of MQI calls, the readings of
  the clock and the failures of the file system are arguments, one record per turn of a loop. A turn answers
  the calls it made, in order. The log lines a client prints are not modelled.
\<close>

section \<open>Text of a float\<close>

text \<open>\<open>format(q, "g")\<close>: six significant digits of the exact value, ties to even, without trailing zeros;
  exponents from -4 to 5 are written out.\<close>

definition pow10 :: "int \<Rightarrow> rat" where
  "pow10 k = (if 0 \<le> k then 10 ^ nat k else 1 / 10 ^ nat (- k))"

definition ilog10 :: "rat \<Rightarrow> int" where
  "ilog10 q = (if 1 \<le> q then int (length (nat_str (nat \<lfloor>q\<rfloor>))) - 1
     else - int (length (nat_str (nat (\<lceil>1 / q\<rceil> - 1)))))"

definition six_digits :: "rat \<Rightarrow> string \<times> int" where
  "six_digits q = (let e = ilog10 q; m = half_even (q / pow10 (e - 5)) in
     if m = 10 ^ 6 then (nat_str (10 ^ 5), e + 1) else (nat_str (nat m), e))"

definition trim_zeros :: "string \<Rightarrow> string" where
  "trim_zeros s = rstrip_when (\<lambda>c. c = CHR ''.'') (rstrip_when (\<lambda>c. c = CHR ''0'') s)"

definition format_g :: "rat \<Rightarrow> string" where
  "format_g q =
     (if q = 0 then ''0''
      else let (d, e) = six_digits \<bar>q\<bar>;
          body = (if 0 \<le> e \<and> e < 6 then trim_zeros (take (nat e + 1) d @ ''.'' @ drop (nat e + 1) d)
            else if - 4 \<le> e \<and> e < 0 then trim_zeros (''0.'' @ replicate (nat (- e) - 1) CHR ''0'' @ d)
            else trim_zeros (take 1 d @ ''.'' @ drop 1 d) @ ''e'' @ (if e < 0 then ''-'' else ''+'')
              @ (if \<bar>e\<bar> < 10 then ''0'' else []) @ int_str \<bar>e\<bar>)
        in (if q < 0 then ''-'' else []) @ body)"

lemma format_g_samples:
  "format_g 1 = ''1''" "format_g 5000 = ''5000''" "format_g (1 / 10) = ''0.1''" "format_g (12345678 / 10) = ''1.23457e+06''"
  "format_g (2 / 100000) = ''2e-05''" "format_g (9999996 / 10) = ''1e+06''"
  by code_simp+

section \<open>Round-trip figures\<close>

definition BUCKETS_MS :: "rat list" where
  "BUCKETS_MS = [1, 2, 5, 10, 20, 50, 100, 200, 500, 1000, 2000, 5000]"

definition RECONNECT_REASONS :: "int list" where
  "RECONNECT_REASONS = [2009, 2018, 2019, 2059, 2161, 2162, 2202, 2203]"

definition is_reconnectable :: "int \<Rightarrow> bool" where
  "is_reconnectable reason \<longleftrightarrow> List.member RECONNECT_REASONS reason"

record RoundTripStats =
  rt_buckets :: "rat list"
  rt_total :: int
  rt_failures :: int
  rt_sum_ms :: rat
  rt_hits :: "int list"

definition init_stats :: "rat list \<Rightarrow> RoundTripStats" where
  "init_stats buckets = \<lparr>rt_buckets = buckets, rt_total = 0, rt_failures = 0, rt_sum_ms = 0,
     rt_hits = replicate (length buckets) 0\<rparr>"

definition successes :: "RoundTripStats \<Rightarrow> int" where
  "successes s = rt_total s - rt_failures s"

definition record_success :: "rat \<Rightarrow> RoundTripStats \<Rightarrow> RoundTripStats" where
  "record_success latency s = s\<lparr>rt_total := rt_total s + 1, rt_sum_ms := fl (rt_sum_ms s + latency),
     rt_hits := map (\<lambda>(edge, h). if latency \<le> edge then h + 1 else h) (zip (rt_buckets s) (rt_hits s))\<rparr>"

definition record_failure :: "RoundTripStats \<Rightarrow> RoundTripStats" where
  "record_failure s = s\<lparr>rt_total := rt_total s + 1, rt_failures := rt_failures s + 1\<rparr>"

definition TEXTFILE_HELP :: "(string \<times> string \<times> string) list" where
  "TEXTFILE_HELP =
     [(''app_roundtrip_total'', ''counter'', ''Total app round-trips attempted.''),
      (''app_roundtrip_failures_total'', ''counter'', ''App round-trips that failed (no reply / error).''),
      (''app_roundtrip_latency_ms'', ''histogram'', ''Successful round-trip latency (ms).'')]"

definition help_lines :: "string \<Rightarrow> string list" where
  "help_lines name = (case map_of TEXTFILE_HELP name of None \<Rightarrow> []
     | Some (kind, desc) \<Rightarrow> [''# HELP '' @ name @ '' '' @ desc, ''# TYPE '' @ name @ '' '' @ kind])"

definition counter_lines :: "string \<Rightarrow> int \<Rightarrow> string list" where
  "counter_lines name v = help_lines name @ [name @ '' '' @ int_str v]"

definition bucket_line :: "string \<Rightarrow> int \<Rightarrow> string" where
  "bucket_line le hits = ''app_roundtrip_latency_ms_bucket{le='' @ [CHR 0x22] @ le @ [CHR 0x22] @ ''} '' @ int_str hits"

definition render_prom :: "RoundTripStats \<Rightarrow> (py_error, string) result" where
  "render_prom s = rbind (ensure (length (rt_buckets s) = length (rt_hits s)) (ValueErr ''zip'')) (\<lambda>_.
     Inr (str_join [CHR 0x0A]
       (counter_lines ''app_roundtrip_total'' (rt_total s)
        @ counter_lines ''app_roundtrip_failures_total'' (rt_failures s)
        @ help_lines ''app_roundtrip_latency_ms''
        @ map (\<lambda>(edge, hits). bucket_line (format_g edge) hits) (zip (rt_buckets s) (rt_hits s))
        @ [bucket_line ''+Inf'' (successes s),
           ''app_roundtrip_latency_ms_sum '' @ format_g (rt_sum_ms s),
           ''app_roundtrip_latency_ms_count '' @ int_str (successes s)]) @ [CHR 0x0A]))"

section \<open>The metric file\<close>

text \<open>\<open>os.path.dirname\<close> and \<open>os.path.basename\<close>, and the name of the temporary file beside the target.\<close>

definition base_of :: "string \<Rightarrow> string" where
  "base_of p = rev (takeWhile (\<lambda>c. c \<noteq> CHR ''/'') (rev p))"

definition dir_of :: "string \<Rightarrow> string" where
  "dir_of p = (let h = rev (dropWhile (\<lambda>c. c \<noteq> CHR ''/'') (rev p)) in
     if \<forall>c \<in> set h. c = CHR ''/'' then h else rstrip_when (\<lambda>c. c = CHR ''/'') h)"

definition path_join :: "string \<Rightarrow> string \<Rightarrow> string" where
  "path_join d n = (if d = [] \<or> last d = CHR ''/'' then d @ n else d @ ''/'' @ n)"

definition temp_name :: "string \<Rightarrow> int \<Rightarrow> string \<Rightarrow> string" where
  "temp_name path pid token = path_join (if dir_of path = [] then ''.'' else dir_of path)
     (''.'' @ base_of path @ ''.'' @ int_str pid @ ''.'' @ token @ ''.tmp'')"

text \<open>What the system does: the failure of each of the three calls, a failed write with what it had written.\<close>

datatype os_error = OSError string

record publish_env =
  pe_pid :: int
  pe_token :: string
  pe_open :: "os_error option"
  pe_write :: "(os_error \<times> string) option"
  pe_replace :: "os_error option"

definition drop_temp :: "string \<Rightarrow> files \<Rightarrow> files" where
  "drop_temp tmp fs = (if is_file fs tmp then unlink tmp fs else fs)"

definition write_textfile :: "publish_env \<Rightarrow> string \<Rightarrow> string \<Rightarrow> files \<Rightarrow> os_error option \<times> files" where
  "write_textfile env path t fs =
     (let tmp = temp_name path (pe_pid env) (pe_token env) in
      if is_file fs tmp then (Some (OSError ''exists''), drop_temp tmp fs)
      else case pe_open env of
        Some e \<Rightarrow> (Some e, drop_temp tmp fs)
      | None \<Rightarrow>
          (case pe_write env of
             Some (e, part) \<Rightarrow> (Some e, drop_temp tmp (write_file tmp (Text part) fs))
           | None \<Rightarrow>
               (case pe_replace env of
                  Some e \<Rightarrow> (Some e, drop_temp tmp (write_file tmp (Text t) fs))
                | None \<Rightarrow> (None, move_file tmp path (write_file tmp (Text t) fs)))))"

text \<open>A failure is printed and the stream goes on; the second component says whether it was reported.\<close>

definition publish_metrics :: "publish_env \<Rightarrow> string \<Rightarrow> RoundTripStats \<Rightarrow> files \<Rightarrow> (py_error, bool \<times> files) result" where
  "publish_metrics env path s fs = rbind (render_prom s) (\<lambda>t.
     case write_textfile env path t fs of (err, fs') \<Rightarrow> Inr (err \<noteq> None, fs'))"

section \<open>The requester\<close>

datatype conn_call =
    Conn mq_call
  | OpenQ string mq_call
  | PutMsg string string mq_call \<comment> \<open>payload, the message identifier it was given\<close>
  | GetReply string mq_call \<comment> \<open>the correlation identifier it asks for\<close>
  | CommitPut mq_call
  | Disc

record req_args =
  ra_request_queue :: string
  ra_reply_queue :: string
  ra_count :: int
  ra_msg_size :: int
  ra_textfile :: string

record trip_env =
  te_connect :: mq_call
  te_open_request :: mq_call
  te_open_reply :: mq_call
  te_t0 :: rat
  te_put :: mq_call
  te_msg_id :: string
  te_get :: mq_call
  te_t1 :: rat
  te_publish :: publish_env

definition payload_of :: "int \<Rightarrow> string" where
  "payload_of n = replicate (nat (max 1 n)) CHR ''x''"

definition req_connect :: "req_args \<Rightarrow> trip_env \<Rightarrow> (int, unit) result \<times> conn_call list" where
  "req_connect args env =
     (case te_connect env of
        Failed r \<Rightarrow> (Inl r, [Conn (Failed r)])
      | Done \<Rightarrow>
          (case te_open_request env of
             Failed r \<Rightarrow> (Inl r, [Conn Done, OpenQ (ra_request_queue args) (Failed r)])
           | Done \<Rightarrow>
               (case te_open_reply env of
                  Failed r \<Rightarrow> (Inl r, [Conn Done, OpenQ (ra_request_queue args) Done, OpenQ (ra_reply_queue args) (Failed r)])
                | Done \<Rightarrow> (Inr (), [Conn Done, OpenQ (ra_request_queue args) Done, OpenQ (ra_reply_queue args) Done]))))"

text \<open>Put and get on open queues: the latency in milliseconds, or the reason of the failure.\<close>

definition exchange :: "req_args \<Rightarrow> trip_env \<Rightarrow> (int, rat) result \<times> conn_call list" where
  "exchange args env =
     (let put = PutMsg (payload_of (ra_msg_size args)) (te_msg_id env) (te_put env) in
      case te_put env of
        Failed r \<Rightarrow> (Inl r, [put])
      | Done \<Rightarrow>
          (case te_get env of
             Failed r \<Rightarrow> (Inl r, [put, GetReply (te_msg_id env) (Failed r)])
           | Done \<Rightarrow> (Inr (fl (fl (te_t1 env - te_t0 env) * 1000)), [put, GetReply (te_msg_id env) Done])))"

text \<open>One attempt, from whether a connection is held to whether one is held after it.\<close>

definition attempt :: "req_args \<Rightarrow> trip_env \<Rightarrow> bool \<Rightarrow> (int, rat) result \<times> bool \<times> conn_call list" where
  "attempt args env held =
     (case (if held then (Inr (), []) else req_connect args env) of
        (Inl r, cs) \<Rightarrow> (Inl r, False, cs)
      | (Inr _, cs) \<Rightarrow>
          (case exchange args env of
             (Inr dt, cs') \<Rightarrow> (Inr dt, True, cs @ cs')
           | (Inl r, cs') \<Rightarrow>
               if is_reconnectable r then (Inl r, False, cs @ cs' @ [Disc]) else (Inl r, True, cs @ cs')))"

definition tally_trip :: "(int, rat) result \<Rightarrow> RoundTripStats \<Rightarrow> RoundTripStats" where
  "tally_trip r s = (case r of Inl _ \<Rightarrow> record_failure s | Inr dt \<Rightarrow> record_success dt s)"

record Requester =
  rq_held :: bool
  rq_stats :: RoundTripStats
  rq_files :: files

definition req_turn :: "req_args \<Rightarrow> trip_env \<Rightarrow> Requester \<Rightarrow> py_error option \<times> Requester \<times> conn_call list" where
  "req_turn args env q =
     (case attempt args env (rq_held q) of (r, held, cs) \<Rightarrow>
        let q1 = q\<lparr>rq_held := held, rq_stats := tally_trip r (rq_stats q)\<rparr> in
        if ra_textfile args = [] then (None, q1, cs)
        else case publish_metrics (te_publish env) (ra_textfile args) (rq_stats q1) (rq_files q1) of
          Inl e \<Rightarrow> (Some e, q1, cs)
        | Inr (_, fs) \<Rightarrow> (None, q1\<lparr>rq_files := fs\<rparr>, cs))"

datatype stream_end = Streaming | Ended | Crashed py_error

text \<open>The loop over the turns the outside supplies; \<open>Streaming\<close> when they end before it does.\<close>

fun stream :: "req_args \<Rightarrow> int \<Rightarrow> trip_env list \<Rightarrow> Requester \<Rightarrow> stream_end \<times> Requester \<times> conn_call list" where
  "stream args i [] q = (if ra_count args = 0 \<or> i < ra_count args then Streaming else Ended, q, [])"
| "stream args i (env # envs) q =
     (if ra_count args = 0 \<or> i < ra_count args
      then case req_turn args env q of
          (Some e, q', cs) \<Rightarrow> (Crashed e, q', cs)
        | (None, q', cs) \<Rightarrow> (case stream args (i + 1) envs q' of (x, q'', cs') \<Rightarrow> (x, q'', cs @ cs'))
      else (Ended, q, []))"

text \<open>\<open>run\<close>: the exit code, the exception that leaves it, or nothing while it streams; the connection is
  closed whenever it is left.\<close>

definition requester_run ::
  "req_args \<Rightarrow> trip_env list \<Rightarrow> files \<Rightarrow> (py_error, int) result option \<times> Requester \<times> conn_call list" where
  "requester_run args envs fs =
     (case stream args 0 envs \<lparr>rq_held = False, rq_stats = init_stats BUCKETS_MS, rq_files = fs\<rparr> of
        (Streaming, q, cs) \<Rightarrow> (None, q, cs)
      | (Ended, q, cs) \<Rightarrow> (Some (Inr (if rt_failures (rq_stats q) = 0 then 0 else 1)), q, cs @ (if rq_held q then [Disc] else []))
      | (Crashed e, q, cs) \<Rightarrow> (Some (Inl e), q, cs @ (if rq_held q then [Disc] else [])))"

section \<open>Publishing is atomic\<close>

lemma base_of_join: "CHR ''/'' \<notin> set n \<Longrightarrow> base_of (path_join d n) = n"
proof -
  assume n: "CHR ''/'' \<notin> set n"
  have "base_of (d @ n) = n" if "d = [] \<or> last d = CHR ''/''" for d
  proof (cases "d = []")
    case True
    have "takeWhile (\<lambda>c. c \<noteq> CHR ''/'') (rev n) = rev n" using n by (subst takeWhile_eq_all_conv) auto
    with True show ?thesis by (simp only: base_of_def append_Nil rev_rev_ident)
  next
    case False
    with that have "d = butlast d @ [CHR ''/'']" by (metis append_butlast_last_id)
    then have rd: "rev d = CHR ''/'' # rev (butlast d)" by (metis rev_eq_Cons_iff rev_rev_ident)
    have tw: "takeWhile (\<lambda>c. c \<noteq> CHR ''/'') (rev n @ CHR ''/'' # z) = rev n" for z
      using n by (subst takeWhile_append) (auto simp: takeWhile_eq_all_conv)
    show ?thesis unfolding base_of_def rev_append rd tw by simp
  qed
  from this[of d] this[of "d @ ''/''"] show ?thesis by (auto simp: path_join_def)
qed

lemma base_of_no_slash: "CHR ''/'' \<notin> set (base_of p)"
  by (auto simp: base_of_def dest: set_takeWhileD)

lemma int_str_no_slash: "CHR ''/'' \<notin> set (int_str i)"
  using int_str_chars[of "CHR ''/''" i] by auto

lemma temp_name_apart: "CHR ''/'' \<notin> set token \<Longrightarrow> temp_name path pid token \<noteq> path"
proof
  assume t: "CHR ''/'' \<notin> set token" and eq: "temp_name path pid token = path"
  have "base_of (temp_name path pid token) = ''.'' @ base_of path @ ''.'' @ int_str pid @ ''.'' @ token @ ''.tmp''"
    unfolding temp_name_def using t by (intro base_of_join) (simp add: base_of_no_slash int_str_no_slash)
  then have "length (base_of path) = length (''.'' @ base_of path @ ''.'' @ int_str pid @ ''.'' @ token @ ''.tmp'')"
    unfolding eq by (rule arg_cong)
  then show False by simp
qed

text \<open>Whatever fails, the metric file holds either what it held or the complete new text, the temporary file
  is gone, and no other file changes.\<close>

theorem publish_atomic:
  assumes "CHR ''/'' \<notin> set (pe_token env)" and "write_textfile env path t fs = (err, fs')"
  shows "map_of fs' q = (if q = temp_name path (pe_pid env) (pe_token env) then None
      else if q = path \<and> err = None then Some (Text t) else map_of fs q)"
  using temp_name_apart[OF assms(1), of path "pe_pid env"] assms(2)
  by (auto simp: write_textfile_def drop_temp_def is_file_def Let_def split: if_splits option.splits prod.splits)

definition quiet_publish :: publish_env where
  "quiet_publish = \<lparr>pe_pid = 7, pe_token = ''ab'', pe_open = None, pe_write = None, pe_replace = None\<rparr>"

theorem publish_atomic_witness:
  "map_of (snd (write_textfile (quiet_publish\<lparr>pe_write := Some (OSError ''full'', ''he'')\<rparr>) ''/d/a.prom'' ''help'' [(''/d/a.prom'', Text ''old'')]))
     ''/d/a.prom'' = Some (Text ''old'')
   \<and> map_of (snd (write_textfile quiet_publish ''/d/a.prom'' ''help'' [(''/d/a.prom'', Text ''old'')])) ''/d/a.prom'' = Some (Text ''help'')"
proof -
  have "fst (write_textfile (quiet_publish\<lparr>pe_write := Some (OSError ''full'', ''he'')\<rparr>) ''/d/a.prom'' ''help'' [(''/d/a.prom'', Text ''old'')]) \<noteq> None"
    and "fst (write_textfile quiet_publish ''/d/a.prom'' ''help'' [(''/d/a.prom'', Text ''old'')]) = None" by code_simp+
  moreover have "temp_name ''/d/a.prom'' 7 ''ab'' \<noteq> ''/d/a.prom''" by code_simp
  moreover note publish_atomic[of "quiet_publish\<lparr>pe_write := Some (OSError ''full'', ''he'')\<rparr>" "''/d/a.prom''" "''help''" "[(''/d/a.prom'', Text ''old'')]", OF _ prod.collapse[symmetric], of "''/d/a.prom''"]
    publish_atomic[of quiet_publish "''/d/a.prom''" "''help''" "[(''/d/a.prom'', Text ''old'')]", OF _ prod.collapse[symmetric], of "''/d/a.prom''"]
  ultimately show ?thesis by (simp add: quiet_publish_def)
qed

section \<open>The figures are exact\<close>

definition latencies_of :: "(int, rat) result list \<Rightarrow> rat list" where
  "latencies_of rs = List.map_filter (\<lambda>r. case r of Inl _ \<Rightarrow> None | Inr dt \<Rightarrow> Some dt) rs"

text \<open>The outcomes of the turns, from the connection alone.\<close>

fun attempts :: "req_args \<Rightarrow> trip_env list \<Rightarrow> bool \<Rightarrow> (int, rat) result list" where
  "attempts args [] held = []"
| "attempts args (env # envs) held = (case attempt args env held of (r, held', _) \<Rightarrow> r # attempts args envs held')"

definition figures :: "rat list \<Rightarrow> (int, rat) result list \<Rightarrow> RoundTripStats" where
  "figures buckets rs = \<lparr>rt_buckets = buckets, rt_total = int (length rs),
     rt_failures = int (length (filter isl rs)), rt_sum_ms = fold (\<lambda>dt a. fl (a + dt)) (latencies_of rs) 0,
     rt_hits = map (\<lambda>edge. int (length (filter (\<lambda>dt. dt \<le> edge) (latencies_of rs)))) buckets\<rparr>"

lemma figures_Nil: "figures buckets [] = init_stats buckets"
  by (simp add: figures_def init_stats_def latencies_of_def map_replicate_const)

lemma tally_figures: "tally_trip r (figures buckets rs) = figures buckets (rs @ [r])"
proof (cases r)
  case (Inl e)
  then show ?thesis by (simp add: tally_trip_def record_failure_def figures_def latencies_of_def map_filter_append map_filter_simps)
next
  case (Inr dt)
  have "map (\<lambda>(edge, h). if dt \<le> edge then h + 1 else h) (zip buckets (map f buckets))
      = map (\<lambda>edge. if dt \<le> edge then f edge + 1 else f edge) buckets" for f :: "rat \<Rightarrow> int"
    by (induction buckets) auto
  with Inr show ?thesis
    by (auto simp: tally_trip_def record_success_def figures_def latencies_of_def map_filter_append)
qed

lemma render_figures: "\<exists>t. render_prom (figures buckets rs) = Inr t"
  by (simp add: render_prom_def figures_def ensure_def rbind_simps)

lemma req_turn_figures:
  assumes "rq_stats q = figures BUCKETS_MS rs"
  shows "\<exists>fs. req_turn args env q = (None, \<lparr>rq_held = fst (snd (attempt args env (rq_held q))),
      rq_stats = figures BUCKETS_MS (rs @ [fst (attempt args env (rq_held q))]), rq_files = fs\<rparr>,
      snd (snd (attempt args env (rq_held q))))"
proof -
  obtain r held cs where at: "attempt args env (rq_held q) = (r, held, cs)" by (metis prod_cases3)
  obtain t where t: "render_prom (figures BUCKETS_MS (rs @ [r])) = Inr t" using render_figures by blast
  obtain err fs where w: "write_textfile (te_publish env) (ra_textfile args) t (rq_files q) = (err, fs)" by fastforce
  show ?thesis
    by (cases q) (use assms at t w in \<open>auto simp: req_turn_def tally_figures publish_metrics_def Let_def rbind_simps\<close>)
qed

lemma stream_figures:
  assumes "rq_stats q = figures BUCKETS_MS rs" and "stream args i envs q = (x, q', cs)"
  shows "\<exists>es us. envs = es @ us \<and> rq_stats q' = figures BUCKETS_MS (rs @ attempts args es (rq_held q))
    \<and> (x = Streaming \<and> us = [] \<or> x = Ended \<and> ra_count args \<noteq> 0 \<and> ra_count args \<le> i + int (length es)
         \<and> (es = [] \<or> ra_count args = i + int (length es)))"
  using assms
proof (induction envs arbitrary: i q rs cs)
  case Nil
  then show ?case by (auto split: if_splits)
next
  case (Cons env envs)
  show ?case
  proof (cases "ra_count args = 0 \<or> i < ra_count args")
    case True
    obtain r held cs1 where at: "attempt args env (rq_held q) = (r, held, cs1)" by (metis prod_cases3)
    from req_turn_figures[OF Cons.prems(1), of args env] at obtain fs where
      t: "req_turn args env q = (None, \<lparr>rq_held = held, rq_stats = figures BUCKETS_MS (rs @ [r]), rq_files = fs\<rparr>, cs1)" by auto
    from True t Cons.prems(2) obtain cs2 where
      rest: "stream args (i + 1) envs \<lparr>rq_held = held, rq_stats = figures BUCKETS_MS (rs @ [r]), rq_files = fs\<rparr> = (x, q', cs2)"
      by (auto split: prod.splits)
    have "rq_stats \<lparr>rq_held = held, rq_stats = figures BUCKETS_MS (rs @ [r]), rq_files = fs\<rparr> = figures BUCKETS_MS (rs @ [r])" by simp
    from Cons.IH[OF this rest] obtain es us where es: "envs = es @ us"
      "rq_stats q' = figures BUCKETS_MS ((rs @ [r]) @ attempts args es held)"
      "x = Streaming \<and> us = [] \<or> x = Ended \<and> ra_count args \<noteq> 0 \<and> ra_count args \<le> i + 1 + int (length es)
         \<and> (es = [] \<or> ra_count args = i + 1 + int (length es))" by auto
    with True show ?thesis
      by (intro exI[of _ "env # es"] exI[of _ us]) (auto simp: at)
  next
    case False
    with Cons.prems show ?thesis by (intro exI[of _ "[]"] exI[of _ "env # envs"]) auto
  qed
qed

text \<open>The figures a requester publishes are exact: after any number of turns the counters are the number of
  attempts and of failed ones, each bucket counts the successful round trips at or below its edge, and the
  sum adds their latencies in order; a bounded run makes exactly the asked number of attempts, and its exit
  code is 0 exactly when none failed. The metric file never stops the stream.\<close>

theorem requester_figures_exact:
  assumes "requester_run args envs fs = (res, q, cs)"
  shows "\<exists>es us. envs = es @ us \<and> rq_stats q = figures BUCKETS_MS (attempts args es False)
    \<and> (case res of
         None \<Rightarrow> us = []
       | Some (Inl e) \<Rightarrow> False
       | Some (Inr code) \<Rightarrow> ra_count args \<noteq> 0 \<and> int (length es) = max 0 (ra_count args)
           \<and> (code = 0 \<longleftrightarrow> (\<forall>r \<in> set (attempts args es False). \<not> isl r)))"
proof -
  define q0 where "q0 = \<lparr>rq_held = False, rq_stats = init_stats BUCKETS_MS, rq_files = fs\<rparr>"
  obtain x q1 cs1 where st: "stream args 0 envs q0 = (x, q1, cs1)" by (metis prod_cases3)
  have "rq_stats q0 = figures BUCKETS_MS []" by (simp add: q0_def figures_Nil)
  from stream_figures[OF this st] obtain es us where e: "envs = es @ us"
    "rq_stats q1 = figures BUCKETS_MS (attempts args es False)"
    "x = Streaming \<and> us = [] \<or> x = Ended \<and> ra_count args \<noteq> 0 \<and> ra_count args \<le> int (length es)
         \<and> (es = [] \<or> ra_count args = int (length es))" by (auto simp: q0_def)
  have ok: "rt_failures (figures b rs) = 0 \<longleftrightarrow> (\<forall>r \<in> set rs. \<not> isl r)" for b rs
    by (simp add: figures_def filter_empty_conv)
  from e(3) show ?thesis
  proof
    assume "x = Streaming \<and> us = []"
    with assms e st show ?thesis by (intro exI[of _ es] exI[of _ us]) (auto simp: requester_run_def q0_def)
  next
    assume x: "x = Ended \<and> ra_count args \<noteq> 0 \<and> ra_count args \<le> int (length es)
         \<and> (es = [] \<or> ra_count args = int (length es))"
    with assms st have "res = Some (Inr (if rt_failures (rq_stats q1) = 0 then 0 else 1))" "q = q1"
      by (auto simp: requester_run_def q0_def)
    with x e show ?thesis
      by (intro exI[of _ es] exI[of _ us]) (simp add: ok, auto)
  qed
qed

definition sample_req_args :: req_args where
  "sample_req_args = \<lparr>ra_request_queue = ''SVC.REQUEST'', ra_reply_queue = ''APP.REPLY'', ra_count = 2, ra_msg_size = 2, ra_textfile = []\<rparr>"

definition sample_trip :: "mq_call \<Rightarrow> trip_env" where
  "sample_trip got = \<lparr>te_connect = Done, te_open_request = Done, te_open_reply = Done, te_t0 = 0, te_put = Done, te_msg_id = ''m'',
     te_get = got, te_t1 = 1 / 64, te_publish = quiet_publish\<rparr>"

theorem requester_figures_exact_witness:
  "\<exists>q cs. requester_run sample_req_args [sample_trip Done, sample_trip (Failed 2033)] [] = (Some (Inr 1), q, cs)
     \<and> rt_total (rq_stats q) = 2 \<and> rt_failures (rq_stats q) = 1 \<and> rt_hits (rq_stats q) = [0, 0, 0, 0, 1, 1, 1, 1, 1, 1, 1, 1]"
proof -
  have "fst (requester_run sample_req_args [sample_trip Done, sample_trip (Failed 2033)] []) = Some (Inr 1)" by code_simp
  then obtain q cs where r: "requester_run sample_req_args [sample_trip Done, sample_trip (Failed 2033)] [] = (Some (Inr 1), q, cs)"
    by (metis prod.collapse)
  from requester_figures_exact[OF r] obtain es us where e: "[sample_trip Done, sample_trip (Failed 2033)] = es @ us"
      "rq_stats q = figures BUCKETS_MS (attempts sample_req_args es False)" "int (length es) = 2"
    by (auto simp: sample_req_args_def)
  from e(1) have "length [sample_trip Done, sample_trip (Failed 2033)] = length es + length us" by (metis length_append)
  with e(3) have "us = []" by simp
  with e(1) have "es = [sample_trip Done, sample_trip (Failed 2033)]" by simp
  moreover have "figures BUCKETS_MS (attempts sample_req_args [sample_trip Done, sample_trip (Failed 2033)] False)
      = \<lparr>rt_buckets = BUCKETS_MS, rt_total = 2, rt_failures = 1, rt_sum_ms = 125 / 8, rt_hits = [0, 0, 0, 0, 1, 1, 1, 1, 1, 1, 1, 1]\<rparr>"
    by code_simp
  ultimately show ?thesis using r e(2) by simp
qed

section \<open>The connection discipline\<close>

text \<open>Which call may follow which: a request is put on an open connection and its reply asked for by the
  identifier the put was given; after a failure that means a dead connection the connection is dropped, and after
  that, or after a failed connect, the next call connects; any other failure keeps the connection.\<close>

definition dead_call :: "mq_call \<Rightarrow> bool" where
  "dead_call ans = (case ans of Done \<Rightarrow> False | Failed r \<Rightarrow> is_reconnectable r)"

definition starts_trip :: "req_args \<Rightarrow> conn_call \<Rightarrow> bool" where
  "starts_trip args y \<longleftrightarrow> (\<exists>m ans. y = PutMsg (payload_of (ra_msg_size args)) m ans)"

definition connects :: "conn_call \<Rightarrow> bool" where
  "connects y \<longleftrightarrow> (\<exists>ans. y = Conn ans)"

fun req_follows :: "req_args \<Rightarrow> conn_call \<Rightarrow> conn_call \<Rightarrow> bool" where
  "req_follows args (Conn Done) y = (\<exists>ans. y = OpenQ (ra_request_queue args) ans)"
| "req_follows args (Conn (Failed _)) y = connects y"
| "req_follows args (OpenQ q Done) y =
     ((\<exists>ans. y = OpenQ (ra_reply_queue args) ans) \<or> q = ra_reply_queue args \<and> starts_trip args y)"
| "req_follows args (OpenQ q (Failed _)) y = connects y"
| "req_follows args (PutMsg p m Done) y = (\<exists>ans. y = GetReply m ans)"
| "req_follows args (PutMsg p m (Failed r)) y = (if is_reconnectable r then y = Disc else starts_trip args y \<or> y = Disc)"
| "req_follows args (GetReply m ans) y = (if dead_call ans then y = Disc else starts_trip args y \<or> y = Disc)"
| "req_follows args (CommitPut ans) y = False"
| "req_follows args Disc y = connects y"

text \<open>What the last call leaves, given whether a connection is held.\<close>

definition leaves :: "bool \<Rightarrow> conn_call \<Rightarrow> bool" where
  "leaves held x = (case x of
     Conn (Failed _) \<Rightarrow> \<not> held | OpenQ _ (Failed _) \<Rightarrow> \<not> held | Disc \<Rightarrow> \<not> held
   | GetReply _ ans \<Rightarrow> held \<and> \<not> dead_call ans | PutMsg _ _ ans \<Rightarrow> held \<and> ans \<noteq> Done \<and> \<not> dead_call ans
   | _ \<Rightarrow> False)"

definition begins :: "req_args \<Rightarrow> bool \<Rightarrow> conn_call \<Rightarrow> bool" where
  "begins args held y = (if held then starts_trip args y else connects y)"

lemma leaves_begins: "leaves held x \<Longrightarrow> begins args held y \<Longrightarrow> req_follows args x y"
  by (cases x; cases held)
    (auto simp: leaves_def begins_def dead_call_def split: mq_call.splits)

lemma leaves_disc: "leaves True x \<Longrightarrow> req_follows args x Disc"
  by (cases x) (auto simp: leaves_def dead_call_def split: mq_call.splits)

lemma attempt_calls:
  assumes "attempt args env held = (r, held', cs)"
  shows "cs \<noteq> [] \<and> successively (req_follows args) cs \<and> begins args held (hd cs) \<and> leaves held' (last cs)"
  using assms
  by (auto simp: attempt_def req_connect_def exchange_def begins_def leaves_def starts_trip_def connects_def dead_call_def Let_def
      split: if_splits mq_call.splits prod.splits sum.splits)

lemma stream_calls:
  assumes "stream args i envs q = (x, q', cs)"
  shows "successively (req_follows args) cs \<and> (cs = [] \<longrightarrow> rq_held q' = rq_held q)
    \<and> (cs \<noteq> [] \<longrightarrow> begins args (rq_held q) (hd cs) \<and> leaves (rq_held q') (last cs))"
  using assms
proof (induction envs arbitrary: i q cs)
  case Nil
  then show ?case by auto
next
  case (Cons env envs)
  obtain e q1 cs1 where t: "req_turn args env q = (e, q1, cs1)" by (metis prod_cases3)
  then have "\<exists>r. attempt args env (rq_held q) = (r, rq_held q1, cs1)"
    by (auto simp: req_turn_def Let_def split: prod.splits if_splits sum.splits)
  with attempt_calls have c1: "cs1 \<noteq> []" "successively (req_follows args) cs1" "begins args (rq_held q) (hd cs1)"
    "leaves (rq_held q1) (last cs1)" by blast+
  show ?case
  proof (cases "(ra_count args = 0 \<or> i < ra_count args) \<and> e = None")
    case True
    with t Cons.prems obtain cs2 where rest: "stream args (i + 1) envs q1 = (x, q', cs2)" "cs = cs1 @ cs2"
      by (auto split: prod.splits)
    from Cons.IH[OF rest(1)] c1 leaves_begins[OF c1(4)] show ?thesis
      by (cases cs2) (auto simp: rest(2) successively_append_iff)
  next
    case False
    with t Cons.prems c1 show ?thesis by (auto split: if_splits prod.splits option.splits)
  qed
qed

text \<open>A requester never uses a connection it has seen die: after a failure that means a dead connection, or a
  failed connect, its next calls drop and rebuild the connection before anything is put, while a missed
  reply keeps it; and each reply is asked for under the identifier its own request was given.\<close>

theorem requester_protocol:
  "successively (req_follows args) (snd (snd (requester_run args envs fs)))"
proof -
  define q0 where "q0 = \<lparr>rq_held = False, rq_stats = init_stats BUCKETS_MS, rq_files = fs\<rparr>"
  obtain x q cs where st: "stream args 0 envs q0 = (x, q, cs)" by (metis prod_cases3)
  have held: "rq_held q \<longrightarrow> cs \<noteq> [] \<and> leaves True (last cs)" using stream_calls[OF st] by (auto simp: q0_def)
  have "successively (req_follows args) (cs @ (if rq_held q then [Disc] else []))"
    using stream_calls[OF st] held leaves_disc by (auto simp: successively_append_iff)
  then show ?thesis
    using stream_calls[OF st] st by (cases x) (auto simp: requester_run_def q0_def)
qed

end
