(* ===== verification/Bench_Client.thy ===== *)
theory Bench_Client
  imports App_Client
begin

text \<open>
  The benchmark client \<open>mqrc/bench_client.py\<close>: percentiles of the commit latencies, the depth trend, the
  results record, the diagnosis of a window without commits, and the warm-up and measure phases. It uses the
  figures and the metric file of the requester.
\<close>

section \<open>Pure figures\<close>

text \<open>The rank \<open>ceil(p / 100 * n)\<close>, in the float arithmetic of the program.\<close>

definition rank_of :: "rat \<Rightarrow> nat \<Rightarrow> int" where
  "rank_of p n = \<lceil>fl (fl (p / 100) * of_nat n)\<rceil>"

text \<open>Indexing with \<open>rank - 1\<close>: a negative index counts from the end, one outside the list raises.\<close>

definition py_nth :: "'a list \<Rightarrow> int \<Rightarrow> (py_error, 'a) result" where
  "py_nth xs i = (if 0 \<le> i \<and> i < int (length xs) then Inr (xs ! nat i)
     else if i < 0 \<and> - int (length xs) \<le> i then Inr (xs ! nat (int (length xs) + i)) else Inl (ValueErr ''IndexError''))"

definition percentiles :: "rat list \<Rightarrow> rat list \<Rightarrow> (py_error, (rat \<times> rat) list) result" where
  "percentiles samples pcts =
     rbind (ensure (samples \<noteq> []) (ValueErr ''percentiles() requires at least one sample'')) (\<lambda>_.
     let ordered = sort samples in
     foldr_res (\<lambda>p d. rbind (ensure (0 < p \<and> p \<le> 100) (ValueErr ''percentile out of range'')) (\<lambda>_.
       rbind (py_nth ordered (rank_of p (length ordered) - 1)) (\<lambda>v. Inr (AList.update p v d)))) pcts [])"

record Latency =
  lt_p50 :: rat
  lt_p95 :: rat
  lt_p99 :: rat
  lt_max :: rat

definition latency_summary :: "rat list \<Rightarrow> (py_error, Latency) result" where
  "latency_summary samples = rbind (percentiles samples [50, 95, 99]) (\<lambda>pcts.
     Inr \<lparr>lt_p50 = the (map_of pcts 50), lt_p95 = the (map_of pcts 95), lt_p99 = the (map_of pcts 99),
          lt_max = Max (set samples)\<rparr>)"

text \<open>\<open>sum(xs) / len(xs)\<close>.\<close>

definition mean :: "rat list \<Rightarrow> rat" where
  "mean xs = fl (fsum xs / of_nat (length xs))"

definition depth_is_bounded :: "rat list \<Rightarrow> rat \<Rightarrow> rat \<Rightarrow> bool" where
  "depth_is_bounded depths tolerance abs_slack =
     (if length depths < 2 then True
      else let mid = length depths div 2 in
        mean (drop mid depths) \<le> fl (fl (mean (take mid depths) * fl (1 + tolerance)) + abs_slack))"

record BenchRecord =
  br_mode :: string
  br_delay_ms :: rat
  br_msg_size :: int
  br_offered_rate :: rat
  br_achieved_rate :: rat
  br_count :: int
  br_depth_bounded :: bool
  br_latency :: Latency
  br_warmup_seconds :: rat
  br_measure_seconds :: rat
  br_timestamp :: string

record bench_args =
  ba_queue :: string
  ba_msg_size :: int
  ba_offered_rate :: rat
  ba_warmup_seconds :: rat
  ba_measure_seconds :: rat
  ba_count :: int
  ba_results :: string
  ba_textfile :: string
  ba_mode :: string
  ba_delay_ms :: rat

definition results_record :: "bench_args \<Rightarrow> rat list \<Rightarrow> rat list \<Rightarrow> rat \<Rightarrow> string \<Rightarrow> (py_error, BenchRecord) result" where
  "results_record args latencies depths took now = rbind (latency_summary latencies) (\<lambda>lat.
     Inr \<lparr>br_mode = ba_mode args, br_delay_ms = ba_delay_ms args, br_msg_size = ba_msg_size args,
          br_offered_rate = ba_offered_rate args,
          br_achieved_rate = (if 0 < took then fl (of_nat (length latencies) / took) else 0),
          br_count = int (length latencies), br_depth_bounded = depth_is_bounded depths (fl (1 / 10)) 1,
          br_latency = lat, br_warmup_seconds = ba_warmup_seconds args,
          br_measure_seconds = ba_measure_seconds args, br_timestamp = now\<rparr>)"

section \<open>The diagnosis\<close>

definition UNREACHABLE_REASONS :: "int list" where
  "UNREACHABLE_REASONS = RECONNECT_REASONS @ [2537, 2538]"

text \<open>The attributes of the constants module with their values, where those are integers.\<close>

definition reason_names :: "(string \<times> int option) list \<Rightarrow> (int \<times> string) list" where
  "reason_names attrs = fold (\<lambda>(attr, v) d. case v of
       Some k \<Rightarrow> if prefix ''MQRC_'' attr \<and> map_of d k = None then AList.update k attr d else d
     | None \<Rightarrow> d) (sort_key fst attrs) []"

definition fmt_reason :: "(int \<times> string) list \<Rightarrow> int \<Rightarrow> string" where
  "fmt_reason names r = int_str r @ '' '' @ (case map_of names r of None \<Rightarrow> ''MQRC_UNKNOWN'' | Some n \<Rightarrow> n)"

text \<open>\<open>Counter(reasons).most_common()\<close>: by falling count, ties in the order of first appearance.\<close>

definition most_common :: "int list \<Rightarrow> (int \<times> int) list" where
  "most_common rs = sort_key (\<lambda>(r, n). - n) (map (\<lambda>r. (r, int (count_list rs r))) (add_all_new rs []))"

definition NO_COMMITS :: string where
  "NO_COMMITS = ''bench produced NO measured commits''"

datatype diagnosis = NothingAttempted | Unreachable | Refused int int int

text \<open>What the message says: nothing was attempted, the queue manager was unreachable the whole window, or it
  refused, with the most common reason, its count and the last one.\<close>

definition diagnose :: "int list \<Rightarrow> diagnosis" where
  "diagnose rs =
     (if rs = [] then NothingAttempted
      else if \<forall>(r, n) \<in> set (most_common rs). List.member UNREACHABLE_REASONS r then Unreachable
      else case hd (most_common rs) of (c, n) \<Rightarrow> Refused c n (last rs))"

definition no_commits_message :: "int list \<Rightarrow> (int \<times> string) list \<Rightarrow> string" where
  "no_commits_message rs names =
     (let seen = str_join '', '' (map (\<lambda>(r, n). fmt_reason names r @ '' x'' @ int_str n) (most_common rs)) in
      case diagnose rs of
        NothingAttempted \<Rightarrow> NO_COMMITS @ '' -- no commit was attempted in the measure window''
      | Unreachable \<Rightarrow> NO_COMMITS @ '' -- QM unreachable the whole window (connection failures: '' @ seen @ '')''
      | Refused c n l \<Rightarrow> NO_COMMITS @ '' -- the QM refused every commit: most common MQRC '' @ fmt_reason names c
          @ '' (x'' @ int_str n @ '' of '' @ int_str (int (length rs)) @ ''), last MQRC '' @ fmt_reason names l
          @ ''; seen: '' @ seen)"

section \<open>The phases\<close>

record bench_env =
  be_in_time :: bool
  be_connect :: mq_call
  be_open :: mq_call
  be_put :: mq_call
  be_t0 :: rat
  be_commit :: mq_call
  be_t1 :: rat
  be_depth_open :: mq_call
  be_depth :: "int + rat"
  be_depth_close :: mq_call
  be_publish :: publish_env

definition commit_once :: "bench_env \<Rightarrow> bool \<Rightarrow> (int, rat) result \<times> bool" where
  "commit_once env held =
     (case (if held then Done else case be_connect env of Failed r \<Rightarrow> Failed r | Done \<Rightarrow> be_open env) of
        Failed r \<Rightarrow> (Inl r, held)
      | Done \<Rightarrow>
          (case be_put env of
             Failed r \<Rightarrow> (Inl r, True)
           | Done \<Rightarrow>
               (case be_commit env of
                  Failed r \<Rightarrow> (Inl r, True)
                | Done \<Rightarrow> (Inr (fl (fl (be_t1 env - be_t0 env) * 1000)), True))))"

text \<open>The depth of the queue over a handle of its own, closed on every path; a failing close is what is raised.\<close>

definition current_depth :: "bench_env \<Rightarrow> (int, rat) result" where
  "current_depth env =
     (case be_depth_open env of
        Failed r \<Rightarrow> Inl r
      | Done \<Rightarrow> (case be_depth_close env of Failed r \<Rightarrow> Inl r | Done \<Rightarrow> be_depth env))"

record Bench =
  bn_held :: bool
  bn_stats :: RoundTripStats
  bn_reasons :: "int list"
  bn_latencies :: "rat list"
  bn_depths :: "rat list"
  bn_files :: files

definition bench_failed :: "bool \<Rightarrow> int \<Rightarrow> Bench \<Rightarrow> Bench" where
  "bench_failed record r b =
     (let b1 = (if record then b\<lparr>bn_stats := record_failure (bn_stats b), bn_reasons := bn_reasons b @ [r]\<rparr> else b) in
      if is_reconnectable r then b1\<lparr>bn_held := False\<rparr> else b1)"

definition bench_try :: "bool \<Rightarrow> nat \<Rightarrow> bench_env \<Rightarrow> Bench \<Rightarrow> Bench" where
  "bench_try record i env b =
     (case commit_once env (bn_held b) of
        (Inl r, held) \<Rightarrow> bench_failed record r (b\<lparr>bn_held := held\<rparr>)
      | (Inr dt, held) \<Rightarrow>
          let b1 = b\<lparr>bn_held := held\<rparr> in
          if \<not> record then b1
          else let b2 = b1\<lparr>bn_latencies := bn_latencies b @ [dt], bn_stats := record_success dt (bn_stats b)\<rparr> in
            if i mod 100 \<noteq> 0 then b2
            else case current_depth env of
                Inl r \<Rightarrow> bench_failed record r b2
              | Inr d \<Rightarrow> b2\<lparr>bn_depths := bn_depths b2 @ [d]\<rparr>)"

definition bench_turn :: "bench_args \<Rightarrow> bool \<Rightarrow> nat \<Rightarrow> bench_env \<Rightarrow> Bench \<Rightarrow> (py_error, Bench) result" where
  "bench_turn args record i env b =
     (let b1 = bench_try record i env b in
      if record \<and> ba_textfile args \<noteq> []
      then rbind (publish_metrics (be_publish env) (ba_textfile args) (bn_stats b1) (bn_files b1)) (\<lambda>(_, fs).
        Inr (b1\<lparr>bn_files := fs\<rparr>))
      else Inr b1)"

text \<open>One phase; \<open>None\<close> when the turns the outside supplies end before it does.\<close>

definition phase_goes_on :: "int \<Rightarrow> nat \<Rightarrow> bench_env \<Rightarrow> bool" where
  "phase_goes_on count i env \<longleftrightarrow> 0 < count \<and> int i < count \<or> count = 0 \<and> be_in_time env"

fun phase :: "bench_args \<Rightarrow> int \<Rightarrow> bool \<Rightarrow> nat \<Rightarrow> bench_env list \<Rightarrow> Bench \<Rightarrow> (py_error, Bench) result option \<times> nat" where
  "phase args count record i [] b = (if count < 0 \<or> 0 < count \<and> count \<le> int i then Some (Inr b) else None, i)"
| "phase args count record i (env # envs) b =
     (if phase_goes_on count i env
      then case bench_turn args record i env b of
          Inl e \<Rightarrow> (Some (Inl e), i)
        | Inr b' \<Rightarrow> phase args count record (i + 1) envs b'
      else (Some (Inr b), i))"

datatype bench_end =
    NoCommits string
  | Measured BenchRecord int \<comment> \<open>the record and the exit code\<close>
  | BenchRaised py_error
  | Benching

definition bench_start :: "files \<Rightarrow> Bench" where
  "bench_start fs = \<lparr>bn_held = False, bn_stats = init_stats BUCKETS_MS, bn_reasons = [], bn_latencies = [],
     bn_depths = [], bn_files = fs\<rparr>"

definition bench_measured :: "bench_args \<Rightarrow> (int \<times> string) list \<Rightarrow> rat \<Rightarrow> string \<Rightarrow> Bench \<Rightarrow> bench_end" where
  "bench_measured args names took now b =
     (if bn_latencies b = [] then NoCommits (no_commits_message (bn_reasons b) names)
      else case results_record args (bn_latencies b) (bn_depths b) took now of
          Inl e \<Rightarrow> BenchRaised e
        | Inr r \<Rightarrow> Measured r (if rt_failures (bn_stats b) = 0 then 0 else 1))"

text \<open>\<open>run\<close> over the turns of the warm-up and of the measure window, with the readings around the latter; the
  lines of the results file are returned, the old ones kept.\<close>

definition bench_run ::
  "bench_args \<Rightarrow> (string \<times> int option) list \<Rightarrow> bench_env list \<Rightarrow> bench_env list \<Rightarrow> rat \<Rightarrow> rat \<Rightarrow> string \<Rightarrow> files
     \<Rightarrow> BenchRecord list \<Rightarrow> bench_end \<times> BenchRecord list" where
  "bench_run args attrs warm meas t0 t1 now fs results =
     (case fst (phase args 0 False 0 warm (bench_start fs)) of
        None \<Rightarrow> (Benching, results)
      | Some (Inl e) \<Rightarrow> (BenchRaised e, results)
      | Some (Inr b) \<Rightarrow>
          (case fst (phase args (ba_count args) True 0 meas b) of
             None \<Rightarrow> (Benching, results)
           | Some (Inl e) \<Rightarrow> (BenchRaised e, results)
           | Some (Inr b') \<Rightarrow>
               (let x = bench_measured args (reason_names attrs) (fl (t1 - t0)) now b' in
                (x, case x of Measured r _ \<Rightarrow> (if ba_results args \<noteq> [] then results @ [r] else results) | _ \<Rightarrow> results))))"

section \<open>Percentiles are nearest ranks\<close>

text \<open>Rounding never falls below a binary fraction that is itself representable.\<close>

lemma half_even_ge: "of_int m \<le> q \<Longrightarrow> m \<le> half_even q"
proof -
  assume "of_int m \<le> q"
  then have "m \<le> \<lfloor>q\<rfloor>" by linarith
  then show ?thesis by (auto simp: half_even_def Let_def)
qed

lemma fl_ge_fraction:
  assumes "0 < x" and "of_int m / 2 ^ k \<le> x" and "x < 2 ^ j" and "j + k = 53"
  shows "of_int m / 2 ^ k \<le> fl x"
proof -
  define e where "e = max (ilog2 \<bar>x\<bar>) (- 1022)"
  define u where "u = pow2 (e - 52)"
  have fl: "fl x = of_int (half_even (x / u)) * u" using assms(1) by (simp add: fl_def u_def e_def Let_def)
  have e_le: "e \<le> 52 - int k"
  proof (rule ccontr)
    assume "\<not> e \<le> 52 - int k"
    then have "int j \<le> ilog2 x" using assms(1,4) by (simp add: e_def)
    then have "pow2 (int j) \<le> x" using pow2_mono[of "int j" "ilog2 x"] ilog2_lower[of x] assms(1) by simp
    with assms(3) show False by (simp add: pow2_int)
  qed
  define c where "c = nat (52 - e)"
  have e: "e - 52 = int 0 - int c" and k: "k \<le> c" using e_le by (simp_all add: c_def)
  have uc: "u = 1 / 2 ^ c" unfolding u_def e pow2_diff by simp
  have pc: "(2 :: rat) ^ c = 2 ^ k * 2 ^ (c - k)" using k by (simp flip: power_add)
  have "of_int (m * 2 ^ (c - k)) \<le> x / u" using assms(2) by (simp add: uc pc field_simps)
  then have "m * 2 ^ (c - k) \<le> half_even (x / u)" by (rule half_even_ge)
  then have "of_int (m * 2 ^ (c - k)) \<le> (of_int (half_even (x / u)) :: rat)" by (simp only: of_int_le_iff)
  then have "of_int (m * 2 ^ (c - k)) * u \<le> fl x" unfolding fl by (rule mult_right_mono) (simp add: uc)
  moreover have "of_int (m * 2 ^ (c - k)) * u = of_int m / 2 ^ k" by (simp add: uc pc)
  ultimately show ?thesis by simp
qed

lemma hundredths:
  assumes "p \<in> {50, 95, 99 :: nat}"
  shows "fl (of_nat p / 100) \<le> of_nat p / 100 \<and> of_nat p / 100 - 1 / 2 ^ 53 \<le> fl (of_nat p / 100)"
proof -
  have "fl (50 / 100) \<le> 50 / 100 \<and> 50 / 100 - 1 / 2 ^ 53 \<le> fl (50 / 100)"
    and "fl (95 / 100) \<le> 95 / 100 \<and> 95 / 100 - 1 / 2 ^ 53 \<le> fl (95 / 100)"
    and "fl (99 / 100) \<le> 99 / 100 \<and> 99 / 100 - 1 / 2 ^ 53 \<le> fl (99 / 100)" by code_simp+
  with assms show ?thesis by auto
qed

text \<open>For these three the float rank is the exact one, for every window that fits a memory.\<close>

lemma rank_exact:
  assumes "p \<in> {50, 95, 99 :: nat}" and "0 < n" and "n < 2 ^ 45"
  shows "rank_of (of_nat p) n = \<lceil>(of_nat (p * n) / 100 :: rat)\<rceil>"
proof -
  define k where "k = \<lceil>(of_nat (p * n) / 100 :: rat)\<rceil>"
  define w where "w = fl (of_nat p / 100)"
  define x where "x = w * of_nat n"
  have p: "0 < p" "p \<le> 100" using assms(1) by auto
  have w: "w \<le> of_nat p / 100" "of_nat p / 100 - 1 / 2 ^ 53 \<le> w" using hundredths[OF assms(1)] by (simp_all add: w_def)
  have n: "(of_nat n :: rat) < 2 ^ 45" using assms(3) by (metis of_nat_less_iff of_nat_numeral of_nat_power)
  have "(0 :: rat) < 1 / 2 - 1 / 2 ^ 53" by simp
  also have "(1 / 2 - 1 / 2 ^ 53 :: rat) \<le> w" using w(2) assms(1) by auto
  finally have "0 < x" using assms(2) by (simp add: x_def)
  have up: "x \<le> of_nat (p * n) / 100" using w(1) assms(2) by (simp add: x_def field_simps)
  have k_up: "of_nat (p * n) / 100 \<le> (of_int k :: rat)" by (simp add: k_def)
  have "(of_nat (p * n) / 100 :: rat) \<le> of_nat n" using assms(1) by auto
  then have k_n: "k \<le> int n" and xn: "x \<le> of_nat n" using up by (simp_all add: k_def ceiling_le_iff)
  have "fl x \<le> of_int k" using \<open>0 < x\<close> up k_up k_n assms(3) by (intro fl_le_int) auto
  then have le: "\<lceil>fl x\<rceil> \<le> k" by (simp add: ceiling_le_iff)
  have "of_int (k - 1) < (of_nat (p * n) / 100 :: rat)" unfolding k_def by linarith
  then have "of_int (100 * (k - 1)) < (of_int (int (p * n)) :: rat)" by (simp add: field_simps)
  then have "100 * (k - 1) + 1 \<le> int (p * n)" by (simp only: of_int_less_iff)
  then have "of_int (100 * (k - 1) + 1) \<le> (of_int (int (p * n)) :: rat)" by (simp only: of_int_le_iff)
  then have a: "of_int (k - 1) + 1 / 100 \<le> (of_nat (p * n) / 100 :: rat)" by (simp add: field_simps)
  have "(of_nat p / 100 - 1 / 2 ^ 53) * of_nat n \<le> x" unfolding x_def using w(2) by (rule mult_right_mono) simp
  then have "of_nat (p * n) / 100 - of_nat n / 2 ^ 53 \<le> x" by (simp add: field_simps)
  moreover have "(of_nat n :: rat) / 2 ^ 53 \<le> 1 / 256" using n by simp
  ultimately have "of_int (k - 1) + 1 / 256 \<le> x" using a by simp
  then have "of_int (256 * (k - 1) + 1) / 2 ^ 8 \<le> x" by (simp add: field_simps)
  then have "of_int (256 * (k - 1) + 1) / 2 ^ 8 \<le> fl x"
    using \<open>0 < x\<close> xn n by (intro fl_ge_fraction[where j = 45]) auto
  then have "of_int (k - 1) < fl x" by (simp add: field_simps)
  then have "k \<le> \<lceil>fl x\<rceil>" by linarith
  with le show ?thesis by (simp add: rank_of_def k_def x_def w_def)
qed

text \<open>At a position of a sorted list: how many are at most the element there, and how many below it.\<close>

lemma sorted_counts:
  assumes "sorted xs" and "i < length xs"
  shows "i < length (filter (\<lambda>v. v \<le> xs ! i) xs)" and "length (filter (\<lambda>v. v < xs ! i) xs) \<le> i"
proof -
  have "{..i} \<subseteq> {j. j < length xs \<and> xs ! j \<le> xs ! i}" using assms by (auto simp: sorted_nth_mono)
  then have "card {..i} \<le> card {j. j < length xs \<and> xs ! j \<le> xs ! i}" by (intro card_mono) auto
  then show "i < length (filter (\<lambda>v. v \<le> xs ! i) xs)" by (simp add: length_filter_conv_card)
  have "{j. j < length xs \<and> xs ! j < xs ! i} \<subseteq> {..<i}"
    using assms by (auto simp: not_le[symmetric]) (meson leI le_less_linear sorted_nth_mono)
  then have "card {j. j < length xs \<and> xs ! j < xs ! i} \<le> card {..<i}" by (intro card_mono) auto
  then show "length (filter (\<lambda>v. v < xs ! i) xs) \<le> i" by (simp add: length_filter_conv_card)
qed

text \<open>The nearest rank: at least \<open>p\<close> percent of the samples are at most the value, fewer are below it.\<close>

definition nearest_rank :: "nat \<Rightarrow> rat list \<Rightarrow> rat \<Rightarrow> bool" where
  "nearest_rank p samples v \<longleftrightarrow> v \<in> set samples
     \<and> p * length samples \<le> 100 * length (filter (\<lambda>x. x \<le> v) samples)
     \<and> 100 * length (filter (\<lambda>x. x < v) samples) < p * length samples"

lemma rank_value:
  assumes "p \<in> {50, 95, 99 :: nat}" and "samples \<noteq> []" and "length samples < 2 ^ 45"
  shows "\<exists>v. py_nth (sort samples) (rank_of (of_nat p) (length samples) - 1) = Inr v \<and> nearest_rank p samples v"
proof -
  define n where "n = length samples"
  define k where "k = \<lceil>(of_nat (p * n) / 100 :: rat)\<rceil>"
  have n: "0 < n" "n < 2 ^ 45" using assms(2,3) by (simp_all add: n_def)
  have rank: "rank_of (of_nat p) n = k" using rank_exact[OF assms(1) n] by (simp add: k_def)
  have pos: "(0 :: rat) < of_nat (p * n) / 100" using n(1) assms(1) by auto
  then have k1: "1 \<le> k" unfolding k_def by linarith
  have "(of_nat (p * n) / 100 :: rat) \<le> of_nat n" using assms(1) by auto
  then have kn: "k \<le> int n" by (simp add: k_def ceiling_le_iff)
  define i where "i = nat (k - 1)"
  have i: "i < length (sort samples)" "k = int i + 1" using k1 kn by (simp_all add: i_def n_def)
  have at: "py_nth (sort samples) (rank_of (of_nat p) (length samples) - 1) = Inr (sort samples ! i)"
  proof -
    have "py_nth (sort samples) (k - 1) = Inr (sort samples ! nat (k - 1))" using k1 kn by (simp add: py_nth_def n_def)
    then show ?thesis unfolding rank[unfolded n_def] i_def .
  qed
  have cnt: "length (filter P (sort samples)) = length (filter P samples)" for P
    by (simp add: filter_sort)
  have "(of_nat (p * n) / 100 :: rat) \<le> of_int k" "of_int (k - 1) < (of_nat (p * n) / 100 :: rat)"
    unfolding k_def by linarith+
  then have "of_int (int (p * n)) \<le> (of_int (100 * k) :: rat)" "of_int (100 * (k - 1)) < (of_int (int (p * n)) :: rat)"
    by (simp_all add: field_simps)
  then have bounds: "int (p * n) \<le> 100 * k" "100 * (k - 1) < int (p * n)"
    by (simp_all only: of_int_le_iff of_int_less_iff)
  define v where "v = sort samples ! i"
  define hi where "hi = length (filter (\<lambda>x. x \<le> v) samples)"
  define lo where "lo = length (filter (\<lambda>x. x < v) samples)"
  define w where "w = p * n"
  have "v \<in> set samples" using nth_mem[OF i(1)] by (simp add: v_def)
  have "i < hi" "lo \<le> i" using sorted_counts[OF sorted_sort i(1)] unfolding cnt hi_def lo_def v_def by blast+
  moreover have "int w \<le> int (100 * (i + 1))" "int (100 * i) < int w" using bounds i(2) by (simp_all add: w_def)
  then have "w \<le> 100 * (i + 1)" "100 * i < w" by (simp_all only: of_nat_le_iff of_nat_less_iff)
  ultimately have "w \<le> 100 * hi" "100 * lo < w" by simp_all
  with \<open>v \<in> set samples\<close> have "nearest_rank p samples (sort samples ! i)"
    unfolding nearest_rank_def n_def[symmetric] v_def[symmetric] w_def hi_def lo_def by blast
  with at show ?thesis by blast
qed

text \<open>C40: The percentiles of a benchmark record are the nearest ranks: each is a measured latency that at least that
  share of the window does not exceed and fewer stay below, with no error from computing the rank in
  floating point; the maximum is the largest latency; an empty window raises.\<close>

theorem latency_summary_exact:
  assumes "samples \<noteq> []" and "length samples < 2 ^ 45"
  shows "latency_summary [] = Inl (ValueErr ''percentiles() requires at least one sample'')
    \<and> (\<exists>l. latency_summary samples = Inr l \<and> nearest_rank 50 samples (lt_p50 l) \<and> nearest_rank 95 samples (lt_p95 l)
         \<and> nearest_rank 99 samples (lt_p99 l) \<and> lt_max l \<in> set samples \<and> (\<forall>v \<in> set samples. v \<le> lt_max l))"
proof -
  obtain a b c where v:
    "py_nth (sort samples) (rank_of 50 (length samples) - 1) = Inr a" "nearest_rank 50 samples a"
    "py_nth (sort samples) (rank_of 95 (length samples) - 1) = Inr b" "nearest_rank 95 samples b"
    "py_nth (sort samples) (rank_of 99 (length samples) - 1) = Inr c" "nearest_rank 99 samples c"
    using rank_value[OF _ assms, of 50] rank_value[OF _ assms, of 95] rank_value[OF _ assms, of 99] by auto
  have "percentiles samples [50, 95, 99] = Inr [(50, a), (95, b), (99, c)]"
    using assms(1) v by (simp add: percentiles_def ensure_def rbind_simps Let_def)
  then have "latency_summary samples = Inr \<lparr>lt_p50 = a, lt_p95 = b, lt_p99 = c, lt_max = Max (set samples)\<rparr>"
    by (simp add: latency_summary_def rbind_simps)
  with v assms(1) show ?thesis by (simp add: latency_summary_def percentiles_def ensure_def rbind_simps)
qed

theorem latency_summary_exact_witness:
  "\<exists>l. latency_summary [3, 1, 2] = Inr l \<and> lt_max l = 3 \<and> nearest_rank 50 [3, 1, 2] (lt_p50 l) \<and> lt_p50 l = 2"
proof -
  from latency_summary_exact[of "[3, 1, 2]"] obtain l where l: "latency_summary [3, 1, 2] = Inr l"
    "nearest_rank 50 [3, 1, 2] (lt_p50 l)" "lt_max l \<in> {3, 1, 2}" "\<forall>v \<in> {3, 1, 2}. v \<le> lt_max l" by auto
  then have "lt_max l = 3" by force
  moreover have "lt_p50 l = 2" using l(2) by (auto simp: nearest_rank_def)
  ultimately show ?thesis using l by blast
qed

section \<open>What a window accounts for\<close>

lemma successes_record [simp]:
  "successes (record_success dt s) = successes s + 1" "successes (record_failure s) = successes s"
  "rt_failures (record_success dt s) = rt_failures s" "rt_failures (record_failure s) = rt_failures s + 1"
  "rt_total (record_success dt s) = rt_total s + 1" "rt_total (record_failure s) = rt_total s + 1"
  by (simp_all add: successes_def record_success_def record_failure_def)

definition accounts :: "Bench \<Rightarrow> bool" where
  "accounts b \<longleftrightarrow> successes (bn_stats b) = int (length (bn_latencies b))
     \<and> rt_failures (bn_stats b) = int (length (bn_reasons b))"

lemma bench_try_accounts:
  assumes "accounts b"
  shows "accounts (bench_try True i env b)
    \<and> rt_total (bn_stats (bench_try True i env b)) = rt_total (bn_stats b)
        + (if i mod 100 = 0 \<and> \<not> isl (fst (commit_once env (bn_held b))) \<and> isl (current_depth env) then 2 else 1)"
  using assms
  by (auto simp: bench_try_def bench_failed_def accounts_def Let_def split: sum.splits prod.splits)

lemma bench_turn_accounts:
  assumes "bench_turn args True i env b = Inr b'" and "accounts b"
  shows "accounts b' \<and> rt_total (bn_stats b) + 1 \<le> rt_total (bn_stats b')
    \<and> rt_total (bn_stats b') \<le> rt_total (bn_stats b) + (if i mod 100 = 0 then 2 else 1)"
proof -
  from assms(1) have "bn_stats b' = bn_stats (bench_try True i env b)" "bn_latencies b' = bn_latencies (bench_try True i env b)"
    "bn_reasons b' = bn_reasons (bench_try True i env b)"
    by (auto simp: bench_turn_def Let_def rbind_eq_Inr split: if_splits)
  with bench_try_accounts[OF assms(2), of i env] show ?thesis by (auto simp: accounts_def)
qed

lemma hundreds: "((i :: nat) + 1 + 99) div 100 = (i + 99) div 100 + (if i mod 100 = 0 then 1 else 0)"
proof -
  define q r where "q = i div 100" and "r = i mod 100"
  have i: "i = 100 * q + r" "r < 100" by (simp_all add: q_def r_def)
  have "(i + 99) div 100 = (if r = 0 then q else q + 1)"
  proof (cases "r = 0")
    case False
    then have "(i + 99) div 100 = q + 1" using i by (intro div_nat_eqI) simp_all
    with False show ?thesis by simp
  qed (simp add: i)
  moreover have "(i + 1 + 99) div 100 = q + 1" using i by (intro div_nat_eqI) simp_all
  ultimately show ?thesis by (simp add: r_def)
qed

lemma phase_accounts:
  assumes "phase args count True i envs b = (Some (Inr b'), n)" and "accounts b"
  shows "accounts b' \<and> i \<le> n \<and> (0 < count \<longrightarrow> int i \<le> count \<longrightarrow> int n = count)
    \<and> rt_total (bn_stats b) + int (n - i) \<le> rt_total (bn_stats b')
    \<and> rt_total (bn_stats b') \<le> rt_total (bn_stats b) + int (n - i) + int ((n + 99) div 100) - int ((i + 99) div 100)"
  using assms
proof (induction envs arbitrary: i b)
  case Nil
  then show ?case by (auto split: if_splits)
next
  case (Cons env envs)
  show ?case
  proof (cases "phase_goes_on count i env")
    case True
    with Cons.prems(1) obtain b1 where t: "bench_turn args True i env b = Inr b1"
      "phase args count True (i + 1) envs b1 = (Some (Inr b'), n)" by (auto split: sum.splits)
    note step = bench_turn_accounts[OF t(1) Cons.prems(2)]
    from step have a1: "accounts b1" by blast
    from True have bound: "0 < count \<longrightarrow> int (i + 1) \<le> count" by (auto simp: phase_goes_on_def)
    note carry = hundreds[of i]
    note all = Cons.IH[OF t(2) a1]
    note rest = all[THEN conjunct2] note rest2 = rest[THEN conjunct2] note rest3 = rest2[THEN conjunct2]
    have ih: "accounts b'" "i + 1 \<le> n" "0 < count \<longrightarrow> int n = count"
      using all[THEN conjunct1] rest[THEN conjunct1] rest2[THEN conjunct1] bound by blast+
    have ih45: "rt_total (bn_stats b1) + int (n - (i + 1)) \<le> rt_total (bn_stats b')"
      "rt_total (bn_stats b') \<le> rt_total (bn_stats b1) + int (n - (i + 1)) + int ((n + 99) div 100) - int ((i + 1 + 99) div 100)"
      by (rule rest3[THEN conjunct1], rule rest3[THEN conjunct2])
    have len: "int (n - i) = int (n - (i + 1)) + 1" using ih(2) by simp
    have low: "rt_total (bn_stats b) + int (n - i) \<le> rt_total (bn_stats b')" using ih45(1) step len by linarith
    have high: "rt_total (bn_stats b') \<le> rt_total (bn_stats b) + int (n - i) + int ((n + 99) div 100) - int ((i + 99) div 100)"
    proof (cases "i mod 100 = 0")
      case True
      with carry have "int ((i + 1 + 99) div 100) = int ((i + 99) div 100) + 1" by simp
      with ih45(2) step len True show ?thesis by simp
    next
      case False
      with carry have "int ((i + 1 + 99) div 100) = int ((i + 99) div 100)" by simp
      with ih45(2) step len False show ?thesis by simp
    qed
    show ?thesis using ih low high by simp
  next
    case False
    with Cons.prems show ?thesis by (auto simp: phase_goes_on_def)
  qed
qed

text \<open>A measure window accounts for every attempt: the latencies are as many as the counted successes and the
  reasons as many as the counted failures. An attempt is counted once, except that a commit whose depth reading
  failed is counted as a success and as a failure, at most once in a hundred attempts; a bounded window makes
  exactly the asked number of attempts.\<close>

lemma bench_window_accounts:
  assumes "phase args count True 0 envs b = (Some (Inr b'), n)" and "accounts b" and "rt_total (bn_stats b) = 0"
  shows "accounts b' \<and> int n \<le> rt_total (bn_stats b') \<and> rt_total (bn_stats b') \<le> int n + int ((n + 99) div 100)
    \<and> (0 < count \<longrightarrow> int n = count)"
  using phase_accounts[OF assms(1,2)] assms(3) by auto

definition sample_bench_env :: bench_env where
  "sample_bench_env = \<lparr>be_in_time = True, be_connect = Done, be_open = Done, be_put = Done, be_t0 = 0, be_commit = Done,
     be_t1 = 1 / 64, be_depth_open = Failed 2035, be_depth = Inr 0, be_depth_close = Done, be_publish = quiet_publish\<rparr>"

definition sample_bench_args :: bench_args where
  "sample_bench_args = \<lparr>ba_queue = ''Q'', ba_msg_size = 1, ba_offered_rate = 0, ba_warmup_seconds = 0, ba_measure_seconds = 0,
     ba_count = 1, ba_results = [], ba_textfile = [], ba_mode = ''async'', ba_delay_ms = 0\<rparr>"

text \<open>One committed message and a refused depth inquiry: two round trips in the figures, and the exit code of a failure.\<close>

lemma depth_failure_counted_twice:
  "case fst (phase sample_bench_args 1 True 0 [sample_bench_env] (bench_start [])) of
     Some (Inr b) \<Rightarrow> rt_total (bn_stats b) = 2 \<and> rt_failures (bn_stats b) = 1 \<and> length (bn_latencies b) = 1
   | _ \<Rightarrow> False"
  by code_simp

section \<open>The diagnosis is exact\<close>

lemma most_common_set: "(r, n) \<in> set (most_common rs) \<longleftrightarrow> r \<in> set rs \<and> n = int (count_list rs r)"
  by (auto simp: most_common_def)

lemma most_common_hd:
  assumes "rs \<noteq> []"
  shows "\<exists>c. hd (most_common rs) = (c, int (count_list rs c)) \<and> c \<in> set rs \<and> (\<forall>r. count_list rs r \<le> count_list rs c)"
proof -
  obtain c n us where m: "most_common rs = (c, n) # us"
    using assms most_common_set[of "hd rs" "int (count_list rs (hd rs))" rs] by (cases "most_common rs") auto
  then have c: "c \<in> set rs" "n = int (count_list rs c)" using most_common_set[of c n rs] by simp_all
  have "sorted (map (\<lambda>(r, n). - n) (most_common rs))" by (simp add: most_common_def)
  then have top: "n' \<le> n" if "(r, n') \<in> set us" for r n' using that by (auto simp: m)
  have "count_list rs r \<le> count_list rs c" for r
  proof (cases "r \<in> set rs")
    case True
    then have "(r, int (count_list rs r)) \<in> set (most_common rs)" by (simp add: most_common_set)
    with top[of r "int (count_list rs r)"] c(2) show ?thesis by (auto simp: m)
  qed simp
  with c m show ?thesis by simp
qed

text \<open>An empty window is called unreachable exactly when something failed and every failure was one of the
  connection; otherwise the reason named is one of the most frequent, with its count, and the last is the last.\<close>

lemma diagnose_exact:
  "(diagnose rs = NothingAttempted \<longleftrightarrow> rs = [])
   \<and> (diagnose rs = Unreachable \<longleftrightarrow> rs \<noteq> [] \<and> set rs \<subseteq> set UNREACHABLE_REASONS)
   \<and> (\<forall>c n l. diagnose rs = Refused c n l \<longrightarrow> n = int (count_list rs c) \<and> 0 < n
        \<and> (\<forall>r. count_list rs r \<le> count_list rs c) \<and> l = last rs)"
proof (cases "rs = []")
  case False
  from most_common_hd[OF False] obtain c where c: "hd (most_common rs) = (c, int (count_list rs c))" "c \<in> set rs"
    "\<forall>r. count_list rs r \<le> count_list rs c" by blast
  have "(\<forall>(r, n) \<in> set (most_common rs). List.member UNREACHABLE_REASONS r) \<longleftrightarrow> set rs \<subseteq> set UNREACHABLE_REASONS"
    by (auto simp: most_common_set)
  moreover have "0 < count_list rs c" using c(2) by (simp add: count_list_0_iff flip: neq0_conv)
  ultimately show ?thesis using False c by (auto simp: diagnose_def)
qed (simp add: diagnose_def)

end
