(* ===== verification/Svc_Client.thy ===== *)
theory Svc_Client
  imports DR_MQI
begin

text \<open>
  The counterparty's service \<open>mqrc/svc_responder.py\<close> and the single-shot probes \<open>mqrc/dlq_probe.py\<close>,
  \<open>mqrc/authz_probe.py\<close> and \<open>mqrc/reconnect_probe.py\<close>. Outcomes of MQI calls and the clock are arguments; a
  definition returns the calls it made. What the queue manager makes of a sequence of calls under syncpoint is
  the function \<open>settle\<close>: a commit completes the open unit of work, a backout drops it, and a normal
  disconnect completes it as well.
\<close>

section \<open>The service\<close>

record SvcMD = MD +
  ReplyToQ :: mqchars
  ReplyToQMgr :: mqchars

datatype svc_call =
    SvcGet string SvcMD
  | SvcReply mqchars mqchars string string mq_call \<comment> \<open>queue, queue manager, CorrelId, payload\<close>
  | SvcDlq mqi \<comment> \<open>a call of the dead-letter move\<close>
  | SvcCommit mq_call
  | SvcBackout mq_call
  | SvcDisc mq_call

definition MQRC_MISSING_REPLY_TO_Q :: int where
  "MQRC_MISSING_REPLY_TO_Q = 2027"

definition SVC_WHO :: string where
  "SVC_WHO = ''svc-responder''"

record svc_env =
  v_in_time :: bool
  v_get :: "int + (string \<times> SvcMD)"
  v_dl :: dl_env
  v_open :: mq_call
  v_put :: mq_call
  v_close :: mq_call
  v_commit :: mq_call

definition svc_commit :: "svc_env \<Rightarrow> svc_call list \<Rightarrow> exit \<times> svc_call list" where
  "svc_commit env cs = (case v_commit env of
     Done \<Rightarrow> (Running, cs @ [SvcCommit Done])
   | Failed r \<Rightarrow> (Raised (MQMIError r), cs @ [SvcCommit (Failed r)]))"

text \<open>A request without a reply queue is moved to the dead-letter queue; any other one is answered on the queue
  and queue manager it names.\<close>

definition svc_unanswerable :: "string \<Rightarrow> string \<Rightarrow> MD \<Rightarrow> svc_env \<Rightarrow> string \<Rightarrow> SvcMD \<Rightarrow> exit \<times> svc_call list" where
  "svc_unanswerable qm in_queue md0 env body md =
     (case dead_letter (v_dl env) md0 qm in_queue (MD.truncate md) body MQRC_MISSING_REPLY_TO_Q SVC_WHO of
        (Inl e, cs) \<Rightarrow> (Raised e, SvcGet body md # map SvcDlq cs)
      | (Inr _, cs) \<Rightarrow> svc_commit env (SvcGet body md # map SvcDlq cs))"

definition svc_answer :: "svc_env \<Rightarrow> string \<Rightarrow> SvcMD \<Rightarrow> exit \<times> svc_call list" where
  "svc_answer env body md =
     (let reply = SvcReply (ReplyToQ md) (ReplyToQMgr md) (MsgId md) (''REPLY:'' @ body) (v_put env) in
      case v_open env of
        Failed r \<Rightarrow> (Raised (MQMIError r), [SvcGet body md])
      | Done \<Rightarrow>
          (case v_put env of
             Failed r \<Rightarrow> (Raised (MQMIError r), [SvcGet body md, reply])
           | Done \<Rightarrow>
               (case v_close env of
                  Failed r \<Rightarrow> (Raised (MQMIError r), [SvcGet body md, reply])
                | Done \<Rightarrow> svc_commit env [SvcGet body md, reply])))"

definition svc_turn :: "string \<Rightarrow> string \<Rightarrow> MD \<Rightarrow> svc_env \<Rightarrow> exit \<times> svc_call list" where
  "svc_turn qm in_queue md0 env =
     (if \<not> v_in_time env then (Finished, [])
      else case v_get env of
        Inl r \<Rightarrow> (if r = MQRC_NO_MSG_AVAILABLE then Running else Raised (MQMIError r), [])
      | Inr (body, md) \<Rightarrow>
          if mqchar (ReplyToQ md) = [] then svc_unanswerable qm in_queue md0 env body md else svc_answer env body md)"

fun svc_loop :: "string \<Rightarrow> string \<Rightarrow> MD \<Rightarrow> svc_env list \<Rightarrow> exit \<times> svc_call list" where
  "svc_loop qm in_queue md0 [] = (Running, [])"
| "svc_loop qm in_queue md0 (env # envs) =
     (case svc_turn qm in_queue md0 env of
        (Running, cs) \<Rightarrow> (case svc_loop qm in_queue md0 envs of (x, cs') \<Rightarrow> (x, cs @ cs'))
      | (x, cs) \<Rightarrow> (x, cs))"

text \<open>\<open>serve\<close>: the connection and the input queue are opened outside the handler; every exception from the loop
  backs the unit of work out before the disconnect.\<close>

record svc_start =
  vs_connect :: mq_call
  vs_open :: mq_call
  vs_backout :: mq_call
  vs_disconnect :: mq_call

definition svc_serve :: "string \<Rightarrow> string \<Rightarrow> MD \<Rightarrow> svc_start \<Rightarrow> svc_env list \<Rightarrow> exit \<times> svc_call list" where
  "svc_serve qm in_queue md0 start envs =
     (case vs_connect start of
        Failed r \<Rightarrow> (Raised (MQMIError r), [])
      | Done \<Rightarrow>
          (case vs_open start of
             Failed r \<Rightarrow> (Raised (MQMIError r), [])
           | Done \<Rightarrow>
               (case svc_loop qm in_queue md0 envs of
                  (Running, cs) \<Rightarrow> (Running, cs)
                | (x, cs) \<Rightarrow>
                    (let x' = (case vs_disconnect start of Done \<Rightarrow> x | Failed r \<Rightarrow> Raised (MQMIError r)) in
                     (x', cs @ (case x of Raised _ \<Rightarrow> [SvcBackout (vs_backout start)] | _ \<Rightarrow> []) @ [SvcDisc (vs_disconnect start)])))))"

text \<open>\<open>main\<close>: 0 after a bounded run, 1 after an MQI error or without a dead-letter queue.\<close>

definition svc_main :: "string \<Rightarrow> string \<Rightarrow> MD \<Rightarrow> svc_start \<Rightarrow> svc_env list \<Rightarrow> (client_error, int) result option" where
  "svc_main qm in_queue md0 start envs =
     (case fst (svc_serve qm in_queue md0 start envs) of
        Running \<Rightarrow> None
      | Finished \<Rightarrow> Some (Inr 0)
      | Raised (MQMIError r) \<Rightarrow> Some (Inr 1)
      | Raised NoDeadLetterQueueError \<Rightarrow> Some (Inr 1)
      | Raised e \<Rightarrow> Some (Inl e))"

section \<open>Units of work\<close>

text \<open>What became of a request in a completed unit of work.\<close>

datatype fate = Answered mqchars mqchars string string | DeadLettered string string

type_synonym unit_of_work = "(string \<times> SvcMD) list \<times> fate list"

fun work_step :: "svc_call \<Rightarrow> unit_of_work \<Rightarrow> unit_of_work" where
  "work_step (SvcGet b md) u = (fst u @ [(b, md)], snd u)"
| "work_step (SvcReply q m c p Done) u = (fst u, snd u @ [Answered q m c p])"
| "work_step (SvcDlq (MqDlqPut n d b Done)) u = (fst u, snd u @ [DeadLettered n b])"
| "work_step _ u = u"

text \<open>The units the queue manager completes. Whether a failed commit completed its unit is not known to the
  client: \<open>doubt\<close> decides it.\<close>

fun settle :: "bool \<Rightarrow> svc_call list \<Rightarrow> unit_of_work \<Rightarrow> unit_of_work list" where
  "settle doubt [] u = []"
| "settle doubt (SvcCommit Done # cs) u = u # settle doubt cs ([], [])"
| "settle doubt (SvcCommit (Failed r) # cs) u = (if doubt then u # settle doubt cs ([], []) else settle doubt cs u)"
| "settle doubt (SvcBackout Done # cs) u = settle doubt cs ([], [])"
| "settle doubt (SvcBackout (Failed r) # cs) u = settle doubt cs u"
| "settle doubt (SvcDisc Done # cs) u = u # settle doubt cs ([], [])"
| "settle doubt (c # cs) u = settle doubt cs (work_step c u)"

text \<open>A completed unit is empty or holds one request and what it got: an answer to its own queue under its own
  identifier, or its dead-letter copy when it named no queue.\<close>

definition disposed :: "unit_of_work \<Rightarrow> bool" where
  "disposed u \<longleftrightarrow> u = ([], []) \<or> (\<exists>b md.
     fst u = [(b, md)]
     \<and> (if mqchar (ReplyToQ md) = [] then \<exists>n h. n \<noteq> [] \<and> snd u = [DeadLettered n (h @ b)]
        else snd u = [Answered (ReplyToQ md) (ReplyToQMgr md) (MsgId md) (''REPLY:'' @ b)]))"

lemma disposed_empty [simp]: "disposed ([], [])"
  by (simp add: disposed_def)

lemma disposed_dead [simp]:
  "mqchar (ReplyToQ md) = [] \<Longrightarrow> n \<noteq> [] \<Longrightarrow> disposed ([(b, md)], [DeadLettered n (h @ b)])"
  unfolding disposed_def by auto

lemma disposed_answer:
  "mqchar (ReplyToQ md) \<noteq> [] \<Longrightarrow> disposed ([(b, md)], [Answered (ReplyToQ md) (ReplyToQMgr md) (MsgId md) (''REPLY:'' @ b)])"
  unfolding disposed_def by auto

lemmas disposed_answered [simp] = disposed_answer[simplified]

lemma svc_unanswerable_settles:
  assumes "svc_unanswerable qm q md0 env body md = (x, cs)" and "mqchar (ReplyToQ md) = []"
  shows "(x = Running \<longrightarrow> (\<exists>u. disposed u \<and> (\<forall>rest. settle doubt (cs @ rest) ([], []) = u # settle doubt rest ([], []))))
    \<and> (x \<noteq> Running \<longrightarrow> x \<noteq> Finished \<and> (\<forall>u \<in> set (settle doubt (cs @ [SvcBackout Done, SvcDisc d]) ([], [])). disposed u))"
proof -
  obtain r ds where dl: "dead_letter (v_dl env) md0 qm q (MD.truncate md) body MQRC_MISSING_REPLY_TO_Q SVC_WHO = (r, ds)" by fastforce
  show ?thesis
  proof (cases r)
    case (Inl e)
    from dl have "ds = [] \<or> (\<exists>n m b ans. ds = [MqDlqPut n m b ans])"
      by (auto simp: dead_letter_def Let_def split: sum.splits mq_call.splits if_splits)
    with assms(1) dl Inl show ?thesis
      by (cases d) (auto simp: svc_unanswerable_def split: mq_call.splits)
  next
    case (Inr un)
    with dl have "dead_letter (v_dl env) md0 qm q (MD.truncate md) body MQRC_MISSING_REPLY_TO_Q SVC_WHO = (Inr (), ds)" by simp
    from dead_letter_ok[OF this] obtain n m h where "n \<noteq> []" "ds = [MqDlqPut n m (h @ body) Done]" by blast
    with assms dl Inr show ?thesis
      by (cases d; cases doubt) (auto simp: svc_unanswerable_def svc_commit_def split: mq_call.splits)
  qed
qed

lemma svc_answer_settles:
  assumes "svc_answer env body md = (x, cs)" and "mqchar (ReplyToQ md) \<noteq> []"
  shows "(x = Running \<longrightarrow> (\<exists>u. disposed u \<and> (\<forall>rest. settle doubt (cs @ rest) ([], []) = u # settle doubt rest ([], []))))
    \<and> (x \<noteq> Running \<longrightarrow> x \<noteq> Finished \<and> (\<forall>u \<in> set (settle doubt (cs @ [SvcBackout Done, SvcDisc d]) ([], [])). disposed u))"
  using assms
  by (cases d; cases doubt) (auto simp: svc_answer_def svc_commit_def Let_def split: mq_call.splits)

lemma svc_turn_settles:
  assumes "svc_turn qm q md0 env = (x, cs)"
  shows "(x = Running \<longrightarrow> (\<exists>us. (\<forall>u \<in> set us. disposed u) \<and> (\<forall>rest. settle doubt (cs @ rest) ([], []) = us @ settle doubt rest ([], []))))
    \<and> (x = Finished \<longrightarrow> cs = [])
    \<and> (x \<noteq> Running \<longrightarrow> (\<forall>u \<in> set (settle doubt (cs @ [SvcBackout Done, SvcDisc d]) ([], [])). disposed u))"
proof (cases "v_in_time env \<and> \<not> isl (v_get env)")
  case False
  with assms show ?thesis
    by (cases d) (auto simp: svc_turn_def split: sum.splits if_splits intro!: exI[of _ "[]"])
next
  case True
  then obtain body md where g: "v_in_time env" "v_get env = Inr (body, md)" by (cases "v_get env") auto
  have "svc_unanswerable qm q md0 env body md = (x, cs) \<and> mqchar (ReplyToQ md) = []
      \<or> svc_answer env body md = (x, cs) \<and> mqchar (ReplyToQ md) \<noteq> []"
    using assms g by (auto simp: svc_turn_def split: if_splits)
  then have one: "(x = Running \<longrightarrow> (\<exists>u. disposed u \<and> (\<forall>rest. settle doubt (cs @ rest) ([], []) = u # settle doubt rest ([], []))))
    \<and> (x \<noteq> Running \<longrightarrow> x \<noteq> Finished \<and> (\<forall>u \<in> set (settle doubt (cs @ [SvcBackout Done, SvcDisc d]) ([], [])). disposed u))"
    using svc_unanswerable_settles[of qm q md0 env body md x cs doubt d] svc_answer_settles[of env body md x cs doubt d] by blast
  show ?thesis
  proof (cases "x = Running")
    case run: True
    with one obtain u where "disposed u" "\<forall>rest. settle doubt (cs @ rest) ([], []) = u # settle doubt rest ([], [])" by blast
    with run show ?thesis by (intro conjI impI exI[of _ "[u]"]) auto
  next
    case False
    with one show ?thesis by blast
  qed
qed

lemma svc_loop_settles:
  assumes "svc_loop qm q md0 envs = (x, cs)"
  shows "(x = Running \<or> x = Finished \<longrightarrow> (\<exists>us. (\<forall>u \<in> set us. disposed u) \<and> (\<forall>rest. settle doubt (cs @ rest) ([], []) = us @ settle doubt rest ([], []))))
    \<and> (x \<noteq> Running \<longrightarrow> (\<forall>u \<in> set (settle doubt (cs @ [SvcBackout Done, SvcDisc d]) ([], [])). disposed u))"
  using assms
proof (induction envs arbitrary: cs)
  case Nil
  then show ?case by (auto intro!: exI[of _ "[]"])
next
  case (Cons env envs)
  obtain x1 cs1 where t: "svc_turn qm q md0 env = (x1, cs1)" by fastforce
  note turn = svc_turn_settles[OF t, of doubt d]
  show ?case
  proof (cases "x1 = Running")
    case True
    with t Cons.prems obtain cs2 where rest: "svc_loop qm q md0 envs = (x, cs2)" "cs = cs1 @ cs2" by (auto split: prod.splits)
    from turn True obtain us where us: "\<forall>u \<in> set us. disposed u"
      "\<And>rest. settle doubt (cs1 @ rest) ([], []) = us @ settle doubt rest ([], [])" by blast
    note ih = Cons.IH[OF rest(1)]
    have "x \<noteq> Running \<Longrightarrow> \<forall>u \<in> set (settle doubt (cs @ [SvcBackout Done, SvcDisc d]) ([], [])). disposed u"
      using ih us by (auto simp: rest(2))
    moreover have "x = Running \<or> x = Finished \<Longrightarrow> \<exists>us. (\<forall>u \<in> set us. disposed u)
        \<and> (\<forall>rest. settle doubt (cs @ rest) ([], []) = us @ settle doubt rest ([], []))"
    proof -
      assume "x = Running \<or> x = Finished"
      with ih obtain vs where "\<forall>u \<in> set vs. disposed u" "\<forall>rest. settle doubt (cs2 @ rest) ([], []) = vs @ settle doubt rest ([], [])" by blast
      with us show ?thesis by (intro exI[of _ "us @ vs"]) (auto simp: rest(2))
    qed
    ultimately show ?thesis by blast
  next
    case False
    with t Cons.prems have "x = x1" "cs = cs1" by (auto split: exit.splits)
    with turn False show ?thesis by (auto intro!: exI[of _ "[]"])
  qed
qed


definition sample_md :: SvcMD where
  "sample_md = \<lparr>MsgId = ''m1'', CorrelId = ''c1'', MsgType = 8, Persistence = 1, Priority = 0, Encoding = 546,
     CodedCharSetId = 1208, Format = ''MQSTR'', ReplyToQ = MStr ''APP.REPLY'', ReplyToQMgr = MStr ''QM''\<rparr>"

definition sample_svc_env :: "mq_call \<Rightarrow> svc_env" where
  "sample_svc_env committed = \<lparr>v_in_time = True, v_get = Inr (''hi'', sample_md),
     v_dl = \<lparr>MQAT_UNIX = 6, MQFMT_DEAD_LETTER_HEADER = ''MQDEAD'', MQFB_APPL_FIRST = 65536, dlh_pack = (\<lambda>h. ''DLH''), dl_inquire = Inl 2035,
       dl_open = Done, dl_put = Done, dl_close = Done, dl_date = [], dl_time = []\<rparr>,
     v_open = Done, v_put = Done, v_close = Done, v_commit = committed\<rparr>"

definition sample_svc_start :: svc_start where
  "sample_svc_start = \<lparr>vs_connect = Done, vs_open = Done, vs_backout = Done, vs_disconnect = Done\<rparr>"


section \<open>The dead-letter inspector\<close>

definition byte_val :: "char \<Rightarrow> int" where
  "byte_val c = of_char c"

text \<open>A signed 32-bit integer in four bytes, the least significant first or last.\<close>

definition int32 :: "bool \<Rightarrow> string \<Rightarrow> int" where
  "int32 little bs =
     (let ds = (if little then bs else rev bs); n = foldr (\<lambda>c a. byte_val c + 256 * a) ds 0 in
      if n < 2 ^ 31 then n else n - 2 ^ 32)"

record ParsedDLH =
  pd_reason :: int
  pd_dest_q :: string
  pd_dest_qm :: string

text \<open>\<open>decode(errors="replace")\<close> is the identity on ASCII names, the only ones MQ has; on other bytes the model keeps them.\<close>

definition dlh_name :: "string \<Rightarrow> string" where
  "dlh_name bs = rstrip_when mqchar_pad bs"

definition parse_mqdlh :: "string \<Rightarrow> bool \<Rightarrow> ParsedDLH option" where
  "parse_mqdlh body little =
     (if length body < 60 \<or> take 4 body \<noteq> ''DLH '' then None
      else Some \<lparr>pd_reason = int32 little (take 4 (drop 8 body)), pd_dest_q = dlh_name (take 48 (drop 12 body)),
        pd_dest_qm = (if 108 \<le> length body then dlh_name (take 48 (drop 60 body)) else [])\<rparr>)"

record dlq_env =
  q_connect :: mq_call
  q_open :: mq_call
  q_get :: "int + string"

text \<open>\<open>inspect\<close>: the header of the one message taken, or nothing on an empty queue; any other reason is raised.\<close>

definition dlq_inspect :: "dlq_env \<Rightarrow> bool \<Rightarrow> (int, ParsedDLH option) result" where
  "dlq_inspect env little =
     (case q_connect env of
        Failed r \<Rightarrow> Inl r
      | Done \<Rightarrow>
          (case q_open env of
             Failed r \<Rightarrow> Inl r
           | Done \<Rightarrow>
               (case q_get env of
                  Inl r \<Rightarrow> if r = MQRC_NO_MSG_AVAILABLE then Inr None else Inl r
                | Inr body \<Rightarrow> Inr (parse_mqdlh body little))))"

definition dlq_main :: "dlq_env \<Rightarrow> bool \<Rightarrow> int \<Rightarrow> string \<Rightarrow> (int, int) result" where
  "dlq_main env big expect_reason expect_destq = rbind (dlq_inspect env (\<not> big)) (\<lambda>dlh.
     Inr (case dlh of None \<Rightarrow> 1
       | Some d \<Rightarrow> if pd_reason d = expect_reason \<and> pd_dest_q d = expect_destq then 0 else 1))"

text \<open>The documented layout of the header, as far as it is read back: each field at its offset, the reason as a signed
  32-bit integer, the names padded with blanks to 48 bytes.\<close>

definition bytes32 :: "int \<Rightarrow> string" where
  "bytes32 i = (let n = nat (i mod 2 ^ 32) in
     [char_of n, char_of (n div 256), char_of (n div 256 div 256), char_of (n div 256 div 256 div 256)])"

definition pad48 :: "string \<Rightarrow> string" where
  "pad48 s = s @ replicate (48 - length s) CHR '' ''"

definition packs_mqdlh :: "bool \<Rightarrow> (DLH \<Rightarrow> string) \<Rightarrow> bool" where
  "packs_mqdlh little pack \<longleftrightarrow> (\<forall>h. \<exists>ver rest. length ver = 4 \<and>
     pack h = ''DLH '' @ ver @ (if little then bytes32 (dlh_Reason h) else rev (bytes32 (dlh_Reason h)))
       @ pad48 (dlh_DestQName h) @ pad48 (dlh_DestQMgrName h) @ rest)"

definition mq_name :: "string \<Rightarrow> bool" where
  "mq_name s \<longleftrightarrow> s \<noteq> [] \<and> length s \<le> 48 \<and> \<not> mqchar_pad (last s)"

lemma four_digits:
  assumes "(n :: nat) < 2 ^ 32"
  shows "n mod 256 + 256 * (n div 256 mod 256 + 256 * (n div 256 div 256 mod 256 + 256 * (n div 256 div 256 div 256 mod 256))) = n"
proof -
  have "n div (256 * 256 * 256) < 256" by (rule less_mult_imp_div_less) (use assms in simp)
  then have "n div 256 div 256 div 256 < 256" unfolding div_mult2_eq .
  note low = mod_less[OF this]
  show ?thesis unfolding low mod_mult_div_eq ..
qed

lemma byte_val_char_of [simp]: "byte_val (char_of (n :: nat)) = int (n mod 256)"
proof -
  have "byte_val (char_of n) = int (of_char (char_of n))" unfolding byte_val_def by (rule of_nat_of_char[symmetric])
  then show ?thesis by simp
qed

lemma int32_bytes32:
  assumes "- (2 ^ 31) \<le> i" and "i < 2 ^ 31"
  shows "int32 True (bytes32 i) = i" and "int32 False (rev (bytes32 i)) = i"
proof -
  define n where "n = nat (i mod 2 ^ 32)"
  have n: "n < 2 ^ 32" "int n = i mod 2 ^ 32" by (simp_all add: n_def)
  have "foldr (\<lambda>c a. byte_val c + 256 * a) (bytes32 i) 0
      = int (n mod 256 + 256 * (n div 256 mod 256 + 256 * (n div 256 div 256 mod 256 + 256 * (n div 256 div 256 div 256 mod 256))))"
    unfolding bytes32_def Let_def n_def[symmetric] by simp
  also have "\<dots> = i mod 2 ^ 32" unfolding four_digits[OF n(1)] by (rule n(2))
  finally have val: "foldr (\<lambda>c a. byte_val c + 256 * a) (bytes32 i) 0 = i mod 2 ^ 32" .
  have "i mod 2 ^ 32 = (if 0 \<le> i then i else i + 2 ^ 32)"
  proof (cases "0 \<le> i")
    case True
    with assms(2) show ?thesis by simp
  next
    case False
    have "i mod 2 ^ 32 = (i + 2 ^ 32) mod 2 ^ 32" by simp
    also have "\<dots> = i + 2 ^ 32" using False assms(1) by (intro mod_pos_pos_trivial) simp_all
    finally show ?thesis using False by simp
  qed
  with val assms show "int32 True (bytes32 i) = i" "int32 False (rev (bytes32 i)) = i" by (simp_all add: int32_def Let_def)
qed

lemma dlh_name_pad48: "mq_name s \<Longrightarrow> dlh_name (pad48 s) = s"
proof -
  assume s: "mq_name s"
  then have "dropWhile mqchar_pad (rev s) = rev s" by (simp add: dropWhile_eq_self_iff hd_rev mq_name_def)
  moreover have "dropWhile mqchar_pad (replicate k CHR '' '' @ t) = dropWhile mqchar_pad t" for k t
    by (induction k) (simp_all add: mqchar_pad_def)
  ultimately have "rstrip_when mqchar_pad (s @ replicate k CHR '' '') = s" for k by (simp add: rstrip_when_def)
  then show ?thesis by (simp add: dlh_name_def pad48_def)
qed


definition sample_pack :: "DLH \<Rightarrow> string" where
  "sample_pack h = ''DLH '' @ ''0001'' @ bytes32 (dlh_Reason h) @ pad48 (dlh_DestQName h) @ pad48 (dlh_DestQMgrName h)"

definition sample_dl_env :: dl_env where
  "sample_dl_env = \<lparr>MQAT_UNIX = 6, MQFMT_DEAD_LETTER_HEADER = ''MQDEAD'', MQFB_APPL_FIRST = 65536, dlh_pack = sample_pack,
     dl_inquire = Inr (MStr ''DLQ''), dl_open = Done, dl_put = Done, dl_close = Done, dl_date = [], dl_time = []\<rparr>"


section \<open>The authorisation and reconnect probes\<close>

datatype probe_op = OpPut | OpGet

datatype set_context = CtxNone | CtxIdentity | CtxAll

datatype open_option = OoOutput | OoInput | OoSetIdentity | OoSetAll

record authz_env =
  z_connect :: mq_call
  z_open :: "open_option set \<Rightarrow> mq_call"
  z_op :: "set_context \<Rightarrow> string \<Rightarrow> mq_call"

text \<open>The access the queue is opened with, next to failing when quiescing, and the user stamped into the message.\<close>

definition authz_options :: "probe_op \<Rightarrow> set_context \<Rightarrow> open_option set" where
  "authz_options pop ctx =
     (case pop of
        OpGet \<Rightarrow> {OoInput}
      | OpPut \<Rightarrow> insert OoOutput (case ctx of CtxNone \<Rightarrow> {} | CtxIdentity \<Rightarrow> {OoSetIdentity} | CtxAll \<Rightarrow> {OoSetAll}))"

definition authz_probe :: "authz_env \<Rightarrow> probe_op \<Rightarrow> set_context \<Rightarrow> string \<Rightarrow> int" where
  "authz_probe env pop ctx as_user =
     (case z_connect env of
        Failed r \<Rightarrow> r
      | Done \<Rightarrow>
          (case z_open env (authz_options pop ctx) of
             Failed r \<Rightarrow> r
           | Done \<Rightarrow>
               (case (case pop of OpGet \<Rightarrow> z_op env CtxNone [] | OpPut \<Rightarrow> z_op env ctx (if ctx = CtxNone then [] else as_user)) of
                  Failed r \<Rightarrow> r
                | Done \<Rightarrow> 0)))"

definition authz_main :: "authz_env \<Rightarrow> probe_op \<Rightarrow> set_context \<Rightarrow> string \<Rightarrow> int \<Rightarrow> int" where
  "authz_main env pop ctx as_user expect = (if authz_probe env pop ctx as_user = expect then 0 else 1)"

text \<open>One line per put: the outcome of the put, and of the commit after a put that succeeded.\<close>

definition put_line :: "nat \<Rightarrow> mq_call \<times> mq_call \<Rightarrow> string" where
  "put_line i pc =
     (case (if fst pc = Done then snd pc else fst pc) of
        Done \<Rightarrow> ''put '' @ int_str (int i) @ '' ok''
      | Failed r \<Rightarrow> ''put '' @ int_str (int i) @ '' ERR reason='' @ int_str r)"

definition reconnect_probe :: "mq_call \<Rightarrow> mq_call \<Rightarrow> (nat \<Rightarrow> mq_call \<times> mq_call) \<Rightarrow> nat \<Rightarrow> (int, unit) result \<times> string list" where
  "reconnect_probe conn opn outs puts =
     (case conn of
        Failed r \<Rightarrow> (Inl r, [])
      | Done \<Rightarrow>
          (case opn of
             Failed r \<Rightarrow> (Inl r, [''connected''])
           | Done \<Rightarrow> (Inr (), ''connected'' # map (\<lambda>i. put_line i (outs i)) [0..<puts] @ [''done''])))"

end
