(* ===== verification/Catalog_Load.thy ===== *)
theory Catalog_Load
  imports Versions
begin

text \<open>
  Loading and eager validation of the version catalog and of a build file (\<open>mqlab/versions.py\<close>, from
  \<open>_mapping\<close> to \<open>load_build_file\<close>). The input is the parsed YAML document; a file that is missing or not
  YAML is refused before this point.
\<close>

section \<open>Field readers\<close>

definition ver_mapping :: "pyval \<Rightarrow> (py_error, (pyval \<times> pyval) list) result" where
  "ver_mapping v = rbind (ensure (is_dict v) (ValueErr ''must be a mapping'')) (\<lambda>_. Inr (items v))"

definition check_keys :: "(pyval \<times> pyval) list \<Rightarrow> string list \<Rightarrow> (py_error, unit) result" where
  "check_keys raw allowed_keys =
     ensure (list_all (\<lambda>(k, v). List.member (map PStr allowed_keys) k) raw) (ValueErr ''unknown key'')"

definition raw_get :: "(pyval \<times> pyval) list \<Rightarrow> string \<Rightarrow> pyval" where
  "raw_get raw key = get_or_none (PDict raw) key"

definition ver_string :: "(pyval \<times> pyval) list \<Rightarrow> string \<Rightarrow> (py_error, string option) result" where
  "ver_string raw key = (case raw_get raw key of
     PNone \<Rightarrow> Inr None | PStr s \<Rightarrow> Inr (Some s) | _ \<Rightarrow> Inl (ValueErr ''must be a string''))"

definition ver_required :: "(pyval \<times> pyval) list \<Rightarrow> string \<Rightarrow> (py_error, string) result" where
  "ver_required raw key = rbind (ver_string raw key) (\<lambda>v.
     case v of None \<Rightarrow> Inl (ValueErr ''missing required'') | Some s \<Rightarrow> Inr s)"

definition ver_ref :: "pyval \<Rightarrow> (py_error, OsRef) result" where
  "ver_ref v = (case v of PStr s \<Rightarrow> parse_ref s | _ \<Rightarrow> Inl (ValueErr ''expected family:major''))"

section \<open>Operating systems\<close>

definition ibm_unsupported_source :: "pyval \<Rightarrow> (py_error, string option) result" where
  "ibm_unsupported_source raw =
     (if raw = PNone then Inr None
      else
        rbind (ver_mapping raw) (\<lambda>support.
        rbind (check_keys support [''status'', ''source'']) (\<lambda>_.
        let status = raw_get support ''status'' in
        rbind (ensure (status = PStr ''supported'' \<or> status = PStr ''unsupported'') (ValueErr ''status'')) (\<lambda>_.
        if status = PStr ''supported'' then rbind (ver_string support ''source'') (\<lambda>_. Inr None)
        else rbind (ver_required support ''source'') (\<lambda>s. Inr (Some s))))))"

text \<open>\<open>[0-9]{4}-[0-9]{2}-[0-9]{2}\<close> and \<open>[A-Za-z0-9_.-]+/[A-Za-z0-9_.-]+#[0-9]+\<close>.\<close>

definition decided_ok :: "string \<Rightarrow> bool" where
  "decided_ok s = (case split_on (\<lambda>c. c = CHR ''-'') s of
     [y, m, d] \<Rightarrow> length y = 4 \<and> length m = 2 \<and> length d = 2 \<and> list_all is_digit (y @ m @ d)
   | _ \<Rightarrow> False)"

definition ref_char :: "char \<Rightarrow> bool" where
  "ref_char c \<longleftrightarrow> is_lower c \<or> is_upper c \<or> is_digit c \<or> c = CHR ''_'' \<or> c = CHR ''.'' \<or> c = CHR ''-''"

definition issue_ref_ok :: "string \<Rightarrow> bool" where
  "issue_ref_ok s = (case split_once CHR ''/'' s of
     (owner, Some r) \<Rightarrow>
       (case split_once CHR ''#'' r of
          (repo, Some n) \<Rightarrow> all_in ref_char owner \<and> all_in ref_char repo \<and> all_in is_digit n
        | _ \<Rightarrow> False)
   | _ \<Rightarrow> False)"

definition lab_default_decision ::
  "pyval \<Rightarrow> string option \<Rightarrow> (py_error, LabDefaultDecision option) result" where
  "lab_default_decision raw unsupported_source =
     (if raw = PNone then Inr None
      else
        rbind (ver_mapping raw) (\<lambda>spec.
        rbind (check_keys spec [''decided'', ''ref'']) (\<lambda>_.
        rbind (ensure (unsupported_source \<noteq> None) (ValueErr ''only an unsupported entry'')) (\<lambda>_.
        rbind (ver_required spec ''decided'') (\<lambda>decided.
        rbind (ensure (decided_ok decided) (ValueErr ''decided'')) (\<lambda>_.
        rbind (ver_required spec ''ref'') (\<lambda>ref.
        rbind (ensure (issue_ref_ok ref) (ValueErr ''ref'')) (\<lambda>_.
        Inr (Some \<lparr>d_decided = decided, d_ref = ref\<rparr>)))))))))"

definition gate_default :: "OsEntry \<Rightarrow> (py_error, unit) result" where
  "gate_default entry =
     ensure (oe_ibm_unsupported_source entry = None \<or> oe_lab_default_decision entry \<noteq> None)
       (ValueErr ''IBM-unsupported'')"

definition OS_KEYS :: "string list" where
  "OS_KEYS = [''base_box'', ''base_box_version'', ''point'', ''iso'', ''arch'', ''requires'', ''ibm_support'',
     ''lab_default_decision'']"

text \<open>\<open>requires\<close>: a list of texts, each a requirement the resolver can gate.\<close>

definition read_requires :: "pyval \<Rightarrow> (py_error, string list) result" where
  "read_requires v = (case v of
     PList xs \<Rightarrow>
       rbind (traverse (\<lambda>x. case x of PStr s \<Rightarrow> Inr s | _ \<Rightarrow> Inl (ValueErr ''requires'')) xs) (\<lambda>ss.
       rbind (ensure (list_all (List.member KNOWN_REQUIREMENTS) ss) (ValueErr ''unknown host requirement'')) (\<lambda>_.
       Inr ss))
   | _ \<Rightarrow> Inl (ValueErr ''requires''))"

definition os_entry :: "OsRef \<Rightarrow> pyval \<Rightarrow> (py_error, OsEntry) result" where
  "os_entry ref raw =
     rbind (ver_mapping raw) (\<lambda>spec.
     rbind (check_keys spec OS_KEYS) (\<lambda>_.
     let rhel = (os_family ref = ''rhel'');
         text = (\<lambda>key. if rhel then rbind (ver_required spec key) (\<lambda>s. Inr (Some s)) else ver_string spec key)
     in
     rbind (ver_string spec ''arch'') (\<lambda>arch.
     rbind (ensure (case arch of None \<Rightarrow> True | Some a \<Rightarrow> List.member HOST_ARCHES a) (ValueErr ''arch'')) (\<lambda>_.
     rbind (read_requires (get_default (PDict spec) ''requires'' (PList []))) (\<lambda>requires.
     rbind (ibm_unsupported_source (raw_get spec ''ibm_support'')) (\<lambda>source.
     rbind (ver_required spec ''base_box'') (\<lambda>base.
     rbind (ver_string spec ''base_box_version'') (\<lambda>basev.
     rbind (text ''point'') (\<lambda>point.
     rbind (text ''iso'') (\<lambda>iso.
     rbind (lab_default_decision (raw_get spec ''lab_default_decision'') source) (\<lambda>decision.
     Inr \<lparr>oe_ref = ref, oe_base_box = base, oe_base_box_version = basev, oe_point = point, oe_iso = iso,
          oe_arch_pin = arch, oe_requires = requires, oe_ibm_unsupported_source = source,
          oe_lab_default_decision = decision\<rparr>)))))))))))"

definition os_major_entry ::
  "string \<Rightarrow> pyval \<times> pyval \<Rightarrow> (OsRef \<times> OsEntry) list \<Rightarrow> (py_error, (OsRef \<times> OsEntry) list) result" where
  "os_major_entry family ms out = (case ms of
     (PInt major, spec) \<Rightarrow>
       (let ref = \<lparr>os_family = family, os_major = major\<rparr> in
        rbind (os_entry ref spec) (\<lambda>e. Inr (AList.update ref e out)))
   | _ \<Rightarrow> Inl (ValueErr ''major must be an integer''))"

definition family_entries ::
  "pyval \<times> pyval \<Rightarrow> (OsRef \<times> OsEntry) list \<Rightarrow> (py_error, (OsRef \<times> OsEntry) list) result" where
  "family_entries fm out = (case fm of
     (PStr family, majors) \<Rightarrow>
       rbind (ensure (map_of FAMILIES family \<noteq> None) (ValueErr ''unknown family'')) (\<lambda>_.
       rbind (ver_mapping majors) (\<lambda>ms. foldr_res (os_major_entry family) ms out))
   | _ \<Rightarrow> Inl (ValueErr ''unknown family''))"

definition load_oses :: "pyval \<Rightarrow> (py_error, (OsRef \<times> OsEntry) list) result" where
  "load_oses raw =
     rbind (ver_mapping raw) (\<lambda>fs.
     rbind (foldr_res family_entries fs []) (\<lambda>out.
     rbind (ensure (out \<noteq> []) (ValueErr ''declares no OS versions'')) (\<lambda>_. Inr out)))"

section \<open>Roles\<close>

definition load_components :: "(string \<Rightarrow> bool) \<Rightarrow> pyval \<Rightarrow> (py_error, string list) result" where
  "load_components is_project raw = (case raw of
     PList xs \<Rightarrow>
       rbind (traverse (\<lambda>x. case x of PStr s \<Rightarrow> Inr s | _ \<Rightarrow> Inl (ValueErr ''components'')) xs) (\<lambda>ss.
       rbind (ensure (distinct ss) (ValueErr ''lists a name twice'')) (\<lambda>_.
       rbind (ensure (list_all is_project ss) (ValueErr ''unknown component'')) (\<lambda>_. Inr ss)))
   | _ \<Rightarrow> Inl (ValueErr ''components''))"

definition bake_item :: "pyval \<times> pyval \<Rightarrow> (py_error, string \<times> string) result" where
  "bake_item fs = (case fs of
     (PStr f, PStr stem) \<Rightarrow> (if map_of FAMILIES f \<noteq> None then Inr (f, stem) else Inl (ValueErr ''bake''))
   | _ \<Rightarrow> Inl (ValueErr ''bake''))"

definition load_role :: "(string \<Rightarrow> bool) \<Rightarrow> pyval \<times> pyval \<Rightarrow> (py_error, string \<times> RoleSpec) result" where
  "load_role is_project rs = (case rs of (role, raw_spec) \<Rightarrow>
     rbind (ver_mapping raw_spec) (\<lambda>spec.
     rbind (check_keys spec [''bake'', ''mq_bearing'', ''components'']) (\<lambda>_.
     rbind (ensure (is_dict (raw_get spec ''bake'') \<and> truthy (raw_get spec ''bake'')) (ValueErr ''bake'')) (\<lambda>_.
     rbind (traverse bake_item (items (raw_get spec ''bake''))) (\<lambda>bake.
     rbind (case get_default (PDict spec) ''mq_bearing'' (PBool False) of
              PBool b \<Rightarrow> Inr b | _ \<Rightarrow> Inl (ValueErr ''mq_bearing'')) (\<lambda>mq.
     rbind (load_components is_project (get_default (PDict spec) ''components'' (PList []))) (\<lambda>comps.
     rbind (to_str role) (\<lambda>name.
     Inr (name, \<lparr>r_bake = bake, r_mq_bearing = mq, r_components = comps\<rparr>)))))))))"

definition load_roles :: "(string \<Rightarrow> bool) \<Rightarrow> pyval \<Rightarrow> (py_error, (string \<times> RoleSpec) list) result" where
  "load_roles is_project raw =
     rbind (ver_mapping raw) (\<lambda>rs.
     rbind (traverse (load_role is_project) rs) (\<lambda>es. Inr (dict_build fst snd es)))"

section \<open>Runtime pin\<close>

definition py_version_ok :: "string \<Rightarrow> bool" where
  "py_version_ok s = (case split_on (\<lambda>c. c = CHR ''.'') s of
     [a, b, c] \<Rightarrow> all_in is_digit a \<and> all_in is_digit b \<and> all_in is_digit c
   | _ \<Rightarrow> False)"

definition is_hex :: "char \<Rightarrow> bool" where
  "is_hex c \<longleftrightarrow> is_digit c \<or> (let k = (of_char c :: nat) in 97 \<le> k \<and> k \<le> 102)"

definition sha_item :: "pyval \<times> pyval \<Rightarrow> (py_error, string \<times> string) result" where
  "sha_item ad = (case ad of
     (PStr arch, PStr d) \<Rightarrow> (if length d = 64 \<and> list_all is_hex d then Inr (arch, d) else Inl (ValueErr ''sha256''))
   | _ \<Rightarrow> Inl (ValueErr ''sha256''))"

definition load_runtime :: "pyval \<Rightarrow> (py_error, RuntimePin) result" where
  "load_runtime raw =
     rbind (ver_mapping raw) (\<lambda>runtime.
     rbind (check_keys runtime [''python'']) (\<lambda>_.
     rbind (ensure (lookup (PDict runtime) ''python'' \<noteq> None) (ValueErr ''missing python'')) (\<lambda>_.
     rbind (ver_mapping (raw_get runtime ''python'')) (\<lambda>spec.
     rbind (check_keys spec [''version'', ''pbs_release'', ''sha256'']) (\<lambda>_.
     rbind (ver_required spec ''version'') (\<lambda>version.
     rbind (ensure (py_version_ok version) (ValueErr ''version'')) (\<lambda>_.
     rbind (ver_required spec ''pbs_release'') (\<lambda>release.
     rbind (ensure (length release = 8 \<and> list_all is_digit release) (ValueErr ''pbs_release'')) (\<lambda>_.
     rbind (ver_mapping (raw_get spec ''sha256'')) (\<lambda>sha.
     rbind (ensure (fst ` set sha = PStr ` set HOST_ARCHES) (ValueErr ''must pin exactly'')) (\<lambda>_.
     rbind (traverse sha_item sha) (\<lambda>pins.
     Inr \<lparr>rt_version = version, rt_pbs_release = release, rt_sha256 = pins\<rparr>))))))))))))"

section \<open>Stacks and the catalog\<close>

definition ver_known :: "(OsRef \<times> OsEntry) list \<Rightarrow> OsRef \<Rightarrow> (py_error, OsRef) result" where
  "ver_known oses ref = (if map_of oses ref = None then Inl (ValueErr ''not declared'') else Inr ref)"

definition load_stack ::
  "(OsRef \<times> OsEntry) list \<Rightarrow> pyval \<times> pyval \<Rightarrow> (py_error, string \<times> StackSpec) result" where
  "load_stack oses ss = (case ss of (stk, raw_spec) \<Rightarrow>
     rbind (ver_mapping raw_spec) (\<lambda>spec.
     rbind (check_keys spec [''supported'', ''default'']) (\<lambda>_.
     case raw_get spec ''supported'' of
       PList listed \<Rightarrow>
         rbind (ensure (listed \<noteq> []) (ValueErr ''supported'')) (\<lambda>_.
         rbind (traverse (\<lambda>i. rbind (ver_ref i) (ver_known oses)) listed) (\<lambda>supported.
         rbind (ensure (length (remdups (map os_family supported)) = 1) (ValueErr ''mixes OS families'')) (\<lambda>_.
         rbind (rbind (ver_ref (raw_get spec ''default'')) (ver_known oses)) (\<lambda>dflt.
         rbind (ensure (dflt \<in> set supported) (ValueErr ''default is not supported'')) (\<lambda>_.
         rbind (case map_of oses dflt of None \<Rightarrow> Inl (KeyErr ''os'') | Some e \<Rightarrow> gate_default e) (\<lambda>_.
         rbind (to_str stk) (\<lambda>name.
         Inr (name, \<lparr>s_supported = supported, s_default = dflt\<rparr>))))))))
     | _ \<Rightarrow> Inl (ValueErr ''supported''))))"

definition load_stacks ::
  "(OsRef \<times> OsEntry) list \<Rightarrow> pyval \<Rightarrow> (py_error, (string \<times> StackSpec) list) result" where
  "load_stacks oses raw =
     rbind (ver_mapping raw) (\<lambda>ss.
     rbind (traverse (load_stack oses) ss) (\<lambda>es. Inr (dict_build fst snd es)))"

definition TOP_KEYS :: "string list" where
  "TOP_KEYS = [''os'', ''roles'', ''infra'', ''infra_mq'', ''stacks'', ''runtime'']"

definition load_catalog :: "(string \<Rightarrow> bool) \<Rightarrow> pyval \<Rightarrow> (py_error, Catalog) result" where
  "load_catalog is_project doc =
     rbind (ver_mapping doc) (\<lambda>data.
     rbind (check_keys data TOP_KEYS) (\<lambda>_.
     rbind (ensure (list_all (\<lambda>k. lookup (PDict data) k \<noteq> None) TOP_KEYS) (ValueErr ''missing required key'')) (\<lambda>_.
     rbind (load_oses (raw_get data ''os'')) (\<lambda>oses.
     rbind (load_roles is_project (raw_get data ''roles'')) (\<lambda>roles.
     rbind (rbind (ver_ref (raw_get data ''infra'')) (ver_known oses)) (\<lambda>infra.
     rbind (rbind (ver_ref (raw_get data ''infra_mq'')) (ver_known oses)) (\<lambda>infra_mq.
     rbind (case map_of oses infra_mq of None \<Rightarrow> Inl (KeyErr ''os'') | Some e \<Rightarrow> gate_default e) (\<lambda>_.
     rbind (load_stacks oses (raw_get data ''stacks'')) (\<lambda>stacks.
     rbind (load_runtime (raw_get data ''runtime'')) (\<lambda>runtime.
     let cat = \<lparr>c_oses = oses, c_roles = roles, c_infra = infra, c_infra_mq = infra_mq,
                c_stacks = stacks, c_runtime = runtime\<rparr> in
     rbind (traverse (shared_box cat) SHARED_ROLES) (\<lambda>_. Inr cat)))))))))))"

definition load_build_file :: "pyval \<Rightarrow> (py_error, BuildFile) result" where
  "load_build_file doc =
     (let data = (if doc = PNone then PDict [] else doc) in
      rbind (ensure (is_dict data) (ValueErr ''must be a mapping'')) (\<lambda>_.
      rbind (check_keys (items data) [''os'']) (\<lambda>_.
      case lookup data ''os'' of
        None \<Rightarrow> Inr \<lparr>bf_os = None\<rparr>
      | Some (PStr s) \<Rightarrow> rbind (parse_ref s) (\<lambda>r. Inr \<lparr>bf_os = Some r\<rparr>)
      | Some _ \<Rightarrow> Inl (ValueErr ''os must be family:major''))))"

section \<open>What a loaded catalog guarantees\<close>

definition ref_ok :: "OsRef \<Rightarrow> bool" where
  "ref_ok r \<longleftrightarrow> map_of FAMILIES (os_family r) \<noteq> None \<and> 0 \<le> os_major r"

definition entry_ok :: "OsRef \<Rightarrow> OsEntry \<Rightarrow> bool" where
  "entry_ok r e \<longleftrightarrow> oe_ref e = r \<and> map_of FAMILIES (os_family r) \<noteq> None
     \<and> (\<forall>a. oe_arch_pin e = Some a \<longrightarrow> a \<in> set HOST_ARCHES)
     \<and> set (oe_requires e) \<subseteq> set KNOWN_REQUIREMENTS
     \<and> (oe_lab_default_decision e \<noteq> None \<longrightarrow> oe_ibm_unsupported_source e \<noteq> None)
     \<and> (os_family r = ''rhel'' \<longrightarrow> oe_point e \<noteq> None \<and> oe_iso e \<noteq> None)"

text \<open>A reference that may serve as a default: declared, and supported or decided.\<close>

definition gated :: "(OsRef \<times> OsEntry) list \<Rightarrow> OsRef \<Rightarrow> bool" where
  "gated oses r \<longleftrightarrow> ref_ok r \<and> (\<exists>e. map_of oses r = Some e
     \<and> (oe_ibm_unsupported_source e = None \<or> oe_lab_default_decision e \<noteq> None))"

definition stack_ok :: "(OsRef \<times> OsEntry) list \<Rightarrow> StackSpec \<Rightarrow> bool" where
  "stack_ok oses s \<longleftrightarrow> s_default s \<in> set (s_supported s) \<and> gated oses (s_default s)
     \<and> (\<forall>r \<in> set (s_supported s). ref_ok r \<and> map_of oses r \<noteq> None \<and> os_family r = os_family (s_default s))"

definition catalog_ok :: "Catalog \<Rightarrow> bool" where
  "catalog_ok cat \<longleftrightarrow>
     (\<forall>r e. map_of (c_oses cat) r = Some e \<longrightarrow> entry_ok r e)
     \<and> ref_ok (c_infra cat) \<and> map_of (c_oses cat) (c_infra cat) \<noteq> None \<and> gated (c_oses cat) (c_infra_mq cat)
     \<and> (\<forall>n s. map_of (c_stacks cat) n = Some s \<longrightarrow> stack_ok (c_oses cat) s)
     \<and> (\<forall>role \<in> set SHARED_ROLES. \<exists>b. shared_box cat role = Inr b)"

lemma parse_ref_ok: "parse_ref s = Inr r \<Longrightarrow> ref_ok r"
  by (auto simp: parse_ref_def ref_ok_def result_simps all_in_def is_digit_def list_all_iff
      split: prod.splits option.splits if_splits intro: py_int_digits)

lemma ver_ref_ok: "ver_ref v = Inr r \<Longrightarrow> ref_ok r"
  by (auto simp: ver_ref_def split: pyval.splits intro: parse_ref_ok)

lemma ver_known_eq: "ver_known oses r = Inr r' \<longleftrightarrow> r' = r \<and> map_of oses r \<noteq> None"
  by (auto simp: ver_known_def)

lemma read_requires_known: "read_requires v = Inr ss \<Longrightarrow> set ss \<subseteq> set KNOWN_REQUIREMENTS"
  by (auto simp: read_requires_def result_simps list_all_iff List.member_iff split: pyval.splits)

lemma decision_needs_source: "lab_default_decision raw src = Inr (Some d) \<Longrightarrow> src \<noteq> None"
  by (auto simp: lab_default_decision_def result_simps split: if_splits)

lemma os_entry_ok:
  assumes "os_entry r raw = Inr e" and "map_of FAMILIES (os_family r) \<noteq> None"
  shows "entry_ok r e"
proof -
  from assms(1) obtain spec arch requires source base basev point iso decision where
    arch: "case arch of None \<Rightarrow> True | Some a \<Rightarrow> List.member HOST_ARCHES a"
    and req: "read_requires (get_default (PDict spec) ''requires'' (PList [])) = Inr requires"
    and point: "(if os_family r = ''rhel'' then rbind (ver_required spec ''point'') (\<lambda>s. Inr (Some s)) else ver_string spec ''point'') = Inr point"
    and iso: "(if os_family r = ''rhel'' then rbind (ver_required spec ''iso'') (\<lambda>s. Inr (Some s)) else ver_string spec ''iso'') = Inr iso"
    and dec: "lab_default_decision (raw_get spec ''lab_default_decision'') source = Inr decision"
    and e: "e = \<lparr>oe_ref = r, oe_base_box = base, oe_base_box_version = basev, oe_point = point, oe_iso = iso,
          oe_arch_pin = arch, oe_requires = requires, oe_ibm_unsupported_source = source,
          oe_lab_default_decision = decision\<rparr>"
    unfolding os_entry_def by (auto simp: rbind_eq_Inr Let_def)
  have "decision \<noteq> None \<longrightarrow> source \<noteq> None" using dec decision_needs_source by auto
  moreover have "set requires \<subseteq> set KNOWN_REQUIREMENTS" using req by (rule read_requires_known)
  moreover have "os_family r = ''rhel'' \<longrightarrow> point \<noteq> None \<and> iso \<noteq> None"
    using point iso by (auto simp: rbind_eq_Inr)
  moreover have "\<forall>a. arch = Some a \<longrightarrow> a \<in> set HOST_ARCHES" using arch by (auto simp: List.member_iff)
  ultimately show ?thesis using assms(2) by (simp add: entry_ok_def e)
qed

definition oses_ok :: "(OsRef \<times> OsEntry) list \<Rightarrow> bool" where
  "oses_ok out \<longleftrightarrow> (\<forall>r e. map_of out r = Some e \<longrightarrow> entry_ok r e)"

lemma os_major_entry_ok:
  assumes "os_major_entry f ms out = Inr out'" and "map_of FAMILIES f \<noteq> None" and "oses_ok out"
  shows "oses_ok out'"
  using assms os_entry_ok
  by (fastforce simp: os_major_entry_def oses_ok_def result_simps Let_def update_conv'
      split: prod.splits pyval.splits if_splits)

lemma family_entries_ok:
  assumes "family_entries fm out = Inr out'" and "oses_ok out"
  shows "oses_ok out'"
proof -
  from assms(1) obtain f ms where f: "map_of FAMILIES f \<noteq> None"
    and run: "foldr_res (os_major_entry f) ms out = Inr out'"
    by (auto simp: family_entries_def result_simps split: prod.splits pyval.splits)
  show ?thesis
    by (rule foldr_res_invariant[OF run, where P = oses_ok]) (use assms(2) f os_major_entry_ok in blast)+
qed

lemma load_oses_ok: "load_oses raw = Inr out \<Longrightarrow> oses_ok out"
proof -
  assume "load_oses raw = Inr out"
  then obtain fs where run: "foldr_res family_entries fs [] = Inr out"
    by (auto simp: load_oses_def result_simps)
  show ?thesis
    by (rule foldr_res_invariant[OF run, where P = oses_ok]) (use family_entries_ok in \<open>auto simp: oses_ok_def\<close>)
qed

lemma remdups_single: "length (remdups xs) = 1 \<Longrightarrow> x \<in> set xs \<Longrightarrow> y \<in> set xs \<Longrightarrow> x = y"
  by (metis One_nat_def card_1_singletonE length_remdups_card_conv singletonD)

lemma gate_case:
  "(case map_of oses r of None \<Rightarrow> Inl k | Some e \<Rightarrow> gate_default e) = Inr u \<longleftrightarrow>
     (\<exists>e. map_of oses r = Some e \<and> (oe_ibm_unsupported_source e = None \<or> oe_lab_default_decision e \<noteq> None))"
  by (auto simp: gate_default_def split: option.splits)

lemma load_stack_ok:
  assumes "load_stack oses ss = Inr (n, s)"
  shows "stack_ok oses s"
proof -
  obtain stk raw where ss: "ss = (stk, raw)" by (cases ss)
  from assms obtain spec where "ver_mapping raw = Inr spec" unfolding ss load_stack_def by (auto simp: rbind_eq_Inr)
  with assms obtain listed where listed: "raw_get spec ''supported'' = PList listed"
    unfolding ss load_stack_def by (cases "raw_get spec ''supported''") (auto simp: rbind_eq_Inr)
  let ?sup = "traverse (\<lambda>i. rbind (ver_ref i) (ver_known oses)) listed"
  have sup: "?sup = Inr (s_supported s)" and one: "length (remdups (map os_family (s_supported s))) = 1"
    and dflt: "s_default s \<in> set (s_supported s)"
    and gate: "\<exists>e. map_of oses (s_default s) = Some e
      \<and> (oe_ibm_unsupported_source e = None \<or> oe_lab_default_decision e \<noteq> None)"
    using assms \<open>ver_mapping raw = Inr spec\<close> listed unfolding ss load_stack_def
    by (auto simp: rbind_eq_Inr gate_case)
  have sup_ok: "ref_ok r \<and> map_of oses r \<noteq> None" if "r \<in> set (s_supported s)" for r
    using traverse_memD[OF sup that] by (auto simp: rbind_eq_Inr ver_known_eq dest: ver_ref_ok)
  have "os_family r = os_family (s_default s)" if "r \<in> set (s_supported s)" for r
    by (rule remdups_single[OF one]) (use that dflt in auto)
  with sup_ok dflt gate show ?thesis unfolding stack_ok_def gated_def by blast
qed

lemma load_stacks_ok:
  assumes "load_stacks oses raw = Inr d" and "map_of d n = Some s"
  shows "stack_ok oses s"
proof -
  from assms(1) obtain ss es where es: "traverse (load_stack oses) ss = Inr es" and d: "d = dict_build fst snd es"
    by (auto simp: load_stacks_def result_simps)
  from assms(2) obtain x where "x \<in> set es" "snd x = s" unfolding d by (blast dest: dict_build_lookupD)
  with traverse_memD[OF es] load_stack_ok show ?thesis by (metis prod.collapse)
qed

text \<open>The parts of a loaded catalog, each from the loader that made it.\<close>

lemma load_catalog_oses:
  "load_catalog is_project doc = Inr cat \<Longrightarrow> oses_ok (c_oses cat)"
  unfolding load_catalog_def by (auto simp: rbind_eq_Inr Let_def dest: load_oses_ok)

lemma load_catalog_infra:
  "load_catalog is_project doc = Inr cat \<Longrightarrow> ref_ok (c_infra cat) \<and> map_of (c_oses cat) (c_infra cat) \<noteq> None"
  unfolding load_catalog_def by (auto simp: rbind_eq_Inr Let_def ver_known_eq dest: ver_ref_ok)

lemma load_catalog_infra_mq:
  "load_catalog is_project doc = Inr cat \<Longrightarrow> gated (c_oses cat) (c_infra_mq cat)"
  unfolding load_catalog_def by (auto simp: rbind_eq_Inr Let_def ver_known_eq gate_case gated_def dest: ver_ref_ok)

lemma load_catalog_stacks:
  "load_catalog is_project doc = Inr cat \<Longrightarrow> map_of (c_stacks cat) n = Some s \<Longrightarrow> stack_ok (c_oses cat) s"
  unfolding load_catalog_def by (auto simp: rbind_eq_Inr Let_def dest: load_stacks_ok)

lemma load_catalog_boxes:
  "load_catalog is_project doc = Inr cat \<Longrightarrow> \<exists>bs. traverse (shared_box cat) SHARED_ROLES = Inr bs"
  unfolding load_catalog_def by (auto simp: rbind_eq_Inr Let_def)

lemma load_catalog_ok:
  assumes "load_catalog is_project doc = Inr cat"
  shows "catalog_ok cat"
  using load_catalog_oses[OF assms] load_catalog_infra[OF assms] load_catalog_infra_mq[OF assms]
    load_catalog_stacks[OF assms] load_catalog_boxes[OF assms]
  by (auto simp: catalog_ok_def oses_ok_def traverse_ok_iff)

lemma last_split_unique:
  "a @ x # b = c @ x # d \<Longrightarrow> x \<notin> set b \<Longrightarrow> x \<notin> set d \<Longrightarrow> a = c \<and> b = d"
proof (induction a arbitrary: c)
  case Nil
  then show ?case by (cases c) auto
next
  case (Cons y a)
  then show ?case by (cases c) auto
qed

lemma known_family: "map_of FAMILIES f \<noteq> None \<Longrightarrow> f = ''ubuntu'' \<or> f = ''rhel''"
  by (auto simp: FAMILIES_def split: if_splits)

lemma os_token_no_dash: "ref_ok r \<Longrightarrow> CHR ''-'' \<notin> set (os_token r)"
  using nat_str_code[of "CHR ''-''" "nat (os_major r)"] known_family[of "os_family r"]
  by (auto simp: os_token_def ref_ok_def int_str_def)

lemma os_token_inject:
  assumes "ref_ok r" and "ref_ok r'" and "os_token r = os_token r'"
  shows "r = r'"
proof -
  have str: "int_str (os_major x) = nat_str (nat (os_major x))" if "ref_ok x" for x
    using that by (simp add: int_str_def ref_ok_def)
  have fam: "os_family x = ''ubuntu'' \<or> os_family x = ''rhel''" if "ref_ok x" for x
    using that known_family by (simp add: ref_ok_def)
  have same: "os_family r = os_family r'"
    using assms(3) fam[OF assms(1)] fam[OF assms(2)] by (auto simp: os_token_def)
  with assms have "nat_str (nat (os_major r)) = nat_str (nat (os_major r'))"
    by (simp add: os_token_def str)
  with assms same show ?thesis by (cases r; cases r') (auto simp: nat_str_inject ref_ok_def)
qed

lemma cat_box_eq:
  "cat_box cat role ref = Inr b \<Longrightarrow>
     b_name b = role @ ''-'' @ os_token ref \<and> b_role b = role \<and> map_of (c_oses cat) ref = Some (b_os b)"
  by (auto simp: cat_box_def cat_entry_def rbind_eq_Inr split: option.splits)

section \<open>A sample catalog\<close>

definition sample_role :: "string \<Rightarrow> pyval \<times> pyval" where
  "sample_role n = (PStr n, PDict [(PStr ''bake'', PDict [(PStr ''ubuntu'', PStr ''base''), (PStr ''rhel'', PStr ''rbase'')])])"

definition sample_doc :: pyval where
  "sample_doc = PDict
     [(PStr ''os'', PDict
         [(PStr ''ubuntu'', PDict [(PInt 24, PDict [(PStr ''base_box'', PStr ''u24'')])]),
          (PStr ''rhel'', PDict
             [(PInt 9, PDict [(PStr ''base_box'', PStr ''r9''), (PStr ''point'', PStr ''9.4''), (PStr ''iso'', PStr ''r9.iso''),
                 (PStr ''arch'', PStr ''x86_64'')]),
              (PInt 10, PDict [(PStr ''base_box'', PStr ''r10''), (PStr ''point'', PStr ''10.0''), (PStr ''iso'', PStr ''r10.iso''),
                 (PStr ''arch'', PStr ''x86_64''), (PStr ''requires'', PList [PStr ''x86-64-v3''])])])]),
      (PStr ''roles'', PDict (map sample_role [''infra'', ''obs'', ''san'', ''mq-client'', ''rdqm''])),
      (PStr ''infra'', PStr ''ubuntu:24''), (PStr ''infra_mq'', PStr ''ubuntu:24''),
      (PStr ''stacks'', PDict [(PStr ''rdqm-rhel'', PDict
         [(PStr ''supported'', PList [PStr ''rhel:9'', PStr ''rhel:10'']), (PStr ''default'', PStr ''rhel:9'')])]),
      (PStr ''runtime'', PDict [(PStr ''python'', PDict
         [(PStr ''version'', PStr ''3.14.8''), (PStr ''pbs_release'', PStr ''20261003''),
          (PStr ''sha256'', PDict [(PStr ''aarch64'', PStr (replicate 64 CHR ''a'')), (PStr ''x86_64'', PStr (replicate 64 CHR ''0''))])])])]"

definition sample_host :: HostFacts where
  "sample_host = \<lparr>hf_arch = ''x86_64'', hf_kvm = True, hf_distro_family = ''apt'', hf_in_vergil = True,
     hf_x86_64_v3 = False, hf_x86_64_v3_missing = [''avx2'']\<rparr>"

definition rhel9 :: OsRef where
  "rhel9 = \<lparr>os_family = ''rhel'', os_major = 9\<rparr>"

definition rhel10 :: OsRef where
  "rhel10 = \<lparr>os_family = ''rhel'', os_major = 10\<rparr>"

definition sample_spec :: StackSpec where
  "sample_spec = \<lparr>s_supported = [rhel9, rhel10], s_default = rhel9\<rparr>"

lemma sample_catalog:
  obtains cat where "load_catalog (\<lambda>_. False) sample_doc = Inr cat"
    and "map_of (c_stacks cat) ''rdqm-rhel'' = Some sample_spec"
    and "stack_os cat ''rdqm-rhel'' None sample_host = Inr rhel9"
    and "isl (stack_os cat ''rdqm-rhel'' (Some \<lparr>bf_os = Some rhel10\<rparr>) sample_host)"
    and "\<not> isl (cat_box cat ''rdqm'' rhel9)" and "\<not> isl (cat_box cat ''rdqm'' rhel10)"
proof -
  have "(case load_catalog (\<lambda>_. False) sample_doc of Inl e \<Rightarrow> False
     | Inr cat \<Rightarrow> map_of (c_stacks cat) ''rdqm-rhel'' = Some sample_spec
         \<and> stack_os cat ''rdqm-rhel'' None sample_host = Inr rhel9
         \<and> isl (stack_os cat ''rdqm-rhel'' (Some \<lparr>bf_os = Some rhel10\<rparr>) sample_host)
         \<and> \<not> isl (cat_box cat ''rdqm'' rhel9) \<and> \<not> isl (cat_box cat ''rdqm'' rhel10))"
    by code_simp
  then show thesis using that by (auto split: sum.splits)
qed

section \<open>Properties\<close>

text \<open>C11: a catalog that loads is consistent: every stack's default is among its supported systems, which
  are all declared and of one family; the shared nodes' systems are declared; no stack default and not
  the shared MQ system is IBM-unsupported without a recorded decision, and a decision stands only on
  an unsupported entry; every RHEL entry names its point release and install image; and every shared
  role has a box on its system.\<close>

theorem load_catalog_consistent:
  assumes "load_catalog is_project doc = Inr cat"
  shows "(\<forall>n s. map_of (c_stacks cat) n = Some s \<longrightarrow>
        s_default s \<in> set (s_supported s)
        \<and> (\<forall>r \<in> set (s_supported s). map_of (c_oses cat) r \<noteq> None \<and> os_family r = os_family (s_default s))
        \<and> gated (c_oses cat) (s_default s))
    \<and> map_of (c_oses cat) (c_infra cat) \<noteq> None \<and> gated (c_oses cat) (c_infra_mq cat)
    \<and> (\<forall>r e. map_of (c_oses cat) r = Some e \<longrightarrow>
        (oe_lab_default_decision e \<noteq> None \<longrightarrow> oe_ibm_unsupported_source e \<noteq> None)
        \<and> (os_family r = ''rhel'' \<longrightarrow> oe_point e \<noteq> None \<and> oe_iso e \<noteq> None)
        \<and> set (oe_requires e) \<subseteq> {''x86-64-v3''})
    \<and> (\<forall>role \<in> set SHARED_ROLES. \<exists>b. shared_box cat role = Inr b)"
proof -
  have ok: "catalog_ok cat" using assms by (rule load_catalog_ok)
  then have "entry_ok r e" if "map_of (c_oses cat) r = Some e" for r e
    using that by (simp add: catalog_ok_def)
  moreover have "stack_ok (c_oses cat) s" if "map_of (c_stacks cat) n = Some s" for n s
    using ok that by (auto simp: catalog_ok_def)
  ultimately show ?thesis
    using ok unfolding catalog_ok_def stack_ok_def entry_ok_def KNOWN_REQUIREMENTS_def X86_64_V3_def
      list.set by blast
qed

theorem load_catalog_consistent_witness:
  "\<exists>cat s. load_catalog (\<lambda>_. False) sample_doc = Inr cat \<and> map_of (c_stacks cat) ''rdqm-rhel'' = Some s
     \<and> s_default s \<in> set (s_supported s) \<and> gated (c_oses cat) (s_default s)"
proof -
  obtain cat where cat: "load_catalog (\<lambda>_. False) sample_doc = Inr cat"
    "map_of (c_stacks cat) ''rdqm-rhel'' = Some sample_spec" by (rule sample_catalog)
  from load_catalog_consistent[OF cat(1)] cat show ?thesis by blast
qed

text \<open>Which system a stack builds on: the one the build file asks for, or the default, and never
  another; it is accepted exactly when the stack supports it and the host can run it. The separate
  family check refuses nothing that the supported list would accept.\<close>

theorem stack_os_exact:
  assumes "load_catalog is_project doc = Inr cat" and "map_of (c_stacks cat) stk = Some spec"
    and "ref = requested_os spec build"
  shows "(\<forall>r. stack_os cat stk build facts = Inr r \<longrightarrow> r = ref)
    \<and> ((\<exists>r. stack_os cat stk build facts = Inr r) \<longleftrightarrow>
        ref \<in> set (s_supported spec) \<and> (\<exists>e. map_of (c_oses cat) ref = Some e \<and> host_can_run e facts))"
proof -
  have ok: "stack_ok (c_oses cat) spec"
    using load_catalog_ok[OF assms(1)] assms(2) by (auto simp: catalog_ok_def)
  have fam: "ref \<in> set (s_supported spec) \<longrightarrow> os_family ref = os_family (s_default spec)"
    using ok unfolding stack_ok_def by blast
  have "stack_os cat stk build facts = Inr r \<longleftrightarrow> r = ref \<and> ref \<in> set (s_supported spec)
      \<and> (\<exists>e. map_of (c_oses cat) ref = Some e \<and> host_can_run e facts)" for r
    using fam assms(2,3) by (cases "map_of (c_oses cat) ref")
      (auto simp: stack_os_def cat_stack_def cat_entry_def Let_def rbind_eq_Inr host_can_run_def)
  then show ?thesis by blast
qed

theorem stack_os_exact_witness:
  "\<exists>cat. load_catalog (\<lambda>_. False) sample_doc = Inr cat
     \<and> stack_os cat ''rdqm-rhel'' None sample_host = Inr rhel9
     \<and> (\<exists>e. map_of (c_oses cat) rhel9 = Some e \<and> host_can_run e sample_host)
     \<and> isl (stack_os cat ''rdqm-rhel'' (Some \<lparr>bf_os = Some rhel10\<rparr>) sample_host)"
proof -
  obtain cat where cat: "load_catalog (\<lambda>_. False) sample_doc = Inr cat"
    "map_of (c_stacks cat) ''rdqm-rhel'' = Some sample_spec"
    "stack_os cat ''rdqm-rhel'' None sample_host = Inr rhel9"
    "isl (stack_os cat ''rdqm-rhel'' (Some \<lparr>bf_os = Some rhel10\<rparr>) sample_host)" by (rule sample_catalog)
  have "rhel9 = requested_os sample_spec None" by (simp add: requested_os_def sample_spec_def)
  from stack_os_exact[OF cat(1,2) this, of sample_host] cat show ?thesis by auto
qed

text \<open>Two boxes of a loaded catalog have the same name only if they are the same role on the same
  operating system, so the fleet, which is keyed by name, never lets one box stand for another.\<close>

theorem box_names_unique:
  assumes "cat_box cat role ref = Inr b" and "cat_box cat role' ref' = Inr b'" and "ref_ok ref" and "ref_ok ref'"
  shows "b_name b = b_name b' \<longleftrightarrow> role = role' \<and> ref = ref'"
proof
  assume "b_name b = b_name b'"
  then have "role @ CHR ''-'' # os_token ref = role' @ CHR ''-'' # os_token ref'"
    using cat_box_eq[OF assms(1)] cat_box_eq[OF assms(2)] by simp
  from last_split_unique[OF this] os_token_no_dash assms(3,4) os_token_inject[OF assms(3,4)]
  show "role = role' \<and> ref = ref'" by blast
next
  assume "role = role' \<and> ref = ref'"
  with assms(1,2) show "b_name b = b_name b'" by simp
qed

theorem box_names_unique_witness:
  "\<exists>cat b b'. load_catalog (\<lambda>_. False) sample_doc = Inr cat \<and> cat_box cat ''rdqm'' rhel9 = Inr b
     \<and> cat_box cat ''rdqm'' rhel10 = Inr b' \<and> b_name b \<noteq> b_name b'"
proof -
  obtain cat where cat: "load_catalog (\<lambda>_. False) sample_doc = Inr cat"
    "\<not> isl (cat_box cat ''rdqm'' rhel9)" "\<not> isl (cat_box cat ''rdqm'' rhel10)" by (rule sample_catalog)
  then obtain b b' where b: "cat_box cat ''rdqm'' rhel9 = Inr b" "cat_box cat ''rdqm'' rhel10 = Inr b'"
    by (auto dest!: not_isl_Inr)
  have ok: "ref_ok rhel9" "ref_ok rhel10" "rhel9 \<noteq> rhel10"
    by (simp_all add: ref_ok_def rhel9_def rhel10_def FAMILIES_def)
  from box_names_unique[OF b ok(1,2)] cat(1) b ok(3) show ?thesis by blast
qed

end
