(* ===== verification/Platforms.thy ===== *)
theory Platforms
  imports Catalog_Load "HOL-Library.List_Lexorder" "HOL-Library.Char_ord"
begin

text \<open>
  From a topology node to the machine the hypervisor runs (\<open>mqlab/platforms.py\<close>): the provider settings
  of each node on this host, and the size of the transient machine a box is baked in. A
  \<open>PlatformError\<close> is a \<open>ValueErr\<close>.
\<close>

section \<open>Definitions\<close>

definition AAVMF_LOADER :: string where
  "AAVMF_LOADER = ''/usr/share/AAVMF/AAVMF_CODE.fd''"

definition MACHINE_TYPE_X86 :: string where
  "MACHINE_TYPE_X86 = ''q35''"

definition CPU_KVM :: string where
  "CPU_KVM = ''host-passthrough''"

definition CPU_TCG :: string where
  "CPU_TCG = ''maximum''"

definition TCG_BOOT_TIMEOUT :: int where
  "TCG_BOOT_TIMEOUT = 1800"

definition LIBVIRT_POOL :: string where
  "LIBVIRT_POOL = ''/var/lib/libvirt/images''"

record ResolvedNode =
  rn_os :: string
  rn_box :: string
  rn_arch :: string
  rn_driver :: string
  rn_machine_arch :: "string option"
  rn_machine_type :: "string option"
  rn_loader :: "string option"
  rn_nvram :: "string option"
  rn_input_bus :: "string option"
  rn_cpu_mode :: string
  rn_boot_timeout :: "int option"
  rn_cpus :: int
  rn_memory :: int
  rn_extra_disk :: pyval
  rn_dvd :: "string option"
  rn_nics :: pyval
  rn_memory_backing :: "string option"

definition require_native_kvm :: "HostFacts \<Rightarrow> (py_error, unit) result" where
  "require_native_kvm facts = ensure (hf_kvm facts) (ValueErr ''native KVM required'')"

definition box_build_arch :: "string option \<Rightarrow> HostFacts \<Rightarrow> string" where
  "box_build_arch pinned facts = (case pinned of Some a \<Rightarrow> (if a \<noteq> [] then a else hf_arch facts) | None \<Rightarrow> hf_arch facts)"

definition is_foreign_box_build :: "string option \<Rightarrow> HostFacts \<Rightarrow> bool" where
  "is_foreign_box_build pinned facts =
     (case pinned of None \<Rightarrow> False | Some a \<Rightarrow> a \<noteq> [] \<and> a \<noteq> hf_arch facts)"

definition box_build_domain_virt :: "string \<Rightarrow> HostFacts \<Rightarrow> string \<times> string" where
  "box_build_domain_virt box_arch facts =
     (if box_arch = hf_arch facts \<and> hf_kvm facts then (''kvm'', CPU_KVM) else (''qemu'', CPU_TCG))"

definition build_domain_virt :: "HostFacts \<Rightarrow> string \<times> string" where
  "build_domain_virt facts = box_build_domain_virt X86_64 facts"

text \<open>A positive integer; a boolean is refused although Python counts it as an integer.\<close>

definition positive_int :: "pyval \<Rightarrow> (py_error, int) result" where
  "positive_int v = (case v of
     PInt i \<Rightarrow> (if i < 1 then Inl (ValueErr ''must be a positive integer'') else Inr i)
   | _ \<Rightarrow> Inl (ValueErr ''must be a positive integer''))"

definition node_sizing :: "pyval \<Rightarrow> pyval \<Rightarrow> (py_error, int \<times> int) result" where
  "node_sizing spec defaults =
     rbind (dict_get defaults ''cpus'' (PInt 1)) (\<lambda>dc.
     rbind (dict_get spec ''cpus'' dc) (\<lambda>cpus.
     rbind (dict_get defaults ''memory'' (PInt 1024)) (\<lambda>dm.
     rbind (dict_get spec ''memory'' dm) (\<lambda>mem.
     rbind (positive_int cpus) (\<lambda>c.
     rbind (positive_int mem) (\<lambda>m. Inr (c, m)))))))"

definition provider :: "pyval \<Rightarrow> pyval \<Rightarrow> pyval \<Rightarrow> BoxEntry \<Rightarrow> HostFacts \<Rightarrow> (py_error, ResolvedNode) result" where
  "provider name spec defaults entry facts =
     (let guest = box_build_arch (oe_arch_pin (b_os entry)) facts in
      rbind (ensure (\<not> (guest = AARCH64 \<and> hf_arch facts = X86_64)) (ValueErr ''emulating ARM on x86'')) (\<lambda>_.
      let kvm = (guest = hf_arch facts \<and> hf_kvm facts); is_arm = (guest = AARCH64) in
      rbind (node_sizing spec defaults) (\<lambda>(cpus, memory).
      rbind (to_str name) (\<lambda>n.
      rbind (dict_get spec ''extra_disk'' PNone) (\<lambda>disk.
      rbind (dict_get spec ''nics'' (PDict [])) (\<lambda>nics.
      Inr \<lparr>rn_os = os_str (oe_ref (b_os entry)), rn_box = b_name entry, rn_arch = guest,
           rn_driver = (if kvm then ''kvm'' else ''qemu''),
           rn_machine_arch = (if is_arm then None else Some X86_64),
           rn_machine_type = (if is_arm then None else Some MACHINE_TYPE_X86),
           rn_loader = (if is_arm then Some AAVMF_LOADER else None),
           rn_nvram = (if is_arm then Some (''/var/lib/libvirt/qemu/nvram/lab-'' @ n @ ''_VARS.fd'') else None),
           rn_input_bus = (if is_arm then Some ''virtio'' else None),
           rn_cpu_mode = (if kvm then CPU_KVM else CPU_TCG),
           rn_boot_timeout = (if kvm then None else Some TCG_BOOT_TIMEOUT),
           rn_cpus = cpus, rn_memory = memory, rn_extra_disk = disk,
           rn_dvd = (case oe_iso (b_os entry) of None \<Rightarrow> None
                     | Some i \<Rightarrow> if i \<noteq> [] then Some (LIBVIRT_POOL @ ''/'' @ i) else None),
           rn_nics = nics, rn_memory_backing = None\<rparr>))))))"

definition resolve ::
  "pyval \<Rightarrow> HostFacts \<Rightarrow> (pyval \<times> BoxEntry) list \<Rightarrow> (py_error, (pyval \<times> ResolvedNode) list) result" where
  "resolve topo facts boxes =
     rbind (dict_get topo ''defaults'' (PDict [])) (\<lambda>defaults.
     rbind (memory_backing topo) (\<lambda>backing.
     rbind (dict_get topo ''nodes'' (PDict [])) (\<lambda>nv.
     rbind (dict_items nv) (\<lambda>nodes.
     traverse (\<lambda>(name, raw).
       case map_of boxes name of
         None \<Rightarrow> Inl (ValueErr ''no box selected'')
       | Some b \<Rightarrow> rbind (provider name (or_empty raw) defaults b facts) (\<lambda>node.
           Inr (name, node\<lparr>rn_memory_backing := backing\<rparr>))) nodes))))"

section \<open>Bake sizes\<close>

definition BAKE_FLOOR_CPUS :: int where
  "BAKE_FLOOR_CPUS = 2"

definition BAKE_FLOOR_MEMORY_MIB :: int where
  "BAKE_FLOOR_MEMORY_MIB = 2048"

definition BAKE_CAP_CPUS :: int where
  "BAKE_CAP_CPUS = 12"

definition BAKE_CAP_MEMORY_MIB :: int where
  "BAKE_CAP_MEMORY_MIB = 12288"

record BakeSize =
  bs_cpus :: int
  bs_memory :: int
  bs_nodes :: "string list"

text \<open>One node of the topology: its name and size when it boots the role, nothing otherwise.\<close>

definition role_size ::
  "pyval \<Rightarrow> string \<Rightarrow> pyval \<times> pyval \<Rightarrow> (py_error, (string \<times> int \<times> int) list) result" where
  "role_size defaults role ns = (case ns of (name, spec) \<Rightarrow>
     rbind (node_role spec) (\<lambda>r.
     if r \<noteq> role then Inr []
     else rbind (node_sizing (or_empty spec) defaults) (\<lambda>cm.
          rbind (to_str name) (\<lambda>n. Inr [(n, cm)]))))"

definition bake_size :: "pyval \<Rightarrow> string \<Rightarrow> (py_error, BakeSize) result" where
  "bake_size topo role =
     rbind (dict_get topo ''defaults'' PNone) (\<lambda>dv.
     rbind (dict_get topo ''nodes'' PNone) (\<lambda>nv.
     rbind (dict_items (or_empty nv)) (\<lambda>nodes.
     rbind (traverse (role_size (or_empty dv) role) nodes) (\<lambda>sss.
     let sizes = concat sss in
     rbind (ensure (sizes \<noteq> []) (ValueErr ''no topology node boots it'')) (\<lambda>_.
     let cpus = fold max (map (fst \<circ> snd) sizes) BAKE_FLOOR_CPUS;
         mem = fold max (map (snd \<circ> snd) sizes) BAKE_FLOOR_MEMORY_MIB
     in
     rbind (ensure (\<not> (cpus > BAKE_CAP_CPUS \<or> mem > BAKE_CAP_MEMORY_MIB)) (ValueErr ''over the cap'')) (\<lambda>_.
     Inr \<lparr>bs_cpus = cpus, bs_memory = mem, bs_nodes = sort (map fst sizes)\<rparr>))))))"

section \<open>Lemmas\<close>

lemma positive_int_eq: "positive_int v = Inr i \<longleftrightarrow> v = PInt i \<and> 1 \<le> i"
  by (cases v) (auto simp: positive_int_def)

lemma node_sizing_eq:
  "node_sizing spec defaults = Inr (c, m) \<longleftrightarrow> is_dict spec \<and> is_dict defaults
     \<and> get_default spec ''cpus'' (get_default defaults ''cpus'' (PInt 1)) = PInt c \<and> 1 \<le> c
     \<and> get_default spec ''memory'' (get_default defaults ''memory'' (PInt 1024)) = PInt m \<and> 1 \<le> m"
  by (auto simp: node_sizing_def rbind_eq_Inr dict_get_def positive_int_eq)

lemma provider_sound:
  assumes "provider name spec defaults entry facts = Inr r"
  shows "rn_arch r = box_build_arch (oe_arch_pin (b_os entry)) facts
    \<and> \<not> (rn_arch r = AARCH64 \<and> hf_arch facts = X86_64)
    \<and> rn_driver r = (if rn_arch r = hf_arch facts \<and> hf_kvm facts then ''kvm'' else ''qemu'')
    \<and> (rn_driver r, rn_cpu_mode r) = box_build_domain_virt (rn_arch r) facts
    \<and> (rn_boot_timeout r = None \<longleftrightarrow> rn_driver r = ''kvm'')
    \<and> (rn_loader r = None \<longleftrightarrow> rn_machine_type r \<noteq> None)
    \<and> node_sizing spec defaults = Inr (rn_cpus r, rn_memory r) \<and> rn_box r = b_name entry"
  using assms
  by (auto simp: provider_def Let_def rbind_eq_Inr box_build_domain_virt_def split: prod.splits)

lemma fold_max: "fold max xs (a :: int) = Max (insert a (set xs))"
  using Max.set_eq_fold[of a xs] by (simp add: max.commute)

lemma box_entry_of: "cat_box cat role ref = Inr b \<Longrightarrow> b_role b = role"
  by (auto simp: cat_box_eq)

text \<open>The huge-page sizing and the provider read the same memory for a node.\<close>

lemma sizing_agrees:
  assumes "is_dict topo" and "is_dict (get_default topo ''nodes'' (PDict []))"
    and "map_of (items (get_default topo ''nodes'' (PDict []))) (PStr g) = Some raw"
    and "node_sizing (or_empty raw) (get_default topo ''defaults'' (PDict [])) = Inr (c, m)"
  shows "guest_memory_mib topo g = Inr m"
proof -
  have empty: "or_empty v = v" if "is_dict v" for v using that by (cases v) simp_all
  have nodes: "items (or_empty (get_default topo ''nodes'' PNone)) = items (get_default topo ''nodes'' (PDict []))"
    "is_dict (or_empty (get_default topo ''nodes'' PNone))"
    using assms(2) empty by (cases "lookup topo ''nodes''"; simp add: get_default_def or_empty_def)+
  have dflt: "or_empty (get_default topo ''defaults'' PNone) = get_default topo ''defaults'' (PDict [])"
    using assms(4) empty by (cases "lookup topo ''defaults''"; simp add: get_default_def or_empty_def node_sizing_eq)
  from assms nodes dflt show ?thesis
    by (simp add: guest_memory_mib_def dict_get_def dict_items_def node_sizing_eq)
qed

section \<open>Properties\<close>

text \<open>Every node gets the machine its box and this host allow: each topology node is resolved, in
  order, to the box chosen for it; it runs under KVM exactly when its architecture is the host's and
  KVM is usable, and under emulation with the long boot timeout otherwise; ARM is never emulated on
  x86; its size is positive; its memory backing is the topology's; and the huge-page sizing counts
  the same memory for it.\<close>

theorem resolve_sound:
  assumes "resolve topo facts boxes = Inr out"
  shows "map fst out = map fst (items (get_default topo ''nodes'' (PDict [])))
    \<and> (\<forall>n r. (n, r) \<in> set out \<longrightarrow> (\<exists>b. map_of boxes n = Some b \<and> rn_box r = b_name b
         \<and> rn_arch r = box_build_arch (oe_arch_pin (b_os b)) facts
         \<and> \<not> (rn_arch r = AARCH64 \<and> hf_arch facts = X86_64)
         \<and> (rn_driver r = ''kvm'' \<longleftrightarrow> rn_arch r = hf_arch facts \<and> hf_kvm facts)
         \<and> (rn_boot_timeout r = None \<longleftrightarrow> rn_driver r = ''kvm'')
         \<and> 1 \<le> rn_cpus r \<and> 1 \<le> rn_memory r
         \<and> memory_backing topo = Inr (rn_memory_backing r)
         \<and> (\<forall>g. n = PStr g \<and> distinct (map fst (items (get_default topo ''nodes'' (PDict []))))
               \<longrightarrow> guest_memory_mib topo g = Inr (rn_memory r))))"
proof -
  define defaults where "defaults = get_default topo ''defaults'' (PDict [])"
  from assms obtain backing where b: "memory_backing topo = Inr backing" and topo: "is_dict topo"
    and nodes: "is_dict (get_default topo ''nodes'' (PDict []))"
    and tr: "traverse (\<lambda>(name, raw). case map_of boxes name of None \<Rightarrow> Inl (ValueErr ''no box selected'')
       | Some b \<Rightarrow> rbind (provider name (or_empty raw) defaults b facts) (\<lambda>node.
           Inr (name, node\<lparr>rn_memory_backing := backing\<rparr>)))
       (items (get_default topo ''nodes'' (PDict []))) = Inr out"
    by (auto simp: resolve_def rbind_eq_Inr dict_get_def dict_items_def simp flip: defaults_def split: if_splits)
  have keys: "map fst out = map fst ns" if "traverse (\<lambda>(name, raw). case map_of boxes name of None \<Rightarrow> Inl (ValueErr ''no box selected'')
       | Some b \<Rightarrow> rbind (provider name (or_empty raw) defaults b facts) (\<lambda>node.
           Inr (name, node\<lparr>rn_memory_backing := backing\<rparr>))) ns = Inr out" for ns out
    using that by (induction ns arbitrary: out) (auto simp: rbind_eq_Inr split: option.splits)
  have "\<exists>b. map_of boxes n = Some b \<and> rn_box r = b_name b
         \<and> rn_arch r = box_build_arch (oe_arch_pin (b_os b)) facts
         \<and> \<not> (rn_arch r = AARCH64 \<and> hf_arch facts = X86_64)
         \<and> (rn_driver r = ''kvm'' \<longleftrightarrow> rn_arch r = hf_arch facts \<and> hf_kvm facts)
         \<and> (rn_boot_timeout r = None \<longleftrightarrow> rn_driver r = ''kvm'')
         \<and> 1 \<le> rn_cpus r \<and> 1 \<le> rn_memory r
         \<and> memory_backing topo = Inr (rn_memory_backing r)
         \<and> (\<forall>g. n = PStr g \<and> distinct (map fst (items (get_default topo ''nodes'' (PDict []))))
               \<longrightarrow> guest_memory_mib topo g = Inr (rn_memory r))" if nr: "(n, r) \<in> set out" for n r
  proof -
    from traverse_memD[OF tr nr] obtain raw b0 node where
      raw: "(n, raw) \<in> set (items (get_default topo ''nodes'' (PDict [])))" and
      b0: "map_of boxes n = Some b0" "provider n (or_empty raw) defaults b0 facts = Inr node"
      "r = node\<lparr>rn_memory_backing := backing\<rparr>"
      by (auto simp: rbind_eq_Inr split: option.splits)
    have size: "node_sizing (or_empty raw) defaults = Inr (rn_cpus r, rn_memory r)"
      using provider_sound[OF b0(2)] b0(3) by simp
    have "guest_memory_mib topo g = Inr (rn_memory r)"
      if "n = PStr g" "distinct (map fst (items (get_default topo ''nodes'' (PDict []))))" for g
      using sizing_agrees[OF topo nodes _ size[unfolded defaults_def]] raw that by simp
    with provider_sound[OF b0(2)] b0 b size show ?thesis by (auto simp: node_sizing_eq)
  qed
  with keys[OF tr] show ?thesis by blast
qed

definition sample_boxes :: "(pyval \<times> BoxEntry) list" where
  "sample_boxes = map (\<lambda>n. (PStr n, \<lparr>b_name = ''obs-ubuntu24'', b_role = ''obs'',
     b_os = \<lparr>oe_ref = \<lparr>os_family = ''ubuntu'', os_major = 24\<rparr>, oe_base_box = ''u24'', oe_base_box_version = None,
       oe_point = None, oe_iso = None, oe_arch_pin = None, oe_requires = [], oe_ibm_unsupported_source = None,
       oe_lab_default_decision = None\<rparr>,
     b_bake_stem = ''obs'', b_mq_bearing = False, b_components = []\<rparr>)) [''obs'', ''a'']"

theorem resolve_sound_witness:
  "\<exists>out r. resolve sample_lab sample_host sample_boxes = Inr out \<and> map_of out (PStr ''obs'') = Some r
     \<and> rn_driver r = ''kvm'' \<and> rn_memory r = 10241 \<and> guest_memory_mib sample_lab ''obs'' = Inr (rn_memory r)"
proof -
  have ev: "(case resolve sample_lab sample_host sample_boxes of Inl e \<Rightarrow> False
     | Inr out \<Rightarrow> map_option rn_memory (map_of out (PStr ''obs'')) = Some 10241
         \<and> map_option rn_driver (map_of out (PStr ''obs'')) = Some ''kvm'')" by code_simp
  then obtain out where out: "resolve sample_lab sample_host sample_boxes = Inr out" by (auto split: sum.splits)
  with ev obtain r where r: "map_of out (PStr ''obs'') = Some r" "rn_memory r = 10241" "rn_driver r = ''kvm''" by auto
  have "distinct (map fst (items (get_default sample_lab ''nodes'' (PDict []))))" by code_simp
  with resolve_sound[OF out] map_of_SomeD[OF r(1)] have "guest_memory_mib sample_lab ''obs'' = Inr (rn_memory r)"
    by fastforce
  with out r show ?thesis by blast
qed

text \<open>A box is baked in a machine at least as large as every node that boots it: the size is the
  largest vCPU count and the largest memory among those nodes and the floor, never above the cap; it
  is refused when no node boots the role or the cap is exceeded.\<close>

theorem bake_size_covers:
  assumes "bake_size topo role = Inr s"
  shows "BAKE_FLOOR_CPUS \<le> bs_cpus s \<and> bs_cpus s \<le> BAKE_CAP_CPUS
    \<and> BAKE_FLOOR_MEMORY_MIB \<le> bs_memory s \<and> bs_memory s \<le> BAKE_CAP_MEMORY_MIB
    \<and> bs_nodes s \<noteq> [] \<and> sorted (bs_nodes s)
    \<and> (\<forall>name spec. (name, spec) \<in> set (items (or_empty (get_or_none topo ''nodes'')))
         \<and> node_role spec = Inr role \<longrightarrow>
           (\<exists>c m. node_sizing (or_empty spec) (or_empty (get_or_none topo ''defaults'')) = Inr (c, m)
              \<and> c \<le> bs_cpus s \<and> m \<le> bs_memory s))"
proof -
  from assms obtain sss where
    tr: "traverse (role_size (or_empty (get_or_none topo ''defaults'')) role) (items (or_empty (get_or_none topo ''nodes''))) = Inr sss"
    and ne: "concat sss \<noteq> []"
    and caps: "bs_cpus s \<le> BAKE_CAP_CPUS" "bs_memory s \<le> BAKE_CAP_MEMORY_MIB"
    and s: "bs_cpus s = fold max (map (fst \<circ> snd) (concat sss)) BAKE_FLOOR_CPUS"
      "bs_memory s = fold max (map (snd \<circ> snd) (concat sss)) BAKE_FLOOR_MEMORY_MIB"
      "bs_nodes s = sort (map fst (concat sss))"
    by (auto simp: bake_size_def rbind_eq_Inr Let_def dict_get_def dict_items_def get_or_none_def get_default_def
        split: if_splits) blast
  have size: "\<exists>c m. node_sizing (or_empty spec) (or_empty (get_or_none topo ''defaults'')) = Inr (c, m)
      \<and> c \<le> bs_cpus s \<and> m \<le> bs_memory s"
    if "(name, spec) \<in> set (items (or_empty (get_or_none topo ''nodes'')))" "node_role spec = Inr role" for name spec
  proof -
    from tr that(1) obtain xs where xs: "xs \<in> set sss" "role_size (or_empty (get_or_none topo ''defaults'')) role (name, spec) = Inr xs"
      by (auto simp: traverse_Inr_iff list_all2_conv_all_nth in_set_conv_nth) (metis nth_mem)
    with that(2) obtain n c m where cm: "node_sizing (or_empty spec) (or_empty (get_or_none topo ''defaults'')) = Inr (c, m)"
      and "xs = [(n, c, m)]"
      by (auto simp: role_size_def rbind_eq_Inr)
    with xs(1) have "(n, c, m) \<in> set (concat sss)" by (auto intro!: bexI[of _ xs])
    then have "c \<in> set (map (fst \<circ> snd) (concat sss))" "m \<in> set (map (snd \<circ> snd) (concat sss))" by force+
    then have "c \<le> bs_cpus s" "m \<le> bs_memory s" unfolding s fold_max by (simp_all only: Max_ge finite_insert finite_set insertI2)
    with cm show ?thesis by blast
  qed
  have "BAKE_FLOOR_CPUS \<le> bs_cpus s" "BAKE_FLOOR_MEMORY_MIB \<le> bs_memory s"
    unfolding s fold_max by (simp_all only: Max_ge finite_insert finite_set insertI1)
  moreover have "bs_nodes s \<noteq> []" using ne by (metis s(3) length_0_conv length_map length_sort)
  ultimately show ?thesis using caps size s(3) by auto
qed

definition sample_bakes :: pyval where
  "sample_bakes = PDict [(PStr ''nodes'', PDict
     [(PStr ''obs'', PDict [(PStr ''box'', PStr ''obs''), (PStr ''cpus'', PInt 12), (PStr ''memory'', PInt 1536)]),
      (PStr ''obs2'', PDict [(PStr ''box'', PStr ''obs''), (PStr ''memory'', PInt 10240)])])]"

theorem bake_size_covers_witness:
  "\<exists>s. bake_size sample_bakes ''obs'' = Inr s \<and> bs_cpus s = 12 \<and> bs_memory s = 10240
     \<and> bs_cpus s \<le> BAKE_CAP_CPUS \<and> bs_nodes s \<noteq> []"
proof -
  have ev: "(case bake_size sample_bakes ''obs'' of Inl e \<Rightarrow> False
     | Inr s \<Rightarrow> bs_cpus s = 12 \<and> bs_memory s = 10240)" by code_simp
  then obtain s where s: "bake_size sample_bakes ''obs'' = Inr s" by (auto split: sum.splits)
  from bake_size_covers[OF s] s ev show ?thesis by auto
qed

end
