(* ===== verification/Phases.thy ===== *)
theory Phases
  imports Platforms Orchestrator
begin

text \<open>
  The bring-up phases of a stack (\<open>mqlab/phases.py\<close>): which guests a bring-up covers, in which order
  and batches they boot, the steps every phase emits, the probes that decide whether a phase needs
  work, and the registry with its resume point.

  What the module reads is one record: the repository root, the network names found on disk, the
  effective topology, the catalog document with the component projects on disk, and the instance
  records. A guest name that is not a text is outside the model (\<open>Unmodelled\<close>): the command lines of
  the steps are texts. The deps argument, which no builder uses, is left out.
\<close>

record LabEnv =
  le_root :: string
  le_nets :: "string list"
  le_topo :: pyval
  le_components :: "string \<Rightarrow> bool"
  le_versions :: pyval
  le_records :: "string \<Rightarrow> OsRef option"

definition NET :: string where
  "NET = ''net''"

definition VMS :: string where
  "VMS = ''vms''"

definition PROVISION :: string where
  "PROVISION = ''provision''"

definition OBSERVE :: string where
  "OBSERVE = ''observe''"

definition stamped :: "string \<Rightarrow> CommandStep list \<Rightarrow> CommandStep list" where
  "stamped phase steps = map (\<lambda>step. step\<lparr>cs_phase := phase\<rparr>) steps"

text \<open>A command in a directory, and a plain step: no retry, no phase.\<close>

definition run_in :: "string option \<Rightarrow> string list \<Rightarrow> Command" where
  "run_in dir args = \<lparr>argv = args, cwd = dir, cmd_env = None\<rparr>"

definition plain_step :: "string \<Rightarrow> Command \<Rightarrow> CommandStep" where
  "plain_step label cmd = \<lparr>cs_label = label, cs_command = cmd, cs_retry = None, cs_phase = []\<rparr>"

definition host_text :: "pyval \<Rightarrow> (py_error, string) result" where
  "host_text v = (case v of PStr s \<Rightarrow> Inr s | _ \<Rightarrow> Inl (Unmodelled ''name is not a text''))"

section \<open>Topology helpers\<close>

definition commons_members :: "pyval \<Rightarrow> (py_error, pyval list) result" where
  "commons_members topo =
     rbind (group_table topo) (\<lambda>table.
     rbind (dict_get topo ''commons'' PNone) (\<lambda>cv.
     rbind (dict_get (or_empty cv) ''groups'' PNone) (\<lambda>gv.
     rbind (py_list (or_list gv)) (\<lambda>gs. Inr (hosts_of_groups table gs)))))"

definition group_hosts :: "pyval \<Rightarrow> string \<Rightarrow> (py_error, pyval list) result" where
  "group_hosts topo g =
     rbind (dict_get topo ''groups'' PNone) (\<lambda>gv.
     rbind (dict_get (or_empty gv) g PNone) (\<lambda>hv. py_list (or_list hv)))"

definition NON_MQ_COMMONS_GROUPS :: "string list" where
  "NON_MQ_COMMONS_GROUPS = [''infra'']"

definition non_mq_commons_hosts :: "pyval \<Rightarrow> (py_error, pyval list) result" where
  "non_mq_commons_hosts topo =
     rbind (dict_get topo ''groups'' PNone) (\<lambda>gv.
     rbind (traverse (\<lambda>g. rbind (dict_get (or_empty gv) g PNone) (\<lambda>hv. py_list (or_list hv))) NON_MQ_COMMONS_GROUPS)
       (\<lambda>hs. Inr (concat hs)))"

definition all_vms :: "pyval \<Rightarrow> Stack \<Rightarrow> bool \<Rightarrow> (py_error, pyval list) result" where
  "all_vms topo stk no_dr =
     rbind (host_text (stk_name stk)) (\<lambda>name.
     rbind (stack_members_effective topo name no_dr) (\<lambda>members.
     rbind (commons_members topo) (\<lambda>commons.
     Inr (add_all_new commons (case members of None \<Rightarrow> [] | Some ms \<Rightarrow> ms)))))"

definition boot_order :: "pyval \<Rightarrow> Stack \<Rightarrow> bool \<Rightarrow> (py_error, pyval list) result" where
  "boot_order topo stk no_dr =
     rbind (all_vms topo stk no_dr) (\<lambda>vms.
     rbind (non_mq_commons_hosts topo) (\<lambda>infra.
     Inr (filter (\<lambda>vm. vm \<in> set infra) vms @ filter (\<lambda>vm. vm \<notin> set infra) vms)))"

definition qm_extra_vars :: "Stack \<Rightarrow> string list" where
  "qm_extra_vars stk = (let qm = stk_qm stk in
     [''-e'', ''qm_app='' @ qm_name qm, ''-e'', ''qm_svc='' @ qm_svc qm,
      ''-e'', ''chl_to_svc='' @ chl_to_svc qm, ''-e'', ''chl_to_app='' @ chl_to_app qm,
      ''-e'', ''svc_req_queue='' @ req_queue qm])"

definition lab_script :: "string \<Rightarrow> string \<Rightarrow> string" where
  "lab_script repo name = repo @ ''/lab/scripts/'' @ name"

section \<open>Networks\<close>

record States =
  nets :: "string \<rightharpoonup> string"
  domains :: "string \<rightharpoonup> string"
  qm_up :: bool
  observe :: bool

definition build_states :: "(string \<rightharpoonup> string) \<Rightarrow> (string \<rightharpoonup> string) \<Rightarrow> bool \<Rightarrow> bool \<Rightarrow> States" where
  "build_states ns ds q obs = \<lparr>nets = ns, domains = ds, qm_up = q, observe = obs\<rparr>"

definition net_build_steps :: "LabEnv \<Rightarrow> Stack \<Rightarrow> bool \<Rightarrow> (py_error, CommandStep list) result" where
  "net_build_steps env stk no_dr = Inr (stamped NET
     [plain_step ''networks up'' (run_in None ([''bash'', lab_script (le_root env) ''net-up.sh''] @ le_nets env))])"

definition net_satisfied :: "LabEnv \<Rightarrow> Stack \<Rightarrow> States \<Rightarrow> (py_error, bool) result" where
  "net_satisfied env stk states = Inr (list_all (\<lambda>net. classify_net (nets states) net = ACTIVE) (le_nets env))"

section \<open>Guests\<close>

definition DEFAULT_BOOT_BATCH :: int where
  "DEFAULT_BOOT_BATCH = 4"

definition BOOT_RETRY :: RetryPolicy where
  "BOOT_RETRY = \<lparr>rp_attempts = 3, base_delay = 15, backoff = 2, max_delay = 60\<rparr>"

definition boot_batch :: "pyval \<Rightarrow> (py_error, int) result" where
  "boot_batch topo =
     rbind (dict_get topo ''boot_batch'' (PInt DEFAULT_BOOT_BATCH)) (\<lambda>v.
     case v of
       PInt n \<Rightarrow> if n < 1 then Inl (ValueErr ''boot_batch'') else Inr n
     | _ \<Rightarrow> Inl (ValueErr ''boot_batch''))"

definition batch_guests :: "'a list \<Rightarrow> int \<Rightarrow> 'a list list" where
  "batch_guests guests n = chunks (nat n) guests"

definition guest_box :: "(pyval \<times> BoxEntry) list \<Rightarrow> pyval \<Rightarrow> (py_error, string) result" where
  "guest_box boxes guest =
     (case map_of boxes guest of None \<Rightarrow> Inl (ValueErr ''not a node'') | Some b \<Rightarrow> Inr (b_name b))"

definition batch_shares_box :: "(pyval \<times> BoxEntry) list \<Rightarrow> pyval list \<Rightarrow> (py_error, bool) result" where
  "batch_shares_box boxes batch =
     rbind (traverse (guest_box boxes) batch) (\<lambda>keys. Inr (length (remdups keys) \<noteq> length keys))"

text \<open>The boxes every node boots: \<open>node_boxes(_topology(), load_catalog())\<close>.\<close>

definition lab_boxes :: "LabEnv \<Rightarrow> (py_error, (pyval \<times> BoxEntry) list) result" where
  "lab_boxes env =
     rbind (load_catalog (le_components env) (le_versions env)) (\<lambda>cat.
     node_boxes (le_records env) (le_topo env) cat)"

definition boot_label :: "string \<Rightarrow> nat \<Rightarrow> nat \<Rightarrow> string" where
  "boot_label name index count =
     name @ '' vms up'' @
       (if count = 1 then [] else '' ['' @ nat_str index @ ''/'' @ nat_str count @ '']'')"

definition boot_step ::
  "LabEnv \<Rightarrow> string \<Rightarrow> (pyval \<times> BoxEntry) list \<Rightarrow> nat \<Rightarrow> nat \<times> pyval list \<Rightarrow> (py_error, CommandStep) result" where
  "boot_step env name boxes count ib = (case ib of (index, batch) \<Rightarrow>
     rbind (batch_shares_box boxes batch) (\<lambda>shares.
     rbind (traverse host_text batch) (\<lambda>hosts.
     Inr \<lparr>cs_label = boot_label name index count,
          cs_command = run_in (Some (le_root env @ ''/lab''))
            ([''vagrant'', ''up''] @ (if shares then [''--no-parallel''] else []) @ hosts),
          cs_retry = Some BOOT_RETRY, cs_phase = []\<rparr>)))"

definition vms_build_steps :: "LabEnv \<Rightarrow> Stack \<Rightarrow> bool \<Rightarrow> (py_error, CommandStep list) result" where
  "vms_build_steps env stk no_dr =
     rbind (lab_boxes env) (\<lambda>boxes.
     rbind (boot_order (le_topo env) stk no_dr) (\<lambda>vms.
     rbind (boot_batch (le_topo env)) (\<lambda>n.
     rbind (host_text (stk_name stk)) (\<lambda>name.
     let batches = batch_guests vms n in
     rbind (traverse (boot_step env name boxes (length batches)) (List.enumerate 1 batches)) (\<lambda>steps.
     Inr (stamped VMS steps))))))"

definition vms_satisfied :: "LabEnv \<Rightarrow> Stack \<Rightarrow> States \<Rightarrow> (py_error, bool) result" where
  "vms_satisfied env stk states =
     rbind (all_vms (le_topo env) stk False) (\<lambda>vms.
     rbind (traverse host_text vms) (\<lambda>hosts.
     Inr (list_all (\<lambda>vm. classify_guest (domains states) vm = RUNNING) hosts)))"

section \<open>Provisioning\<close>

text \<open>The upload and run steps for one guest; none for a guest without a RHEL box or without addresses.\<close>

definition nic_steps_for ::
  "LabEnv \<Rightarrow> (pyval \<times> pyval) list \<Rightarrow> (pyval \<times> BoxEntry) list \<Rightarrow> string \<Rightarrow> string \<Rightarrow> pyval
     \<Rightarrow> (py_error, CommandStep list) result" where
  "nic_steps_for env nodes boxes script label guest =
     (case map_of boxes guest of
        None \<Rightarrow> Inr []
      | Some b \<Rightarrow>
          if os_family (oe_ref (b_os b)) \<noteq> ''rhel'' then Inr []
          else
            rbind (dict_get (or_empty (case map_of nodes guest of None \<Rightarrow> PNone | Some s \<Rightarrow> s)) ''nics'' PNone) (\<lambda>nv.
            rbind (dict_items (or_empty nv)) (\<lambda>nics.
            rbind (traverse to_str (filter truthy (map snd nics))) (\<lambda>ips.
            if ips = [] then Inr []
            else rbind (host_text guest) (\<lambda>name.
              let dest = ''/home/vagrant/'' @ script; lab = Some (le_root env @ ''/lab'') in
              Inr [plain_step (label @ '' upload '' @ name)
                     (run_in lab [''vagrant'', ''upload'', ''scripts/'' @ script, dest, name]),
                   plain_step (label @ '' '' @ name)
                     (run_in lab [''vagrant'', ''ssh'', name, ''-c'', ''sudo bash '' @ dest @ '' '' @ str_join '' '' ips])])))))"

definition rhel_nat_nic_steps ::
  "LabEnv \<Rightarrow> Stack \<Rightarrow> string \<Rightarrow> string \<Rightarrow> bool \<Rightarrow> (py_error, CommandStep list) result" where
  "rhel_nat_nic_steps env stk script label no_dr =
     rbind (dict_get (le_topo env) ''nodes'' PNone) (\<lambda>nv.
     rbind (lab_boxes env) (\<lambda>boxes.
     rbind (all_vms (le_topo env) stk no_dr) (\<lambda>vms.
     rbind (traverse (nic_steps_for env (items (or_empty nv)) boxes script label) vms) (\<lambda>parts.
     Inr (concat parts)))))"

definition nic_config_steps :: "LabEnv \<Rightarrow> Stack \<Rightarrow> bool \<Rightarrow> (py_error, CommandStep list) result" where
  "nic_config_steps env stk no_dr = rhel_nat_nic_steps env stk ''nic-config.sh'' ''nic-config'' no_dr"

definition nic_assure_steps :: "LabEnv \<Rightarrow> Stack \<Rightarrow> bool \<Rightarrow> (py_error, CommandStep list) result" where
  "nic_assure_steps env stk no_dr = rhel_nat_nic_steps env stk ''nic-assure.sh'' ''nic-assure'' no_dr"

text \<open>\<open>Path(p).name\<close>: the last component that is neither empty nor a single dot.\<close>

definition path_name :: "string \<Rightarrow> string" where
  "path_name p =
     (case rev (filter (\<lambda>c. c \<noteq> [] \<and> c \<noteq> ''.'') (split_on (\<lambda>c. c = CHR ''/'') p)) of [] \<Rightarrow> [] | c # _ \<Rightarrow> c)"

text \<open>\<open>",".join(all_vms(...))\<close>: the value of a \<open>--limit\<close>.\<close>

definition limit_of :: "LabEnv \<Rightarrow> Stack \<Rightarrow> bool \<Rightarrow> (py_error, string) result" where
  "limit_of env stk no_dr =
     rbind (all_vms (le_topo env) stk no_dr) (\<lambda>vms.
     rbind (traverse host_text vms) (\<lambda>hosts. Inr (str_join '','' hosts)))"

definition provision_build_steps :: "LabEnv \<Rightarrow> Stack \<Rightarrow> bool \<Rightarrow> (py_error, CommandStep list) result" where
  "provision_build_steps env stk no_dr =
     rbind (ensure (stk_provision stk \<noteq> PNone) (ValueErr ''no provision playbook'')) (\<lambda>_.
     rbind (limit_of env stk no_dr) (\<lambda>nodes.
     rbind (case stk_provision stk of PStr s \<Rightarrow> Inr s | _ \<Rightarrow> Inl (TypeErr ''Path'')) (\<lambda>playbook.
     rbind (host_text (stk_name stk)) (\<lambda>name.
     rbind (nic_config_steps env stk no_dr) (\<lambda>config.
     rbind (nic_assure_steps env stk no_dr) (\<lambda>assure.
     let ansible = Some (le_root env @ ''/ansible'') in
     Inr (stamped PROVISION (config @ assure @
       [plain_step ''render dns zones'' (run_in None [''mqlab'', ''dns'', ''render'']),
        plain_step (name @ '' provision dns'')
          (run_in ansible [''ansible-playbook'', ''site-dns.yml'', ''--limit'', nodes]),
        plain_step (name @ '' provision'')
          (run_in ansible ([''ansible-playbook'', path_name playbook] @ qm_extra_vars stk
             @ (if no_dr then [''-e'', ''dr_enabled=false''] else [])))])))))))) "

definition provision_satisfied :: "LabEnv \<Rightarrow> Stack \<Rightarrow> States \<Rightarrow> (py_error, bool) result" where
  "provision_satisfied env stk states = Inr (qm_up states)"

section \<open>Observability\<close>

definition mq_exporters_path :: "string \<Rightarrow> string" where
  "mq_exporters_path repo = repo @ ''/build/work/obs/mq-exporters.json''"

definition observe_build_steps :: "LabEnv \<Rightarrow> Stack \<Rightarrow> bool \<Rightarrow> (py_error, CommandStep list) result" where
  "observe_build_steps env stk no_dr =
     rbind (limit_of env stk no_dr) (\<lambda>nodes.
     rbind (host_text (stk_name stk)) (\<lambda>name.
     let ansible = Some (le_root env @ ''/ansible'') in
     Inr (stamped OBSERVE
       [plain_step ''render targets'' (run_in None [''mqlab'', ''obs'', ''targets'', ''--stack'', name]),
        plain_step ''render dashboard'' (run_in None [''mqlab'', ''obs'', ''dashboard'']),
        plain_step ''render reach-peers'' (run_in None [''mqlab'', ''obs'', ''reach-peers'']),
        plain_step (name @ '' provision observability'')
          (run_in ansible ([''ansible-playbook'', ''site-obs.yml'', ''-e'', ''@'' @ mq_exporters_path (le_root env),
             ''-e'', ''opensearch_snapshot_state_dir='' @ le_root env @ ''/build/state/logsearch''] @ qm_extra_vars stk)),
        plain_step (name @ '' instrument nodes'')
          (run_in ansible ([''ansible-playbook'', ''observability.yml'', ''--limit'', nodes] @ qm_extra_vars stk)),
        plain_step (name @ '' instrument host'')
          (run_in ansible [''ansible-playbook'', ''host-obs.yml'', ''-c'', ''local'', ''-i'', ''localhost,'']),
        plain_step ''publish net state'' (run_in None [''bash'', lab_script (le_root env) ''net-state-publish.sh'']),
        plain_step ''heal grafana port-forward relay'' (run_in None [''mqlab'', ''obs'', ''relay-heal''])])))"

definition observe_satisfied :: "LabEnv \<Rightarrow> Stack \<Rightarrow> States \<Rightarrow> (py_error, bool) result" where
  "observe_satisfied env stk states = Inr (observe states)"

section \<open>Registry\<close>

record Phase =
  ph_name :: string
  ph_build_steps :: "LabEnv \<Rightarrow> Stack \<Rightarrow> bool \<Rightarrow> (py_error, CommandStep list) result"
  ph_satisfied :: "LabEnv \<Rightarrow> Stack \<Rightarrow> States \<Rightarrow> (py_error, bool) result"
  ph_ensure :: "string list"

definition PHASES :: "Phase list" where
  "PHASES =
     [\<lparr>ph_name = NET, ph_build_steps = net_build_steps, ph_satisfied = net_satisfied, ph_ensure = []\<rparr>,
      \<lparr>ph_name = VMS, ph_build_steps = vms_build_steps, ph_satisfied = vms_satisfied, ph_ensure = [''boxes'', ''mq'']\<rparr>,
      \<lparr>ph_name = PROVISION, ph_build_steps = provision_build_steps, ph_satisfied = provision_satisfied,
       ph_ensure = [''galaxy'', ''mq'', ''pki'']\<rparr>,
      \<lparr>ph_name = OBSERVE, ph_build_steps = observe_build_steps, ph_satisfied = observe_satisfied, ph_ensure = [''pki'']\<rparr>]"

text \<open>The loop of \<open>first_unsatisfied\<close>, over the phases left and the index of the next one.\<close>

fun first_unsatisfied_from :: "('p \<Rightarrow> ('e, bool) result) \<Rightarrow> nat \<Rightarrow> 'p list \<Rightarrow> ('e, nat option) result" where
  "first_unsatisfied_from sat index [] = Inr None"
| "first_unsatisfied_from sat index (p # ps) =
     rbind (sat p) (\<lambda>ok. if ok then first_unsatisfied_from sat (index + 1) ps else Inr (Some index))"

definition first_unsatisfied :: "LabEnv \<Rightarrow> Stack \<Rightarrow> States \<Rightarrow> (py_error, nat option) result" where
  "first_unsatisfied env stk states = first_unsatisfied_from (\<lambda>p. ph_satisfied p env stk states) 0 PHASES"

section \<open>Guests of a bring-up\<close>

lemma host_text_Inr [simp]: "host_text v = Inr s \<longleftrightarrow> v = PStr s"
  by (cases v) (auto simp: host_text_def)

lemma traverse_host_text: "traverse host_text vs = Inr hs \<longleftrightarrow> vs = map PStr hs"
  by (induction vs arbitrary: hs) (auto simp: result_simps Cons_eq_map_conv)

lemma traverse_host_text_map: "traverse host_text (map PStr hs) = Inr hs"
  by (simp add: traverse_host_text)

lemma members_effective_distinct:
  assumes "stack_members_effective topo name no_dr = Inr (Some ms)"
  shows "distinct ms"
proof -
  from assms obtain full where "stack_members topo name = Inr (Some full)" and "ms = full \<or> (\<exists>P. ms = filter P full)"
    by (auto simp: stack_members_effective_def result_simps split: option.splits if_splits)
  moreover from this(1) have "distinct full"
    by (auto simp: stack_members_def result_simps distinct_hosts_of_groups split: option.splits)
  ultimately show ?thesis by auto
qed

lemma distinct_commons: "commons_members topo = Inr cs \<Longrightarrow> distinct cs"
  by (auto simp: commons_members_def result_simps distinct_hosts_of_groups)

lemma all_vms_parts:
  assumes "all_vms topo stk no_dr = Inr vms"
  obtains name members commons where "stk_name stk = PStr name"
    and "stack_members_effective topo name no_dr = Inr members" and "commons_members topo = Inr commons"
    and "vms = add_all_new commons (case members of None \<Rightarrow> [] | Some ms \<Rightarrow> ms)"
  using assms by (auto simp: all_vms_def result_simps)

lemma all_vms_distinct: "all_vms topo stk no_dr = Inr vms \<Longrightarrow> distinct vms"
  by (elim all_vms_parts) (auto dest: members_effective_distinct split: option.split)

text \<open>Without its DR site a bring-up keeps the commons and loses exactly the members that a DR group
  contributes.\<close>

lemma all_vms_no_dr:
  assumes "all_vms topo stk True = Inr vms" and "stk_name stk = PStr name"
    and "stack_dr_hosts topo name = Inr dr" and "commons_members topo = Inr commons" and "stack_members topo name = Inr (Some ms)"
  shows "set vms = (set ms - set dr) \<union> set commons"
  using assms by (auto simp: all_vms_def stack_members_effective_def result_simps split: option.splits)

lemma all_vms_full:
  assumes "all_vms topo stk True = Inr es" and "stk_name stk = PStr name" and "stack_members topo name = Inr (Some ms)"
  shows "\<exists>vms. all_vms topo stk False = Inr vms \<and> set es \<subseteq> set vms \<and> set ms \<subseteq> set vms"
  using assms by (auto simp: all_vms_def stack_members_effective_def result_simps)

section \<open>Boot steps\<close>

text \<open>The box a guest clones, and whether two guests of a batch clone the same one.\<close>

definition box_name :: "(pyval \<times> BoxEntry) list \<Rightarrow> string \<Rightarrow> string option" where
  "box_name boxes g = map_option b_name (map_of boxes (PStr g))"

definition boot_argv :: "(pyval \<times> BoxEntry) list \<Rightarrow> string list \<Rightarrow> string list" where
  "boot_argv boxes batch =
     [''vagrant'', ''up''] @ (if distinct (map (box_name boxes) batch) then [] else [''--no-parallel'']) @ batch"

lemma guest_box_text: "guest_box boxes (PStr g) = Inr n \<longleftrightarrow> box_name boxes g = Some n"
  by (auto simp: guest_box_def box_name_def split: option.splits)

lemma traverse_guest_box:
  "traverse (guest_box boxes) (map PStr batch) = Inr keys \<longleftrightarrow> map (box_name boxes) batch = map Some keys"
  by (induction batch arbitrary: keys) (auto simp: result_simps guest_box_text Cons_eq_map_conv map_eq_Cons_conv)

lemma batch_shares_box_text:
  assumes "batch_shares_box boxes (map PStr batch) = Inr shares"
  shows "shares \<longleftrightarrow> \<not> distinct (map (box_name boxes) batch)" and "\<forall>g \<in> set batch. box_name boxes g \<noteq> None"
proof -
  from assms obtain keys where keys: "map (box_name boxes) batch = map Some keys"
    and shares: "shares \<longleftrightarrow> length (remdups keys) \<noteq> length keys"
    by (auto simp: batch_shares_box_def result_simps traverse_guest_box)
  have "distinct (map Some keys) \<longleftrightarrow> distinct keys" by (simp add: distinct_map)
  with keys shares show "shares \<longleftrightarrow> \<not> distinct (map (box_name boxes) batch)"
    by (simp add: length_remdups_eq)
  from keys have "box_name boxes ` set batch = Some ` set keys" by (metis list.set_map)
  then show "\<forall>g \<in> set batch. box_name boxes g \<noteq> None" by force
qed

lemma boot_step_shape:
  assumes "boot_step env name boxes count (index, batch) = Inr s"
  obtains hosts where "batch = map PStr hosts" and "\<forall>g \<in> set hosts. box_name boxes g \<noteq> None"
    and "s = \<lparr>cs_label = boot_label name index count,
          cs_command = run_in (Some (le_root env @ ''/lab'')) (boot_argv boxes hosts), cs_retry = Some BOOT_RETRY, cs_phase = []\<rparr>"
proof -
  from assms obtain shares hosts where sh: "batch_shares_box boxes (map PStr hosts) = Inr shares" and b: "batch = map PStr hosts"
    and s: "s = \<lparr>cs_label = boot_label name index count,
          cs_command = run_in (Some (le_root env @ ''/lab''))
            ([''vagrant'', ''up''] @ (if shares then [''--no-parallel''] else []) @ hosts),
          cs_retry = Some BOOT_RETRY, cs_phase = []\<rparr>"
    by (auto simp: boot_step_def result_simps traverse_host_text)
  have "s = \<lparr>cs_label = boot_label name index count,
          cs_command = run_in (Some (le_root env @ ''/lab'')) (boot_argv boxes hosts), cs_retry = Some BOOT_RETRY, cs_phase = []\<rparr>"
    unfolding s boot_argv_def batch_shares_box_text(1)[OF sh] by simp
  with b batch_shares_box_text(2)[OF sh] show thesis by (rule that)
qed

text \<open>The steps of the numbered batches: one per batch, in order.\<close>

lemma boot_steps_shape:
  assumes "traverse (boot_step env name boxes count) (List.enumerate k batches) = Inr steps"
  shows "\<exists>hss. batches = map (map PStr) hss
    \<and> map (\<lambda>s. argv (cs_command s)) steps = map (boot_argv boxes) hss
    \<and> map cs_label steps = map (\<lambda>i. boot_label name i count) [k..<k + length batches]
    \<and> (\<forall>s \<in> set steps. cs_retry s = Some BOOT_RETRY)
    \<and> (\<forall>g \<in> set (concat hss). box_name boxes g \<noteq> None)"
  using assms
proof (induction batches arbitrary: k steps)
  case Nil
  then show ?case by simp
next
  case (Cons b bs)
  from Cons.prems obtain s ss where s: "boot_step env name boxes count (k, b) = Inr s"
    and ss: "traverse (boot_step env name boxes count) (List.enumerate (Suc k) bs) = Inr ss" and steps: "steps = s # ss"
    by (auto simp: result_simps)
  from boot_step_shape[OF s] obtain hosts where hosts: "b = map PStr hosts" "\<forall>g \<in> set hosts. box_name boxes g \<noteq> None"
    "argv (cs_command s) = boot_argv boxes hosts" "cs_label s = boot_label name k count" "cs_retry s = Some BOOT_RETRY"
    by (metis Command.select_convs(1) CommandStep.select_convs(1,2,3) run_in_def)
  from Cons.IH[OF ss] obtain hss where "bs = map (map PStr) hss"
    "map (\<lambda>s. argv (cs_command s)) ss = map (boot_argv boxes) hss"
    "map cs_label ss = map (\<lambda>i. boot_label name i count) [Suc k..<Suc k + length bs]"
    "\<forall>s \<in> set ss. cs_retry s = Some BOOT_RETRY" "\<forall>g \<in> set (concat hss). box_name boxes g \<noteq> None"
    by blast
  moreover have "[k..<k + length (b # bs)] = k # [Suc k..<Suc k + length bs]"
    by (simp add: upt_conv_Cons del: upt_Suc)
  ultimately show ?case using hosts steps
    by (intro exI[of _ "hosts # hss"]) (auto simp del: upt_Suc)
qed

lemma map_map_PStr_inject: "map (map PStr) xss = map (map PStr) yss \<longleftrightarrow> xss = yss"
  by (simp add: inj_map_eq_map inj_mapI inj_def)

text \<open>The lists of texts are cut as the lists of guests are.\<close>

lemma chunks_map: "chunks n (map f xs) = map (map f) (chunks n xs)"
proof (induction n xs rule: chunks.induct)
  case (1 n xs)
  show ?case
  proof (cases "xs = [] \<or> n = 0")
    case True
    then show ?thesis by (subst (1 2) chunks.simps) auto
  next
    case False
    with 1 show ?thesis by (subst (1 2) chunks.simps) (simp add: take_map drop_map)
  qed
qed

lemma boot_batch_pos: "boot_batch topo = Inr n \<Longrightarrow> 1 \<le> n"
  by (cases "dict_get topo ''boot_batch'' (PInt DEFAULT_BOOT_BATCH)")
    (auto simp: boot_batch_def split: pyval.split_asm if_splits)

section \<open>Registry interface\<close>

text \<open>
  What the driver relies on of the phase registry: names are unique, so a phase named on the command
  line or in a resume hint is one phase, at one place of the order.
\<close>

locale phase_registry =
  fixes registry :: "'p list" and pname :: "'p \<Rightarrow> string"
  assumes names_distinct: "distinct (map pname registry)"
begin

lemma only_selects: "p \<in> set registry \<Longrightarrow> filter (\<lambda>q. pname q = pname p) registry = [p]"
proof -
  assume p: "p \<in> set registry"
  have inj: "inj_on pname (set registry)" and d: "distinct registry"
    using names_distinct by (simp_all add: distinct_map)
  have "filter (\<lambda>q. pname q = pname p) registry = filter (\<lambda>q. q = p) registry"
    using inj p by (auto intro!: filter_cong dest: inj_onD)
  also have "\<dots> = [p]"
    using p d by (induction registry) (auto simp: filter_empty_conv)
  finally show ?thesis .
qed

lemma index_of_name:
  assumes "i < length registry"
  shows "\<exists>ys. takeWhile (\<lambda>q. pname q \<noteq> pname (registry ! i)) registry = ys \<and> length ys = i"
proof -
  have "takeWhile (\<lambda>q. pname q \<noteq> pname (registry ! i)) registry = take i registry"
  proof (rule takeWhile_eq_take_P_nth)
    fix j assume "j < i" and "j < length registry"
    with assms names_distinct show "pname (registry ! j) \<noteq> pname (registry ! i)"
      by (auto simp: distinct_conv_nth)
  next
    assume "i < length registry"
    show "\<not> pname (registry ! i) \<noteq> pname (registry ! i)" by simp
  qed
  with assms show ?thesis by simp
qed

end

lemma PHASES_names: "map ph_name PHASES = [NET, VMS, PROVISION, OBSERVE]"
  by (simp add: PHASES_def)

lemmas phase_names = NET_def VMS_def PROVISION_def OBSERVE_def

interpretation lab: phase_registry PHASES ph_name
  by unfold_locales (simp add: PHASES_names phase_names)

text \<open>What the timing report relies on of a phase: every step it emits carries its name.\<close>

locale phase_builder =
  fixes build :: "LabEnv \<Rightarrow> Stack \<Rightarrow> bool \<Rightarrow> (py_error, CommandStep list) result" and phase :: string
  assumes steps_stamped: "build env stk no_dr = Inr steps \<Longrightarrow> s \<in> set steps \<Longrightarrow> cs_phase s = phase"
begin

text \<open>Whatever a run of the phase's steps records is grouped under the phase.\<close>

lemma timings_grouped:
  assumes "build env stk no_dr = Inr steps" and "run_steps step_mode runner steps = (r, timings, acts)" and "timings \<noteq> []"
  shows "map fst (phases_of timings) = [phase]"
proof -
  have "\<forall>t \<in> set timings. st_phase t = phase"
  proof -
    have "run_from n i m runner ss k secs = (r, timings, acts) \<Longrightarrow> \<forall>s \<in> set ss. cs_phase s = phase
        \<Longrightarrow> \<forall>t \<in> set timings. st_phase t = phase" for n i m ss k secs r timings acts
      by (induction ss arbitrary: i k secs r timings acts) (auto split: prod.splits sum.splits)
    with assms(2) steps_stamped[OF assms(1)] show ?thesis by (simp add: run_steps_def)
  qed
  then have "map st_phase timings = replicate (length timings) phase" by (simp add: map_replicate_const[symmetric] cong: map_cong)
  moreover have "add_all_new (replicate (Suc n) phase) [] = [phase]" for n
  proof -
    have "fold add_new (replicate n phase) [phase] = [phase]" by (induction n) (simp_all add: add_new_def)
    then show ?thesis by (simp add: add_all_new_def add_new_def)
  qed
  ultimately show ?thesis using assms(3) by (cases timings) (auto simp: phases_of_keys)
qed

end

lemma stamped_phase: "s \<in> set (stamped p steps) \<Longrightarrow> cs_phase s = p"
  by (auto simp: stamped_def)

interpretation net_steps: phase_builder net_build_steps NET
  by unfold_locales (auto simp: net_build_steps_def dest: stamped_phase)

interpretation vms_steps: phase_builder vms_build_steps VMS
  by unfold_locales (auto simp: vms_build_steps_def Let_def result_simps dest: stamped_phase)

interpretation provision_steps: phase_builder provision_build_steps PROVISION
  by unfold_locales (auto simp only: provision_build_steps_def Let_def rbind_eq_Inr sum.inject dest: stamped_phase)

interpretation observe_steps: phase_builder observe_build_steps OBSERVE
  by unfold_locales (auto simp only: observe_build_steps_def Let_def rbind_eq_Inr sum.inject dest: stamped_phase)

lemma first_unsatisfied_from_None:
  "first_unsatisfied_from sat k ps = Inr None \<longleftrightarrow> (\<forall>p \<in> set ps. sat p = Inr True)"
  by (induction ps arbitrary: k) (auto simp: result_simps split: if_splits)

lemma first_unsatisfied_from_Some:
  "first_unsatisfied_from sat k ps = Inr (Some i) \<longleftrightarrow>
     (\<exists>j < length ps. i = k + j \<and> sat (ps ! j) = Inr False \<and> (\<forall>p \<in> set (take j ps). sat p = Inr True))"
proof (induction ps arbitrary: k)
  case Nil
  then show ?case by simp
next
  case (Cons p ps)
  show ?case
  proof (cases "sat p = Inr True")
    case True
    then show ?thesis using Cons.IH[of "k + 1"]
      by (auto simp: less_Suc_eq_0_disj Bex_def)
  next
    case False
    then show ?thesis
      by (cases "sat p") (auto simp: less_Suc_eq_0_disj)
  qed
qed

text \<open>What cutting a hoisted list of guest names into slices gives.\<close>

lemma hoisted_slices:
  assumes "chunks (nat n) (filter P vs @ filter (\<lambda>v. \<not> P v) vs) = map (map PStr) hss" and "1 \<le> n"
  obtains vms where "vs = map PStr vms"
    and "concat hss = filter (\<lambda>v. P (PStr v)) vms @ filter (\<lambda>v. \<not> P (PStr v)) vms"
    and "length hss = (length vms + nat n - 1) div nat n"
    and "\<forall>hs \<in> set hss. 0 < length hs \<and> length hs \<le> nat n"
proof -
  define order where "order = filter P vs @ filter (\<lambda>v. \<not> P v) vs"
  have hss: "chunks (nat n) order = map (map PStr) hss" by (simp add: order_def assms)
  have "order = concat (chunks (nat n) order)" using assms(2) by (simp add: concat_chunks)
  then have order: "order = map PStr (concat hss)" by (simp add: hss map_concat)
  have "set vs = set order" by (auto simp: order_def)
  also have "\<dots> \<subseteq> range PStr" by (auto simp: order)
  finally obtain vms where vms: "vs = map PStr vms" by (metis ex_map_conv subsetD rangeE)
  have "map PStr (concat hss) = map PStr (filter (\<lambda>v. P (PStr v)) vms @ filter (\<lambda>v. \<not> P (PStr v)) vms)"
    using order by (simp add: order_def vms filter_map o_def)
  then have conc: "concat hss = filter (\<lambda>v. P (PStr v)) vms @ filter (\<lambda>v. \<not> P (PStr v)) vms"
    by (subst (asm) inj_map_eq_map) (auto simp: inj_def)
  have "length order = length vs" by (simp add: order_def sum_length_filter_compl)
  with assms(2) have "length (chunks (nat n) order) = (length vms + nat n - 1) div nat n"
    by (simp add: length_chunks vms)
  moreover have "0 < length hs \<and> length hs \<le> nat n" if "hs \<in> set hss" for hs
    using that chunks_length[of "map PStr hs" "nat n" order] by (simp add: hss)
  ultimately show thesis using vms conc hss that by (metis length_map)
qed

section \<open>Properties\<close>

text \<open>The boot steps of a bring-up start every guest of the stack and its commons exactly once: the
  batches, in order, are the boot order cut into slices of the batch size, in which the name servers
  come first and everything else keeps its order; a batch boots serially exactly when two of its
  guests clone the same box; every step is retried under the boot policy and counted in the vms phase.\<close>

theorem vms_boot_exact:
  assumes "vms_build_steps env stk no_dr = Inr steps"
  shows "\<exists>vms infra n boxes hss. all_vms (le_topo env) stk no_dr = Inr (map PStr vms) \<and> distinct vms
    \<and> non_mq_commons_hosts (le_topo env) = Inr infra \<and> lab_boxes env = Inr boxes
    \<and> boot_batch (le_topo env) = Inr n \<and> 1 \<le> n
    \<and> concat hss = filter (\<lambda>v. PStr v \<in> set infra) vms @ filter (\<lambda>v. PStr v \<notin> set infra) vms
    \<and> map (\<lambda>s. argv (cs_command s)) steps = map (boot_argv boxes) hss
    \<and> (\<forall>hs \<in> set hss. 0 < length hs \<and> length hs \<le> nat n)
    \<and> length steps = (length vms + nat n - 1) div nat n
    \<and> (\<forall>g \<in> set vms. box_name boxes g \<noteq> None)
    \<and> (\<forall>s \<in> set steps. cs_retry s = Some BOOT_RETRY \<and> cs_phase s = VMS)"
proof -
  from assms obtain boxes vs infra n name raw where boxes: "lab_boxes env = Inr boxes"
    and vs: "all_vms (le_topo env) stk no_dr = Inr vs" and infra: "non_mq_commons_hosts (le_topo env) = Inr infra"
    and n: "boot_batch (le_topo env) = Inr n"
    and raw: "traverse (boot_step env name boxes (length (batch_guests (filter (\<lambda>v. v \<in> set infra) vs @ filter (\<lambda>v. v \<notin> set infra) vs) n)))
        (List.enumerate 1 (batch_guests (filter (\<lambda>v. v \<in> set infra) vs @ filter (\<lambda>v. v \<notin> set infra) vs) n)) = Inr raw"
    and steps: "steps = stamped VMS raw"
    by (auto simp: vms_build_steps_def boot_order_def result_simps Let_def)
  have pos: "1 \<le> n" by (rule boot_batch_pos[OF n])
  from boot_steps_shape[OF raw] obtain hss
    where hss: "chunks (nat n) (filter (\<lambda>v. v \<in> set infra) vs @ filter (\<lambda>v. v \<notin> set infra) vs) = map (map PStr) hss"
    and argvs: "map (\<lambda>s. argv (cs_command s)) raw = map (boot_argv boxes) hss"
    and retry: "\<forall>s \<in> set raw. cs_retry s = Some BOOT_RETRY" and known: "\<forall>g \<in> set (concat hss). box_name boxes g \<noteq> None"
    by (auto simp: batch_guests_def)
  from hoisted_slices[OF hss pos] obtain vms where vms: "vs = map PStr vms"
    and conc: "concat hss = filter (\<lambda>v. PStr v \<in> set infra) vms @ filter (\<lambda>v. PStr v \<notin> set infra) vms"
    and len: "length hss = (length vms + nat n - 1) div nat n"
    and sizes: "\<forall>hs \<in> set hss. 0 < length hs \<and> length hs \<le> nat n" .
  have dist: "distinct vms" using all_vms_distinct[OF vs] by (simp add: vms distinct_map)
  have arg: "map (\<lambda>s. argv (cs_command s)) steps = map (boot_argv boxes) hss"
    using argvs by (simp add: steps stamped_def o_def)
  then have "length steps = length hss" by (metis length_map)
  moreover have "\<forall>s \<in> set steps. cs_retry s = Some BOOT_RETRY \<and> cs_phase s = VMS"
    using retry by (auto simp: steps stamped_def)
  moreover have "\<forall>g \<in> set vms. box_name boxes g \<noteq> None" using known unfolding conc by auto
  ultimately show ?thesis
    using vs vms dist infra boxes n pos conc arg sizes len by metis
qed

definition sample_node :: "string \<Rightarrow> string \<Rightarrow> pyval \<times> pyval" where
  "sample_node n box = (PStr n, PDict [(PStr ''box'', PStr box), (PStr ''nics'', PDict [(PStr ''net-mgmt'', PStr (''10.0.0.'' @ n))])])"

definition sample_bringup :: pyval where
  "sample_bringup = PDict
     [(PStr ''svc'', PDict [(PStr ''short'', PStr ''SVC''), (PStr ''conn'', PStr ''svc(1414)'')]),
      (PStr ''boot_batch'', PInt 2),
      (PStr ''nodes'', PDict [sample_node ''a1'' ''rdqm'', sample_node ''a2'' ''rdqm'', sample_node ''b1'' ''rdqm'',
         sample_node ''obs'' ''obs'', sample_node ''dns'' ''infra'']),
      (PStr ''groups'', PDict [(PStr ''site_a'', PList [PStr ''a1'', PStr ''a2'']), (PStr ''site_b'', PList [PStr ''b1'']),
         (PStr ''obs_box'', PList [PStr ''obs'']), (PStr ''infra'', PList [PStr ''dns''])]),
      (PStr ''commons'', PDict [(PStr ''groups'', PList [PStr ''obs_box'', PStr ''infra''])]),
      (PStr ''stacks'', PDict
         [(PStr ''rdqm-rhel'', PDict [(PStr ''short'', PStr ''RDQM''), (PStr ''mechanism'', PStr ''rdqm''), (PStr ''os_family'', PStr ''rhel''),
            (PStr ''groups'', PList [PStr ''site_a'', PStr ''site_b'']), (PStr ''dr_groups'', PList [PStr ''site_b'']),
            (PStr ''provision'', PStr ''ansible/site-rdqm.yml'')])])]"

definition sample_env :: LabEnv where
  "sample_env = \<lparr>le_root = ''/lab'', le_nets = [''net-mgmt''], le_topo = sample_bringup, le_components = (\<lambda>_. False),
     le_versions = sample_doc, le_records = (\<lambda>_. None)\<rparr>"

definition sample_stack :: Stack where
  "sample_stack = (case lab_stacks sample_bringup of
     Inr [(n, stk)] \<Rightarrow> stk
   | _ \<Rightarrow> \<lparr>stk_name = PNone, stk_mechanism = PNone, stk_os_family = PNone, stk_short = [], stk_verbs = [],
       stk_cluster_group = PNone, stk_groups = [], stk_dr_groups = [],
       stk_qm = qm_from_stack [] (PDict []) [] [], stk_provision = PNone, stk_secrets = [], stk_alloc = []\<rparr>)"

theorem vms_boot_exact_witness:
  "\<exists>steps. vms_build_steps sample_env sample_stack False = Inr steps
     \<and> map (\<lambda>s. argv (cs_command s)) steps =
         [[''vagrant'', ''up'', ''dns'', ''a1''], [''vagrant'', ''up'', ''--no-parallel'', ''a2'', ''b1''], [''vagrant'', ''up'', ''obs'']]
     \<and> (\<forall>s \<in> set steps. cs_retry s = Some BOOT_RETRY \<and> cs_phase s = VMS)"
proof -
  have ev: "(case vms_build_steps sample_env sample_stack False of Inl e \<Rightarrow> False
     | Inr steps \<Rightarrow> map (\<lambda>s. argv (cs_command s)) steps =
         [[''vagrant'', ''up'', ''dns'', ''a1''], [''vagrant'', ''up'', ''--no-parallel'', ''a2'', ''b1''], [''vagrant'', ''up'', ''obs'']])" by code_simp
  then obtain steps where steps: "vms_build_steps sample_env sample_stack False = Inr steps" by (auto split: sum.splits)
  from vms_boot_exact[OF steps] ev steps show ?thesis by auto
qed

text \<open>The point a re-run starts from: none exactly when every probe holds, and otherwise the first phase
  whose probe fails, after phases that all hold; probes after it are not asked.\<close>

theorem resume_point_exact:
  "(first_unsatisfied env stk states = Inr None \<longleftrightarrow> (\<forall>p \<in> set PHASES. ph_satisfied p env stk states = Inr True))
   \<and> (first_unsatisfied env stk states = Inr (Some i) \<longleftrightarrow>
     i < length PHASES \<and> ph_satisfied (PHASES ! i) env stk states = Inr False
     \<and> (\<forall>p \<in> set (take i PHASES). ph_satisfied p env stk states = Inr True))"
  unfolding first_unsatisfied_def
  by (simp add: first_unsatisfied_from_None first_unsatisfied_from_Some)

definition sample_domains :: "string \<rightharpoonup> string" where
  "sample_domains = map_of [(''lab_a1'', ''running''), (''lab_a2'', ''running''), (''lab_obs'', ''running''), (''lab_dns'', ''running'')]"

definition sample_states :: States where
  "sample_states = build_states (map_of [(''net-mgmt'', ''active'')]) sample_domains True True"

lemma sample_unsatisfied: "first_unsatisfied sample_env sample_stack sample_states = Inr (Some 1)"
  by code_simp

theorem resume_point_exact_witness:
  "first_unsatisfied sample_env sample_stack sample_states = Inr (Some 1)
     \<and> ph_satisfied (PHASES ! 1) sample_env sample_stack sample_states = Inr False
     \<and> ph_satisfied (PHASES ! 0) sample_env sample_stack sample_states = Inr True"
  using sample_unsatisfied resume_point_exact[of sample_env sample_stack sample_states 1]
  by (auto simp: take_Suc PHASES_def)

text \<open>A bring-up without its DR site is never satisfied by its own result: when a guest of a DR group
  is not running, the probes report the vms phase as the one to resume from, even though every guest
  that bring-up starts is running, the networks are active and both later probes hold.\<close>

theorem no_dr_never_satisfied:
  assumes "list_all (\<lambda>net. classify_net (nets states) net = ACTIVE) (le_nets env)"
    and "all_vms (le_topo env) stk True = Inr (map PStr started)"
    and "\<forall>vm \<in> set started. classify_guest (domains states) vm = RUNNING"
    and "qm_up states" and "observe states"
    and "all_vms (le_topo env) stk False = Inr (map PStr vms)"
    and "vm \<in> set vms" and "classify_guest (domains states) vm \<noteq> RUNNING"
  shows "first_unsatisfied env stk states = Inr (Some 1) \<and> vm \<notin> set started"
proof -
  have "ph_satisfied (PHASES ! 1) env stk states = Inr False"
    using assms(6-8) by (auto simp: PHASES_def vms_satisfied_def traverse_host_text_map list_all_iff)
  moreover have "ph_satisfied (PHASES ! 0) env stk states = Inr True"
    using assms(1) by (simp add: PHASES_def net_satisfied_def)
  ultimately show ?thesis
    using assms(3,8) by (auto simp: first_unsatisfied_def first_unsatisfied_from_Some PHASES_def)
qed

theorem no_dr_never_satisfied_witness:
  "first_unsatisfied sample_env sample_stack sample_states = Inr (Some 1)
     \<and> (\<exists>started. all_vms sample_bringup sample_stack True = Inr (map PStr started)
          \<and> (\<forall>vm \<in> set started. classify_guest sample_domains vm = RUNNING) \<and> ''b1'' \<notin> set started)"
proof -
  have a: "list_all (\<lambda>net. classify_net (nets sample_states) net = ACTIVE) (le_nets sample_env)" by code_simp
  have b: "all_vms (le_topo sample_env) sample_stack True = Inr (map PStr [''a1'', ''a2'', ''obs'', ''dns''])" by code_simp
  have c: "\<forall>vm \<in> set [''a1'', ''a2'', ''obs'', ''dns'']. classify_guest (domains sample_states) vm = RUNNING" by code_simp
  have d: "qm_up sample_states" "observe sample_states" by code_simp+
  have e: "all_vms (le_topo sample_env) sample_stack False = Inr (map PStr [''a1'', ''a2'', ''b1'', ''obs'', ''dns''])" by code_simp
  have f: "''b1'' \<in> set [''a1'', ''a2'', ''b1'', ''obs'', ''dns'']" "classify_guest (domains sample_states) ''b1'' \<noteq> RUNNING"
    by code_simp+
  have g: "le_topo sample_env = sample_bringup" "domains sample_states = sample_domains"
    by (simp_all add: sample_env_def sample_states_def build_states_def)
  from no_dr_never_satisfied[OF a b c d e f] b c show ?thesis unfolding g by blast
qed

text \<open>A bring-up without its DR site names no DR guest: the playbook limits of the provision and
  observe steps are exactly the members no DR group contributes plus the commons, and the stack's own
  playbook, the last step, is told that DR is off.\<close>

theorem no_dr_limits:
  assumes "provision_build_steps env stk True = Inr steps" and "observe_build_steps env stk True = Inr obs_steps"
    and "stk_name stk = PStr name" and "stack_members (le_topo env) name = Inr (Some ms)"
    and "stack_dr_hosts (le_topo env) name = Inr dr" and "commons_members (le_topo env) = Inr commons"
  shows "\<exists>vms. PStr ` set vms = (set ms - set dr) \<union> set commons
    \<and> [''ansible-playbook'', ''site-dns.yml'', ''--limit'', str_join '','' vms] \<in> set (map (\<lambda>s. argv (cs_command s)) steps)
    \<and> [''ansible-playbook'', ''observability.yml'', ''--limit'', str_join '','' vms] @ qm_extra_vars stk
        \<in> set (map (\<lambda>s. argv (cs_command s)) obs_steps)
    \<and> (\<exists>p. stk_provision stk = PStr p \<and> argv (cs_command (last steps))
          = [''ansible-playbook'', path_name p] @ qm_extra_vars stk @ [''-e'', ''dr_enabled=false''])"
proof -
  from assms(2) obtain limit where limit: "limit_of env stk True = Inr limit"
    and obs: "[''ansible-playbook'', ''observability.yml'', ''--limit'', limit] @ qm_extra_vars stk
        \<in> set (map (\<lambda>s. argv (cs_command s)) obs_steps)"
    by (auto simp: observe_build_steps_def rbind_eq_Inr Let_def stamped_def plain_step_def run_in_def)
  from assms(1) limit obtain p config where p: "stk_provision stk = PStr p"
    and steps: "steps = stamped PROVISION (config @
       [plain_step (name @ '' provision dns'')
          (run_in (Some (le_root env @ ''/ansible'')) [''ansible-playbook'', ''site-dns.yml'', ''--limit'', limit]),
        plain_step (name @ '' provision'')
          (run_in (Some (le_root env @ ''/ansible'')) ([''ansible-playbook'', path_name p] @ qm_extra_vars stk @ [''-e'', ''dr_enabled=false'']))])"
    using assms(3)
    by (cases "stk_provision stk")
      (auto simp: provision_build_steps_def rbind_eq_Inr Let_def, metis append.assoc append_Cons append_Nil)
  from limit obtain vms where vms: "all_vms (le_topo env) stk True = Inr (map PStr vms)" and l: "limit = str_join '','' vms"
    by (auto simp: limit_of_def rbind_eq_Inr traverse_host_text)
  have "PStr ` set vms = (set ms - set dr) \<union> set commons"
    using all_vms_no_dr[OF vms assms(3,5,6,4)] by simp
  with obs p steps l show ?thesis
    by (auto simp: stamped_def plain_step_def run_in_def)
qed

theorem no_dr_limits_witness:
  "\<exists>steps obs_steps. provision_build_steps sample_env sample_stack True = Inr steps
     \<and> observe_build_steps sample_env sample_stack True = Inr obs_steps
     \<and> (\<exists>vms. PStr ` set vms = {PStr ''a1'', PStr ''a2'', PStr ''obs'', PStr ''dns''}
          \<and> [''ansible-playbook'', ''site-dns.yml'', ''--limit'', str_join '','' vms] \<in> set (map (\<lambda>s. argv (cs_command s)) steps))"
proof -
  have "\<not> isl (provision_build_steps sample_env sample_stack True)" "\<not> isl (observe_build_steps sample_env sample_stack True)"
    by code_simp+
  then obtain steps obs_steps where s: "provision_build_steps sample_env sample_stack True = Inr steps"
    "observe_build_steps sample_env sample_stack True = Inr obs_steps" by (meson not_isl_Inr)
  have n: "stk_name sample_stack = PStr ''rdqm-rhel''" by code_simp
  have m: "stack_members (le_topo sample_env) ''rdqm-rhel'' = Inr (Some [PStr ''a1'', PStr ''a2'', PStr ''b1''])" by code_simp
  have d: "stack_dr_hosts (le_topo sample_env) ''rdqm-rhel'' = Inr [PStr ''b1'']" by code_simp
  have c: "commons_members (le_topo sample_env) = Inr [PStr ''obs'', PStr ''dns'']" by code_simp
  have "(set [PStr ''a1'', PStr ''a2'', PStr ''b1''] - set [PStr ''b1'']) \<union> set [PStr ''obs'', PStr ''dns'']
      = {PStr ''a1'', PStr ''a2'', PStr ''obs'', PStr ''dns''}" by auto
  with no_dr_limits[OF s n m d c] s show ?thesis by (metis (no_types, lifting))
qed

end
