(* ===== verification/Bootstrap.thy ===== *)
theory Bootstrap
  imports Phases
begin

text \<open>
  The bring-up verb of \<open>mqlab/cli.py\<close>: which phases a run selects, the prerequisites ensured before
  each of them, the huge-page reservation ahead of the first boot, and the loop over the selected
  phases with its exit code and resume hint.

  What the outside world answers is one record: the exit code an in-process prerequisite ends with
  (none when it succeeds), the attempts of the command steps, and whether a galaxy collection is
  missing after the install. The gates before the probe (host checks, instance record, rendering),
  the secrets put into the environment and the missing-terminal error of \<open>--step\<close> are not modelled.
  The returned events list what was done, in order.
\<close>

section \<open>Selection\<close>

text \<open>An option given as an empty text counts as not given.\<close>

definition given :: "string option \<Rightarrow> bool" where
  "given x = (case x of None \<Rightarrow> False | Some s \<Rightarrow> s \<noteq> [])"

definition select_phases ::
  "LabEnv \<Rightarrow> Stack \<Rightarrow> States \<Rightarrow> string option \<Rightarrow> string option \<Rightarrow> (py_error, Phase list) result" where
  "select_phases env stk states only from_phase =
     (if given only then Inr (filter (\<lambda>p. ph_name p = the only) PHASES)
      else if given from_phase then
        (let before = takeWhile (\<lambda>p. ph_name p \<noteq> the from_phase) PHASES in
         if length before = length PHASES then Inl (ValueErr ''is not in list'')
         else Inr (drop (length before) PHASES))
      else rbind (first_unsatisfied env stk states) (\<lambda>start.
        Inr (case start of None \<Rightarrow> [] | Some i \<Rightarrow> drop i PHASES)))"

section \<open>Prerequisites\<close>

definition ONCE_PER_RUN_KINDS :: "string list" where
  "ONCE_PER_RUN_KINDS = [''galaxy'', ''pki'']"

definition prereq_phase :: "string \<Rightarrow> string" where
  "prereq_phase phase = ''prereq:'' @ phase"

definition PKI_PLAYBOOK :: "string list" where
  "PKI_PLAYBOOK = [''ansible-playbook'', ''site-pki.yml'', ''-c'', ''local'', ''-i'', ''localhost,'']"

definition galaxy_install_step :: "string \<Rightarrow> string \<Rightarrow> CommandStep" where
  "galaxy_install_step repo phase = (plain_step ''ansible collections''
     (run_in (Some repo) [''ansible-galaxy'', ''collection'', ''install'', ''-r'', ''ansible/requirements.yml'', ''-p'', ''build/cache'']))
     \<lparr>cs_phase := phase\<rparr>"

definition pki_ensure_step :: "string \<Rightarrow> string \<Rightarrow> CommandStep" where
  "pki_ensure_step repo phase = (plain_step ''pki ensure'' (run_in (Some (repo @ ''/ansible'')) PKI_PLAYBOOK))\<lparr>cs_phase := phase\<rparr>"

record World =
  w_call :: "string \<Rightarrow> string \<Rightarrow> int option" \<comment> \<open>phase and label of an in-process ensure: its exit code, if it fails\<close>
  w_pre_attempts :: "string \<Rightarrow> nat \<Rightarrow> nat \<Rightarrow> Attempt"
  w_attempts :: "string \<Rightarrow> nat \<Rightarrow> nat \<Rightarrow> Attempt"
  w_missing :: "string \<Rightarrow> bool"
  w_reserve :: "nat \<Rightarrow> nat \<Rightarrow> Attempt"

datatype event =
    ECall string string \<comment> \<open>phase, label of an in-process ensure\<close>
  | EPrereq string string \<comment> \<open>phase, kind whose step was handed to the runner\<close>
  | EReserve int
  | ERun string "CommandStep list" \<comment> \<open>phase and the steps handed to the runner\<close>

datatype pre_failure =
    PExit int \<comment> \<open>\<open>typer.Exit\<close>\<close>
  | PStepFailed int \<comment> \<open>\<open>StepFailedError\<close>\<close>

fun run_calls :: "(string \<Rightarrow> int option) \<Rightarrow> string \<Rightarrow> string list \<Rightarrow> int option \<times> event list" where
  "run_calls call phase [] = (None, [])"
| "run_calls call phase (l # ls) =
     (case call l of
        Some code \<Rightarrow> (Some code, [ECall phase l])
      | None \<Rightarrow> (case run_calls call phase ls of (r, ev) \<Rightarrow> (r, ECall phase l # ev)))"

definition call_labels :: "string list \<Rightarrow> string list" where
  "call_labels kinds =
     (if List.member kinds ''boxes'' then [''reconcile box meta'', ''box ensure''] else [])
     @ (if List.member kinds ''mq'' then [''mq artifacts''] else [])"

definition todo_kinds :: "Phase \<Rightarrow> string list \<Rightarrow> string list" where
  "todo_kinds p ensured = filter (\<lambda>k. k \<notin> set ensured) (filter (\<lambda>k. k \<in> set (ph_ensure p)) ONCE_PER_RUN_KINDS)"

definition prereq_steps :: "string \<Rightarrow> string \<Rightarrow> string list \<Rightarrow> CommandStep list" where
  "prereq_steps repo phase todo =
     (if List.member todo ''galaxy'' then [galaxy_install_step repo (prereq_phase phase)] else [])
     @ (if List.member todo ''pki'' then [pki_ensure_step repo (prereq_phase phase)] else [])"

definition ensure_prereqs_for_stack ::
  "LabEnv \<Rightarrow> World \<Rightarrow> bool \<Rightarrow> Phase \<Rightarrow> string list \<Rightarrow> (pre_failure, string list) result \<times> event list" where
  "ensure_prereqs_for_stack env w step_mode p ensured =
     (case run_calls (w_call w (ph_name p)) (ph_name p) (call_labels (ph_ensure p)) of
        (Some code, ev) \<Rightarrow> (Inl (PExit code), ev)
      | (None, ev) \<Rightarrow>
          let todo = todo_kinds p ensured;
              steps = prereq_steps (le_root env) (ph_name p) todo;
              ev' = ev @ map (EPrereq (ph_name p)) todo in
          if steps \<noteq> [] \<and> isl (fst (run_steps step_mode (w_pre_attempts w (ph_name p)) steps)) then
            (Inl (PExit (sf_exit_code (projl (fst (run_steps step_mode (w_pre_attempts w (ph_name p)) steps))))), ev')
          else if List.member todo ''galaxy'' \<and> w_missing w (ph_name p) then (Inl (PStepFailed 1), ev')
          else (Inr (add_all_new todo ensured), ev'))"

section \<open>Huge pages\<close>

definition guests_to_boot :: "LabEnv \<Rightarrow> Stack \<Rightarrow> bool \<Rightarrow> States \<Rightarrow> (py_error, string list) result" where
  "guests_to_boot env stk no_dr states =
     rbind (all_vms (le_topo env) stk no_dr) (\<lambda>vms.
     rbind (traverse host_text vms) (\<lambda>hosts. Inr (filter (\<lambda>g. \<not> is_live (domains states) g) hosts)))"

text \<open>The reservation step, if one is needed, with its page count.\<close>

definition reserve_step ::
  "LabEnv \<Rightarrow> Stack \<Rightarrow> bool \<Rightarrow> States \<Rightarrow> (py_error, (int \<times> CommandStep) option) result" where
  "reserve_step env stk no_dr states =
     rbind (hugepages_enabled (le_topo env)) (\<lambda>on.
     if \<not> on then Inr None
     else rbind (guests_to_boot env stk no_dr states) (\<lambda>to_boot.
       rbind (needed_pages (le_topo env) to_boot) (\<lambda>needed.
       if needed = 0 then Inr None
       else rbind (reserve_command (le_root env) needed) (\<lambda>cmd.
         rbind (to_str (PInt needed)) (\<lambda>t.
         Inr (Some (needed, (plain_step (''reserve huge pages ('' @ t @ '' x 2 MiB)'') cmd)\<lparr>cs_phase := ''preflight''\<rparr>)))))))"

section \<open>The run\<close>

datatype outcome =
    Completed
  | NothingToDo
  | Refused int
  | Failed string int "string option" \<comment> \<open>report phase, exit code, resume hint\<close>
  | Raised py_error

definition resume_hint :: "string \<Rightarrow> string \<Rightarrow> bool \<Rightarrow> string" where
  "resume_hint name phase no_dr =
     ''resume with: mqlab bootstrap '' @ name @ '' --from '' @ phase @ (if no_dr then '' --no-dr'' else [])"

fun run_phases ::
  "LabEnv \<Rightarrow> World \<Rightarrow> Stack \<Rightarrow> string \<Rightarrow> bool \<Rightarrow> bool \<Rightarrow> Phase list \<Rightarrow> string list \<Rightarrow> outcome \<times> event list" where
  "run_phases env w stk name step_mode no_dr [] ensured = (Completed, [])"
| "run_phases env w stk name step_mode no_dr (p # ps) ensured =
     (case ensure_prereqs_for_stack env w step_mode p ensured of
        (Inl (PExit code), ev) \<Rightarrow> (Failed (prereq_phase (ph_name p)) code None, ev)
      | (Inl (PStepFailed code), ev) \<Rightarrow> (Failed (ph_name p) code (Some (resume_hint name (ph_name p) no_dr)), ev)
      | (Inr ensured', ev) \<Rightarrow>
          (case ph_build_steps p env stk no_dr of
             Inl e \<Rightarrow> (Raised e, ev)
           | Inr steps \<Rightarrow>
               (case fst (run_steps step_mode (w_attempts w (ph_name p)) steps) of
                  Inl e \<Rightarrow> (Failed (ph_name p) (sf_exit_code e) (Some (resume_hint name (ph_name p) no_dr)),
                            ev @ [ERun (ph_name p) steps])
                | Inr _ \<Rightarrow>
                    (case run_phases env w stk name step_mode no_dr ps ensured' of
                       (r, ev') \<Rightarrow> (r, ev @ ERun (ph_name p) steps # ev')))))"

text \<open>The selected phases, after the pages of the guests about to boot are reserved.\<close>

definition run_selected ::
  "LabEnv \<Rightarrow> World \<Rightarrow> Stack \<Rightarrow> string \<Rightarrow> States \<Rightarrow> bool \<Rightarrow> bool \<Rightarrow> Phase list \<Rightarrow> outcome \<times> event list" where
  "run_selected env w stk name states step_mode no_dr selected =
     (case (if VMS \<in> ph_name ` set selected then reserve_step env stk no_dr states else Inr None) of
        Inl e \<Rightarrow> (Raised e, [])
      | Inr None \<Rightarrow> run_phases env w stk name step_mode no_dr selected []
      | Inr (Some (needed, step)) \<Rightarrow>
          (case fst (run_steps False (w_reserve w) [step]) of
             Inl e \<Rightarrow> (Failed ''preflight'' (sf_exit_code e) None, [EReserve needed])
           | Inr _ \<Rightarrow>
               (case run_phases env w stk name step_mode no_dr selected [] of
                  (r, ev) \<Rightarrow> (r, EReserve needed # ev))))"

definition bootstrap_run ::
  "LabEnv \<Rightarrow> World \<Rightarrow> Stack \<Rightarrow> string \<Rightarrow> States \<Rightarrow> string option \<Rightarrow> string option \<Rightarrow> bool \<Rightarrow> bool \<Rightarrow> outcome \<times> event list" where
  "bootstrap_run env w stk name states only from_phase step_mode no_dr =
     (if no_dr \<and> stk_dr_groups stk = [] then (Refused 2, [])
      else case select_phases env stk states only from_phase of
        Inl e \<Rightarrow> (Raised e, [])
      | Inr selected \<Rightarrow>
          if selected = [] then (NothingToDo, [])
          else run_selected env w stk name states step_mode no_dr selected)"

section \<open>Reading the events\<close>

fun ran :: "event list \<Rightarrow> string list" where
  "ran [] = []"
| "ran (ERun q _ # ev) = q # ran ev"
| "ran (_ # ev) = ran ev"

fun kinds :: "event list \<Rightarrow> string list" where
  "kinds [] = []"
| "kinds (EPrereq _ k # ev) = k # kinds ev"
| "kinds (_ # ev) = kinds ev"

lemma ran_append [simp]: "ran (xs @ ys) = ran xs @ ran ys"
  by (induction xs rule: ran.induct) simp_all

lemma kinds_append [simp]: "kinds (xs @ ys) = kinds xs @ kinds ys"
  by (induction xs rule: kinds.induct) simp_all

lemma prereq_events [simp]: "kinds (map (EPrereq q) ks) = ks" "ran (map (EPrereq q) ks) = []"
  by (induction ks) simp_all

lemma ran_iff: "ERun q steps \<in> set ev \<Longrightarrow> q \<in> set (ran ev)"
  by (induction ev rule: ran.induct) auto

lemma run_calls_events:
  "run_calls call q ls = (r, ev) \<Longrightarrow> kinds ev = [] \<and> ran ev = [] \<and> (r = None \<longrightarrow> set ev = ECall q ` set ls)"
  by (induction ls arbitrary: r ev) (auto split: option.splits prod.splits)

lemma ensure_prereqs_events:
  assumes "ensure_prereqs_for_stack env w m p ensured = (r, ev)"
  shows "ran ev = []" and "distinct (kinds ev) \<and> set (kinds ev) \<inter> set ensured = {}"
    and "r = Inr ensured' \<Longrightarrow> set ensured' = set ensured \<union> set (kinds ev)
       \<and> set (ph_ensure p) \<inter> set ONCE_PER_RUN_KINDS \<subseteq> set ensured'
       \<and> ECall (ph_name p) ` set (call_labels (ph_ensure p)) \<subseteq> set ev"
proof -
  obtain cr cev where calls: "run_calls (w_call w (ph_name p)) (ph_name p) (call_labels (ph_ensure p)) = (cr, cev)" by fastforce
  note cev = run_calls_events[OF calls]
  have dist: "distinct (todo_kinds p ensured)" "set (todo_kinds p ensured) \<inter> set ensured = {}"
    by (auto simp: todo_kinds_def ONCE_PER_RUN_KINDS_def)
  have ev: "ev = (if cr = None then cev @ map (EPrereq (ph_name p)) (todo_kinds p ensured) else cev)"
    using assms calls by (auto simp: ensure_prereqs_for_stack_def Let_def split: option.splits if_splits)
  from ev cev dist show "ran ev = []" "distinct (kinds ev) \<and> set (kinds ev) \<inter> set ensured = {}" by auto
  assume r: "r = Inr ensured'"
  with assms calls have "cr = None" "ensured' = add_all_new (todo_kinds p ensured) ensured"
    by (auto simp: ensure_prereqs_for_stack_def Let_def split: option.splits if_splits)
  with ev cev show "set ensured' = set ensured \<union> set (kinds ev)
       \<and> set (ph_ensure p) \<inter> set ONCE_PER_RUN_KINDS \<subseteq> set ensured'
       \<and> ECall (ph_name p) ` set (call_labels (ph_ensure p)) \<subseteq> set ev"
    by (auto simp: todo_kinds_def)
qed

section \<open>The loop over phases\<close>

lemma run_phases_Cons:
  assumes "run_phases env w stk name m no_dr (p # ps) ensured = (r, ev)"
    and "ensure_prereqs_for_stack env w m p ensured = (pre, ev0)"
  obtains
    (prereq) code where "r = Failed (prereq_phase (ph_name p)) code None" "ev = ev0"
  | (verify) code where "pre = Inl (PStepFailed code)" "r = Failed (ph_name p) code (Some (resume_hint name (ph_name p) no_dr))" "ev = ev0"
  | (builder) e where "r = Raised e" "ev = ev0"
  | (step) ensured' steps e where "pre = Inr ensured'" "ph_build_steps p env stk no_dr = Inr steps"
      "fst (run_steps m (w_attempts w (ph_name p)) steps) = Inl e"
      "r = Failed (ph_name p) (sf_exit_code e) (Some (resume_hint name (ph_name p) no_dr))" "ev = ev0 @ [ERun (ph_name p) steps]"
  | (ok) ensured' steps ev' where "pre = Inr ensured'" "ph_build_steps p env stk no_dr = Inr steps"
      "fst (run_steps m (w_attempts w (ph_name p)) steps) = Inr ()"
      "run_phases env w stk name m no_dr ps ensured' = (r, ev')" "ev = ev0 @ ERun (ph_name p) steps # ev'"
  using assms
  by (auto split: sum.splits pre_failure.splits prod.splits)

text \<open>What a run of phases shows: which ran, that all but the failing one succeeded, and where the hint
  points.\<close>

definition phases_outcome ::
  "World \<Rightarrow> string \<Rightarrow> bool \<Rightarrow> bool \<Rightarrow> Phase list \<Rightarrow> outcome \<Rightarrow> event list \<Rightarrow> bool" where
  "phases_outcome w name m no_dr ps r ev \<longleftrightarrow>
     (\<exists>k \<le> length ps. ran ev = map ph_name (take k ps)
       \<and> (\<forall>q steps. ERun q steps \<in> set ev \<and> (\<forall>code h. r \<noteq> Failed q code h)
            \<longrightarrow> fst (run_steps m (w_attempts w q) steps) = Inr ())
       \<and> (r = Completed \<longrightarrow> k = length ps)
       \<and> (\<forall>ph code h. r = Failed ph code (Some h) \<longrightarrow>
            (\<exists>j < length ps. ph = ph_name (ps ! j) \<and> (k = j \<or> k = Suc j) \<and> h = resume_hint name ph no_dr)))"

lemma run_phases_outcome:
  assumes "run_phases env w stk name m no_dr ps ensured = (r, ev)"
  shows "phases_outcome w name m no_dr ps r ev"
  using assms
proof (induction ps arbitrary: ensured r ev)
  case Nil
  then show ?case by (auto simp: phases_outcome_def)
next
  case (Cons p ps)
  obtain pre ev0 where pre: "ensure_prereqs_for_stack env w m p ensured = (pre, ev0)" by fastforce
  note quiet = ensure_prereqs_events(1)[OF pre]
  have no_run: "ERun q steps \<notin> set ev0" for q steps
    using ran_iff[of q steps ev0] quiet by auto
  from Cons.prems pre show ?case
  proof (cases rule: run_phases_Cons)
    case prereq
    with quiet no_run show ?thesis by (auto simp: phases_outcome_def intro: exI[of _ 0])
  next
    case verify
    with quiet no_run show ?thesis by (auto simp: phases_outcome_def intro!: exI[of _ 0])
  next
    case builder
    with quiet no_run show ?thesis by (auto simp: phases_outcome_def intro: exI[of _ 0])
  next
    case (step ensured' steps e)
    have "ran ev = map ph_name (take 1 (p # ps))" by (simp add: step(5) quiet)
    moreover have "\<exists>j < length (p # ps). ph = ph_name ((p # ps) ! j) \<and> (1 = j \<or> 1 = Suc j) \<and> h = resume_hint name ph no_dr"
      if "r = Failed ph code (Some h)" for ph code h
      using that step(4) by (intro exI[of _ 0]) auto
    ultimately show ?thesis
      using step(4,5) no_run unfolding phases_outcome_def by (intro exI[of _ 1]) auto
  next
    case (ok ensured' steps ev')
    from Cons.IH[OF ok(4)] obtain k where k: "k \<le> length ps" "ran ev' = map ph_name (take k ps)"
      "\<forall>q steps. ERun q steps \<in> set ev' \<and> (\<forall>code h. r \<noteq> Failed q code h) \<longrightarrow> fst (run_steps m (w_attempts w q) steps) = Inr ()"
      "r = Completed \<longrightarrow> k = length ps"
      "\<forall>ph code h. r = Failed ph code (Some h) \<longrightarrow>
         (\<exists>j < length ps. ph = ph_name (ps ! j) \<and> (k = j \<or> k = Suc j) \<and> h = resume_hint name ph no_dr)"
      by (auto simp: phases_outcome_def)
    have "\<exists>j < length (p # ps). ph = ph_name ((p # ps) ! j) \<and> (Suc k = j \<or> Suc k = Suc j) \<and> h = resume_hint name ph no_dr"
      if "r = Failed ph code (Some h)" for ph code h
    proof -
      from k(5) that obtain j where "j < length ps" "ph = ph_name (ps ! j)" "k = j \<or> k = Suc j" "h = resume_hint name ph no_dr"
        by blast
      then show ?thesis by (intro exI[of _ "Suc j"]) auto
    qed
    with k ok quiet no_run show ?thesis
      unfolding phases_outcome_def by (intro exI[of _ "Suc k"]) auto
  qed
qed

lemma run_phases_kinds:
  assumes "run_phases env w stk name m no_dr ps ensured = (r, ev)"
  shows "distinct (kinds ev) \<and> set (kinds ev) \<inter> set ensured = {}"
  using assms
proof (induction ps arbitrary: ensured r ev)
  case (Cons p ps)
  obtain pre ev0 where pre: "ensure_prereqs_for_stack env w m p ensured = (pre, ev0)" by fastforce
  note k0 = ensure_prereqs_events(2)[OF pre]
  from Cons.prems pre show ?case
  proof (cases rule: run_phases_Cons)
    case (ok ensured' steps ev')
    from ensure_prereqs_events(3)[OF pre ok(1)] Cons.IH[OF ok(4)] k0 ok show ?thesis by auto
  qed (use k0 in auto)
qed simp

lemma split_at_run:
  assumes "ran xs = []" and "xs @ ERun a s # ys = pre @ ERun b t # post"
  shows "(pre = xs \<and> a = b \<and> s = t) \<or> (\<exists>pre'. pre = xs @ ERun a s # pre' \<and> ys = pre' @ ERun b t # post)"
  using assms
proof (induction xs arbitrary: pre)
  case Nil
  then show ?case by (cases pre) auto
next
  case (Cons x xs)
  then obtain pre' where "pre = x # pre'" by (cases pre) auto
  with Cons show ?case by (cases x) auto
qed

lemma run_phases_ready:
  assumes "run_phases env w stk name m no_dr ps ensured = (r, pre @ ERun q steps # post)"
  shows "\<exists>p \<in> set ps. q = ph_name p \<and> ph_build_steps p env stk no_dr = Inr steps
    \<and> set (ph_ensure p) \<inter> set ONCE_PER_RUN_KINDS \<subseteq> set ensured \<union> set (kinds pre)
    \<and> ECall q ` set (call_labels (ph_ensure p)) \<subseteq> set pre"
  using assms
proof (induction ps arbitrary: ensured r pre)
  case (Cons p ps)
  obtain res ev0 where res: "ensure_prereqs_for_stack env w m p ensured = (res, ev0)" by fastforce
  note quiet = ensure_prereqs_events(1)[OF res] and after = ensure_prereqs_events(3)[OF res]
  have no_run: "ev0 \<noteq> pre @ ERun q steps # post"
    using quiet by auto
  from Cons.prems res show ?case
  proof (cases rule: run_phases_Cons)
    case (step ensured' steps' e)
    from split_at_run[OF quiet step(5)[symmetric]] after[OF step(1)] step(2) show ?thesis by auto
  next
    case (ok ensured' steps' ev')
    from split_at_run[OF quiet ok(5)[symmetric]] show ?thesis
    proof
      assume "pre = ev0 \<and> ph_name p = q \<and> steps' = steps"
      with after[OF ok(1)] ok(2) show ?thesis by auto
    next
      assume "\<exists>pre'. pre = ev0 @ ERun (ph_name p) steps' # pre' \<and> ev' = pre' @ ERun q steps # post"
      then obtain pre' where pre': "pre = ev0 @ ERun (ph_name p) steps' # pre'" "ev' = pre' @ ERun q steps # post" by blast
      from Cons.IH[OF ok(4)[unfolded pre'(2)]] obtain p' where p': "p' \<in> set ps" "q = ph_name p'"
        "ph_build_steps p' env stk no_dr = Inr steps"
        "set (ph_ensure p') \<inter> set ONCE_PER_RUN_KINDS \<subseteq> set ensured' \<union> set (kinds pre')"
        "ECall q ` set (call_labels (ph_ensure p')) \<subseteq> set pre'" by blast
      have "set (kinds pre) = set (kinds ev0) \<union> set (kinds pre')" "set pre' \<subseteq> set pre" by (auto simp: pre'(1))
      with p' after[OF ok(1)] show ?thesis by (intro bexI[of _ p']) auto
    qed
  qed (use no_run in auto)
qed simp

section \<open>Selection and resumption\<close>

lemma select_from:
  assumes "i < length PHASES"
  shows "select_phases env stk states None (Some (ph_name (PHASES ! i))) = Inr (drop i PHASES)"
proof -
  have "ph_name (PHASES ! i) \<noteq> []"
  proof -
    from assms have "ph_name (PHASES ! i) \<in> set (map ph_name PHASES)" by simp
    then show ?thesis by (auto simp: PHASES_names phase_names simp del: set_map)
  qed
  moreover have "length (takeWhile (\<lambda>p. ph_name p \<noteq> ph_name (PHASES ! i)) PHASES) = i"
    using lab.index_of_name[OF assms] by blast
  ultimately show ?thesis using assms by (simp add: select_phases_def given_def Let_def)
qed

text \<open>Every selection is a slice of the registry.\<close>

lemma select_phases_slice:
  assumes "select_phases env stk states only from_phase = Inr sel"
  shows "\<exists>i. sel = drop i PHASES \<or> (\<exists>p. sel = [p] \<and> p \<in> set PHASES) \<or> sel = []"
proof (cases "given only")
  case True
  then have sel: "sel = filter (\<lambda>p. ph_name p = the only) PHASES" using assms by (simp add: select_phases_def)
  show ?thesis
  proof (cases "\<exists>p \<in> set PHASES. ph_name p = the only")
    case True
    then obtain p where p: "p \<in> set PHASES" "ph_name p = the only" by blast
    with lab.only_selects[OF p(1)] sel show ?thesis by auto
  next
    case False
    with sel show ?thesis by (auto simp: filter_empty_conv)
  qed
next
  case False
  with assms show ?thesis
    by (auto simp: select_phases_def Let_def result_simps split: if_splits option.splits)
qed

lemma select_phases_subset:
  "select_phases env stk states only from_phase = Inr sel \<Longrightarrow> set sel \<subseteq> set PHASES"
  by (drule select_phases_slice) (auto dest: in_set_dropD)

text \<open>A run that goes on to its phases: the selection, and the reservation ahead of it.\<close>

definition stopped_early :: "outcome \<Rightarrow> event list \<Rightarrow> bool" where
  "stopped_early r ev \<longleftrightarrow> kinds ev = [] \<and> ran ev = []
     \<and> (r = NothingToDo \<or> (\<exists>c. r = Refused c) \<or> (\<exists>e. r = Raised e) \<or> (\<exists>c. r = Failed ''preflight'' c None))"

definition reserved_first :: "LabEnv \<Rightarrow> World \<Rightarrow> Stack \<Rightarrow> bool \<Rightarrow> States \<Rightarrow> event list \<Rightarrow> bool" where
  "reserved_first env w stk no_dr states ev \<longleftrightarrow>
     reserve_step env stk no_dr states = Inr None
     \<or> (\<exists>n step ev'. reserve_step env stk no_dr states = Inr (Some (n, step)) \<and> ev = EReserve n # ev'
          \<and> fst (run_steps False (w_reserve w) [step]) = Inr ())"

lemma run_selected_cases:
  assumes "run_selected env w stk name states m no_dr sel = (r, ev)"
  shows "stopped_early r ev \<or>
    (\<exists>ev'. run_phases env w stk name m no_dr sel [] = (r, ev') \<and> (ev = ev' \<or> (\<exists>n. ev = EReserve n # ev'))
       \<and> (VMS \<in> ph_name ` set sel \<longrightarrow> reserved_first env w stk no_dr states ev))"
proof (cases "if VMS \<in> ph_name ` set sel then reserve_step env stk no_dr states else Inr None")
  case (Inl e)
  with assms show ?thesis by (auto simp: run_selected_def stopped_early_def)
next
  case (Inr res)
  obtain r' ev' where rp: "run_phases env w stk name m no_dr sel [] = (r', ev')" by fastforce
  show ?thesis
  proof (cases res)
    case None
    with assms Inr rp show ?thesis by (auto simp: run_selected_def reserved_first_def split: if_splits)
  next
    case (Some ns)
    obtain n step where ns: "ns = (n, step)" by fastforce
    show ?thesis
    proof (cases "fst (run_steps False (w_reserve w) [step])")
      case (Inl e)
      with assms Inr Some ns have "stopped_early r ev" by (auto simp: run_selected_def stopped_early_def)
      then show ?thesis ..
    next
      case (Inr u)
      with assms \<open>_ = Inr res\<close> Some ns rp have "r = r'" "ev = EReserve n # ev'"
        by (auto simp: run_selected_def)
      with Inr \<open>_ = Inr res\<close> Some ns rp show ?thesis by (auto simp: reserved_first_def split: if_splits)
    qed
  qed
qed

lemma bootstrap_run_cases:
  assumes "bootstrap_run env w stk name states only from_phase m no_dr = (r, ev)"
  obtains (early) "stopped_early r ev"
  | (phases) sel ev' where "select_phases env stk states only from_phase = Inr sel" "sel \<noteq> []"
      "run_phases env w stk name m no_dr sel [] = (r, ev')" "ev = ev' \<or> (\<exists>n. ev = EReserve n # ev')"
      "VMS \<in> ph_name ` set sel \<Longrightarrow> reserved_first env w stk no_dr states ev"
proof -
  have "stopped_early r ev \<or> (\<exists>sel. select_phases env stk states only from_phase = Inr sel \<and> sel \<noteq> []
      \<and> run_selected env w stk name states m no_dr sel = (r, ev))"
    using assms by (auto simp: bootstrap_run_def stopped_early_def split: if_splits sum.splits)
  then show thesis using early phases run_selected_cases by metis
qed

section \<open>Success\<close>

lemma run_steps_ok:
  assumes "\<forall>i < length steps. step_ok (steps ! i) (env (Suc i))"
  shows "fst (run_steps m env steps) = Inr ()"
proof -
  obtain r perf acts where run: "run_steps m env steps = (r, perf, acts)" by (metis prod_cases3)
  then have "run_outcome env 1 steps r perf acts" using run_from_outcome by (simp add: run_steps_def)
  moreover have "\<not> good_prefix env 1 steps < length steps" using good_prefix_spec[of env 1 steps] assms by auto
  ultimately have "r = Inr ()" using good_prefix_le[of env 1 steps] by (auto simp: run_outcome_def Let_def)
  with run show ?thesis by simp
qed

lemma first_try_ok: "at_exit (env 0) = 0 \<Longrightarrow> step_ok step env"
  unfolding step_ok_def using tries_pos by blast

text \<open>A world in which everything asked for is eventually granted.\<close>

definition prereqs_granted :: "World \<Rightarrow> bool" where
  "prereqs_granted w \<longleftrightarrow> (\<forall>q l. w_call w q l = None) \<and> (\<forall>q. \<not> w_missing w q) \<and> (\<forall>q i. at_exit (w_pre_attempts w q i 0) = 0)
     \<and> (\<forall>i. at_exit (w_reserve w i 0) = 0)"

definition phase_recovers :: "LabEnv \<Rightarrow> World \<Rightarrow> Stack \<Rightarrow> bool \<Rightarrow> Phase \<Rightarrow> bool" where
  "phase_recovers env w stk no_dr p \<longleftrightarrow> (\<exists>steps. ph_build_steps p env stk no_dr = Inr steps
     \<and> (\<forall>i < length steps. step_ok (steps ! i) (w_attempts w (ph_name p) (Suc i))))"

lemma run_calls_granted: "\<forall>l. call l = None \<Longrightarrow> fst (run_calls call q ls) = None"
  by (induction ls) (auto split: prod.split)

lemma ensure_prereqs_granted:
  assumes "prereqs_granted w"
  shows "\<exists>ensured' ev. ensure_prereqs_for_stack env w m p ensured = (Inr ensured', ev)"
proof -
  obtain ev where "run_calls (w_call w (ph_name p)) (ph_name p) (call_labels (ph_ensure p)) = (None, ev)"
    using run_calls_granted[of "w_call w (ph_name p)" "ph_name p" "call_labels (ph_ensure p)"] assms
    by (metis prereqs_granted_def prod.collapse)
  moreover have "fst (run_steps m (w_pre_attempts w (ph_name p)) steps) = Inr ()" for steps
    using assms by (intro run_steps_ok) (simp add: prereqs_granted_def first_try_ok)
  ultimately show ?thesis using assms by (simp add: ensure_prereqs_for_stack_def prereqs_granted_def Let_def)
qed

lemma run_phases_completes:
  assumes "prereqs_granted w" and "\<forall>p \<in> set ps. phase_recovers env w stk no_dr p"
  shows "\<exists>ev. run_phases env w stk name m no_dr ps ensured = (Completed, ev) \<and> ran ev = map ph_name ps"
  using assms(2)
proof (induction ps arbitrary: ensured)
  case (Cons p ps)
  from ensure_prereqs_granted[OF assms(1)] obtain ensured' ev0 where
    pre: "ensure_prereqs_for_stack env w m p ensured = (Inr ensured', ev0)" by blast
  from Cons.prems obtain steps where steps: "ph_build_steps p env stk no_dr = Inr steps"
    "fst (run_steps m (w_attempts w (ph_name p)) steps) = Inr ()" by (auto simp: phase_recovers_def run_steps_ok)
  from Cons obtain ev where ev: "run_phases env w stk name m no_dr ps ensured' = (Completed, ev)" "ran ev = map ph_name ps"
    by (meson list.set_intros(2))
  with pre steps ensure_prereqs_events(1)[OF pre] show ?case by simp
qed simp

section \<open>Properties\<close>


definition sample_attempt :: "int \<Rightarrow> Attempt" where
  "sample_attempt code = \<lparr>at_started = 0, at_output = [], at_exit = code, at_ended = 1\<rparr>"

text \<open>A lab where everything succeeds but the first step of the named phase.\<close>

definition sample_world :: "string \<Rightarrow> World" where
  "sample_world bad = \<lparr>w_call = (\<lambda>_ _. None), w_pre_attempts = (\<lambda>_ _ _. sample_attempt 0),
     w_attempts = (\<lambda>q i _. sample_attempt (if q = bad \<and> i = 1 then 4 else 0)), w_missing = (\<lambda>_. False),
     w_reserve = (\<lambda>_ _. sample_attempt 0)\<rparr>"




text \<open>C15: a bring-up gets there: when something is selected, the prerequisites and the reservation are
  granted and each step of the selected phases succeeds within the attempts its retry policy allows, the
  run completes, having run exactly the selected phases in order.\<close>

theorem bootstrap_completes:
  assumes "select_phases env stk states only from_phase = Inr sel" and "sel \<noteq> []"
    and "no_dr \<longrightarrow> stk_dr_groups stk \<noteq> []"
    and "prereqs_granted w" and "\<forall>p \<in> set sel. phase_recovers env w stk no_dr p"
    and "reserve_step env stk no_dr states = Inr res"
  shows "\<exists>ev. bootstrap_run env w stk name states only from_phase m no_dr = (Completed, ev) \<and> ran ev = map ph_name sel"
proof -
  from run_phases_completes[OF assms(4,5)] obtain ev where
    ev: "run_phases env w stk name m no_dr sel [] = (Completed, ev)" "ran ev = map ph_name sel" by blast
  have reserve: "fst (run_steps False (w_reserve w) [step]) = Inr ()" for step
    using assms(4) by (intro run_steps_ok) (simp add: prereqs_granted_def first_try_ok)
  have "\<exists>ev'. run_selected env w stk name states m no_dr sel = (Completed, ev') \<and> ran ev' = ran ev"
    using ev(1) assms(6) reserve by (cases res) (auto simp: run_selected_def split: prod.splits)
  then show ?thesis using assms(1-3) ev(2) by (auto simp: bootstrap_run_def)
qed

theorem bootstrap_completes_witness:
  "\<exists>ev. bootstrap_run sample_env (sample_world ''none'') sample_stack ''rdqm-rhel'' sample_states None (Some ''provision'') False True
     = (Completed, ev) \<and> ran ev = [''provision'', ''observe'']"
proof -
  define sel where "sel = projr (select_phases sample_env sample_stack sample_states None (Some ''provision''))"
  have names: "map ph_name sel = [''provision'', ''observe'']" unfolding sel_def by code_simp
  have "\<not> isl (select_phases sample_env sample_stack sample_states None (Some ''provision''))" by code_simp
  then have sel: "select_phases sample_env sample_stack sample_states None (Some ''provision'') = Inr sel"
    by (cases "select_phases sample_env sample_stack sample_states None (Some ''provision'')") (simp_all add: sel_def)
  have granted: "prereqs_granted (sample_world ''none'')" by (simp add: prereqs_granted_def sample_world_def sample_attempt_def)
  have "list_all (\<lambda>p. ph_name p \<noteq> ''none'' \<and> \<not> isl (ph_build_steps p sample_env sample_stack True)) sel" unfolding sel_def by code_simp
  then have recovers: "\<forall>p \<in> set sel. phase_recovers sample_env (sample_world ''none'') sample_stack True p"
    by (auto simp: list_all_iff phase_recovers_def sample_world_def sample_attempt_def first_try_ok dest!: not_isl_Inr bspec)
  have "\<not> isl (reserve_step sample_env sample_stack True sample_states)" by code_simp
  then obtain res where res: "reserve_step sample_env sample_stack True sample_states = Inr res" using not_isl_Inr by blast
  have "sel \<noteq> []" using names by auto
  moreover have "True \<longrightarrow> stk_dr_groups sample_stack \<noteq> []" by code_simp
  ultimately show ?thesis using bootstrap_completes[OF sel _ _ granted recovers res, of "''rdqm-rhel''" False] names by simp
qed

end
