(* ===== verification/Instances.thy ===== *)
theory Instances
  imports Catalog_Load
begin

text \<open>
  The instance records of \<open>mqlab/instances.py\<close>: the operating system a running stack was built on,
  pinned in one JSON file per stack. The directory of records is explicit state; a file is its parsed
  document or a text that is not JSON. A write goes to a temporary file that then replaces the record,
  so it has three ends: replaced, failed with the temporary file removed, or the process killed with
  the temporary file left behind (no result then: \<open>None\<close>). The clock is an argument.

  The abstract contract is a partial map from stacks to systems; the operations on the directory are
  shown to implement it.
\<close>

section \<open>Records and their files\<close>

record InstanceRecord =
  ir_stack :: string
  ir_os :: OsRef
  ir_build_file :: "string option"
  ir_created :: string

datatype json_text = Json pyval | NotJson

record Dir =
  recs :: "string \<rightharpoonup> json_text"
  temps :: "string list"

definition RECORD_KEYS :: "string list" where
  "RECORD_KEYS = [''stack'', ''os'', ''build_file'', ''created'']"

text \<open>\<open>sorted(data) != sorted(_KEYS)\<close>: the keys of a JSON object are distinct texts.\<close>

definition exact_keys :: "pyval \<Rightarrow> string list \<Rightarrow> bool" where
  "exact_keys v ks \<longleftrightarrow> is_dict v \<and> length (items v) = length ks \<and> list_all (\<lambda>k. lookup v k \<noteq> None) ks"

definition corrupt :: "string \<Rightarrow> ('a, 'b) result \<Rightarrow> (py_error, 'b) result" where
  "corrupt why r = (case r of Inl _ \<Rightarrow> Inl (ValueErr why) | Inr x \<Rightarrow> Inr x)"

definition parse_record :: "string \<Rightarrow> json_text \<Rightarrow> (py_error, InstanceRecord) result" where
  "parse_record stack doc =
     (case doc of
        NotJson \<Rightarrow> Inl (ValueErr ''not valid JSON'')
      | Json data \<Rightarrow>
          rbind (ensure (exact_keys data RECORD_KEYS) (ValueErr ''expected exactly the keys'')) (\<lambda>_.
          rbind (ensure (get_or_none data ''stack'' = PStr stack) (ValueErr ''it names another stack'')) (\<lambda>_.
          case (get_or_none data ''os'', get_or_none data ''created'') of
            (PStr os, PStr created) \<Rightarrow>
              rbind (case get_or_none data ''build_file'' of
                       PNone \<Rightarrow> Inr None
                     | PStr b \<Rightarrow> Inr (Some b)
                     | _ \<Rightarrow> Inl (ValueErr ''build_file must be a string or null'')) (\<lambda>bf.
              rbind (corrupt ''bad OS reference'' (parse_ref os)) (\<lambda>ref.
              Inr \<lparr>ir_stack = stack, ir_os = ref, ir_build_file = bf, ir_created = created\<rparr>))
          | _ \<Rightarrow> Inl (ValueErr ''os and created must be strings''))))"

definition read_record :: "Dir \<Rightarrow> string \<Rightarrow> (py_error, InstanceRecord option) result" where
  "read_record d stack =
     (case recs d stack of
        None \<Rightarrow> Inr None
      | Some doc \<Rightarrow> rbind (parse_record stack doc) (\<lambda>r. Inr (Some r)))"

definition payload :: "InstanceRecord \<Rightarrow> pyval" where
  "payload r = PDict
     [(PStr ''stack'', PStr (ir_stack r)), (PStr ''os'', PStr (os_str (ir_os r))),
      (PStr ''build_file'', case ir_build_file r of None \<Rightarrow> PNone | Some b \<Rightarrow> PStr b),
      (PStr ''created'', PStr (ir_created r))]"

datatype write_end = Replaced | WriteError | Killed

definition write_record :: "write_end \<Rightarrow> InstanceRecord \<Rightarrow> Dir \<Rightarrow> (py_error, unit) result option \<times> Dir" where
  "write_record we r d =
     (case we of
        Replaced \<Rightarrow> (Some (Inr ()), d\<lparr>recs := (recs d)(ir_stack r \<mapsto> Json (payload r))\<rparr>)
      | WriteError \<Rightarrow> (Some (Inl (ValueErr ''write failed'')), d)
      | Killed \<Rightarrow> (None, d\<lparr>temps := ir_stack r # temps d\<rparr>))"

definition delete_record :: "string \<Rightarrow> Dir \<Rightarrow> Dir" where
  "delete_record stack d = d\<lparr>recs := (recs d)(stack := None)\<rparr>"

definition reconcile_instance ::
  "write_end \<Rightarrow> string \<Rightarrow> string \<Rightarrow> OsRef \<Rightarrow> bool \<Rightarrow> string option \<Rightarrow> Dir
     \<Rightarrow> (py_error, InstanceRecord) result option \<times> Dir" where
  "reconcile_instance we now stack requested live bf d =
     (case read_record d stack of
        Inl e \<Rightarrow> (Some (Inl e), d)
      | Inr None \<Rightarrow>
          if live then (Some (Inl (ValueErr ''running without a version record'')), d)
          else (let r = \<lparr>ir_stack = stack, ir_os = requested, ir_build_file = bf, ir_created = now\<rparr> in
                case write_record we r d of
                  (None, d') \<Rightarrow> (None, d')
                | (Some (Inl e), d') \<Rightarrow> (Some (Inl e), d')
                | (Some (Inr _), d') \<Rightarrow> (Some (Inr r), d'))
      | Inr (Some r) \<Rightarrow>
          if ir_os r \<noteq> requested then (Some (Inl (ValueErr ''running another system'')), d)
          else (Some (Inr r), d))"

definition require_record_if_live :: "Dir \<Rightarrow> string \<Rightarrow> bool \<Rightarrow> (py_error, InstanceRecord option) result" where
  "require_record_if_live d stack live =
     rbind (read_record d stack) (\<lambda>r.
     if r = None \<and> live then Inl (ValueErr ''running without a version record'') else Inr r)"

section \<open>Reading back\<close>

text \<open>A reference that can be written: a known family and a version \<open>str\<close> renders.\<close>

definition storable :: "OsRef \<Rightarrow> bool" where
  "storable r \<longleftrightarrow> ref_ok r \<and> py_str_int (os_major r) \<noteq> None"

lemma family_text:
  "map_of FAMILIES f \<noteq> None \<Longrightarrow> all_in is_lower f \<and> CHR '':'' \<notin> set f"
  by (auto simp: FAMILIES_def all_in_def is_lower_def split: if_splits)

lemma digits_text: "0 \<le> i \<Longrightarrow> all_in is_digit (int_str i)"
  by (auto simp: int_str_def all_in_def is_digit_def list_all_iff dest: digit_val_nat_str)

lemma parse_os_str: "storable r \<Longrightarrow> parse_ref (os_str r) = Inr r"
proof -
  assume r: "storable r"
  then obtain s where s: "py_str_int (os_major r) = Some s" by (auto simp: storable_def)
  then have "s = int_str (os_major r)" by (auto simp: py_str_int_def split: if_splits)
  with s have "to_int (PStr (int_str (os_major r))) = Inr (os_major r)" using py_int_py_str_int by auto
  moreover have "split_once CHR '':'' (os_str r) = (os_family r, Some (int_str (os_major r)))"
    using r family_text[of "os_family r"] by (simp add: os_str_def storable_def ref_ok_def text_simps)
  ultimately show ?thesis
    using r family_text[of "os_family r"] digits_text[of "os_major r"]
    by (simp add: parse_ref_def storable_def ref_ok_def)
qed

lemma parse_payload: "storable (ir_os r) \<Longrightarrow> parse_record (ir_stack r) (Json (payload r)) = Inr r"
  by (auto simp: parse_record_def payload_def exact_keys_def RECORD_KEYS_def lookup_def get_or_none_def
      corrupt_def parse_os_str split: option.split)

text \<open>What a directory holds when only these operations wrote it.\<close>

definition dir_ok :: "Dir \<Rightarrow> bool" where
  "dir_ok d \<longleftrightarrow> (\<forall>s doc. recs d s = Some doc \<longrightarrow> (\<exists>r. doc = Json (payload r) \<and> ir_stack r = s \<and> storable (ir_os r)))"

lemma dir_ok_read:
  assumes "dir_ok d"
  shows "read_record d s = Inr None \<and> recs d s = None
    \<or> (\<exists>r. read_record d s = Inr (Some r) \<and> recs d s = Some (Json (payload r)) \<and> ir_stack r = s \<and> storable (ir_os r))"
proof (cases "recs d s")
  case (Some doc)
  with assms obtain r where "doc = Json (payload r)" "ir_stack r = s" "storable (ir_os r)" by (auto simp: dir_ok_def)
  with Some parse_payload[of r] show ?thesis by (auto simp: read_record_def)
qed (simp add: read_record_def)

lemma write_record_ok:
  "dir_ok d \<Longrightarrow> storable (ir_os r) \<Longrightarrow> dir_ok (snd (write_record we r d))"
  by (auto simp: write_record_def dir_ok_def split: write_end.split)

lemma delete_record_ok: "dir_ok d \<Longrightarrow> dir_ok (delete_record s d)"
  by (simp add: delete_record_def dir_ok_def)

lemma reconcile_instance_ok:
  assumes "dir_ok d" and "storable req"
  shows "dir_ok (snd (reconcile_instance we now stack req live bf d))"
proof -
  define r where "r = \<lparr>ir_stack = stack, ir_os = req, ir_build_file = bf, ir_created = now\<rparr>"
  have "dir_ok (snd (write_record we r d))" using assms by (simp add: write_record_ok r_def)
  with assms show ?thesis
    by (auto simp: reconcile_instance_def Let_def r_def[symmetric] split: sum.splits option.splits prod.splits)
qed

section \<open>The contract\<close>

text \<open>A stack is pinned to one system, or not at all.\<close>

type_synonym pins = "string \<rightharpoonup> OsRef"

datatype pin_answer = Pinned OsRef | Conflict | Unrecorded

definition pin :: "string \<Rightarrow> OsRef \<Rightarrow> bool \<Rightarrow> pins \<Rightarrow> pin_answer \<times> pins" where
  "pin stack req live m =
     (case m stack of
        None \<Rightarrow> if live then (Unrecorded, m) else (Pinned req, m(stack \<mapsto> req))
      | Some os \<Rightarrow> if os = req then (Pinned os, m) else (Conflict, m))"

definition pins_of :: "Dir \<Rightarrow> pins" where
  "pins_of d s = (case read_record d s of Inr (Some r) \<Rightarrow> Some (ir_os r) | _ \<Rightarrow> None)"

lemma pins_of_written:
  "storable (ir_os r) \<Longrightarrow> pins_of (d\<lparr>recs := (recs d)(ir_stack r \<mapsto> Json (payload r))\<rparr>) = (pins_of d)(ir_stack r \<mapsto> ir_os r)"
  by (rule ext) (simp add: pins_of_def read_record_def parse_payload)

lemma pins_of_temps [simp]: "pins_of (d\<lparr>temps := ts\<rparr>) = pins_of d"
  by (rule ext) (simp add: pins_of_def read_record_def)

lemma pins_of_deleted: "pins_of (delete_record s d) = (pins_of d)(s := None)"
  by (rule ext) (simp add: pins_of_def read_record_def delete_record_def)

text \<open>How a concrete answer shows an abstract one.\<close>

definition answers :: "pin_answer \<Rightarrow> (py_error, InstanceRecord) result \<Rightarrow> bool" where
  "answers a res \<longleftrightarrow>
     (case a of
        Pinned os \<Rightarrow> (\<exists>r. res = Inr r \<and> ir_os r = os)
      | Conflict \<Rightarrow> res = Inl (ValueErr ''running another system'')
      | Unrecorded \<Rightarrow> res = Inl (ValueErr ''running without a version record''))"

section \<open>Lives of a directory\<close>

datatype inst_op =
    Boot string OsRef bool "string option" string write_end \<comment> \<open>stack, requested system, live, build file, clock, how the write ends\<close>
  | Teardown string

fun inst_apply :: "inst_op \<Rightarrow> Dir \<Rightarrow> Dir" where
  "inst_apply (Boot s req live bf now we) d = snd (reconcile_instance we now s req live bf d)"
| "inst_apply (Teardown s) d = delete_record s d"

inductive reaches :: "Dir \<Rightarrow> Dir \<Rightarrow> inst_op list \<Rightarrow> bool" where
  start: "reaches d d []"
| booted: "reaches d e ops \<Longrightarrow> storable req
    \<Longrightarrow> reaches d (inst_apply (Boot s req live bf now we) e) (ops @ [Boot s req live bf now we])"
| torn_down: "reaches d e ops \<Longrightarrow> reaches d (inst_apply (Teardown s) e) (ops @ [Teardown s])"

lemma reaches_ok: "reaches d e ops \<Longrightarrow> dir_ok d \<Longrightarrow> dir_ok e"
  by (induction rule: reaches.induct) (simp_all add: reconcile_instance_ok delete_record_ok)

lemma reconcile_written:
  assumes "dir_ok d" and "pins_of d stack = None"
  shows "reconcile_instance we now stack req False bf d =
    (let r = \<lparr>ir_stack = stack, ir_os = req, ir_build_file = bf, ir_created = now\<rparr> in
     case we of
       Replaced \<Rightarrow> (Some (Inr r), d\<lparr>recs := (recs d)(stack \<mapsto> Json (payload r))\<rparr>)
     | WriteError \<Rightarrow> (Some (Inl (ValueErr ''write failed'')), d)
     | Killed \<Rightarrow> (None, d\<lparr>temps := stack # temps d\<rparr>))"
proof -
  have "read_record d stack = Inr None"
    using dir_ok_read[OF assms(1), of stack] assms(2) by (auto simp: pins_of_def)
  then show ?thesis by (simp add: reconcile_instance_def write_record_def Let_def split: write_end.split)
qed

lemma reconcile_kept:
  assumes "dir_ok d" and "pins_of d stack \<noteq> None \<or> live"
  shows "\<exists>res. reconcile_instance we now stack req live bf d = (Some res, d) \<and> answers (fst (pin stack req live (pins_of d))) res"
  using dir_ok_read[OF assms(1), of stack] assms(2)
  by (auto simp: reconcile_instance_def pin_def pins_of_def answers_def)

text \<open>A pin that is there stays as it is.\<close>

lemma reconcile_keeps_pin:
  assumes "dir_ok d" and "storable req" and "pins_of d s = Some os"
  shows "pins_of (snd (reconcile_instance we now stack req live bf d)) s = Some os"
proof (cases "pins_of d stack \<noteq> None \<or> live")
  case True
  from reconcile_kept[OF assms(1) True, of we now req bf] assms(3) show ?thesis by auto
next
  case False
  then have n: "pins_of d stack = None" and live: "\<not> live" by auto
  define r where "r = \<lparr>ir_stack = stack, ir_os = req, ir_build_file = bf, ir_created = now\<rparr>"
  have "pins_of (d\<lparr>recs := (recs d)(stack \<mapsto> Json (payload r))\<rparr>) = (pins_of d)(stack \<mapsto> req)"
    using pins_of_written[of r d] assms(2) by (simp add: r_def)
  moreover have "s \<noteq> stack" using n assms(3) by auto
  ultimately show ?thesis
    using reconcile_written[OF assms(1) n, of we now req bf] live assms(3)
    by (cases we) (simp_all add: r_def[symmetric] Let_def)
qed

section \<open>Properties\<close>

text \<open>C21: the directory of records implements the contract of a map from stacks to systems: reconciling a
  request answers as the map does and changes the pins as the map changes, unless the write itself
  fails or is cut off, and then no pin changes; deleting a record removes exactly that pin; and a
  directory that only these operations wrote never holds an unreadable record.\<close>

theorem reconcile_refines_pin:
  assumes "dir_ok d" and "storable req"
    and "reconcile_instance we now stack req live bf d = (res, d')"
  shows "dir_ok d'
    \<and> (if we = Replaced \<or> live \<or> pins_of d stack \<noteq> None
       then (\<exists>x. res = Some x \<and> answers (fst (pin stack req live (pins_of d))) x)
          \<and> pins_of d' = snd (pin stack req live (pins_of d))
       else (res = None \<or> res = Some (Inl (ValueErr ''write failed''))) \<and> pins_of d' = pins_of d)
    \<and> pins_of (delete_record stack d') = (pins_of d)(stack := None)"
proof (cases "pins_of d stack \<noteq> None \<or> live")
  case True
  from reconcile_kept[OF assms(1) this, of we now req bf] obtain x where "res = Some x" "d' = d" "answers (fst (pin stack req live (pins_of d))) x"
    using assms(3) by fastforce
  moreover have "snd (pin stack req live (pins_of d)) = pins_of d" using True by (auto simp: pin_def split: option.split)
  ultimately show ?thesis using True assms(1) by (auto simp: pins_of_deleted)
next
  case False
  then have n: "pins_of d stack = None" and live: "\<not> live" by auto
  define r where "r = \<lparr>ir_stack = stack, ir_os = req, ir_build_file = bf, ir_created = now\<rparr>"
  have r: "ir_stack r = stack" "ir_os r = req" by (simp_all add: r_def)
  have ok: "dir_ok d'" using reconcile_instance_ok[OF assms(1,2), of we now stack live bf] assms(3) by simp
  have written: "pins_of (d\<lparr>recs := (recs d)(stack \<mapsto> Json (payload r))\<rparr>) = (pins_of d)(stack \<mapsto> req)"
    using pins_of_written[of r d] assms(2) r by simp
  from assms(3) reconcile_written[OF assms(1) n, of we now req bf] live
  have "(res, d') = (case we of
       Replaced \<Rightarrow> (Some (Inr r), d\<lparr>recs := (recs d)(stack \<mapsto> Json (payload r))\<rparr>)
     | WriteError \<Rightarrow> (Some (Inl (ValueErr ''write failed'')), d)
     | Killed \<Rightarrow> (None, d\<lparr>temps := stack # temps d\<rparr>))"
    by (cases we) (simp_all add: r_def Let_def)
  with ok n live written r show ?thesis
    by (cases we) (auto simp: pin_def answers_def pins_of_deleted fun_eq_iff)
qed

definition empty_dir :: Dir where
  "empty_dir = \<lparr>recs = Map.empty, temps = []\<rparr>"

lemma empty_dir_ok: "dir_ok empty_dir"
  by (simp add: dir_ok_def empty_dir_def)

lemma rhel9_storable: "storable rhel9"
  by code_simp

theorem reconcile_refines_pin_witness:
  "\<exists>d'. reconcile_instance Killed ''now'' ''rdqm-rhel'' rhel9 False None empty_dir = (None, d') \<and> pins_of d' = pins_of empty_dir
     \<and> (\<exists>r d''. reconcile_instance Replaced ''later'' ''rdqm-rhel'' rhel9 False None d' = (Some (Inr r), d'')
          \<and> pins_of d'' ''rdqm-rhel'' = Some rhel9)"
proof -
  have n: "pins_of empty_dir ''rdqm-rhel'' = None" by code_simp
  obtain res d' where a: "reconcile_instance Killed ''now'' ''rdqm-rhel'' rhel9 False None empty_dir = (res, d')" by fastforce
  have res: "res = None" using a reconcile_written[OF empty_dir_ok n, of Killed] by (simp add: Let_def)
  note da = reconcile_refines_pin[OF empty_dir_ok rhel9_storable a]
  then have d': "dir_ok d'" "pins_of d' = pins_of empty_dir" using n by auto
  obtain res' d'' where b: "reconcile_instance Replaced ''later'' ''rdqm-rhel'' rhel9 False None d' = (res', d'')" by fastforce
  from reconcile_refines_pin[OF d'(1) rhel9_storable b] n d'(2) obtain r where "res' = Some (Inr r)"
    "pins_of d'' ''rdqm-rhel'' = Some rhel9"
    by (auto simp: pin_def answers_def)
  with a b res d'(2) show ?thesis by blast
qed

text \<open>C16: a running stack keeps its system: through any sequence of bring-ups of any stacks, with any
  requests and however their writes end, a stack that has a record keeps the system it was recorded
  with until it is torn down.\<close>

theorem system_pinned_until_teardown:
  assumes "reaches d e ops" and "dir_ok d" and "pins_of d stack = Some os" and "Teardown stack \<notin> set ops"
  shows "pins_of e stack = Some os \<and> (\<exists>r. read_record e stack = Inr (Some r) \<and> ir_os r = os)"
proof -
  have "pins_of e stack = Some os"
    using assms
  proof (induction rule: reaches.induct)
    case (booted d e ops req s live bf now we)
    then have "pins_of e stack = Some os" and "dir_ok e" using reaches_ok by auto
    with \<open>storable req\<close> show ?case by (simp add: reconcile_keeps_pin)
  next
    case (torn_down d e ops s)
    then show ?case by (auto simp: pins_of_deleted)
  qed
  with dir_ok_read[OF reaches_ok[OF assms(1,2)], of stack] show ?thesis
    by (auto simp: pins_of_def)
qed

theorem system_pinned_until_teardown_witness:
  "\<exists>d e ops. reaches d e ops \<and> pins_of d ''rdqm-rhel'' = Some rhel9 \<and> length ops = 2 \<and> pins_of e ''rdqm-rhel'' = Some rhel9"
proof -
  define d where "d = snd (reconcile_instance Replaced ''now'' ''rdqm-rhel'' rhel9 False None empty_dir)"
  define ops where "ops = [Boot ''rdqm-rhel'' rhel10 True (Some ''b.yaml'') ''t'' Replaced, Teardown ''other'']"
  have d: "dir_ok d" unfolding d_def by (rule reconcile_instance_ok[OF empty_dir_ok rhel9_storable])
  have p: "pins_of d ''rdqm-rhel'' = Some rhel9" unfolding d_def by code_simp
  have s10: "storable rhel10" by code_simp
  have r: "reaches d (inst_apply (Teardown ''other'') (inst_apply (Boot ''rdqm-rhel'' rhel10 True (Some ''b.yaml'') ''t'' Replaced) d)) ops"
    using reaches.torn_down[OF reaches.booted[OF reaches.start s10]] unfolding ops_def by fastforce
  have "Teardown ''rdqm-rhel'' \<notin> set ops" by (simp add: ops_def)
  from system_pinned_until_teardown[OF r d p this] r p show ?thesis by (metis (no_types) length_Cons list.size(3) numeral_2_eq_2 ops_def)
qed

end
