(* ===== verification/Components.thy ===== *)
theory Components
  imports Catalog_Load Lab_Effects
begin

text \<open>
  Guest components (\<open>mqlab/component.py\<close>) and the pinned guest runtime (\<open>mqlab/runtime.py\<close>): the
  verified tarball and interpreter, staging of the locked dependencies, the build of an installable
  artifact, its reuse, and the resolution of an artifact to install.

  The environment is one record: how a command changes the files, with its exit code and output
  lines; what a download of an address writes and whether it fails; the digest of a content; what a
  tarball unpacks to; and the resolution of a path. The state is the file store and the commands run
  with their exit codes. Lines echoed to the operator are left out.
\<close>

section \<open>Environment and state\<close>

datatype comp_error =
    ComponentError string
  | RuntimePinError string
  | Raised py_error

record CompEnv =
  ce_repo :: string
  ce_run :: "Command \<Rightarrow> files \<Rightarrow> int \<times> string list \<times> files"
  ce_fetch :: "string \<Rightarrow> content \<times> py_error option"
  ce_sha :: "content \<Rightarrow> string"
  ce_untar :: "content \<Rightarrow> (string \<times> content) list"
  ce_resolve :: "string \<Rightarrow> string"
  ce_machine :: string
  ce_cache_home :: string \<comment> \<open>\<open>$XDG_CACHE_HOME\<close>, or \<open>~/.cache\<close>\<close>
  ce_pin :: RuntimePin
  ce_now :: string

record CompState =
  cm_files :: files
  cm_ran :: "(Command \<times> int) list"

type_synonym 'a comp_op = "(CompState, comp_error, 'a) op"

definition files_op :: "(files \<Rightarrow> files) \<Rightarrow> (CompState, 'e, unit) op" where
  "files_op f = op_modify (cm_files_update f)"

text \<open>One command through the runner: its exit code and the lines it printed.\<close>

definition run_cmd :: "CompEnv \<Rightarrow> Command \<Rightarrow> (CompState, 'e, int \<times> string list) op" where
  "run_cmd env c s = (case ce_run env c (cm_files s) of (rc, out, fs) \<Rightarrow>
     (Inr (rc, out), \<lparr>cm_files = fs, cm_ran = cm_ran s @ [(c, rc)]\<rparr>))"

definition step :: "CompEnv \<Rightarrow> Command \<Rightarrow> string \<Rightarrow> unit comp_op" where
  "step env c failure = op_bind (run_cmd env c) (\<lambda>(rc, _). op_guard (rc = 0) (ComponentError failure))"

text \<open>\<open>fetch(url, dest)\<close>: a failed download may leave what it wrote.\<close>

definition fetch :: "CompEnv \<Rightarrow> string \<Rightarrow> string \<Rightarrow> unit comp_op" where
  "fetch env url dest = (case ce_fetch env url of (c, failed) \<Rightarrow>
     op_bind (files_op (write_file dest c)) (\<lambda>_.
     case failed of None \<Rightarrow> op_return () | Some e \<Rightarrow> op_raise (Raised e)))"

section \<open>The pinned runtime\<close>

definition RT_ARCH_ALIASES :: "(string \<times> string) list" where
  "RT_ARCH_ALIASES = [(''x86_64'', ''x86_64''), (''amd64'', ''x86_64''), (''aarch64'', ''aarch64''), (''arm64'', ''aarch64'')]"

definition host_arch :: "string \<Rightarrow> (comp_error, string) result" where
  "host_arch raw = (case map_of RT_ARCH_ALIASES (py_lower raw) of
     None \<Rightarrow> Inl (RuntimePinError ''no pinned guest runtime for host arch'') | Some a \<Rightarrow> Inr a)"

definition cache_dir :: "CompEnv \<Rightarrow> string" where
  "cache_dir env = ce_repo env @ ''/build/cache''"

definition work_dir :: "CompEnv \<Rightarrow> string" where
  "work_dir env = ce_repo env @ ''/build/work''"

definition tarball_dir :: "CompEnv \<Rightarrow> string" where
  "tarball_dir env = cache_dir env @ ''/runtime''"

definition unpack_root :: "CompEnv \<Rightarrow> string" where
  "unpack_root env = ce_cache_home env @ ''/mqlab/runtime''"

definition sha256_file :: "CompEnv \<Rightarrow> string \<Rightarrow> string comp_op" where
  "sha256_file env p = op_bind (op_get (\<lambda>s. map_of (cm_files s) p)) (\<lambda>c.
     case c of None \<Rightarrow> op_raise (Raised (FileNotFound p)) | Some x \<Rightarrow> op_return (ce_sha env x))"

definition ensure_tarball :: "CompEnv \<Rightarrow> RuntimePin \<Rightarrow> string \<Rightarrow> string comp_op" where
  "ensure_tarball env pin arch =
     op_bind (op_lift Raised (rt_tarball pin arch)) (\<lambda>name.
     let expected = the (map_of (rt_sha256 pin) arch); path = tarball_dir env @ ''/'' @ name in
     op_bind (op_get (\<lambda>s. is_file (cm_files s) path)) (\<lambda>there.
     op_bind (op_when (\<not> there)
        (op_bind (op_lift Raised (rt_url pin arch)) (\<lambda>url.
         op_bind (fetch env url (path @ ''.partial'')) (\<lambda>_.
         files_op (move_file (path @ ''.partial'') path))))) (\<lambda>_.
     op_bind (sha256_file env path) (\<lambda>actual.
     op_bind (op_when (actual \<noteq> expected)
        (op_bind (files_op (unlink path)) (\<lambda>_. op_raise (RuntimePinError ''does not match the pin'')))) (\<lambda>_.
     op_return path)))))"

definition interpreter_dir :: "CompEnv \<Rightarrow> RuntimePin \<Rightarrow> string \<Rightarrow> string" where
  "interpreter_dir env pin arch = unpack_root env @ ''/cpython-'' @ rt_token pin @ ''-'' @ arch"

definition interpreter_path :: "CompEnv \<Rightarrow> RuntimePin \<Rightarrow> string \<Rightarrow> (py_error, string) result" where
  "interpreter_path env pin arch = rbind (rt_minor pin) (\<lambda>minor.
     Inr (interpreter_dir env pin arch @ ''/python/bin/python'' @ minor))"

definition untar :: "string \<Rightarrow> (string \<times> content) list \<Rightarrow> files \<Rightarrow> files" where
  "untar d members fs = fold (\<lambda>(p, c). write_file (d @ ''/'' @ p) c) members fs"

definition ensure_interpreter :: "CompEnv \<Rightarrow> RuntimePin \<Rightarrow> string \<Rightarrow> string comp_op" where
  "ensure_interpreter env pin arch =
     op_bind (ensure_tarball env pin arch) (\<lambda>tarball.
     op_bind (op_lift Raised (interpreter_path env pin arch)) (\<lambda>binary.
     op_bind (op_lift Raised (rt_minor pin)) (\<lambda>minor.
     let target = interpreter_dir env pin arch; staging = target @ ''.partial'' in
     op_bind (op_get (\<lambda>s. is_file (cm_files s) binary)) (\<lambda>there.
     if there then op_return binary
     else
       op_bind (files_op (rmtree staging)) (\<lambda>_.
       op_bind (op_get (\<lambda>s. the (map_of (cm_files s) tarball))) (\<lambda>tar.
       op_bind (files_op (untar staging (ce_untar env tar))) (\<lambda>_.
       op_bind (op_get (\<lambda>s. is_file (cm_files s) (staging @ ''/python/bin/python'' @ minor))) (\<lambda>ok.
       op_bind (op_when (\<not> ok)
          (op_bind (files_op (rmtree staging)) (\<lambda>_. op_raise (RuntimePinError ''not an install_only build'')))) (\<lambda>_.
       op_bind (files_op (rmtree target)) (\<lambda>_.
       op_bind (files_op (move_tree staging target)) (\<lambda>_.
       op_return binary)))))))))))"

section \<open>The component tree\<close>

record Artifact =
  ar_name :: string
  ar_version :: pyval
  ar_tree :: pyval
  ar_path :: string
  ar_build :: pyval

definition components_dir :: "CompEnv \<Rightarrow> string" where
  "components_dir env = ce_repo env @ ''/components''"

definition known_components :: "CompEnv \<Rightarrow> files \<Rightarrow> string list" where
  "known_components env fs =
     filter (\<lambda>n. is_file fs (components_dir env @ ''/'' @ n @ ''/pyproject.toml'')) (dir_names (components_dir env) fs)"

definition component_dir :: "CompEnv \<Rightarrow> string \<Rightarrow> string comp_op" where
  "component_dir env name =
     op_bind (op_get (\<lambda>s. known_components env (cm_files s))) (\<lambda>known.
     op_bind (op_guard (name \<in> set known) (ComponentError ''unknown component'')) (\<lambda>_.
     op_return (components_dir env @ ''/'' @ name)))"

definition pyproject :: "CompEnv \<Rightarrow> string \<Rightarrow> pyval comp_op" where
  "pyproject env name =
     op_bind (component_dir env name) (\<lambda>d.
     op_bind (op_get (\<lambda>s. read_doc (cm_files s) (d @ ''/pyproject.toml''))) (op_lift Raised))"

definition version :: "CompEnv \<Rightarrow> string \<Rightarrow> string comp_op" where
  "version env name =
     op_bind (pyproject env name) (\<lambda>doc.
     op_bind (op_lift Raised (rbind (dict_get doc ''project'' (PDict [])) (\<lambda>p. dict_get p ''version'' PNone))) (\<lambda>v.
     case v of PStr t \<Rightarrow> (if t \<noteq> [] then op_return t else op_raise (ComponentError ''no [project].version''))
     | _ \<Rightarrow> op_raise (ComponentError ''no [project].version'')))"

definition git :: "CompEnv \<Rightarrow> string list \<Rightarrow> (int \<times> string list) comp_op" where
  "git env args = run_cmd env \<lparr>argv = ''git'' # args, cwd = Some (ce_repo env), cmd_env = None\<rparr>"

definition tree_hash :: "CompEnv \<Rightarrow> string \<Rightarrow> string comp_op" where
  "tree_hash env name =
     op_bind (git env [''rev-parse'', ''HEAD:components/'' @ name]) (\<lambda>(rc, out).
     op_bind (op_guard (\<not> (rc \<noteq> 0 \<or> out = [])) (ComponentError ''is not committed at HEAD'')) (\<lambda>_.
     op_return (py_strip (last out))))"

definition dirty_paths :: "CompEnv \<Rightarrow> string \<Rightarrow> string list comp_op" where
  "dirty_paths env name =
     op_bind (git env [''status'', ''--porcelain'', ''--'', ''components/'' @ name]) (\<lambda>(rc, out).
     op_bind (op_guard (rc = 0) (ComponentError ''git status failed'')) (\<lambda>_.
     op_return (map (drop 3) (filter (\<lambda>l. py_strip l \<noteq> []) out))))"

definition refuse_dirty :: "CompEnv \<Rightarrow> string \<Rightarrow> unit comp_op" where
  "refuse_dirty env name = op_bind (dirty_paths env name) (\<lambda>dirty.
     op_guard (dirty = []) (ComponentError ''has uncommitted changes''))"

section \<open>Artifacts\<close>

definition artifacts_dir :: "CompEnv \<Rightarrow> string \<Rightarrow> string" where
  "artifacts_dir env name = cache_dir env @ ''/components/'' @ name"

definition artifact_dir :: "CompEnv \<Rightarrow> string \<Rightarrow> string \<Rightarrow> string \<Rightarrow> string" where
  "artifact_dir env name ver tree = artifacts_dir env name @ ''/'' @ ver @ ''+'' @ tree"

definition test_venv_dir :: "CompEnv \<Rightarrow> string \<Rightarrow> string" where
  "test_venv_dir env name = work_dir env @ ''/components/'' @ name @ ''/venv''"

definition load_artifact :: "string \<Rightarrow> string \<Rightarrow> files \<Rightarrow> (py_error, Artifact option) result" where
  "load_artifact name path fs =
     (if \<not> is_file fs (path @ ''/BUILD.json'') then Inr None
      else rbind (read_doc fs (path @ ''/BUILD.json'')) (\<lambda>b.
           rbind (item b ''version'') (\<lambda>v.
           rbind (item b ''tree'') (\<lambda>t.
           Inr (Some \<lparr>ar_name = name, ar_version = v, ar_tree = t, ar_path = path, ar_build = b\<rparr>)))))"

text \<open>The first candidate directory that holds a complete artifact.\<close>

fun first_loaded :: "string \<Rightarrow> string list \<Rightarrow> files \<Rightarrow> (py_error, Artifact option) result" where
  "first_loaded name [] fs = Inr None"
| "first_loaded name (p # ps) fs =
     rbind (load_artifact name p fs) (\<lambda>a. case a of Some x \<Rightarrow> Inr (Some x) | None \<Rightarrow> first_loaded name ps fs)"

definition find_artifact :: "CompEnv \<Rightarrow> string \<Rightarrow> string \<Rightarrow> files \<Rightarrow> (py_error, Artifact option) result" where
  "find_artifact env name tree fs =
     (let d = artifacts_dir env name in
      first_loaded name (map (\<lambda>n. d @ ''/'' @ n) (filter (suffix (''+'' @ tree)) (dir_names d fs))) fs)"

definition current :: "CompEnv \<Rightarrow> string \<Rightarrow> files \<Rightarrow> (py_error, Artifact option) result" where
  "current env name fs =
     (let d = artifacts_dir env name in
      if \<not> is_file fs (d @ ''/CURRENT'') then Inr None
      else rbind (read_text fs (d @ ''/CURRENT'')) (\<lambda>t. load_artifact name (d @ ''/'' @ py_strip t) fs))"

definition path_base :: "string \<Rightarrow> string" where
  "path_base p = rev (takeWhile (\<lambda>c. c \<noteq> CHR ''/'') (rev p))"

definition set_current :: "CompEnv \<Rightarrow> Artifact \<Rightarrow> unit comp_op" where
  "set_current env a =
     files_op (write_file (artifacts_dir env (ar_name a) @ ''/CURRENT'') (Text (path_base (ar_path a) @ [CHR 0x0A])))"

section \<open>Dependency staging from the lock file\<close>

text \<open>\<open>re.sub(r"[-_.]+", "-", project).lower()\<close>.\<close>

fun dash_runs :: "bool \<Rightarrow> string \<Rightarrow> string" where
  "dash_runs seen [] = []"
| "dash_runs seen (c # s) =
     (if c \<in> set ''-_.'' then (if seen then dash_runs True s else CHR ''-'' # dash_runs True s)
      else c # dash_runs False s)"

definition normalize :: "string \<Rightarrow> string" where
  "normalize project = py_lower (dash_runs False project)"

text \<open>\<open>^(py3|cp314)$\<close>, whose \<open>$\<close> also matches before a final newline.\<close>

definition wheel_py :: "string \<Rightarrow> bool" where
  "wheel_py p \<longleftrightarrow> p \<in> {''py3'', ''cp314'', ''py3'' @ [CHR 0x0A], ''cp314'' @ [CHR 0x0A]}"

definition drop_suffix :: "string \<Rightarrow> string \<Rightarrow> string" where
  "drop_suffix e s = (if e \<noteq> [] \<and> suffix e s then take (length s - length e) s else s)"

definition wheel_platform :: "string \<Rightarrow> bool" where
  "wheel_platform p \<longleftrightarrow> p = ''any'' \<or> prefix ''manylinux'' p \<and> (suffix ''_x86_64'' p \<or> suffix ''_aarch64'' p)"

definition wheel_installable :: "string \<Rightarrow> (py_error, bool) result" where
  "wheel_installable filename =
     (let parts = split_on (\<lambda>c. c = CHR ''-'') (drop_suffix ''.whl'' filename) in
      case drop (length parts - 3) parts of
        [py_tags, abi_tag, plat_tag] \<Rightarrow>
          (let pys = split_on (\<lambda>c. c = CHR ''.'') py_tags in
           Inr ((list_ex wheel_py pys \<or> abi_tag = ''abi3'' \<and> list_ex (prefix ''cp3'') pys)
                \<and> list_ex wheel_platform (split_on (\<lambda>c. c = CHR ''.'') plat_tag)))
      | _ \<Rightarrow> Inl (ValueErr ''not enough values to unpack''))"

text \<open>The name of a requirement line: \<open>^([A-Za-z0-9][A-Za-z0-9._-]*)==\<close>.\<close>

definition alnum :: "char \<Rightarrow> bool" where
  "alnum c \<longleftrightarrow> is_digit c \<or> is_lower c \<or> is_upper c"

definition req_name :: "string \<Rightarrow> string option" where
  "req_name line =
     (let name = takeWhile (\<lambda>c. alnum c \<or> c \<in> set ''._-'') line in
      if name \<noteq> [] \<and> alnum (hd name) \<and> prefix ''=='' (drop (length name) line) then Some name else None)"

definition file_names :: "files \<Rightarrow> string \<Rightarrow> (py_error, string list) result" where
  "file_names fs p =
     (if \<not> is_file fs p then Inr []
      else rbind (read_text fs p) (\<lambda>t. Inr (map normalize (List.map_filter req_name (splitlines t)))))"

definition wanted :: "files \<Rightarrow> string list \<Rightarrow> (py_error, string list) result" where
  "wanted fs paths = rbind (traverse (file_names fs) paths) (\<lambda>nss. Inr (add_all_new (concat nss) []))"

definition url_name :: "string \<Rightarrow> (py_error, string) result" where
  "url_name url = (if CHR ''/'' \<in> set url then Inr (path_base url) else Inl (KeyErr ''list index out of range''))"

definition str_field :: "pyval \<Rightarrow> string \<Rightarrow> (py_error, string) result" where
  "str_field v k = rbind (item v k) (\<lambda>w. case w of PStr t \<Rightarrow> Inr t | _ \<Rightarrow> Inl (TypeErr k))"

definition keep_wheel :: "pyval \<Rightarrow> (py_error, pyval list) result" where
  "keep_wheel w = rbind (str_field w ''url'') (\<lambda>url. rbind (url_name url) (\<lambda>n.
     rbind (wheel_installable n) (\<lambda>ok. Inr (if ok then [w] else []))))"

definition candidates :: "pyval \<Rightarrow> (py_error, pyval list) result" where
  "candidates pkg =
     rbind (dict_get pkg ''wheels'' (PList [])) (\<lambda>ws.
     rbind (py_list ws) (\<lambda>wheels.
     rbind (traverse keep_wheel wheels) (\<lambda>kept.
     Inr ((case lookup pkg ''sdist'' of None \<Rightarrow> [] | Some a \<Rightarrow> [a]) @ concat kept))))"

definition packages :: "pyval \<Rightarrow> (py_error, (string \<times> pyval) list) result" where
  "packages lock =
     rbind (item lock ''package'') (\<lambda>ps. rbind (py_list ps) (\<lambda>pkgs.
     rbind (traverse (\<lambda>p. rbind (str_field p ''name'') (\<lambda>n. Inr (normalize n, p))) pkgs) (\<lambda>named.
     Inr (dict_build fst snd named))))"

text \<open>\<open>algo, _, expected = hash.partition(":")\<close> against the digest of the file.\<close>

definition hash_matches :: "string \<Rightarrow> string \<Rightarrow> bool" where
  "hash_matches hash actual = (case split_once CHR '':'' hash of (algo, rest) \<Rightarrow>
     \<not> (algo \<noteq> ''sha256'' \<or> actual \<noteq> (case rest of None \<Rightarrow> [] | Some expected \<Rightarrow> expected)))"

text \<open>One download with its check: a file whose digest is not the locked one is removed again.\<close>

definition stage_one :: "CompEnv \<Rightarrow> string \<Rightarrow> pyval \<Rightarrow> string comp_op" where
  "stage_one env deps art =
     op_bind (op_lift Raised (str_field art ''url'')) (\<lambda>url.
     op_bind (op_lift Raised (url_name url)) (\<lambda>filename.
     let dest = deps @ ''/'' @ filename in
     op_bind (fetch env url dest) (\<lambda>_.
     op_bind (op_lift Raised (str_field art ''hash'')) (\<lambda>hash.
     op_bind (sha256_file env dest) (\<lambda>actual.
     if \<not> hash_matches hash actual
     then op_bind (files_op (unlink dest)) (\<lambda>_. op_raise (ComponentError ''sha256 differs from uv.lock''))
     else op_return filename)))))"

definition stage_project :: "CompEnv \<Rightarrow> string \<Rightarrow> (string \<times> pyval) list \<Rightarrow> string \<Rightarrow> string list comp_op" where
  "stage_project env deps pkgs project =
     op_bind (op_lift Raised (candidates (the (map_of pkgs project)))) (\<lambda>arts.
     op_bind (op_guard (arts \<noteq> []) (ComponentError ''no sdist and no installable wheel'')) (\<lambda>_.
     op_each (stage_one env deps) arts))"

definition stage_deps :: "CompEnv \<Rightarrow> string \<Rightarrow> string list \<Rightarrow> string \<Rightarrow> string list comp_op" where
  "stage_deps env lock names deps =
     op_bind (op_get (\<lambda>s. read_doc (cm_files s) lock)) (\<lambda>r.
     op_bind (op_lift Raised r) (\<lambda>doc.
     op_bind (op_lift Raised (packages doc)) (\<lambda>pkgs.
     op_bind (op_guard (list_all (\<lambda>n. map_of pkgs n \<noteq> None) names) (ComponentError ''exported but not locked'')) (\<lambda>_.
     op_bind (op_each (stage_project env deps pkgs) (sort names)) (\<lambda>sss.
     op_return (concat sss))))))"

section \<open>The build\<close>

definition path_parent :: "string \<Rightarrow> string" where
  "path_parent p = take (length p - length (path_base p) - 1) p"

definition venv_config :: "string \<Rightarrow> (string \<times> string) list" where
  "venv_config t = dict_build fst snd
     (List.map_filter (\<lambda>line. case split_once CHR ''='' line of (k, v) \<Rightarrow>
        if py_strip k \<noteq> [] then Some (py_strip k, py_strip (case v of None \<Rightarrow> [] | Some w \<Rightarrow> w)) else None)
      (splitlines t))"

definition cfg_get :: "(string \<times> string) list \<Rightarrow> string \<Rightarrow> string" where
  "cfg_get cfg k = (case map_of cfg k of None \<Rightarrow> [] | Some v \<Rightarrow> v)"

definition assert_pinned_venv :: "CompEnv \<Rightarrow> string \<Rightarrow> string \<Rightarrow> RuntimePin \<Rightarrow> unit comp_op" where
  "assert_pinned_venv env venv interpreter pin =
     op_bind (op_get cm_files) (\<lambda>fs.
     op_bind (op_guard (is_file fs (venv @ ''/pyvenv.cfg'')) (ComponentError ''has no pyvenv.cfg'')) (\<lambda>_.
     op_bind (op_lift Raised (read_text fs (venv @ ''/pyvenv.cfg''))) (\<lambda>t.
     let cfg = venv_config t; home = cfg_get cfg ''home'';
         found = (if cfg_get cfg ''version_info'' \<noteq> [] then cfg_get cfg ''version_info'' else cfg_get cfg ''version'')
     in
     op_bind (op_guard (\<not> (home = [] \<or> ce_resolve env home \<noteq> ce_resolve env (path_parent interpreter)))
       (ComponentError ''refusing to test on an unpinned interpreter'')) (\<lambda>_.
     op_bind (op_lift Raised (rt_minor pin)) (\<lambda>minor.
     op_guard (take 2 (split_on (\<lambda>c. c = CHR ''.'') found) = split_on (\<lambda>c. c = CHR ''.'') minor)
       (ComponentError ''reports another Python''))))))"

definition command_in :: "string \<Rightarrow> string list \<Rightarrow> Command" where
  "command_in dir args = \<lparr>argv = args, cwd = Some dir, cmd_env = None\<rparr>"

definition EXPORT :: "string list" where
  "EXPORT = [''uv'', ''export'', ''--frozen'', ''--no-emit-project'', ''--format'', ''requirements-txt'']"

definition SDIST_BUILD_GROUP :: string where
  "SDIST_BUILD_GROUP = ''sdist-build''"

definition lock_command :: "string \<Rightarrow> Command" where
  "lock_command src = command_in src [''uv'', ''lock'', ''--check'']"

definition venv_command :: "string \<Rightarrow> string \<Rightarrow> string \<Rightarrow> Command" where
  "venv_command src interpreter venv =
     \<lparr>argv = [''uv'', ''venv'', ''--python'', interpreter, venv], cwd = Some src,
      cmd_env = Some [(''UV_PROJECT_ENVIRONMENT'', venv)]\<rparr>"

definition test_command :: "string \<Rightarrow> string \<Rightarrow> string \<Rightarrow> Command" where
  "test_command src interpreter venv =
     \<lparr>argv = [''uv'', ''run'', ''--frozen'', ''--python'', interpreter, ''pytest''], cwd = Some src,
      cmd_env = Some [(''UV_PROJECT_ENVIRONMENT'', venv)]\<rparr>"

definition wheel_command :: "string \<Rightarrow> string \<Rightarrow> Command" where
  "wheel_command src stage = command_in src [''uv'', ''build'', ''--wheel'', ''--out-dir'', stage]"

definition export_command :: "string \<Rightarrow> string list \<Rightarrow> string \<Rightarrow> Command" where
  "export_command src selection out = command_in src (EXPORT @ selection @ [''-o'', out])"

text \<open>\<open>shutil.copytree\<close>, which refuses an existing target.\<close>

definition copy_tree :: "string \<Rightarrow> string \<Rightarrow> files \<Rightarrow> files" where
  "copy_tree src dst fs =
     fold (\<lambda>(p, c). write_file (dst @ drop (length src) p) c) (filter (\<lambda>(p, c). below src p) fs) fs"

definition dir_there :: "string \<Rightarrow> files \<Rightarrow> bool" where
  "dir_there d fs \<longleftrightarrow> list_ex (\<lambda>(p, c). below d p) fs"

definition copytree :: "string \<Rightarrow> string \<Rightarrow> unit comp_op" where
  "copytree src dst =
     op_bind (op_get (\<lambda>s. dir_there dst (cm_files s))) (\<lambda>there.
     op_bind (op_guard (\<not> there) (Raised (ValueErr ''file exists''))) (\<lambda>_. files_op (copy_tree src dst)))"

text \<open>The checks and tests: what has to hold before anything is staged.\<close>

definition build_tests :: "CompEnv \<Rightarrow> string \<Rightarrow> string \<Rightarrow> string \<Rightarrow> unit comp_op" where
  "build_tests env name src interpreter =
     (let venv = test_venv_dir env name in
     op_bind (step env (lock_command src) ''uv.lock is stale'') (\<lambda>_.
     op_bind (files_op (rmtree venv)) (\<lambda>_.
     op_bind (step env (venv_command src interpreter venv) ''could not create the test venv'') (\<lambda>_.
     op_bind (assert_pinned_venv env venv interpreter (ce_pin env)) (\<lambda>_.
     op_bind (step env (test_command src interpreter venv) ''tests failed on the pinned runtime'') (\<lambda>_.
     assert_pinned_venv env venv interpreter (ce_pin env)))))))"

definition build_stage :: "CompEnv \<Rightarrow> string \<Rightarrow> string \<Rightarrow> string \<Rightarrow> unit comp_op" where
  "build_stage env name src stage =
     (let requirements = stage @ ''/requirements.txt''; build_requirements = stage @ ''/build-requirements.txt'' in
     op_bind (files_op (rmtree stage)) (\<lambda>_.
     op_bind (step env (wheel_command src stage) ''uv build --wheel failed'') (\<lambda>_.
     op_bind (step env (export_command src [''--no-dev'', ''--all-extras''] requirements) ''uv export failed'') (\<lambda>_.
     op_bind (pyproject env name) (\<lambda>doc.
     op_bind (op_lift Raised (dict_get doc ''dependency-groups'' (PDict []))) (\<lambda>groups.
     op_bind (op_when (lookup groups SDIST_BUILD_GROUP \<noteq> None)
        (step env (export_command src [''--only-group'', SDIST_BUILD_GROUP] build_requirements) ''uv export failed'')) (\<lambda>_.
     op_bind (op_get (\<lambda>s. wanted (cm_files s) [requirements, build_requirements])) (\<lambda>r.
     op_bind (op_lift Raised r) (\<lambda>names.
     op_bind (stage_deps env (src @ ''/uv.lock'') names (stage @ ''/deps'')) (\<lambda>_.
     op_bind (op_get (\<lambda>s. dir_there (src @ ''/systemd'') (cm_files s))) (\<lambda>units.
     op_when units (copytree (src @ ''/systemd'') (stage @ ''/systemd'')))))))))))))"

definition build_info :: "CompEnv \<Rightarrow> string \<Rightarrow> string \<Rightarrow> string \<Rightarrow> string \<Rightarrow> pyval" where
  "build_info env name ver tree commit = PDict
     [(PStr ''name'', PStr name), (PStr ''version'', PStr ver), (PStr ''tree'', PStr tree), (PStr ''commit'', PStr commit),
      (PStr ''runtime'', PStr (rt_token (ce_pin env))), (PStr ''tests'', PStr ''passed''), (PStr ''built_at'', PStr (ce_now env))]"

text \<open>Everything up to the staged files, and what makes them the current artifact.\<close>

definition build_ready :: "CompEnv \<Rightarrow> string \<Rightarrow> (string \<times> string) comp_op" where
  "build_ready env name =
     op_bind (component_dir env name) (\<lambda>src.
     op_bind (refuse_dirty env name) (\<lambda>_.
     op_bind (tree_hash env name) (\<lambda>tree.
     op_bind (version env name) (\<lambda>ver.
     op_bind (op_lift id (host_arch (ce_machine env))) (\<lambda>arch.
     op_bind (ensure_interpreter env (ce_pin env) arch) (\<lambda>interpreter.
     op_bind (build_tests env name src interpreter) (\<lambda>_.
     op_bind (build_stage env name src (artifact_dir env name ver tree @ ''.partial'')) (\<lambda>_.
     op_return (ver, tree)))))))))"

definition build_commit :: "CompEnv \<Rightarrow> string \<Rightarrow> string \<Rightarrow> string \<Rightarrow> Artifact comp_op" where
  "build_commit env name ver tree =
     (let final = artifact_dir env name ver tree; stage = final @ ''.partial'' in
     op_bind (git env [''rev-parse'', ''HEAD'']) (\<lambda>(rc, head).
     let info = build_info env name ver tree (if head = [] then [] else py_strip (last head));
         a = \<lparr>ar_name = name, ar_version = PStr ver, ar_tree = PStr tree, ar_path = final, ar_build = info\<rparr>
     in
     op_bind (files_op (write_file (stage @ ''/BUILD.json'') (Doc info))) (\<lambda>_.
     op_bind (files_op (rmtree final)) (\<lambda>_.
     op_bind (files_op (move_tree stage final)) (\<lambda>_.
     op_bind (set_current env a) (\<lambda>_.
     op_return a))))))"

definition build :: "CompEnv \<Rightarrow> string \<Rightarrow> Artifact comp_op" where
  "build env name = op_bind (build_ready env name) (\<lambda>(ver, tree). build_commit env name ver tree)"

definition ensure_built :: "CompEnv \<Rightarrow> string \<Rightarrow> Artifact comp_op" where
  "ensure_built env name =
     op_bind (refuse_dirty env name) (\<lambda>_.
     op_bind (tree_hash env name) (\<lambda>tree.
     op_bind (op_get (\<lambda>s. find_artifact env name tree (cm_files s))) (\<lambda>r.
     op_bind (op_lift Raised r) (\<lambda>found.
     case found of
       Some a \<Rightarrow> op_bind (set_current env a) (\<lambda>_. op_return a)
     | None \<Rightarrow> build env name))))"

section \<open>Installing\<close>

definition install_vars_path :: "CompEnv \<Rightarrow> string" where
  "install_vars_path env = work_dir env @ ''/components/install-vars.json''"

definition install_vars :: "CompEnv \<Rightarrow> Artifact list \<Rightarrow> string option \<Rightarrow> string comp_op" where
  "install_vars env artifacts arch =
     (let pin = ce_pin env in
     op_bind (case arch of None \<Rightarrow> op_return ([], [])
        | Some a \<Rightarrow> op_bind (ensure_tarball env pin a) (\<lambda>_.
            op_bind (op_lift Raised (rt_tarball pin a)) (\<lambda>t.
            op_return ([(PStr a, PStr t)], [(PStr a, PStr (the (map_of (rt_sha256 pin) a)))])))) (\<lambda>(tarballs, sha).
     op_bind (op_lift Raised (rt_minor pin)) (\<lambda>minor.
     op_bind (files_op (write_file (install_vars_path env) (Doc (PDict
       [(PStr ''component_artifacts'', PDict (map (\<lambda>(n, p). (PStr n, PStr p)) (sort_key fst (dict_build ar_name ar_path artifacts)))),
        (PStr ''runtime_python'', PDict
           [(PStr ''minor'', PStr minor), (PStr ''pbs_release'', PStr (rt_pbs_release pin)), (PStr ''sha256'', PDict sha),
            (PStr ''tarball_dir'', PStr (tarball_dir env)), (PStr ''tarballs'', PDict tarballs),
            (PStr ''token'', PStr (rt_token pin)), (PStr ''version'', PStr (rt_version pin))])])))) (\<lambda>_.
     op_return (install_vars_path env)))))"

definition staged_artifacts :: "CompEnv \<Rightarrow> string \<Rightarrow> files \<Rightarrow> (py_error, Artifact list) result" where
  "staged_artifacts env name fs =
     (let d = artifacts_dir env name in
      rbind (traverse (\<lambda>n. load_artifact name (d @ ''/'' @ n) fs) (filter (\<lambda>n. CHR ''+'' \<in> set n) (dir_names d fs)))
        (\<lambda>loaded. Inr (List.map_filter id loaded)))"

definition names_artifact :: "string \<Rightarrow> Artifact \<Rightarrow> bool" where
  "names_artifact w a \<longleftrightarrow> w = path_base (ar_path a) \<or> PStr w = ar_version a"

definition resolve_artifact :: "CompEnv \<Rightarrow> string \<Rightarrow> string option \<Rightarrow> Artifact comp_op" where
  "resolve_artifact env name want =
     (case want of
        None \<Rightarrow> ensure_built env name
      | Some w \<Rightarrow>
          op_bind (component_dir env name) (\<lambda>_.
          op_bind (op_get (\<lambda>s. staged_artifacts env name (cm_files s))) (\<lambda>r.
          op_bind (op_lift Raised r) (\<lambda>staged.
          case filter (names_artifact w) staged of
            [a] \<Rightarrow> op_return a
          | [] \<Rightarrow> op_raise (ComponentError ''is not a staged artifact'')
          | _ \<Rightarrow> op_raise (ComponentError ''matches several'')))))"

definition install_command :: "CompEnv \<Rightarrow> string \<Rightarrow> string \<Rightarrow> string list \<Rightarrow> string \<Rightarrow> Command" where
  "install_command env inventory name hosts vars_file =
     \<lparr>argv = [''ansible-playbook'', ''component-install.yml'', ''-i'', inventory, ''--limit'', str_join '','' hosts,
              ''-e'', ''component_name='' @ name, ''-e'', ''component_start_units=true'', ''-e'', ''@'' @ vars_file],
      cwd = Some (ce_repo env @ ''/ansible''),
      cmd_env = Some [(''ANSIBLE_INVENTORY_UNPARSED_FAILED'', ''True''), (''ANSIBLE_HOST_PATTERN_MISMATCH'', ''error'')]\<rparr>"

definition install :: "CompEnv \<Rightarrow> string \<Rightarrow> string \<Rightarrow> string list \<Rightarrow> string option \<Rightarrow> Artifact comp_op" where
  "install env inventory name hosts want =
     op_bind (resolve_artifact env name want) (\<lambda>a.
     op_bind (install_vars env [a] None) (\<lambda>vars_file.
     op_bind (run_cmd env (install_command env inventory name hosts vars_file)) (\<lambda>(rc, _).
     op_bind (op_guard (rc = 0) (ComponentError ''component-install.yml failed'')) (\<lambda>_.
     op_return a))))"

section \<open>Verified downloads\<close>

lemma files_op_eq [simp]: "files_op f s = (r, t) \<longleftrightarrow> r = Inr () \<and> t = s\<lparr>cm_files := f (cm_files s)\<rparr>"
  by (cases s) (simp add: files_op_def)

lemma fetch_Inr [simp]:
  "fetch env url p s = (Inr u, t)
     \<longleftrightarrow> (\<exists>c. ce_fetch env url = (c, None) \<and> t = s\<lparr>cm_files := write_file p c (cm_files s)\<rparr>)"
  by (cases "ce_fetch env url") (auto simp: fetch_def op_bind_Inr split: option.splits)

lemma sha256_file_Inr [simp]:
  "sha256_file env p s = (Inr h, t) \<longleftrightarrow> (\<exists>c. map_of (cm_files s) p = Some c \<and> h = ce_sha env c) \<and> t = s"
  by (auto simp: sha256_file_def op_bind_Inr split: option.splits)

lemma sha256_file_Inl [simp]:
  "sha256_file env p s = (Inl e, t) \<longleftrightarrow> map_of (cm_files s) p = None \<and> e = Raised (FileNotFound p) \<and> t = s"
  by (auto simp: sha256_file_def op_bind_Inl split: option.splits)

lemma op_when_eq:
  "op_when c m s = (r, t) \<longleftrightarrow> (if c then m s = (r, t) else r = Inr () \<and> t = s)"
  by (simp add: op_when_def)

definition tarball_outcome :: "CompEnv \<Rightarrow> RuntimePin \<Rightarrow> string \<Rightarrow> (comp_error, string) result \<Rightarrow> files \<Rightarrow> bool" where
  "tarball_outcome env pin arch r fs =
     (case r of
        Inr path \<Rightarrow> (\<exists>c. map_of fs path = Some c \<and> map_of (rt_sha256 pin) arch = Some (ce_sha env c))
      | Inl (RuntimePinError m) \<Rightarrow>
          (\<exists>name. rt_tarball pin arch = Inr name \<and> \<not> is_file fs (tarball_dir env @ ''/'' @ name))
      | _ \<Rightarrow> True)"

lemma fetch_no_pin_error: "fetch env url p s \<noteq> (Inl (RuntimePinError m), t)"
  by (auto simp: fetch_def op_steps split: prod.splits option.splits)

lemma rt_tarball_pinned: "rt_tarball pin arch = Inr name \<Longrightarrow> \<exists>h. map_of (rt_sha256 pin) arch = Some h"
  by (auto simp: rt_tarball_def split: if_splits)

lemma ensure_tarball_outcome:
  assumes "ensure_tarball env pin arch s = (r, t)"
  shows "tarball_outcome env pin arch r (cm_files t)"
proof (cases r)
  case (Inr path)
  with assms show ?thesis
    by (auto simp: ensure_tarball_def tarball_outcome_def op_bind_Inr op_when_eq Let_def
      dest!: rt_tarball_pinned split: if_splits)
next
  case (Inl e)
  with assms show ?thesis
    by (cases e) (auto simp: ensure_tarball_def tarball_outcome_def op_bind_Inl op_bind_Inr op_when_eq Let_def
      is_file_def fetch_no_pin_error split: if_splits)
qed

text \<open>A file of the lock that is in place: its digest is the one some candidate records.\<close>

definition locked_file :: "CompEnv \<Rightarrow> pyval list \<Rightarrow> string \<Rightarrow> files \<Rightarrow> string \<Rightarrow> bool" where
  "locked_file env arts deps fs n \<longleftrightarrow>
     (\<exists>art \<in> set arts. \<exists>url hash c. str_field art ''url'' = Inr url \<and> url_name url = Inr n
        \<and> str_field art ''hash'' = Inr hash \<and> map_of fs (deps @ ''/'' @ n) = Some c \<and> hash_matches hash (ce_sha env c))"

lemma stage_one_verified:
  assumes "stage_one env deps art s = (Inr n, t)" and "art \<in> set arts"
  shows "locked_file env arts deps (cm_files t) n"
    and "locked_file env arts deps (cm_files s) m \<Longrightarrow> locked_file env arts deps (cm_files t) m"
proof -
  from assms(1) obtain url hash c where
      w: "str_field art ''url'' = Inr url" "url_name url = Inr n" "str_field art ''hash'' = Inr hash"
    and t: "t = s\<lparr>cm_files := write_file (deps @ ''/'' @ n) c (cm_files s)\<rparr>" "hash_matches hash (ce_sha env c)"
    by (fastforce simp: stage_one_def op_bind_Inr Let_def split: if_splits)
  with assms(2) show here: "locked_file env arts deps (cm_files t) n"
    unfolding locked_file_def by auto
  show "locked_file env arts deps (cm_files t) m" if "locked_file env arts deps (cm_files s) m"
  proof (cases "m = n")
    case False
    with that t show ?thesis by (simp add: locked_file_def)
  qed (simp add: here)
qed

lemma stage_each_verified:
  assumes "op_each (stage_one env deps) arts' s = (Inr ns, t)" and "set arts' \<subseteq> set arts"
  shows "(\<forall>n \<in> set ns. locked_file env arts deps (cm_files t) n)
    \<and> (\<forall>m. locked_file env arts deps (cm_files s) m \<longrightarrow> locked_file env arts deps (cm_files t) m)"
  using assms
proof (induction arts' arbitrary: s ns)
  case (Cons a as)
  from Cons.prems(1) obtain n u ms where
      u: "stage_one env deps a s = (Inr n, u)" "op_each (stage_one env deps) as u = (Inr ms, t)" "ns = n # ms"
    by (auto simp: op_bind_Inr)
  with Cons.prems(2) Cons.IH[OF u(2)] stage_one_verified[OF u(1), of arts] show ?case by auto
qed simp

lemma stage_project_Inr:
  "stage_project env deps pkgs p s = (Inr ns, t) \<longleftrightarrow>
     (\<exists>as. candidates (the (map_of pkgs p)) = Inr as \<and> as \<noteq> [] \<and> op_each (stage_one env deps) as s = (Inr ns, t))"
  by (auto simp: stage_project_def op_bind_Inr)

lemma stage_projects_verified:
  assumes "op_each (stage_project env deps pkgs) ps s = (Inr nss, t)"
    and "\<And>p as. p \<in> set ps \<Longrightarrow> candidates (the (map_of pkgs p)) = Inr as \<Longrightarrow> set as \<subseteq> set arts"
  shows "(\<forall>n \<in> set (concat nss). locked_file env arts deps (cm_files t) n)
    \<and> (\<forall>m. locked_file env arts deps (cm_files s) m \<longrightarrow> locked_file env arts deps (cm_files t) m)"
  using assms
proof (induction ps arbitrary: s nss)
  case (Cons p ps)
  from Cons.prems(1) obtain as ns u mss where
      u: "candidates (the (map_of pkgs p)) = Inr as" "op_each (stage_one env deps) as s = (Inr ns, u)"
         "op_each (stage_project env deps pkgs) ps u = (Inr mss, t)" "nss = ns # mss"
    by (auto simp: op_bind_Inr stage_project_Inr)
  from Cons.prems(2)[of p] u(1) have "set as \<subseteq> set arts" by simp
  note here = stage_each_verified[OF u(2) this]
  have "set as' \<subseteq> set arts" if "q \<in> set ps" and "candidates (the (map_of pkgs q)) = Inr as'" for q as'
    using that Cons.prems(2)[of q] by simp
  from Cons.IH[OF u(3) this] here u(4) show ?case by auto
qed simp

text \<open>The files the lock offers for the wanted packages.\<close>

definition offered :: "pyval \<Rightarrow> string list \<Rightarrow> pyval list" where
  "offered doc names = (case packages doc of Inl e \<Rightarrow> []
     | Inr pkgs \<Rightarrow> concat (map (\<lambda>p. case candidates (the (map_of pkgs p)) of Inl e \<Rightarrow> [] | Inr as \<Rightarrow> as) names))"

lemma stage_deps_locked:
  assumes "stage_deps env lock names deps s = (Inr staged, t)"
  shows "\<exists>doc. read_doc (cm_files s) lock = Inr doc
    \<and> (\<forall>n \<in> set staged. locked_file env (offered doc names) deps (cm_files t) n)"
proof -
  from assms obtain doc pkgs nss where
      d: "read_doc (cm_files s) lock = Inr doc" "packages doc = Inr pkgs" "staged = concat nss"
         "op_each (stage_project env deps pkgs) (sort names) s = (Inr nss, t)"
    by (auto simp: stage_deps_def op_bind_Inr)
  have "set as \<subseteq> set (offered doc names)"
    if "p \<in> set (sort names)" and "candidates (the (map_of pkgs p)) = Inr as" for p as
    using that d(2) by (force simp: offered_def)
  from stage_projects_verified[OF d(4) this] d(1,3) show ?thesis by auto
qed

section \<open>What a failed build leaves alone\<close>

text \<open>The paths of complete artifacts and of the pointer to the current one: everything below the
  component's directory but the staging directories.\<close>

definition staging_path :: "CompEnv \<Rightarrow> string \<Rightarrow> string \<Rightarrow> bool" where
  "staging_path env name p \<longleftrightarrow> (\<exists>ver tree. below (artifact_dir env name ver tree @ ''.partial'') p)"

definition artifact_path :: "CompEnv \<Rightarrow> string \<Rightarrow> string \<Rightarrow> bool" where
  "artifact_path env name p \<longleftrightarrow> below (artifacts_dir env name) p \<and> \<not> staging_path env name p"

definition same_artifacts :: "CompEnv \<Rightarrow> string \<Rightarrow> files \<Rightarrow> CompState \<Rightarrow> bool" where
  "same_artifacts env name fs s \<longleftrightarrow> (\<forall>p. artifact_path env name p \<longrightarrow> map_of (cm_files s) p = map_of fs p)"

text \<open>The tools write where they are told to: into the test environment, the staging directory and
  the checkout, and never into the artifacts already there.\<close>

definition tools_keep_artifacts :: "CompEnv \<Rightarrow> string \<Rightarrow> bool" where
  "tools_keep_artifacts env name \<longleftrightarrow>
     (\<forall>c fs p. artifact_path env name p \<longrightarrow> map_of (snd (snd (ce_run env c fs))) p = map_of fs p)
     \<and> (\<forall>p. below (unpack_root env) p \<longrightarrow> \<not> below (artifacts_dir env name) p)"

named_theorems build_keeps

lemma keeps_files:
  assumes "\<And>fs p. artifact_path env name p \<Longrightarrow> map_of (f fs) p = map_of fs p"
  shows "keeps (same_artifacts env name fs0) (files_op f)"
  using assms by (auto simp: keeps_def files_op_def op_modify_def same_artifacts_def)

lemma keeps_write: "\<not> artifact_path env name p \<Longrightarrow> keeps (same_artifacts env name fs0) (files_op (write_file p c))"
  by (rule keeps_files) auto

lemma keeps_unlink: "\<not> artifact_path env name p \<Longrightarrow> keeps (same_artifacts env name fs0) (files_op (unlink p))"
  by (rule keeps_files) auto

lemma keeps_rmtree:
  "(\<And>p. below d p \<Longrightarrow> \<not> artifact_path env name p) \<Longrightarrow> keeps (same_artifacts env name fs0) (files_op (rmtree d))"
  by (rule keeps_files) auto

lemma keeps_run_cmd [build_keeps]:
  assumes "tools_keep_artifacts env name"
  shows "keeps (same_artifacts env name fs0) (run_cmd env c)"
proof -
  have "map_of (snd (snd (ce_run env c fs))) p = map_of fs p" if "artifact_path env name p" for fs p
    using assms that by (simp add: tools_keep_artifacts_def)
  then show ?thesis by (simp add: keeps_def run_cmd_def same_artifacts_def split_beta)
qed

lemma keeps_step [build_keeps]: "tools_keep_artifacts env name \<Longrightarrow> keeps (same_artifacts env name fs0) (step env c m)"
  unfolding step_def split_beta by (intro op_intros build_keeps)

lemma keeps_git [build_keeps]: "tools_keep_artifacts env name \<Longrightarrow> keeps (same_artifacts env name fs0) (git env args)"
  unfolding git_def by (rule build_keeps)

lemma keeps_fetch: "\<not> artifact_path env name p \<Longrightarrow> keeps (same_artifacts env name fs0) (fetch env url p)"
  unfolding fetch_def by (auto intro!: op_intros keeps_write split: prod.split option.split)

lemma keeps_sha [build_keeps]: "keeps (same_artifacts env name fs0) (sha256_file env p)"
  unfolding sha256_file_def by (intro op_intros) (auto intro: op_intros split: option.split)

text \<open>The other directories the build writes to are apart from the artifacts.\<close>

lemma tarball_apart: "\<not> artifact_path env name (tarball_dir env @ p)"
  by (auto simp: artifact_path_def below_def artifacts_dir_def tarball_dir_def prefix_def)

lemma venv_apart: "below (test_venv_dir env n) p \<Longrightarrow> \<not> artifact_path env name p"
  by (auto simp: artifact_path_def below_def artifacts_dir_def test_venv_dir_def cache_dir_def work_dir_def prefix_def)

lemma interpreter_apart:
  assumes "tools_keep_artifacts env name" and "below (interpreter_dir env pin arch @ d) p"
  shows "\<not> artifact_path env name p"
proof -
  from assms(2) have "below (unpack_root env) p" by (auto simp: below_def interpreter_dir_def prefix_def)
  with assms(1) show ?thesis by (auto simp: tools_keep_artifacts_def artifact_path_def)
qed

lemma stage_apart: "below (artifact_dir env name ver tree @ ''.partial'') p \<Longrightarrow> \<not> artifact_path env name p"
  by (auto simp: artifact_path_def staging_path_def)

lemma keeps_ensure_tarball [build_keeps]: "keeps (same_artifacts env name fs0) (ensure_tarball env pin arch)"
  unfolding ensure_tarball_def Let_def
  by (intro op_intros build_keeps keeps_fetch keeps_unlink keeps_files)
    (auto simp: tarball_apart move_file_def split: option.split)

lemma untar_apart:
  "\<not> below d q \<Longrightarrow> map_of (untar d ms fs) q = map_of fs q"
  unfolding untar_def by (induction ms arbitrary: fs) (auto simp: below_def)

lemma keeps_ensure_interpreter [build_keeps]:
  assumes "tools_keep_artifacts env name"
  shows "keeps (same_artifacts env name fs0) (ensure_interpreter env pin arch)"
proof -
  note apart = interpreter_apart[OF assms, of pin arch]
  have here: "\<not> below (interpreter_dir env pin arch @ d) p" if "artifact_path env name p" for d p
    using apart that by blast
  show ?thesis
    unfolding ensure_interpreter_def Let_def
    by (intro op_intros build_keeps keeps_files)
      (use here[of _ "''.partial''"] here[of _ "[]"] in \<open>auto simp: untar_apart map_of_move_tree\<close>)
qed

lemma keeps_reads [build_keeps]:
  assumes "tools_keep_artifacts env name"
  shows "keeps (same_artifacts env name fs0) (component_dir env n)"
    and "keeps (same_artifacts env name fs0) (pyproject env n)"
    and "keeps (same_artifacts env name fs0) (version env n)"
    and "keeps (same_artifacts env name fs0) (tree_hash env n)"
    and "keeps (same_artifacts env name fs0) (refuse_dirty env n)"
    and "keeps (same_artifacts env name fs0) (assert_pinned_venv env v i pin)"
proof -
  show d: "keeps (same_artifacts env name fs0) (component_dir env n)"
    unfolding component_dir_def by (intro op_intros)
  show p: "keeps (same_artifacts env name fs0) (pyproject env n)"
    unfolding pyproject_def by (intro op_intros d)
  show "keeps (same_artifacts env name fs0) (version env n)"
    unfolding version_def by (intro op_intros p) (auto intro!: op_intros split: pyval.split)
  show "keeps (same_artifacts env name fs0) (tree_hash env n)"
    unfolding tree_hash_def split_beta by (intro op_intros build_keeps assms)
  show "keeps (same_artifacts env name fs0) (refuse_dirty env n)"
    unfolding refuse_dirty_def dirty_paths_def split_beta by (intro op_intros build_keeps assms)
  show "keeps (same_artifacts env name fs0) (assert_pinned_venv env v i pin)"
    unfolding assert_pinned_venv_def Let_def by (intro op_intros)
qed

lemma keeps_build_tests [build_keeps]:
  "tools_keep_artifacts env name \<Longrightarrow> keeps (same_artifacts env name fs0) (build_tests env n src i)"
  unfolding build_tests_def Let_def by (intro op_intros build_keeps keeps_rmtree) (auto dest: venv_apart)

lemma url_name_plain: "url_name url = Inr n \<Longrightarrow> CHR ''/'' \<notin> set n"
  by (auto simp: url_name_def path_base_def split: if_splits dest: set_takeWhileD)

lemma below_deeper: "below d (d @ ''/'' @ r)" "below (d @ ''/'' @ e) p \<Longrightarrow> below d p"
  by (auto simp: below_def prefix_def)

lemma keeps_stage_deps:
  "(\<And>p. below deps p \<Longrightarrow> \<not> artifact_path env name p) \<Longrightarrow> keeps (same_artifacts env name fs0) (stage_deps env lock ns deps)"
  unfolding stage_deps_def stage_project_def stage_one_def Let_def
  by (intro op_intros keeps_each build_keeps keeps_fetch keeps_unlink) (auto simp: below_deeper)

lemma copy_tree_apart: "\<not> below dst q \<Longrightarrow> map_of (copy_tree src dst fs) q = map_of fs q"
proof -
  assume q: "\<not> below dst q"
  have "map_of (fold (\<lambda>(p, c). write_file (dst @ drop (length src) p) c) xs gs) q = map_of gs q"
    if "\<forall>x \<in> set xs. below src (fst x)" for xs gs
    using that
  proof (induction xs arbitrary: gs)
    case (Cons x xs)
    then have "q \<noteq> dst @ drop (length src) (fst x)"
      using q by (auto simp: below_def prefix_def)
    with Cons show ?case by (cases x) auto
  qed simp
  then show ?thesis by (simp add: copy_tree_def split_beta)
qed

lemma keeps_build_stage [build_keeps]:
  assumes "tools_keep_artifacts env name"
  shows "keeps (same_artifacts env name fs0) (build_stage env n src (artifact_dir env name ver tree @ ''.partial''))"
proof -
  define stage where "stage = artifact_dir env name ver tree @ ''.partial''"
  have apart: "\<not> artifact_path env name p" if "below stage p" for p
    using that stage_apart by (simp add: stage_def)
  have deep: "\<not> artifact_path env name p" if "below (stage @ ''/'' @ e) p" for p e
    using that apart below_deeper(2) by blast
  have copy: "keeps (same_artifacts env name fs0) (copytree (src @ ''/systemd'') (stage @ ''/systemd''))"
    unfolding copytree_def
    by (intro op_intros keeps_files copy_tree_apart) (use deep[of "''systemd''"] in auto)
  show ?thesis
    unfolding build_stage_def Let_def stage_def[symmetric]
    by (intro op_intros build_keeps keeps_rmtree keeps_stage_deps copy assms)
      (use apart deep[of "''deps''"] in auto)
qed

lemma keeps_build_ready:
  "tools_keep_artifacts env name \<Longrightarrow> keeps (same_artifacts env name fs0) (build_ready env name)"
  unfolding build_ready_def by (intro op_intros build_keeps)

lemma build_commit_returns: "\<exists>a t. build_commit env name ver tree s = (Inr a, t)"
proof -
  obtain rc head u where "git env [''rev-parse'', ''HEAD''] s = (Inr (rc, head), u)"
    by (cases "ce_run env \<lparr>argv = [''git'', ''rev-parse'', ''HEAD''], cwd = Some (ce_repo env), cmd_env = None\<rparr> (cm_files s)")
      (simp add: git_def run_cmd_def)
  then show ?thesis
    by (simp add: build_commit_def Let_def op_bind_def set_current_def op_return_def files_op_def op_modify_def)
qed

lemma build_commit_no_raise: "build_commit env name ver tree s \<noteq> (Inl e, t)"
  using build_commit_returns[of env name ver tree s] by auto

section \<open>What a finished build shows\<close>

lemma path_base_append: "CHR ''/'' \<notin> set n \<Longrightarrow> path_base (d @ ''/'' @ n) = n"
  by (simp add: path_base_def takeWhile_append takeWhile_eq_all_conv)

lemma build_commit_files:
  assumes "build_commit env name ver tree s = (Inr a, t)"
  shows "ar_name a = name \<and> ar_version a = PStr ver \<and> ar_tree a = PStr tree
    \<and> ar_path a = artifact_dir env name ver tree \<and> lookup (ar_build a) ''tests'' = Some (PStr ''passed'')
    \<and> lookup (ar_build a) ''runtime'' = Some (PStr (rt_token (ce_pin env)))
    \<and> load_artifact name (ar_path a) (cm_files t) = Inr (Some a)
    \<and> map_of (cm_files t) (artifacts_dir env name @ ''/CURRENT'') = Some (Text (path_base (ar_path a) @ [CHR 0x0A]))
    \<and> (\<exists>c. cm_ran t = cm_ran s @ [c])"
proof -
  define final where "final = artifact_dir env name ver tree"
  from assms obtain rc head u where u: "git env [''rev-parse'', ''HEAD''] s = (Inr (rc, head), u)"
    and info: "a = \<lparr>ar_name = name, ar_version = PStr ver, ar_tree = PStr tree, ar_path = final,
        ar_build = build_info env name ver tree (if head = [] then [] else py_strip (last head))\<rparr>"
    and t: "t = u\<lparr>cm_files := write_file (artifacts_dir env name @ ''/CURRENT'') (Text (path_base final @ [CHR 0x0A]))
        (move_tree (final @ ''.partial'') final (rmtree final (write_file (final @ ''.partial/BUILD.json'') (Doc (ar_build a)) (cm_files u))))\<rparr>"
    by (auto simp: build_commit_def Let_def op_bind_Inr set_current_def final_def)
  have "\<exists>c. cm_ran u = cm_ran s @ [c]" using u by (auto simp: git_def run_cmd_def split: prod.splits)
  moreover have "\<not> below final (final @ ''.partial/BUILD.json'')" by (simp add: below_def)
  moreover have "final @ ''/BUILD.json'' \<noteq> artifacts_dir env name @ ''/CURRENT''"
    by (auto simp: final_def artifact_dir_def dest!: arg_cong[where f = rev])
  ultimately have "map_of (cm_files t) (final @ ''/BUILD.json'') = Some (Doc (ar_build a))"
    and "\<exists>c. cm_ran t = cm_ran s @ [c]"
    by (simp_all add: t map_of_move_tree)
  with info t show ?thesis
    by (simp add: load_artifact_def is_file_def read_doc_def build_info_def item_def lookup_Dict final_def)
qed

text \<open>A command that was run stays in the record of what was run.\<close>

lemma keeps_ran_basic:
  "keeps (\<lambda>s. x \<in> set (cm_ran s)) (files_op f)" "keeps (\<lambda>s. x \<in> set (cm_ran s)) (run_cmd env c)"
  by (auto simp: keeps_def files_op_def op_modify_def run_cmd_def split: prod.split)

lemma keeps_ran_step: "keeps (\<lambda>s. x \<in> set (cm_ran s)) (step env c m)"
  unfolding step_def split_beta by (intro op_intros keeps_ran_basic)

lemma keeps_ran_stage: "keeps (\<lambda>s. x \<in> set (cm_ran s)) (build_stage env name src stage)"
proof -
  have fetch: "keeps (\<lambda>s. x \<in> set (cm_ran s)) (fetch env url p)" for url p
    unfolding fetch_def by (auto intro!: op_intros keeps_ran_basic split: prod.split option.split)
  have sha: "keeps (\<lambda>s. x \<in> set (cm_ran s)) (sha256_file env p)" for p
    unfolding sha256_file_def by (intro op_intros) (auto intro: op_intros split: option.split)
  show ?thesis
    unfolding build_stage_def stage_deps_def stage_project_def stage_one_def pyproject_def component_dir_def copytree_def Let_def
    by (intro op_intros keeps_each keeps_ran_basic keeps_ran_step fetch sha)
qed

lemma step_ran: "step env c m s = (Inr u, t) \<Longrightarrow> (c, 0) \<in> set (cm_ran t)"
  by (auto simp: step_def op_bind_Inr run_cmd_def split: prod.splits)

lemma assert_pinned_venv_state: "assert_pinned_venv env v i pin s = (Inr u, t) \<Longrightarrow> t = s"
  by (auto simp: assert_pinned_venv_def Let_def op_bind_Inr)

lemma build_tests_ran:
  assumes "build_tests env name src i s = (Inr u, t)"
  shows "(test_command src i (test_venv_dir env name), 0) \<in> set (cm_ran t)
    \<and> assert_pinned_venv env (test_venv_dir env name) i (ce_pin env) t = (Inr (), t)"
proof -
  from assms obtain w v where
      "step env (test_command src i (test_venv_dir env name)) ''tests failed on the pinned runtime'' w = (Inr (), v)"
      and a: "assert_pinned_venv env (test_venv_dir env name) i (ce_pin env) v = (Inr (), t)"
    by (auto simp: build_tests_def Let_def op_bind_Inr)
  with assert_pinned_venv_state[OF a] show ?thesis by (auto dest: step_ran)
qed

lemma ensure_interpreter_path:
  "ensure_interpreter env pin arch s = (Inr i, t) \<Longrightarrow> interpreter_path env pin arch = Inr i"
  by (auto simp: ensure_interpreter_def Let_def op_bind_Inr op_when_eq split: if_splits)

lemma component_dir_Inr:
  "component_dir env name s = (Inr d, t) \<longleftrightarrow>
     name \<in> set (known_components env (cm_files s)) \<and> d = components_dir env @ ''/'' @ name \<and> t = s"
  by (auto simp: component_dir_def op_bind_Inr)

text \<open>The tests behind an artifact: run on the pinned interpreter, with exit code 0.\<close>

definition tested_on :: "CompEnv \<Rightarrow> string \<Rightarrow> string \<Rightarrow> (Command \<times> int) list \<Rightarrow> bool" where
  "tested_on env name i cmds \<longleftrightarrow>
     (test_command (components_dir env @ ''/'' @ name) i (test_venv_dir env name), 0) \<in> set cmds"

lemma build_ready_tested:
  assumes "build_ready env name s = (Inr (ver, tree), t)"
  shows "\<exists>arch i u. fst (dirty_paths env name s) = Inr [] \<and> fst (tree_hash env name u) = Inr tree
    \<and> host_arch (ce_machine env) = Inr arch \<and> interpreter_path env (ce_pin env) arch = Inr i
    \<and> tested_on env name i (cm_ran t)"
proof -
  from assms obtain u1 u2 u3 arch i u4 u5 where
      b: "refuse_dirty env name s = (Inr (), u1)" "tree_hash env name u1 = (Inr tree, u2)"
         "host_arch (ce_machine env) = Inr arch" "ensure_interpreter env (ce_pin env) arch u3 = (Inr i, u4)"
         "build_tests env name (components_dir env @ ''/'' @ name) i u4 = (Inr (), u5)"
         "build_stage env name (components_dir env @ ''/'' @ name) (artifact_dir env name ver tree @ ''.partial'') u5 = (Inr (), t)"
    by (auto simp: build_ready_def op_bind_Inr component_dir_Inr)
  from b(1) have "fst (dirty_paths env name s) = Inr []" by (auto simp: refuse_dirty_def op_bind_Inr)
  moreover from keepsD[OF keeps_ran_stage _ b(6)] build_tests_ran[OF b(5)]
  have "tested_on env name i (cm_ran t)" by (auto simp: tested_on_def)
  ultimately show ?thesis
    using b(2,3) ensure_interpreter_path[OF b(4)] by (metis fst_conv)
qed

lemma py_strip_line:
  assumes "w \<noteq> []" and "\<not> is_space (hd w)" and "\<not> is_space (last w)"
  shows "py_strip (w @ [CHR 0x0A]) = w"
proof -
  have "lstrip_when is_space (w @ [CHR 0x0A]) = w @ [CHR 0x0A]"
    using assms(1,2) by (cases w) (simp_all add: lstrip_when_def)
  moreover have "rstrip_when is_space (w @ [CHR 0x0A]) = rstrip_when is_space w"
    by (rule rstrip_when_append) (simp add: is_space_def)
  ultimately show ?thesis
    using assms(3) by (simp add: py_strip_def strip_when_def rstrip_when_id)
qed

text \<open>An artifact that a build returns was tested: no change of the component was uncommitted, the
  tests ran on the pinned interpreter and exited 0, the artifact is complete on disk under the tree of
  the commit and records that the tests passed on the pinned runtime, and it is the current one.\<close>

theorem built_artifact_tested:
  assumes "build env name s = (Inr a, t)"
  shows "\<exists>ver tree arch i u. fst (dirty_paths env name s) = Inr [] \<and> fst (tree_hash env name u) = Inr tree
    \<and> host_arch (ce_machine env) = Inr arch \<and> interpreter_path env (ce_pin env) arch = Inr i
    \<and> tested_on env name i (cm_ran t)
    \<and> ar_path a = artifact_dir env name ver tree \<and> load_artifact name (ar_path a) (cm_files t) = Inr (Some a)
    \<and> lookup (ar_build a) ''tests'' = Some (PStr ''passed'')
    \<and> lookup (ar_build a) ''runtime'' = Some (PStr (rt_token (ce_pin env)))
    \<and> (CHR ''/'' \<notin> set (ver @ tree) \<and> ver \<noteq> [] \<and> \<not> is_space (hd ver) \<and> (tree = [] \<or> \<not> is_space (last tree))
        \<longrightarrow> current env name (cm_files t) = Inr (Some a))"
proof -
  from assms obtain ver tree v where
      r: "build_ready env name s = (Inr (ver, tree), v)" "build_commit env name ver tree v = (Inr a, t)"
    by (auto simp: build_def op_bind_Inr)
  from build_commit_files[OF r(2)] have c:
      "ar_path a = artifact_dir env name ver tree" "load_artifact name (ar_path a) (cm_files t) = Inr (Some a)"
      "lookup (ar_build a) ''tests'' = Some (PStr ''passed'')"
      "lookup (ar_build a) ''runtime'' = Some (PStr (rt_token (ce_pin env)))"
      "map_of (cm_files t) (artifacts_dir env name @ ''/CURRENT'') = Some (Text (path_base (ar_path a) @ [CHR 0x0A]))"
      "set (cm_ran v) \<subseteq> set (cm_ran t)"
    by auto
  have "current env name (cm_files t) = Inr (Some a)"
    if p: "CHR ''/'' \<notin> set (ver @ tree) \<and> ver \<noteq> [] \<and> \<not> is_space (hd ver) \<and> (tree = [] \<or> \<not> is_space (last tree))"
  proof -
    have base: "path_base (ar_path a) = ver @ ''+'' @ tree"
      using p path_base_append[of "ver @ ''+'' @ tree" "artifacts_dir env name"] by (simp add: c(1) artifact_dir_def)
    have "py_strip (path_base (ar_path a) @ [CHR 0x0A]) = path_base (ar_path a)"
      unfolding base using p by (intro py_strip_line) (auto simp: is_space_def)
    with c(1,2,5) base show ?thesis by (simp add: current_def Let_def is_file_def read_text_def artifact_dir_def)
  qed
  with build_ready_tested[OF r(1)] c show ?thesis unfolding tested_on_def by blast
qed

section \<open>A sample component\<close>

definition sample_pin :: RuntimePin where
  "sample_pin = \<lparr>rt_version = ''3.14.0'', rt_pbs_release = ''2025'', rt_sha256 = [(''x86_64'', ''pin'')]\<rparr>"

definition sample_home :: string where
  "sample_home = ''/h/mqlab/runtime/cpython-3.14.0+2025-x86_64/python/bin''"

text \<open>The tools on the sample: what each of them writes, with the exit code of the tests.\<close>

definition sample_tools :: "int \<Rightarrow> Command \<Rightarrow> files \<Rightarrow> int \<times> string list \<times> files" where
  "sample_tools tests c fs =
     (case argv c of
        [g, sub, what] \<Rightarrow> (0, (if g = ''git'' then [''abc''] else []), fs)
      | [u, v, py, interp, venv] \<Rightarrow>
          if v = ''venv'' then
            (0, [], write_file ''/r/build/work/components/c/venv/pyvenv.cfg''
              (Text (''home = '' @ sample_home @ [CHR 0x0A] @ ''version_info = 3.14'')) fs)
          else (0, [], fs)
      | [u, r, fr, py, interp, pt] \<Rightarrow> (tests, [], fs)
      | [u, ex, fr, ne, fo, rt, nd, al, o', out] \<Rightarrow>
          (0, [], write_file ''/r/build/cache/components/c/1.0+abc.partial/requirements.txt'' (Text ''dep==1'') fs)
      | _ \<Rightarrow> (0, [], fs))"

definition sample_comp_env :: "int \<Rightarrow> CompEnv" where
  "sample_comp_env tests =
     \<lparr>ce_repo = ''/r'', ce_run = sample_tools tests, ce_fetch = (\<lambda>url. (Text ''d'', None)),
      ce_sha = (\<lambda>c. case c of Text t \<Rightarrow> t | Doc v \<Rightarrow> []), ce_untar = (\<lambda>c. []), ce_resolve = id, ce_machine = ''x86_64'',
      ce_cache_home = ''/h'', ce_pin = sample_pin, ce_now = ''now''\<rparr>"

definition sample_lock :: pyval where
  "sample_lock = PDict [(PStr ''package'', PList [PDict [(PStr ''name'', PStr ''Dep''),
     (PStr ''sdist'', PDict [(PStr ''url'', PStr ''u/dep-1.tar.gz''), (PStr ''hash'', PStr ''sha256:d'')])]])]"

definition sample_comp_state :: CompState where
  "sample_comp_state = \<lparr>cm_files =
      [(''/r/components/c/pyproject.toml'', Doc (PDict [(PStr ''project'', PDict [(PStr ''version'', PStr ''1.0'')])])),
       (''/r/components/c/uv.lock'', Doc sample_lock),
       (''/r/build/cache/runtime/cpython-3.14.0+2025-x86_64-unknown-linux-gnu-install_only.tar.gz'', Text ''pin''),
       (sample_home @ ''/python3.14'', Text ''elf''),
       (''/r/build/cache/components/c/CURRENT'', Text ''0.9+old'')],
     cm_ran = []\<rparr>"

lemma sample_builds: "\<not> isl (fst (build (sample_comp_env 0) ''c'' sample_comp_state))"
  by code_simp

theorem built_artifact_tested_witness:
  "\<exists>a t ver tree arch i u. build (sample_comp_env 0) ''c'' sample_comp_state = (Inr a, t)
    \<and> fst (dirty_paths (sample_comp_env 0) ''c'' sample_comp_state) = Inr []
    \<and> fst (tree_hash (sample_comp_env 0) ''c'' u) = Inr tree \<and> host_arch ''x86_64'' = Inr arch
    \<and> interpreter_path (sample_comp_env 0) sample_pin arch = Inr i \<and> tested_on (sample_comp_env 0) ''c'' i (cm_ran t)
    \<and> ar_path a = artifact_dir (sample_comp_env 0) ''c'' ver tree"
proof -
  obtain a t where b: "build (sample_comp_env 0) ''c'' sample_comp_state = (Inr a, t)"
    using sample_builds by (metis isl_def prod.collapse sum.collapse(2) sum.disc(2))
  from built_artifact_tested[OF b] b show ?thesis by (auto simp: sample_comp_env_def)
qed


lemma sample_tools_keep: "tools_keep_artifacts (sample_comp_env tests) ''c''"
proof -
  have stage: "\<not> artifact_path (sample_comp_env tests) ''c'' (''/r/build/cache/components/c/1.0+abc.partial/'' @ r)" for r
    by (rule stage_apart[where ver = "''1.0''" and tree = "''abc''"])
      (simp add: artifact_dir_def artifacts_dir_def cache_dir_def sample_comp_env_def below_def)
  have venv: "\<not> artifact_path (sample_comp_env tests) ''c'' (''/r/build/work/'' @ r)" for r
    by (simp add: artifact_path_def artifacts_dir_def cache_dir_def sample_comp_env_def below_def)
  have "map_of (snd (snd (sample_tools tests c fs))) p = map_of fs p"
    if "artifact_path (sample_comp_env tests) ''c'' p" for c fs p
  proof -
    from that stage[of "''requirements.txt''"] venv[of "''components/c/venv/pyvenv.cfg''"]
    have ne: "p \<noteq> ''/r/build/cache/components/c/1.0+abc.partial/requirements.txt''"
        "p \<noteq> ''/r/build/work/components/c/venv/pyvenv.cfg''"
      by (metis append_Cons append_Nil)+
    show ?thesis unfolding sample_tools_def by (simp add: ne split: list.split)
  qed
  then show ?thesis
    by (auto simp: tools_keep_artifacts_def sample_comp_env_def unpack_root_def artifacts_dir_def cache_dir_def
      below_def prefix_def)
qed

lemma sample_fails: "isl (fst (build (sample_comp_env 1) ''c'' sample_comp_state))"
  by code_simp



lemma sample_stages:
  "fst (stage_deps (sample_comp_env 0) ''/r/components/c/uv.lock'' [''dep''] ''/d'' sample_comp_state) = Inr [''dep-1.tar.gz'']"
  by code_simp


end
