(* ===== verification/Boxes.thy ===== *)
theory Boxes
  imports Platforms Components "HOL-Library.Product_Lexorder"
begin

text \<open>
  The fleet of baked boxes (\<open>mqlab/box.py\<close>): its derivation from the version catalogue, the flags a
  builder is called with, the decision read from a builder's dry run, the build plan with the base
  boxes ahead of the boxes baked on them, and the build itself with its checks; with the exporter
  binary a bake needs (\<open>mqlab/mqexporter.py\<close>) and the environment check (\<open>mqlab/venvsync.py\<close>).

  The operations use the state of the components (files and commands run). The record below adds what
  the module reads: the host, the catalogue and the topology, the fleet, and the process environment.
  Messages to the operator, the transcript and the renderer are left out.
\<close>

section \<open>The fleet\<close>

definition FATBOX_BUILDER :: string where
  "FATBOX_BUILDER = ''lab/boxes/build-fatbox.sh''"

definition RHEL_BASE_BUILDER :: string where
  "RHEL_BASE_BUILDER = ''lab/boxes/rhel/build-box.sh''"

record BoxSpec =
  bx_name :: string
  bx_builder :: string
  bx_arch :: string
  bx_cache_artifact :: string
  bx_has_manifest_hash :: bool
  bx_os :: OsEntry
  bx_role :: "string option"
  bx_bake_stem :: "string option"
  bx_mq_bearing :: bool
  bx_components :: "string list"
  bx_runtime_pin :: string

definition manifest_hash_artifact :: "BoxSpec \<Rightarrow> string" where
  "manifest_hash_artifact spec = bx_name spec @ ''-'' @ bx_arch spec @ ''.manifest-hash''"

definition components_record_artifact :: "BoxSpec \<Rightarrow> string" where
  "components_record_artifact spec = bx_name spec @ ''-'' @ bx_arch spec @ ''.components.json''"

text \<open>\<open>a or b\<close> for an optional text: an empty one counts as missing.\<close>

definition or_text :: "string option \<Rightarrow> string \<Rightarrow> string" where
  "or_text a b = (case a of Some t \<Rightarrow> (if t \<noteq> [] then t else b) | None \<Rightarrow> b)"

definition os_pin :: "OsEntry \<Rightarrow> string" where
  "os_pin entry = oe_base_box entry @ ''@'' @ or_text (oe_point entry) (or_text (oe_base_box_version entry) ''none'')"

definition base_cache_artifact :: "string \<Rightarrow> string" where
  "base_cache_artifact base_box = map (\<lambda>c. if c = CHR ''/'' then CHR ''-'' else c) base_box @ ''.box''"

definition fat_spec :: "BoxEntry \<Rightarrow> HostFacts \<Rightarrow> string \<Rightarrow> BoxSpec" where
  "fat_spec entry facts pin =
     (let arch = box_build_arch (oe_arch_pin (b_os entry)) facts in
      \<lparr>bx_name = b_name entry, bx_builder = FATBOX_BUILDER, bx_arch = arch,
       bx_cache_artifact = b_name entry @ ''-'' @ arch @ ''.box'', bx_has_manifest_hash = True, bx_os = b_os entry,
       bx_role = Some (b_role entry), bx_bake_stem = Some (b_bake_stem entry), bx_mq_bearing = b_mq_bearing entry,
       bx_components = b_components entry, bx_runtime_pin = pin\<rparr>)"

definition base_spec :: "OsEntry \<Rightarrow> HostFacts \<Rightarrow> BoxSpec" where
  "base_spec entry facts =
     \<lparr>bx_name = oe_base_box entry, bx_builder = RHEL_BASE_BUILDER, bx_arch = box_build_arch (oe_arch_pin entry) facts,
      bx_cache_artifact = base_cache_artifact (oe_base_box entry), bx_has_manifest_hash = False, bx_os = entry,
      bx_role = None, bx_bake_stem = None, bx_mq_bearing = False, bx_components = [], bx_runtime_pin = []\<rparr>"

definition build_fleet ::
  "HostFacts \<Rightarrow> Catalog \<Rightarrow> (string \<times> string list) list \<Rightarrow> (py_error, (string \<times> BoxSpec) list) result" where
  "build_fleet facts cat roles =
     (let bases = fold (\<lambda>(ref, entry) fleet.
            if os_family ref = ''rhel'' \<and> host_can_run entry facts
            then AList.update (oe_base_box entry) (base_spec entry facts) fleet else fleet)
          (sort_key (\<lambda>(ref, entry). (os_family ref, os_major ref)) (c_oses cat)) []
      in
      rbind (all_boxes cat (Some facts) roles) (\<lambda>boxes.
      Inr (fold (\<lambda>b. AList.update (b_name b) (fat_spec b facts (rt_token (c_runtime cat)))) boxes bases)))"

text \<open>The boxes a build file needs.\<close>

definition boxes_for_stack ::
  "BuildFile \<Rightarrow> HostFacts \<Rightarrow> Catalog \<Rightarrow> string \<times> string list \<Rightarrow> (py_error, string list) result" where
  "boxes_for_stack bf facts cat sr = (case sr of (stk, roles) \<Rightarrow>
     rbind (cat_stack cat stk) (\<lambda>spec.
     rbind (case bf_os bf of
              None \<Rightarrow> (case map_of (c_oses cat) (s_default spec) of
                 None \<Rightarrow> Inl (KeyErr ''os'') | Some e \<Rightarrow> Inr (host_can_run e facts))
            | Some r \<Rightarrow> Inr (os_family r = os_family (s_default spec))) (\<lambda>covered.
     if \<not> covered then Inr []
     else rbind (stack_os cat stk (Some bf) facts) (\<lambda>ref.
          traverse (\<lambda>role. rbind (cat_box cat role ref) (\<lambda>b. Inr (b_name b))) (sort roles)))))"

definition boxes_for_build ::
  "BuildFile \<Rightarrow> HostFacts \<Rightarrow> Catalog \<Rightarrow> (string \<times> string list) list \<Rightarrow> (py_error, string list) result" where
  "boxes_for_build bf facts cat roles =
     rbind (traverse (\<lambda>role. rbind (shared_box cat role) (\<lambda>b. Inr (b_name b))) SHARED_ROLES) (\<lambda>shared.
     rbind (traverse (boxes_for_stack bf facts cat) roles) (\<lambda>nss.
     Inr (add_all_new (shared @ concat nss) [])))"

section \<open>Environment\<close>

datatype box_error =
    BoxRaised py_error
  | Exit int
  | StepFailed string int
  | CalledProcess int
  | FromComponent comp_error
  | RuntimeErr string
  | PoolAbsent
  | VolumeVanished

type_synonym 'a box_op = "(CompState, box_error, 'a) op"

record BoxEnv =
  be_comp :: CompEnv
  be_facts :: HostFacts
  be_catalog :: Catalog
  be_records :: "string \<Rightarrow> OsRef option"
  be_fleet :: "(string \<times> BoxSpec) list"
  be_topology :: pyval
  be_vagrant_env :: "(string \<times> string) list option"
  be_uv :: "string option"
  be_iso_override :: string \<comment> \<open>\<open>MQLAB_RHEL_ISO\<close> or \<open>RHEL_ISO\<close>\<close>
  be_runtime :: string \<comment> \<open>the container runtime\<close>
  be_mq_version :: string

text \<open>An operation of the component module, its exceptions passed on or turned into an exit code.\<close>

definition as_component :: "'a comp_op \<Rightarrow> 'a box_op" where
  "as_component m = op_catch m (\<lambda>e. op_raise (FromComponent e))"

definition component_or_exit :: "(comp_error \<Rightarrow> bool) \<Rightarrow> 'a comp_op \<Rightarrow> 'a box_op" where
  "component_or_exit caught m = op_catch m (\<lambda>e. op_raise (if caught e then Exit 1 else FromComponent e))"

definition fleet_spec :: "BoxEnv \<Rightarrow> string \<Rightarrow> BoxSpec box_op" where
  "fleet_spec env name = (case map_of (be_fleet env) name of
     None \<Rightarrow> op_raise (BoxRaised (KeyErr name)) | Some spec \<Rightarrow> op_return spec)"

definition repo :: "BoxEnv \<Rightarrow> string" where
  "repo env = ce_repo (be_comp env)"

definition lab_command :: "BoxEnv \<Rightarrow> string list \<Rightarrow> Command" where
  "lab_command env args = \<lparr>argv = args, cwd = Some (repo env @ ''/lab''), cmd_env = be_vagrant_env env\<rparr>"

definition run_box :: "BoxEnv \<Rightarrow> Command \<Rightarrow> (int \<times> string list) box_op" where
  "run_box env c = run_cmd (be_comp env) c"

text \<open>\<open>_capture\<close>: the merged output as one text.\<close>

definition capture :: "BoxEnv \<Rightarrow> Command \<Rightarrow> string box_op" where
  "capture env c = op_bind (run_box env c) (\<lambda>(rc, ls). op_return (str_join [CHR 0x0A] ls))"

section \<open>Builder invocation\<close>

definition bake_size_args :: "BoxEnv \<Rightarrow> BoxSpec \<Rightarrow> string list box_op" where
  "bake_size_args env spec =
     (case bake_size (be_topology env) (case bx_role spec of None \<Rightarrow> ''None'' | Some r \<Rightarrow> r) of
        Inr sz \<Rightarrow> op_return [''--bake-cpus'', int_str (bs_cpus sz), ''--bake-memory'', int_str (bs_memory sz)]
      | Inl (ValueErr m) \<Rightarrow> op_raise (Exit 1)
      | Inl e \<Rightarrow> op_raise (BoxRaised e))"

definition is_component_error :: "comp_error \<Rightarrow> bool" where
  "is_component_error e = (case e of ComponentError _ \<Rightarrow> True | _ \<Rightarrow> False)"

definition component_args :: "BoxEnv \<Rightarrow> BoxSpec \<Rightarrow> string list box_op" where
  "component_args env spec =
     op_bind (op_each (\<lambda>n. op_bind (component_or_exit is_component_error (tree_hash (be_comp env) n))
                (\<lambda>t. op_return (n @ ''@'' @ t))) (bx_components spec)) (\<lambda>baked.
     op_return ([''--runtime-pin'', bx_runtime_pin spec, ''--components'', str_join '','' baked]
       @ (if bx_components spec \<noteq> [] then [''--install-vars'', install_vars_path (be_comp env)] else [])))"

definition builder_args :: "BoxEnv \<Rightarrow> BoxSpec \<Rightarrow> string list box_op" where
  "builder_args env spec =
     (let entry = bx_os spec;
          virt = (case box_build_domain_virt (bx_arch spec) (be_facts env) of (domain_type, cpu_mode) \<Rightarrow>
                    [''--domain-type'', domain_type, ''--cpu-mode'', cpu_mode])
      in
      if bx_role spec = None then
        (case (oe_point entry, oe_iso entry) of
           (Some point, Some media) \<Rightarrow>
             op_return ([''--major'', int_str (os_major (oe_ref entry)), ''--point'', point, ''--iso'', media] @ virt)
         | _ \<Rightarrow> op_raise (BoxRaised (ValueErr ''needs point and iso'')))
      else
        op_bind (bake_size_args env spec) (\<lambda>size_args.
        op_bind (component_args env spec) (\<lambda>comp_args.
        op_return ([''--box'', bx_name spec, ''--arch'', bx_arch spec, ''--base-kind'', os_family (oe_ref entry),
            ''--base-box'', oe_base_box entry, ''--base-box-version'', or_text (oe_base_box_version entry) ''none'',
            ''--bake'', (case bx_bake_stem spec of None \<Rightarrow> ''None'' | Some b \<Rightarrow> b), ''--dvd'', or_text (oe_iso entry) ''none'',
            ''--os-pin'', os_pin entry, ''--mq-bearing'', (if bx_mq_bearing spec then ''1'' else ''0'')]
          @ virt @ size_args @ comp_args))))"

definition builder_argv :: "BoxEnv \<Rightarrow> BoxSpec \<Rightarrow> string list box_op" where
  "builder_argv env spec = op_bind (builder_args env spec) (\<lambda>args.
     op_return (''bash'' # (repo env @ ''/'' @ bx_builder spec) # args))"

text \<open>The refusal of a box pinned to another architecture, and the steps of a plan.\<close>

definition native_or_refuse :: "BoxEnv \<Rightarrow> BoxSpec \<Rightarrow> unit box_op" where
  "native_or_refuse env spec =
     op_guard (\<not> (oe_arch_pin (bx_os spec) \<noteq> None \<and> oe_arch_pin (bx_os spec) \<noteq> Some (hf_arch (be_facts env))))
       (StepFailed ''emulated cross-arch box builds are disabled'' 2)"

definition box_step :: "string \<Rightarrow> string list \<Rightarrow> CommandStep" where
  "box_step name args =
     \<lparr>cs_label = ''box '' @ name, cs_command = \<lparr>argv = args, cwd = None, cmd_env = None\<rparr>, cs_retry = None, cs_phase = []\<rparr>"

definition build_step :: "BoxEnv \<Rightarrow> string \<times> bool \<Rightarrow> CommandStep box_op" where
  "build_step env nf = (case nf of (name, force) \<Rightarrow>
     op_bind (fleet_spec env name) (\<lambda>spec.
     op_bind (native_or_refuse env spec) (\<lambda>_.
     op_bind (builder_argv env spec) (\<lambda>args.
     op_return (box_step name (args @ (if force then [''--rebuild-box''] else [])))))))"

definition build_steps :: "BoxEnv \<Rightarrow> (string \<times> bool) list \<Rightarrow> CommandStep list box_op" where
  "build_steps env plan = op_each (build_step env) plan"

section \<open>Decisions\<close>

definition boxes_cache_dir :: "BoxEnv \<Rightarrow> string" where
  "boxes_cache_dir env = repo env @ ''/build/state/boxes''"

definition cache_present :: "BoxEnv \<Rightarrow> BoxSpec \<Rightarrow> bool box_op" where
  "cache_present env spec =
     op_get (\<lambda>s. is_file (cm_files s) (boxes_cache_dir env @ ''/'' @ bx_cache_artifact spec))"

definition run_builder_dry_run :: "BoxEnv \<Rightarrow> BoxSpec \<Rightarrow> string box_op" where
  "run_builder_dry_run env spec =
     op_bind (builder_argv env spec) (\<lambda>args. capture env (lab_command env (args @ [''--dry-run''])))"

text \<open>\<open>vagrant box list\<close>, as name and trailing information.\<close>

definition parse_box_list :: "string \<Rightarrow> (string \<times> string) list" where
  "parse_box_list t = fold (\<lambda>raw out.
       let line = py_strip raw in
       if line = [] \<or> prefix ''there are no'' (py_lower line) then out
       else (case split_once CHR '' '' line of (name, rest) \<Rightarrow>
               AList.update name (py_strip (case rest of None \<Rightarrow> [] | Some r \<Rightarrow> r)) out))
     (splitlines t) []"

definition registered_boxes :: "BoxEnv \<Rightarrow> (string \<times> string) list box_op" where
  "registered_boxes env =
     op_bind (capture env (lab_command env [''vagrant'', ''box'', ''list''])) (\<lambda>t. op_return (parse_box_list t))"

record BoxDecision =
  bd_name :: string
  bd_cached :: bool
  bd_age_days :: "int option"
  bd_hash_match :: "bool option"
  bd_registered :: bool
  bd_action :: string

definition ACTIONS :: "string list" where
  "ACTIONS = [''FORCE-BUILD'', ''STALE'', ''BUILD'', ''REUSE'']"

definition parse_action :: "string \<Rightarrow> (py_error, string) result" where
  "parse_action t = (case find (\<lambda>token. sublist token t) ACTIONS of
     None \<Rightarrow> Inl (ValueErr ''could not parse a build decision'') | Some a \<Rightarrow> Inr a)"

text \<open>The first match of \<open>(\d+)d\b\<close>.\<close>

definition word_char :: "char \<Rightarrow> bool" where
  "word_char c \<longleftrightarrow> alnum c \<or> c = CHR ''_''"

fun age_digits :: "string \<Rightarrow> string option" where
  "age_digits [] = None"
| "age_digits (c # s) =
     (let ds = takeWhile is_digit (c # s); rest = drop (length ds) (c # s) in
      if ds \<noteq> [] \<and> prefix ''d'' rest \<and> (case drop 1 rest of [] \<Rightarrow> True | x # _ \<Rightarrow> \<not> word_char x)
      then Some ds else age_digits s)"

definition parse_age_days :: "string \<Rightarrow> (py_error, int option) result" where
  "parse_age_days t = (case age_digits t of None \<Rightarrow> Inr None
     | Some ds \<Rightarrow> rbind (to_int (PStr ds)) (\<lambda>n. Inr (Some n)))"

definition derive_hash_match :: "BoxSpec \<Rightarrow> string \<Rightarrow> bool \<Rightarrow> bool option" where
  "derive_hash_match spec action cached =
     (if \<not> bx_has_manifest_hash spec then None
      else if action \<in> {''REUSE'', ''STALE''} then Some True
      else if action = ''BUILD'' then (if cached then Some False else None)
      else None)"

definition box_decision :: "BoxEnv \<Rightarrow> string \<Rightarrow> BoxDecision box_op" where
  "box_decision env name =
     op_bind (fleet_spec env name) (\<lambda>spec.
     op_bind (run_builder_dry_run env spec) (\<lambda>t.
     op_bind (op_lift BoxRaised (parse_action t)) (\<lambda>action.
     op_bind (cache_present env spec) (\<lambda>cached.
     op_bind (op_lift BoxRaised (parse_age_days t)) (\<lambda>age.
     op_bind (registered_boxes env) (\<lambda>registered.
     op_return \<lparr>bd_name = name, bd_cached = cached, bd_age_days = age,
       bd_hash_match = derive_hash_match spec action cached,
       bd_registered = (map_of registered name \<noteq> None), bd_action = action\<rparr>))))))"

subsection \<open>The status table\<close>

definition fmt_hash :: "BoxSpec \<Rightarrow> bool option \<Rightarrow> string" where
  "fmt_hash spec m =
     (if \<not> bx_has_manifest_hash spec then ''N/A''
      else case m of None \<Rightarrow> ''-'' | Some b \<Rightarrow> (if b then ''match'' else ''mismatch''))"

definition ljust :: "nat \<Rightarrow> string \<Rightarrow> string" where
  "ljust n t = t @ replicate (n - length t) CHR '' ''"

definition baked_text :: "pyval \<Rightarrow> (py_error, string) result" where
  "baked_text doc =
     rbind (item doc ''components'') (\<lambda>cs.
     rbind (dict_items cs) (\<lambda>kvs.
     rbind (traverse (\<lambda>(k, v). rbind (to_str k) (\<lambda>c. rbind (to_str v) (\<lambda>t. Inr (c, take 12 t)))) kvs) (\<lambda>cts.
     rbind (item doc ''runtime'') (\<lambda>rt.
     rbind (to_str rt) (\<lambda>r.
     Inr (str_join '','' (map (\<lambda>(c, t). c @ ''@'' @ t) (sort_key fst cts)) @ '' ('' @ r @ '')''))))))"

definition baked_components :: "BoxEnv \<Rightarrow> string \<Rightarrow> string box_op" where
  "baked_components env name =
     op_bind (fleet_spec env name) (\<lambda>spec.
     let path = boxes_cache_dir env @ ''/'' @ components_record_artifact spec in
     op_bind (op_get cm_files) (\<lambda>fs.
     if \<not> bx_has_manifest_hash spec \<or> \<not> is_file fs path then op_return ''-''
     else (case rbind (read_doc fs path) baked_text of
             Inr t \<Rightarrow> op_return t
           | Inl (Unmodelled m) \<Rightarrow> op_raise (BoxRaised (Unmodelled m))
           | Inl e \<Rightarrow> op_raise (BoxRaised (ValueErr ''is not a components record'')))))"

definition fmt_row :: "BoxEnv \<Rightarrow> BoxDecision \<Rightarrow> string box_op" where
  "fmt_row env d =
     op_bind (fleet_spec env (bd_name d)) (\<lambda>spec.
     op_bind (baked_components env (bd_name d)) (\<lambda>baked.
     op_return (str_join '' ''
       [ljust 22 (bd_name d), ljust 8 (bx_arch spec), ljust 7 (if bd_cached d then ''yes'' else ''no''),
        ljust 6 (case bd_age_days d of None \<Rightarrow> ''-'' | Some n \<Rightarrow> int_str n @ ''d''),
        ljust 9 (fmt_hash spec (bd_hash_match d)), ljust 11 (if bd_registered d then ''yes'' else ''no''),
        ljust 12 (bd_action d), baked])))"

definition render_status :: "BoxEnv \<Rightarrow> string list \<Rightarrow> string box_op" where
  "render_status env names =
     op_bind (op_each (\<lambda>n. op_bind (box_decision env n) (fmt_row env)) names) (\<lambda>rows.
     op_return (str_join [CHR 0x0A]
       (str_join '' '' [ljust 22 ''BOX'', ljust 8 ''ARCH'', ljust 7 ''CACHED'', ljust 6 ''AGE'', ljust 9 ''HASH'',
          ljust 11 ''REGISTERED'', ljust 12 ''DECISION'', ''COMPONENTS''] # rows)))"

section \<open>The build\<close>

text \<open>\<open>force or box_decision(name).action != "REUSE"\<close>: whether a box is about to be baked.\<close>

definition bakes :: "BoxEnv \<Rightarrow> bool \<Rightarrow> string \<Rightarrow> bool box_op" where
  "bakes env force name =
     (if force then op_return True else op_bind (box_decision env name) (\<lambda>d. op_return (bd_action d \<noteq> ''REUSE'')))"

definition base_dep :: "BoxEnv \<Rightarrow> bool \<Rightarrow> string \<Rightarrow> string list box_op" where
  "base_dep env force n =
     op_bind (fleet_spec env n) (\<lambda>spec.
     if bx_role spec \<noteq> None \<and> map_of (be_fleet env) (oe_base_box (bx_os spec)) \<noteq> None
     then op_bind (bakes env force n) (\<lambda>b. op_return (if b then [oe_base_box (bx_os spec)] else []))
     else op_return [])"

definition build_plan :: "BoxEnv \<Rightarrow> string list \<Rightarrow> bool \<Rightarrow> (string \<times> bool) list box_op" where
  "build_plan env names force =
     op_bind (op_each (base_dep env force) (add_all_new names [])) (\<lambda>deps.
     op_return (map (\<lambda>base. (base, False)) (filter (\<lambda>base. base \<notin> set names) (add_all_new (concat deps) []))
       @ map (\<lambda>n. (n, force)) (add_all_new names [])))"

definition component_caught :: "comp_error \<Rightarrow> bool" where
  "component_caught e = (case e of ComponentError _ \<Rightarrow> True | RuntimePinError _ \<Rightarrow> True | Raised (ValueErr _) \<Rightarrow> True | _ \<Rightarrow> False)"

definition planned_components :: "BoxEnv \<Rightarrow> string \<times> bool \<Rightarrow> string list box_op" where
  "planned_components env nf = (case nf of (name, force) \<Rightarrow>
     op_bind (fleet_spec env name) (\<lambda>spec.
     if bx_components spec = [] then op_return []
     else op_bind (bakes env force name) (\<lambda>b. op_return (if b then bx_components spec else []))))"

definition ensure_component_artifacts :: "BoxEnv \<Rightarrow> (string \<times> bool) list \<Rightarrow> unit box_op" where
  "ensure_component_artifacts env plan =
     op_bind (op_each (planned_components env) plan) (\<lambda>nss.
     let names = add_all_new (concat nss) [] in
     op_when (names \<noteq> [])
       (op_bind (op_each (\<lambda>n. component_or_exit component_caught (ensure_built (be_comp env) n)) names) (\<lambda>artifacts.
        op_bind (component_or_exit component_caught
          (install_vars (be_comp env) artifacts (Some (hf_arch (be_facts env))))) (\<lambda>_. op_return ()))))"

text \<open>The RHEL installation medium. No release has a pinned checksum.\<close>

definition RHEL_DVD_SHA256 :: "(string \<times> string) list" where
  "RHEL_DVD_SHA256 = []"

definition rhel_dvd_path :: "BoxEnv \<Rightarrow> string \<Rightarrow> string" where
  "rhel_dvd_path env name =
     (if be_iso_override env \<noteq> [] then be_iso_override env else repo env @ ''/build/state/'' @ name)"

definition verify_rhel_dvd :: "(string \<times> string) list \<Rightarrow> BoxEnv \<Rightarrow> OsEntry \<Rightarrow> unit box_op" where
  "verify_rhel_dvd pins env entry =
     (case (oe_point entry, oe_iso entry) of
        (Some release, Some media) \<Rightarrow>
          op_bind (op_get (\<lambda>s. map_of (cm_files s) (rhel_dvd_path env media))) (\<lambda>found.
          case found of
            None \<Rightarrow> op_raise (Exit 2)
          | Some c \<Rightarrow>
              (case or_text (map_of pins release) [] of
                 [] \<Rightarrow> op_return ()
               | pinned \<Rightarrow> op_guard (ce_sha (be_comp env) c = pinned) (Exit 2)))
      | _ \<Rightarrow> op_raise (BoxRaised (ValueErr ''needs point and iso to verify its DVD'')))"

definition rhel_base_needs_dvd :: "BoxEnv \<Rightarrow> string \<Rightarrow> bool \<Rightarrow> bool box_op" where
  "rhel_base_needs_dvd env name force =
     op_bind (fleet_spec env name) (\<lambda>spec. if bx_role spec \<noteq> None then op_return False else bakes env force name)"

definition check_dvd :: "BoxEnv \<Rightarrow> string \<times> bool \<Rightarrow> unit box_op" where
  "check_dvd env nf = (case nf of (name, force) \<Rightarrow>
     op_bind (rhel_base_needs_dvd env name force) (\<lambda>needed.
     op_when needed (op_bind (fleet_spec env name) (\<lambda>spec. verify_rhel_dvd RHEL_DVD_SHA256 env (bx_os spec)))))"

text \<open>\<open>venvsync.ensure_venv_current\<close>.\<close>

definition ensure_venv_current :: "BoxEnv \<Rightarrow> unit box_op" where
  "ensure_venv_current env =
     (case be_uv env of
        None \<Rightarrow> op_return ()
      | Some uv \<Rightarrow> op_bind (run_box env \<lparr>argv = [uv, ''sync''], cwd = Some (repo env), cmd_env = None\<rparr>)
          (\<lambda>(rc, out). op_guard (rc = 0) (Exit rc)))"

text \<open>The exporter binary.\<close>

definition EXPORTER_ROLES :: "string list" where
  "EXPORTER_ROLES = [''mq-client'']"

definition needs_exporter_binary :: "string option list \<Rightarrow> bool" where
  "needs_exporter_binary roles \<longleftrightarrow> list_ex (\<lambda>r. case r of None \<Rightarrow> False | Some x \<Rightarrow> List.member EXPORTER_ROLES x) roles"

definition target_arch :: "string \<Rightarrow> string" where
  "target_arch machine = (if py_lower machine \<in> {''aarch64'', ''arm64''} then ''arm64'' else ''x64'')"

definition binary_name :: "string \<Rightarrow> string" where
  "binary_name arch = ''mq_prometheus-'' @ arch"

definition exporter_binary_path :: "BoxEnv \<Rightarrow> string \<Rightarrow> string" where
  "exporter_binary_path env mq_version =
     cache_dir (be_comp env) @ ''/mq-exporter/'' @ mq_version @ ''/'' @ binary_name (target_arch (ce_machine (be_comp env)))"

definition container_command :: "BoxEnv \<Rightarrow> string \<Rightarrow> string \<Rightarrow> Command" where
  "container_command env out_dir mq_version =
     (let arch = target_arch (ce_machine (be_comp env)) in
      \<lparr>argv = [be_runtime env, ''run'', ''--rm'', ''--platform='' @ (if arch = ''x64'' then ''linux/amd64'' else ''linux/arm64''),
         ''-v'', cache_dir (be_comp env) @ '':/cache'', ''-v'', out_dir @ '':/out'',
         ''-v'', repo env @ ''/lab/scripts/build-mq-exporter-binary.sh:/build.sh:ro'',
         ''-e'', ''MQ_EXPORTER_REF=v6.0.0'', ''-e'', ''TARGET_ARCH='' @ arch, ''-e'', ''MQ_VERSION='' @ mq_version,
         ''ghcr.io/vergil-project/dev-go:1.25'', ''bash'', ''/build.sh''], cwd = None, cmd_env = None\<rparr>)"

definition ensure_mq_exporter_binary :: "BoxEnv \<Rightarrow> string \<Rightarrow> string box_op" where
  "ensure_mq_exporter_binary env mq_version =
     (let binary = exporter_binary_path env mq_version in
      op_bind (op_get (\<lambda>s. is_file (cm_files s) binary)) (\<lambda>there.
      if there then op_return binary
      else op_bind (run_box env (container_command env (path_parent binary) mq_version)) (\<lambda>(rc, out).
           op_bind (op_guard (rc = 0) (CalledProcess rc)) (\<lambda>_. op_return binary))))"

text \<open>\<open>platforms.ensure_resolved\<close>: its checks; the rendered file is left out.\<close>

definition ensure_resolved :: "BoxEnv \<Rightarrow> unit box_op" where
  "ensure_resolved env = op_lift BoxRaised
     (rbind (require_native_kvm (be_facts env)) (\<lambda>_.
      rbind (node_boxes (be_records env) (be_topology env) (be_catalog env)) (\<lambda>boxes.
      rbind (resolve (be_topology env) (be_facts env) boxes) (\<lambda>_. Inr ()))))"

text \<open>The run loop over builder steps, which have no retry: a failing builder ends it with its code.\<close>

definition run_builder :: "BoxEnv \<Rightarrow> CommandStep \<Rightarrow> unit box_op" where
  "run_builder env st = op_bind (run_box env (cs_command st)) (\<lambda>(rc, out). op_guard (rc = 0) (Exit rc))"

text \<open>Everything ahead of the first builder, and the build; the reclaiming of images that follows it is an
  argument.\<close>

definition prepare_build :: "BoxEnv \<Rightarrow> string list \<Rightarrow> bool \<Rightarrow> CommandStep list box_op" where
  "prepare_build env names force =
     op_bind (ensure_venv_current env) (\<lambda>_.
     op_bind (ensure_resolved env) (\<lambda>_.
     op_bind (build_plan env names force) (\<lambda>plan.
     op_bind (op_each (\<lambda>(n, f). fleet_spec env n) plan) (\<lambda>specs.
     op_bind (op_when (needs_exporter_binary (map bx_role specs))
        (op_bind (ensure_mq_exporter_binary env (be_mq_version env)) (\<lambda>_. op_return ()))) (\<lambda>_.
     op_bind (op_each (check_dvd env) plan) (\<lambda>_.
     op_bind (build_steps env plan) (\<lambda>steps.
     op_bind (ensure_component_artifacts env plan) (\<lambda>_.
     op_return steps))))))))"

definition build_boxes :: "unit box_op \<Rightarrow> BoxEnv \<Rightarrow> string list \<Rightarrow> bool \<Rightarrow> unit box_op" where
  "build_boxes reclaim env names force =
     op_bind (prepare_build env names force) (\<lambda>steps.
     op_bind (op_each (run_builder env) steps) (\<lambda>_. reclaim))"

section \<open>Selection\<close>

text \<open>\<open>cli._select_boxes\<close> of the mutating verbs.\<close>

definition select_boxes :: "BoxEnv \<Rightarrow> string list \<Rightarrow> bool \<Rightarrow> string list box_op" where
  "select_boxes env names every =
     (if every then op_return (map fst (be_fleet env))
      else op_bind (op_guard (names \<noteq> []) (Exit 2)) (\<lambda>_.
           op_bind (op_guard (list_all (\<lambda>n. map_of (be_fleet env) n \<noteq> None) names) (Exit 2)) (\<lambda>_.
           op_return names)))"

section \<open>Plan and run\<close>

lemma op_each_Inr:
  "op_each f xs s = (Inr ys, t) \<Longrightarrow> list_all2 (\<lambda>x y. \<exists>u v. f x u = (Inr y, v)) xs ys"
  by (induction xs arbitrary: s ys) (auto simp: op_bind_Inr)

lemma fleet_spec_Inr [simp]:
  "fleet_spec env n s = (Inr spec, t) \<longleftrightarrow> map_of (be_fleet env) n = Some spec \<and> t = s"
  by (auto simp: fleet_spec_def split: option.splits)

text \<open>\<open>base_of env n b\<close>: the box \<open>n\<close> of the fleet is baked on the box \<open>b\<close> of the fleet.\<close>

definition base_of :: "BoxEnv \<Rightarrow> string \<Rightarrow> string \<Rightarrow> bool" where
  "base_of env n b \<longleftrightarrow> (\<exists>spec. map_of (be_fleet env) n = Some spec \<and> bx_role spec \<noteq> None
     \<and> oe_base_box (bx_os spec) = b \<and> map_of (be_fleet env) b \<noteq> None)"

lemma base_dep_sound: "base_dep env force n u = (Inr bs, v) \<Longrightarrow> b \<in> set bs \<Longrightarrow> base_of env n b"
  by (auto simp: base_dep_def base_of_def op_bind_Inr split: if_splits)

lemma base_dep_forced: "force \<Longrightarrow> base_dep env force n u = (Inr bs, v) \<Longrightarrow> base_of env n b \<Longrightarrow> b \<in> set bs"
  by (auto simp: base_dep_def base_of_def op_bind_Inr bakes_def split: if_splits)

lemma build_plan_shape:
  assumes "build_plan env names force s = (Inr plan, t)"
  shows "\<exists>bases. plan = map (\<lambda>b. (b, False)) bases @ map (\<lambda>n. (n, force)) (add_all_new names [])
    \<and> distinct bases \<and> set bases \<inter> set names = {} \<and> (\<forall>b \<in> set bases. \<exists>n \<in> set names. base_of env n b)
    \<and> (force \<longrightarrow> (\<forall>n \<in> set names. \<forall>b. base_of env n b \<and> b \<notin> set names \<longrightarrow> b \<in> set bases))"
proof -
  from assms obtain deps where
      d: "op_each (base_dep env force) (add_all_new names []) s = (Inr deps, t)"
      and plan: "plan = map (\<lambda>b. (b, False)) (filter (\<lambda>b. b \<notin> set names) (add_all_new (concat deps) []))
        @ map (\<lambda>n. (n, force)) (add_all_new names [])"
    by (auto simp: build_plan_def op_bind_Inr)
  from op_each_Inr[OF d] have ex: "list_all2 (\<lambda>n bs. \<exists>u v. base_dep env force n u = (Inr bs, v)) (add_all_new names []) deps" .
  have "\<exists>n \<in> set names. base_of env n b" if "b \<in> set (concat deps)" for b
  proof -
    from that obtain k where k: "k < length deps" "b \<in> set (deps ! k)" by (metis UN_E in_set_conv_nth set_concat)
    with ex obtain u v where "base_dep env force (add_all_new names [] ! k) u = (Inr (deps ! k), v)"
      by (auto simp: list_all2_conv_all_nth)
    moreover have "add_all_new names [] ! k \<in> set (add_all_new names [])"
      by (rule nth_mem) (simp add: list_all2_lengthD[OF ex] k(1))
    ultimately show ?thesis using k(2) base_dep_sound by fastforce
  qed
  moreover have "b \<in> set (concat deps)" if "force" "n \<in> set names" "base_of env n b" for n b
  proof -
    from that(2) have "n \<in> set (add_all_new names [])" by simp
    then obtain k where k: "k < length (add_all_new names [])" "n = add_all_new names [] ! k"
      by (metis in_set_conv_nth)
    from list_all2_nthD[OF ex k(1)] k(2) obtain u v where dep: "base_dep env force n u = (Inr (deps ! k), v)"
      by auto
    have "deps ! k \<in> set deps" by (rule nth_mem) (use k(1) list_all2_lengthD[OF ex] in simp)
    with base_dep_forced[OF that(1) dep that(3)] show ?thesis by auto
  qed
  ultimately show ?thesis
    by (intro exI[of _ "filter (\<lambda>b. b \<notin> set names) (add_all_new (concat deps) [])"]) (auto simp: plan)
qed

lemma run_builders_ran:
  assumes "op_each (run_builder env) steps u = (Inr rs, t)"
  shows "cm_ran t = cm_ran u @ map (\<lambda>st. (cs_command st, 0)) steps"
  using assms
  by (induction steps arbitrary: u rs) (auto simp: op_bind_Inr run_builder_def run_box_def run_cmd_def split: prod.splits)

lemma run_builders_stop:
  assumes "op_each (run_builder env) steps u = (Inl e, t)"
  shows "\<exists>k rc. k < length steps \<and> rc \<noteq> 0 \<and> e = Exit rc
    \<and> cm_ran t = cm_ran u @ map (\<lambda>st. (cs_command st, 0)) (take k steps) @ [(cs_command (steps ! k), rc)]"
  using assms
proof (induction steps arbitrary: u)
  case (Cons st steps)
  obtain rc out fs where run: "ce_run (be_comp env) (cs_command st) (cm_files u) = (rc, out, fs)"
    by (metis prod_cases3)
  define v where "v = \<lparr>cm_files = fs, cm_ran = cm_ran u @ [(cs_command st, rc)]\<rparr>"
  have one: "run_builder env st u = (if rc = 0 then Inr () else Inl (Exit rc), v)"
    using run by (simp add: run_builder_def run_box_def run_cmd_def op_bind_def op_guard_def op_return_def op_raise_def v_def)
  show ?case
  proof (cases "rc = 0")
    case True
    with one Cons.prems have "op_each (run_builder env) steps v = (Inl e, t)" by (auto simp: op_bind_Inl)
    from Cons.IH[OF this] True obtain k rc' where "k < length steps" "rc' \<noteq> 0" "e = Exit rc'"
        "cm_ran t = cm_ran u @ (cs_command st, 0) # map (\<lambda>st. (cs_command st, 0)) (take k steps) @ [(cs_command (steps ! k), rc')]"
      by (auto simp: v_def)
    then show ?thesis by (intro exI[of _ "Suc k"] exI[of _ rc']) simp
  next
    case False
    with one Cons.prems show ?thesis by (intro exI[of _ 0] exI[of _ rc]) (auto simp: op_bind_Inl op_bind_Inr v_def)
  qed
qed simp

text \<open>A step of the plan: it calls the box's own builder, is native to the host, and carries the
  overwrite flag exactly when it is forced.\<close>

definition step_of :: "BoxEnv \<Rightarrow> string \<times> bool \<Rightarrow> CommandStep \<Rightarrow> bool" where
  "step_of env nf st = (case nf of (n, force) \<Rightarrow> (\<exists>spec args. map_of (be_fleet env) n = Some spec
     \<and> (\<forall>a. oe_arch_pin (bx_os spec) = Some a \<longrightarrow> a = hf_arch (be_facts env))
     \<and> st = box_step n (''bash'' # (repo env @ ''/'' @ bx_builder spec) # args @ (if force then [''--rebuild-box''] else []))))"

lemma build_step_of: "build_step env nf s = (Inr st, t) \<Longrightarrow> step_of env nf st"
  by (cases nf) (auto simp: build_step_def step_of_def op_bind_Inr native_or_refuse_def builder_argv_def)

lemma build_steps_of: "build_steps env plan s = (Inr steps, t) \<Longrightarrow> list_all2 (step_of env) plan steps"
  unfolding build_steps_def
  by (drule op_each_Inr) (auto elim!: list_all2_mono dest: build_step_of)

lemma prepare_build_shape:
  assumes "prepare_build env names force s = (Inr steps, u)"
  shows "\<exists>v w plan. build_plan env names force v = (Inr plan, w) \<and> list_all2 (step_of env) plan steps"
  using assms by (auto simp: prepare_build_def op_bind_Inr dest!: build_steps_of)

text \<open>A build of boxes that ends well ran one builder for every named box, in the order given and
  without repetition, after the base boxes it pulled in; those are bases of named boxes, are not
  forced, and with a forced build none is missing. Every builder ran on its own architecture and
  exited 0.\<close>

theorem build_boxes_exact:
  assumes "build_boxes (op_return ()) env names force s = (Inr (), t)"
  shows "\<exists>bases steps before. cm_ran t = before @ map (\<lambda>st. (cs_command st, 0)) steps
    \<and> list_all2 (step_of env) (map (\<lambda>b. (b, False)) bases @ map (\<lambda>n. (n, force)) (add_all_new names [])) steps
    \<and> distinct bases \<and> set bases \<inter> set names = {} \<and> (\<forall>b \<in> set bases. \<exists>n \<in> set names. base_of env n b)
    \<and> (force \<longrightarrow> (\<forall>n \<in> set names. \<forall>b. base_of env n b \<and> b \<notin> set names \<longrightarrow> b \<in> set bases))"
proof -
  from assms obtain steps u rs where
      p: "prepare_build env names force s = (Inr steps, u)" and r: "op_each (run_builder env) steps u = (Inr rs, t)"
    by (auto simp: build_boxes_def op_bind_Inr)
  from prepare_build_shape[OF p] obtain v w plan where
      "build_plan env names force v = (Inr plan, w)" and st: "list_all2 (step_of env) plan steps" by blast
  from build_plan_shape[OF this(1)] obtain bases where
      b: "plan = map (\<lambda>b. (b, False)) bases @ map (\<lambda>n. (n, force)) (add_all_new names [])" "distinct bases"
      "set bases \<inter> set names = {}" "\<forall>b \<in> set bases. \<exists>n \<in> set names. base_of env n b"
      "force \<longrightarrow> (\<forall>n \<in> set names. \<forall>b. base_of env n b \<and> b \<notin> set names \<longrightarrow> b \<in> set bases)" by blast
  from st have "list_all2 (step_of env) (map (\<lambda>b. (b, False)) bases @ map (\<lambda>n. (n, force)) (add_all_new names [])) steps"
    unfolding b(1) .
  with run_builders_ran[OF r] b(2-5) show ?thesis
    by (intro exI[of _ bases] exI[of _ steps] exI[of _ "cm_ran u"] conjI)
qed

text \<open>A failing builder ends the build with its exit code, and no later builder runs; a failed check ends
  it before any builder.\<close>

lemma build_boxes_fails_loud:
  assumes "build_boxes reclaim env names force s = (Inl e, t)" and "\<And>v. \<not> isl (fst (reclaim v))"
  shows "prepare_build env names force s = (Inl e, t)
    \<or> (\<exists>steps u k rc. prepare_build env names force s = (Inr steps, u) \<and> k < length steps \<and> rc \<noteq> 0 \<and> e = Exit rc
        \<and> cm_ran t = cm_ran u @ map (\<lambda>st. (cs_command st, 0)) (take k steps) @ [(cs_command (steps ! k), rc)])"
proof -
  have "reclaim v \<noteq> (Inl e, t)" for v using assms(2)[of v] by auto
  with assms(1) show ?thesis
    by (auto simp: build_boxes_def op_bind_Inl dest!: run_builders_stop)
qed

text \<open>When a box and its base are both named, the order given is the order built: the base is not moved
  ahead of the box baked on it.\<close>

lemma named_base_not_moved:
  assumes "base_of env n b" and "map_of (be_fleet env) b = Some spec" and "bx_role spec = None" and "n \<noteq> b"
  shows "fst (build_plan env [n, b] True s) = Inr [(n, True), (b, True)]"
  using assms
  by (auto simp: build_plan_def op_bind_def base_dep_def base_of_def fleet_spec_def bakes_def op_return_def
    add_all_new_def add_new_def)

section \<open>The fleet covers every build file\<close>

lemma foldr_res_grows:
  assumes "foldr_res f xs s = Inr t"
    and "\<And>x s t. x \<in> set xs \<Longrightarrow> f x s = Inr t \<Longrightarrow> K s \<subseteq> K t \<and> G x \<subseteq> K t"
  shows "K s \<subseteq> K t \<and> (\<forall>x \<in> set xs. G x \<subseteq> K t)"
  using assms
proof (induction xs arbitrary: s)
  case (Cons x xs)
  from Cons.prems(1) obtain u where u: "f x s = Inr u" "foldr_res f xs u = Inr t" by (auto simp: rbind_eq_Inr)
  have "K u \<subseteq> K t \<and> (\<forall>x \<in> set xs. G x \<subseteq> K t)"
    by (rule Cons.IH[OF u(2)]) (use Cons.prems(2) in auto)
  moreover have "K s \<subseteq> K u \<and> G x \<subseteq> K u" by (rule Cons.prems(2)[OF _ u(1)]) simp
  ultimately show ?case by auto
qed simp

definition box_keys :: "(string \<times> BoxEntry) list \<Rightarrow> string set" where
  "box_keys out = fst ` set out"

lemma add_box_keys: "box_keys (add_box b out) = insert (b_name b) (box_keys out)"
  by (auto simp: add_box_def box_keys_def map_of_eq_None_iff)

text \<open>The names a stack contributes on this host.\<close>

definition stack_names :: "Catalog \<Rightarrow> HostFacts \<Rightarrow> string \<times> string list \<Rightarrow> string set" where
  "stack_names cat facts sr = {role @ ''-'' @ os_token ref | role ref spec e. role \<in> set (snd sr)
     \<and> map_of (c_stacks cat) (fst sr) = Some spec \<and> ref \<in> set (s_supported spec)
     \<and> map_of (c_oses cat) ref = Some e \<and> host_can_run e facts}"

definition keyed :: "(string \<times> BoxEntry) list \<Rightarrow> bool" where
  "keyed out \<longleftrightarrow> (\<forall>x \<in> set out. fst x = b_name (snd x))"

lemma add_box_keyed: "keyed out \<Longrightarrow> keyed (add_box b out)"
  by (auto simp: keyed_def add_box_def)

definition add_shared :: "Catalog \<Rightarrow> string \<Rightarrow> (string \<times> BoxEntry) list \<Rightarrow> (py_error, (string \<times> BoxEntry) list) result" where
  "add_shared cat role out = rbind (shared_box cat role) (\<lambda>b. Inr (add_box b out))"

definition add_roles ::
  "Catalog \<Rightarrow> string list \<Rightarrow> OsRef \<Rightarrow> (string \<times> BoxEntry) list \<Rightarrow> (py_error, (string \<times> BoxEntry) list) result" where
  "add_roles cat roles ref out = foldr_res (\<lambda>role out3. rbind (cat_box cat role ref) (\<lambda>b. Inr (add_box b out3))) roles out"

definition add_stack ::
  "Catalog \<Rightarrow> HostFacts \<Rightarrow> string \<times> string list \<Rightarrow> (string \<times> BoxEntry) list \<Rightarrow> (py_error, (string \<times> BoxEntry) list) result" where
  "add_stack cat f sr out1 = (case sr of (stk, roles) \<Rightarrow>
     rbind (cat_stack cat stk) (\<lambda>spec.
     foldr_res (\<lambda>ref out2.
         rbind (case map_of (c_oses cat) ref of None \<Rightarrow> Inl (KeyErr ''os'') | Some e \<Rightarrow> Inr (host_can_run e f))
           (\<lambda>go. if \<not> go then Inr out2 else add_roles cat roles ref out2))
       (s_supported spec) out1))"

lemma all_boxes_stages:
  "all_boxes cat (Some f) roles =
     rbind (foldr_res (add_shared cat) SHARED_ROLES []) (\<lambda>out0.
     rbind (foldr_res (add_stack cat f) roles out0) (\<lambda>out. Inr (map snd out)))"
  unfolding all_boxes_def add_shared_def[abs_def] add_stack_def[abs_def] add_roles_def[abs_def] split_def by simp

lemma add_roles_keys:
  assumes "add_roles cat roles ref out = Inr out'"
  shows "box_keys out \<subseteq> box_keys out' \<and> (\<forall>role \<in> set roles. {role @ ''-'' @ os_token ref} \<subseteq> box_keys out')"
  using assms unfolding add_roles_def
  by (rule foldr_res_grows[where K = box_keys and G = "\<lambda>role. {role @ ''-'' @ os_token ref}"])
    (auto simp: rbind_eq_Inr add_box_keys dest!: cat_box_eq)

lemma add_stack_keys:
  assumes "add_stack cat f sr out = Inr out'"
  shows "box_keys out \<subseteq> box_keys out' \<and> stack_names cat f sr \<subseteq> box_keys out'"
proof -
  obtain stk roles where sr: "sr = (stk, roles)" by fastforce
  with assms obtain spec where spec: "map_of (c_stacks cat) stk = Some spec"
    and fold: "foldr_res (\<lambda>ref out2.
         rbind (case map_of (c_oses cat) ref of None \<Rightarrow> Inl (KeyErr ''os'') | Some e \<Rightarrow> Inr (host_can_run e f))
           (\<lambda>go. if \<not> go then Inr out2 else add_roles cat roles ref out2)) (s_supported spec) out = Inr out'"
    by (auto simp: add_stack_def rbind_eq_Inr cat_stack_def split: option.splits)
  define G where "G ref = {role @ ''-'' @ os_token ref | role e. role \<in> set roles \<and> map_of (c_oses cat) ref = Some e
    \<and> host_can_run e f}" for ref
  have "box_keys out \<subseteq> box_keys out' \<and> (\<forall>ref \<in> set (s_supported spec). G ref \<subseteq> box_keys out')"
    using fold
    by (rule foldr_res_grows[where K = box_keys])
      (auto simp: rbind_eq_Inr G_def split: option.splits if_splits dest!: add_roles_keys)
  then have grown: "box_keys out \<subseteq> box_keys out'" "\<And>ref. ref \<in> set (s_supported spec) \<Longrightarrow> G ref \<subseteq> box_keys out'" by auto
  have "n \<in> box_keys out'" if "n \<in> stack_names cat f sr" for n
  proof -
    from that spec obtain ref where "ref \<in> set (s_supported spec)" "n \<in> G ref"
      unfolding stack_names_def sr G_def by auto
    with grown(2) show ?thesis by blast
  qed
  with grown(1) show ?thesis by blast
qed

lemma all_boxes_keyed:
  assumes "foldr_res (add_shared cat) SHARED_ROLES [] = Inr out0" and "foldr_res (add_stack cat f) roles out0 = Inr out"
  shows "keyed out"
proof -
  have roles: "keyed u'" if "add_roles cat rs ref u = Inr u'" "keyed u" for rs ref u u'
    using that unfolding add_roles_def
    by (rule foldr_res_invariant) (auto simp: rbind_eq_Inr intro: add_box_keyed)
  have stack: "keyed u'" if "add_stack cat f sr u = Inr u'" "keyed u" for sr u u'
  proof -
    obtain stk rs where sr: "sr = (stk, rs)" by fastforce
    with that(1) obtain spec :: StackSpec where "foldr_res (\<lambda>ref out2.
         rbind (case map_of (c_oses cat) ref of None \<Rightarrow> Inl (KeyErr ''os'') | Some e \<Rightarrow> Inr (host_can_run e f))
           (\<lambda>go. if \<not> go then Inr out2 else add_roles cat rs ref out2)) (s_supported spec) u = Inr u'"
      by (auto simp: add_stack_def rbind_eq_Inr)
    then show ?thesis
      using that(2) by (rule foldr_res_invariant) (auto simp: rbind_eq_Inr split: option.splits if_splits intro: roles)
  qed
  have "keyed out0" using assms(1)
    by (rule foldr_res_invariant) (simp add: keyed_def, auto simp: add_shared_def rbind_eq_Inr intro: add_box_keyed)
  with assms(2) show ?thesis by (rule foldr_res_invariant) (auto intro: stack)
qed

lemma all_boxes_names:
  assumes "all_boxes cat (Some f) roles = Inr boxes"
  shows "role \<in> set SHARED_ROLES \<Longrightarrow> shared_box cat role = Inr b \<Longrightarrow> b_name b \<in> b_name ` set boxes"
    and "sr \<in> set roles \<Longrightarrow> stack_names cat f sr \<subseteq> b_name ` set boxes"
proof -
  from assms obtain out0 out where o: "foldr_res (add_shared cat) SHARED_ROLES [] = Inr out0"
      "foldr_res (add_stack cat f) roles out0 = Inr out" "boxes = map snd out"
    by (auto simp: all_boxes_stages rbind_eq_Inr)
  have "box_keys [] \<subseteq> box_keys out0
      \<and> (\<forall>role \<in> set SHARED_ROLES. (case shared_box cat role of Inl e \<Rightarrow> {} | Inr b \<Rightarrow> {b_name b}) \<subseteq> box_keys out0)"
    by (rule foldr_res_grows[OF o(1)]) (auto simp: add_shared_def rbind_eq_Inr add_box_keys)
  moreover have "box_keys out0 \<subseteq> box_keys out \<and> (\<forall>sr \<in> set roles. stack_names cat f sr \<subseteq> box_keys out)"
    by (rule foldr_res_grows[OF o(2)]) (rule add_stack_keys)
  moreover from all_boxes_keyed[OF o(1,2)] have "box_keys out = b_name ` set boxes"
    by (force simp: keyed_def box_keys_def o(3) image_image)
  ultimately show "role \<in> set SHARED_ROLES \<Longrightarrow> shared_box cat role = Inr b \<Longrightarrow> b_name b \<in> b_name ` set boxes"
    and "sr \<in> set roles \<Longrightarrow> stack_names cat f sr \<subseteq> b_name ` set boxes"
    by force+
qed

lemma stack_os_supported:
  "stack_os cat stk bf f = Inr ref \<Longrightarrow> \<exists>spec e. map_of (c_stacks cat) stk = Some spec \<and> ref \<in> set (s_supported spec)
     \<and> map_of (c_oses cat) ref = Some e \<and> host_can_run e f"
  by (auto simp: stack_os_def Let_def rbind_eq_Inr cat_stack_def cat_entry_def host_can_run_def split: option.splits)

lemma boxes_for_stack_names:
  assumes "boxes_for_stack bf f cat sr = Inr ns" and "n \<in> set ns"
  shows "n \<in> stack_names cat f sr"
proof -
  from assms obtain ref role b where "stack_os cat (fst sr) (Some bf) f = Inr ref" "role \<in> set (snd sr)"
      "cat_box cat role ref = Inr b" "n = b_name b"
    by (cases sr) (auto simp: boxes_for_stack_def rbind_eq_Inr split: if_splits dest!: traverse_memD)
  with stack_os_supported[of cat "fst sr" "Some bf" f ref] cat_box_eq[of cat role ref b] show ?thesis
    by (auto simp: stack_names_def)
qed

lemma fleet_names:
  assumes "build_fleet f cat roles = Inr fleet" and "all_boxes cat (Some f) roles = Inr boxes" and "b \<in> set boxes"
  shows "map_of fleet (b_name b) \<noteq> None"
proof -
  from assms(1,2) obtain v d where fleet: "fleet = fold (\<lambda>b. AList.update (b_name b) (v b)) boxes d"
    by (auto simp: build_fleet_def rbind_eq_Inr Let_def)
  have "set (map fst fleet) = b_name ` set boxes \<union> set (map fst d)"
    unfolding fleet alist_dict.keys_fold_set by simp
  with assms(3) have "b_name b \<in> fst ` set fleet" by auto
  then show ?thesis by (simp add: map_of_eq_None_iff)
qed

text \<open>Every box a build file needs is a box of the fleet the same catalogue, host and roles give, so a
  build from a build file never meets a box it has no builder for.\<close>

theorem build_file_boxes_in_fleet:
  assumes "build_fleet f cat roles = Inr fleet" and "boxes_for_build bf f cat roles = Inr names" and "n \<in> set names"
  shows "map_of fleet n \<noteq> None"
proof -
  from assms(1) obtain boxes where boxes: "all_boxes cat (Some f) roles = Inr boxes"
    by (auto simp: build_fleet_def rbind_eq_Inr Let_def)
  from assms(2,3) consider role b where "role \<in> set SHARED_ROLES" "shared_box cat role = Inr b" "n = b_name b"
    | sr ns where "sr \<in> set roles" "boxes_for_stack bf f cat sr = Inr ns" "n \<in> set ns"
    by (fastforce simp: boxes_for_build_def rbind_eq_Inr dest: traverse_memD)
  then have "n \<in> b_name ` set boxes"
  proof cases
    case 1
    with all_boxes_names(1)[OF boxes] show ?thesis by blast
  next
    case 2
    with all_boxes_names(2)[OF boxes 2(1)] boxes_for_stack_names[OF 2(2,3)] show ?thesis by blast
  qed
  with fleet_names[OF assms(1) boxes] show ?thesis by blast
qed

section \<open>A sample fleet\<close>

definition sample_rhel :: OsEntry where
  "sample_rhel = \<lparr>oe_ref = rhel9, oe_base_box = ''rhel/9'', oe_base_box_version = None, oe_point = Some ''9.6'',
     oe_iso = Some ''r.iso'', oe_arch_pin = Some ''x86_64'', oe_requires = [], oe_ibm_unsupported_source = None,
     oe_lab_default_decision = None\<rparr>"

definition sample_obs :: BoxEntry where
  "sample_obs = \<lparr>b_name = ''obs-rhel9'', b_role = ''obs'', b_os = sample_rhel, b_bake_stem = ''obs'', b_mq_bearing = False,
     b_components = []\<rparr>"

definition sample_box_env :: BoxEnv where
  "sample_box_env =
     \<lparr>be_comp = (sample_comp_env 0)\<lparr>ce_run := \<lambda>c fs. (0, [''decision: REUSE''], fs)\<rparr>, be_facts = sample_host,
      be_catalog = projr (load_catalog (\<lambda>_. False) sample_doc), be_records = (\<lambda>_. None),
      be_fleet = [(''rhel/9'', base_spec sample_rhel sample_host), (''obs-rhel9'', fat_spec sample_obs sample_host ''pin'')],
      be_topology = sample_bakes, be_vagrant_env = None, be_uv = Some ''uv'', be_iso_override = [], be_runtime = ''docker'',
      be_mq_version = ''9''\<rparr>"

lemma not_isl_fst: "\<not> isl (fst p) \<Longrightarrow> \<exists>x t. p = (Inr x, t)"
  by (cases p; cases "fst p") auto

lemma sample_box_builds:
  "\<not> isl (fst (build_boxes (op_return ()) sample_box_env [''obs-rhel9''] True sample_comp_state))"
  by code_simp

theorem build_boxes_exact_witness:
  "\<exists>bases. fst (build_boxes (op_return ()) sample_box_env [''obs-rhel9''] True sample_comp_state) = Inr ()
    \<and> distinct bases \<and> ''rhel/9'' \<in> set bases"
proof -
  obtain t where b: "build_boxes (op_return ()) sample_box_env [''obs-rhel9''] True sample_comp_state = (Inr (), t)"
    using not_isl_fst[OF sample_box_builds] by auto
  have base: "base_of sample_box_env ''obs-rhel9'' ''rhel/9''"
    by (simp add: base_of_def sample_box_env_def fat_spec_def sample_obs_def sample_rhel_def Let_def)
  from build_boxes_exact[OF b] base b show ?thesis by auto
qed

lemma sample_fleet_ok:
  "\<not> isl (build_fleet sample_host (projr (load_catalog (\<lambda>_. False) sample_doc)) [(''rdqm-rhel'', [''rdqm''])])"
  "boxes_for_build \<lparr>bf_os = None\<rparr> sample_host (projr (load_catalog (\<lambda>_. False) sample_doc)) [(''rdqm-rhel'', [''rdqm''])]
     = Inr [''infra-ubuntu24'', ''obs-ubuntu24'', ''san-ubuntu24'', ''mq-client-ubuntu24'', ''rdqm-rhel9'']"
  by code_simp+

theorem build_file_boxes_in_fleet_witness:
  "\<exists>fleet. build_fleet sample_host (projr (load_catalog (\<lambda>_. False) sample_doc)) [(''rdqm-rhel'', [''rdqm''])] = Inr fleet
     \<and> map_of fleet ''rdqm-rhel9'' \<noteq> None"
proof -
  obtain fleet where f: "build_fleet sample_host (projr (load_catalog (\<lambda>_. False) sample_doc)) [(''rdqm-rhel'', [''rdqm''])] = Inr fleet"
    using sample_fleet_ok(1) by (auto dest!: not_isl_Inr)
  from build_file_boxes_in_fleet[OF f sample_fleet_ok(2), of "''rdqm-rhel9''"] f show ?thesis by simp
qed

end
