(* ===== verification/DNS.thy ===== *)
theory DNS
  imports Topology "HOL-Library.List_Lexorder" "HOL-Library.Char_ord"
begin

text \<open>
  Name service of the lab: the resource records derived from the topology (\<open>mqlab/dns.py\<close>) and the
  server configuration rendered from them (\<open>mqlab/bind.py\<close>). A zone is a duplicate-free sorted list of
  records, so the model uses the order of the record class: by name, type and value. A \<open>DnsError\<close> is a
  \<open>ValueErr\<close>; the files written are the returned dictionary from file names to texts.
\<close>

section \<open>Records\<close>

datatype Record = Record (rr_name: string) (rr_type: string) (rr_value: string)

instantiation Record :: linorder
begin

definition less_eq_Record :: "Record \<Rightarrow> Record \<Rightarrow> bool" where
  "less_eq_Record a b \<longleftrightarrow> rr_name a < rr_name b
     \<or> rr_name a = rr_name b \<and> (rr_type a < rr_type b \<or> rr_type a = rr_type b \<and> rr_value a \<le> rr_value b)"

definition less_Record :: "Record \<Rightarrow> Record \<Rightarrow> bool" where
  "less_Record a b \<longleftrightarrow> a \<le> b \<and> \<not> b \<le> a"

instance
proof
  fix x y z :: Record
  show "x < y \<longleftrightarrow> x \<le> y \<and> \<not> y \<le> x" by (simp add: less_Record_def)
  show "x \<le> x" by (simp add: less_eq_Record_def)
  show "x \<le> y \<Longrightarrow> y \<le> z \<Longrightarrow> x \<le> z" by (auto simp: less_eq_Record_def)
  show "x \<le> y \<Longrightarrow> y \<le> x \<Longrightarrow> x = y" by (auto simp: less_eq_Record_def intro: Record.expand)
  show "x \<le> y \<or> y \<le> x" by (auto simp: less_eq_Record_def)
qed

end

definition ZONES :: "(string \<times> string) list" where
  "ZONES = [(''client'', ''client.com''), (''service'', ''service.com'')]"

definition CLIENT_ZONE :: string where
  "CLIENT_ZONE = ''client.com''"

definition SERVICE_ZONE :: string where
  "SERVICE_ZONE = ''service.com''"

definition PRIMARY_ORDER :: "string list" where
  "PRIMARY_ORDER = [''net-data-a'', ''net-data-b'', ''net-ext'', ''net-mgmt'']"

definition plane_suffix :: "string \<Rightarrow> string" where
  "plane_suffix plane = (if prefix ''net-'' plane then drop 4 plane else plane)"

definition zone_of :: "pyval \<Rightarrow> (py_error, string) result" where
  "zone_of spec =
     rbind (dict_get spec ''org'' (PStr ''client'')) (\<lambda>org.
     case org of
       PStr s \<Rightarrow> (case map_of ZONES s of None \<Rightarrow> Inl (ValueErr ''node org'') | Some z \<Rightarrow> Inr z)
     | _ \<Rightarrow> Inl (ValueErr ''node org''))"

definition primary_plane :: "(pyval \<times> pyval) list \<Rightarrow> (py_error, string) result" where
  "primary_plane nics =
     (case find (\<lambda>p. map_of nics (PStr p) \<noteq> None) PRIMARY_ORDER of
        None \<Rightarrow> Inl (ValueErr ''no primary-eligible interface'')
      | Some p \<Rightarrow> Inr p)"

text \<open>The reverse zone of the address's /24 and the owner name of its pointer record.\<close>

definition rev_of :: "string \<Rightarrow> (py_error, string \<times> string) result" where
  "rev_of ip =
     (case split_on (\<lambda>c. c = CHR ''.'') ip of
        [a, b, c, d] \<Rightarrow>
          Inr (c @ ''.'' @ b @ ''.'' @ a @ ''.in-addr.arpa'', d @ ''.'' @ c @ ''.'' @ b @ ''.'' @ a @ ''.in-addr.arpa'')
      | _ \<Rightarrow> Inl (ValueErr ''not an IPv4 address''))"

text \<open>The interfaces of a node: \<open>(spec.get("nics") or {}).items()\<close> with the plane names as texts and the
  addresses rendered.\<close>

definition node_ifaces :: "pyval \<Rightarrow> (py_error, (string \<times> string) list) result" where
  "node_ifaces spec =
     rbind (dict_get spec ''nics'' PNone) (\<lambda>nv.
     rbind (dict_items (or_empty nv)) (\<lambda>nics.
     traverse (\<lambda>(p, ip). rbind (case p of PStr s \<Rightarrow> Inr s | _ \<Rightarrow> Inl (TypeErr ''startswith'')) (\<lambda>plane.
       rbind (to_str ip) (\<lambda>a. Inr (plane, a)))) nics))"

definition iface_name :: "string \<Rightarrow> string \<Rightarrow> string \<Rightarrow> string" where
  "iface_name host zone plane = host @ ''-'' @ plane_suffix plane @ ''.'' @ zone"

definition node_forward :: "string \<Rightarrow> pyval \<Rightarrow> string \<Rightarrow> (py_error, Record list) result" where
  "node_forward host spec zone =
     rbind (node_ifaces spec) (\<lambda>ifs.
     rbind (ensure (ifs \<noteq> []) (ValueErr ''has no nics'')) (\<lambda>_.
     rbind (dict_get spec ''nics'' PNone) (\<lambda>nv.
     rbind (primary_plane (items (or_empty nv))) (\<lambda>primary.
     Inr (map (\<lambda>(p, ip). Record (iface_name host zone p) ''A'' ip) ifs
          @ [Record (host @ ''.'' @ zone) ''CNAME'' (iface_name host zone primary)])))))"

definition VIP_KEYS :: "(string \<times> string) list" where
  "VIP_KEYS = [(''vip'', ''vip-a''), (''vip_b'', ''vip-b''), (''vip_ext'', ''vip-ext-a''), (''vip_ext_b'', ''vip-ext-b'')]"

definition stack_vips :: "pyval \<Rightarrow> (py_error, (string \<times> string) list) result" where
  "stack_vips cfg =
     rbind (dict_get (or_empty cfg) ''short'' PNone) (\<lambda>sv.
     rbind (case sv of PStr s \<Rightarrow> Inr (py_lower s) | _ \<Rightarrow> if truthy sv then Inl (TypeErr ''lower'') else Inr []) (\<lambda>short.
     rbind (dict_get (or_empty cfg) ''qm'' PNone) (\<lambda>qv.
     if short = [] then Inr []
     else rbind (traverse (\<lambda>(key, label).
            rbind (dict_get (or_empty qv) key PNone) (\<lambda>v.
            if truthy v then rbind (to_str v) (\<lambda>ip. Inr [(short @ ''-'' @ label @ ''.'' @ CLIENT_ZONE, ip)]) else Inr []))
          VIP_KEYS) (\<lambda>vs. Inr (concat vs)))))"

definition vips :: "pyval \<Rightarrow> (py_error, (string \<times> string) list) result" where
  "vips topo =
     rbind (dict_get topo ''stacks'' PNone) (\<lambda>sv.
     rbind (dict_items (or_empty sv)) (\<lambda>stacks.
     rbind (traverse (\<lambda>(n, cfg). stack_vips cfg) stacks) (\<lambda>vs. Inr (concat vs))))"

text \<open>The nodes of the topology, each with its name as a text and its zone.\<close>

definition zoned_nodes :: "pyval \<Rightarrow> (py_error, (string \<times> pyval \<times> string) list) result" where
  "zoned_nodes topo =
     rbind (dict_get topo ''nodes'' PNone) (\<lambda>nv.
     rbind (dict_items (or_empty nv)) (\<lambda>nodes.
     traverse (\<lambda>(n, spec). rbind (to_str n) (\<lambda>host. rbind (zone_of spec) (\<lambda>zone. Inr (host, spec, zone)))) nodes))"

definition sorted_set :: "Record list \<Rightarrow> Record list" where
  "sorted_set rs = sort (remdups rs)"

text \<open>The records of one forward zone: those of its nodes, and in the client zone the service names.\<close>

definition zone_records :: "(string \<times> Record list) list \<Rightarrow> (string \<times> string) list \<Rightarrow> string \<Rightarrow> Record list" where
  "zone_records parts vs z = sorted_set
     (concat (map snd (filter (\<lambda>p. fst p = z) parts))
      @ (if z = CLIENT_ZONE then map (\<lambda>(fqdn, ip). Record fqdn ''A'' ip) vs else []))"

definition forward_zones :: "pyval \<Rightarrow> (py_error, (string \<times> Record list) list) result" where
  "forward_zones topo =
     rbind (zoned_nodes topo) (\<lambda>nodes.
     rbind (traverse (\<lambda>(host, spec, zone). rbind (node_forward host spec zone) (\<lambda>rs. Inr (zone, rs))) nodes) (\<lambda>parts.
     rbind (vips topo) (\<lambda>vs.
     Inr (map (\<lambda>(org, z). (z, zone_records parts vs z)) ZONES))))"

text \<open>\<open>zones.setdefault(rz, []).append(rec)\<close>.\<close>

definition group_add :: "'k \<times> 'v \<Rightarrow> ('k \<times> 'v list) list \<Rightarrow> ('k \<times> 'v list) list" where
  "group_add kv d = AList.update (fst kv) ((case map_of d (fst kv) of None \<Rightarrow> [] | Some vs \<Rightarrow> vs) @ [snd kv]) d"

definition pointer :: "string \<Rightarrow> string \<Rightarrow> (py_error, string \<times> Record) result" where
  "pointer fqdn ip = rbind (rev_of ip) (\<lambda>(rz, owner). Inr (rz, Record owner ''PTR'' fqdn))"

definition reverse_zones :: "pyval \<Rightarrow> (py_error, (string \<times> Record list) list) result" where
  "reverse_zones topo =
     rbind (zoned_nodes topo) (\<lambda>nodes.
     rbind (traverse (\<lambda>(host, spec, zone). rbind (node_ifaces spec) (\<lambda>ifs.
         traverse (\<lambda>(p, ip). pointer (iface_name host zone p) ip) ifs)) nodes) (\<lambda>parts.
     rbind (vips topo) (\<lambda>vs.
     rbind (traverse (\<lambda>(fqdn, ip). pointer fqdn ip) vs) (\<lambda>vparts.
     Inr (map (\<lambda>(rz, rs). (rz, sorted_set rs)) (fold group_add (concat parts @ vparts) []))))))"

section \<open>Name servers\<close>

definition org_of :: "pyval \<Rightarrow> (py_error, string) result" where
  "org_of spec = rbind (dict_get spec ''org'' PNone) (\<lambda>o'. Inr (if o' = PStr ''service'' then ''service'' else ''client''))"

definition infra_add ::
  "(pyval \<times> pyval) list \<Rightarrow> pyval \<Rightarrow> (string \<times> pyval \<times> pyval) list \<Rightarrow> (py_error, (string \<times> pyval \<times> pyval) list) result" where
  "infra_add nodes name out =
     (case map_of nodes name of
        None \<Rightarrow> Inl (ValueErr ''undefined host'')
      | Some PNone \<Rightarrow> Inl (ValueErr ''undefined host'')
      | Some spec \<Rightarrow>
          rbind (org_of spec) (\<lambda>org.
          if map_of out org \<noteq> None then Inl (ValueErr ''more than one infra node'')
          else Inr (out @ [(org, name, spec)])))"

definition infra_by_org :: "pyval \<Rightarrow> (py_error, (string \<times> pyval \<times> pyval) list) result" where
  "infra_by_org topo =
     rbind (dict_get topo ''nodes'' PNone) (\<lambda>nv.
     rbind (dict_get topo ''groups'' PNone) (\<lambda>gv.
     rbind (dict_get (or_empty gv) ''infra'' PNone) (\<lambda>hv.
     rbind (if truthy hv then (case hv of PList hs \<Rightarrow> Inr hs | _ \<Rightarrow> Inl (Unmodelled ''group is not a list'')) else Inr []) (\<lambda>names.
     rbind (dict_items (or_empty nv)) (\<lambda>nodes.
     rbind (foldr_res (infra_add nodes) names []) (\<lambda>out.
     if map_of out ''client'' = None \<or> map_of out ''service'' = None then Inl (ValueErr ''no infra node'') else Inr out))))))"

definition ns_fqdn :: "pyval \<Rightarrow> pyval \<Rightarrow> (py_error, string) result" where
  "ns_fqdn name spec =
     rbind (to_str name) (\<lambda>host.
     rbind (dict_get spec ''nics'' PNone) (\<lambda>nv.
     rbind (primary_plane (items (or_empty nv))) (\<lambda>p.
     rbind (zone_of spec) (\<lambda>z. Inr (iface_name host z p)))))"

definition rr :: "Record \<Rightarrow> string" where
  "rr r = rr_name r @ ''. IN '' @ rr_type r @ '' '' @ (if rr_type r = ''A'' then rr_value r else rr_value r @ ''.'')"

text \<open>The dash in the first line is the UTF-8 bytes of an em dash.\<close>

definition zone_file :: "string \<Rightarrow> string \<Rightarrow> Record list \<Rightarrow> string" where
  "zone_file apex ns records = str_join [CHR 0x0A]
     (['';'' @ '' '' @ apex @ '' '' @ [CHR 0xE2, CHR 0x80, CHR 0x94] @ '' generated by `mqlab dns render`; do not edit'',
       ''$TTL 300'',
       ''@ IN SOA '' @ ns @ ''. hostmaster.'' @ apex @ ''. ( 1 3600 600 86400 300 )'',
       ''@ IN NS '' @ ns @ ''.''] @ map rr records) @ [CHR 0x0A]"

definition zone_decl :: "string \<Rightarrow> string" where
  "zone_decl name = ''zone '' @ [CHR 0x22] @ name @ [CHR 0x22] @ '' { type master; file '' @ [CHR 0x22]
     @ ''/etc/bind/zones/'' @ name @ ''.zone'' @ [CHR 0x22] @ ''; };''"

definition zone_forward :: "string \<Rightarrow> string \<Rightarrow> string" where
  "zone_forward name peer_ip = ''zone '' @ [CHR 0x22] @ name @ [CHR 0x22] @ '' { type forward; forwarders { '' @ peer_ip @ ''; }; };''"

definition ext_ip :: "pyval \<Rightarrow> (py_error, string) result" where
  "ext_ip spec = rbind (item spec ''nics'') (\<lambda>n. rbind (item n ''net-ext'') to_str)"

definition named_options :: string where
  "named_options = concat (map (\<lambda>l. l @ [CHR 0x0A])
     [''options {'',
      ''    directory '' @ [CHR 0x22] @ ''/var/cache/bind'' @ [CHR 0x22] @ '';'',
      ''    recursion yes;'',
      ''    allow-query { any; };'',
      ''    forwarders { 192.168.121.1; };'',
      ''    forward only;'',
      ''    dnssec-validation no;'',
      ''    listen-on { any; };'',
      ''    listen-on-v6 { none; };'',
      ''};''])"

text \<open>What \<open>render\<close> computes before it fills the dictionary: the two hosts, the lines of their
  \<open>named.conf.local\<close> files and the zone files.\<close>

record Rendered =
  rd_client :: string
  rd_service :: string
  rd_client_local :: "string list"
  rd_service_local :: "string list"
  rd_zone_files :: "(string \<times> string) list"

definition render_parts :: "pyval \<Rightarrow> (py_error, Rendered) result" where
  "render_parts topo =
     rbind (infra_by_org topo) (\<lambda>infra.
     case (map_of infra ''client'', map_of infra ''service'') of
       (Some (ch, cs), Some (sh, ss)) \<Rightarrow>
         rbind (ns_fqdn ch cs) (\<lambda>client_ns.
         rbind (ns_fqdn sh ss) (\<lambda>svc_ns.
         rbind (forward_zones topo) (\<lambda>fwd.
         rbind (reverse_zones topo) (\<lambda>rv.
         rbind (ext_ip ss) (\<lambda>svc_ext.
         rbind (ext_ip cs) (\<lambda>client_ext.
         rbind (to_str ch) (\<lambda>client_host.
         rbind (to_str sh) (\<lambda>svc_host.
         let zone_recs = (\<lambda>z. case map_of fwd z of None \<Rightarrow> [] | Some rs \<Rightarrow> rs);
             client_zones = CLIENT_ZONE # map fst rv in
         Inr \<lparr>rd_client = client_host, rd_service = svc_host,
              rd_client_local = map zone_decl client_zones @ [zone_forward SERVICE_ZONE svc_ext],
              rd_service_local = zone_decl SERVICE_ZONE # map (\<lambda>z. zone_forward z client_ext) client_zones,
              rd_zone_files =
                [(CLIENT_ZONE @ ''.zone'', zone_file CLIENT_ZONE client_ns (zone_recs CLIENT_ZONE)),
                 (SERVICE_ZONE @ ''.zone'', zone_file SERVICE_ZONE svc_ns (zone_recs SERVICE_ZONE))]
                @ map (\<lambda>(rz, rs). (rz @ ''.zone'', zone_file rz client_ns rs)) rv\<rparr>))))))))
     | _ \<Rightarrow> Inl (KeyErr ''infra''))"

definition render :: "pyval \<Rightarrow> (py_error, (string \<times> string) list) result" where
  "render topo =
     rbind (render_parts topo) (\<lambda>r.
     Inr (dict_build fst snd (rd_zone_files r @
       [(''named.conf.local.'' @ rd_client r, str_join [CHR 0x0A] (rd_client_local r) @ [CHR 0x0A]),
        (''named.conf.local.'' @ rd_service r, str_join [CHR 0x0A] (rd_service_local r) @ [CHR 0x0A]),
        (''named.conf.options.'' @ rd_client r, named_options),
        (''named.conf.options.'' @ rd_service r, named_options)])))"

definition RESOLVER_ORDER :: "string list" where
  "RESOLVER_ORDER = [''net-data-a'', ''net-data-b'', ''net-ext'', ''net-mgmt'']"

definition nic_items :: "pyval \<Rightarrow> (py_error, (pyval \<times> pyval) list) result" where
  "nic_items spec = rbind (dict_get spec ''nics'' PNone) (\<lambda>nv. dict_items (or_empty nv))"

definition resolver_ip :: "(string \<times> pyval \<times> pyval) list \<Rightarrow> pyval \<Rightarrow> pyval \<Rightarrow> (py_error, string) result" where
  "resolver_ip infra host spec =
     (if host \<in> set (map (fst \<circ> snd) infra) then Inr ''127.0.0.1''
      else rbind (org_of spec) (\<lambda>org.
        case map_of infra org of
          None \<Rightarrow> Inl (KeyErr ''infra'')
        | Some (ih, is) \<Rightarrow>
            rbind (nic_items spec) (\<lambda>host_nics.
            rbind (nic_items is) (\<lambda>infra_nics.
            case find (\<lambda>p. map_of host_nics (PStr p) \<noteq> None \<and> map_of infra_nics (PStr p) \<noteq> None) RESOLVER_ORDER of
              None \<Rightarrow> Inl (ValueErr ''shares no plane'')
            | Some p \<Rightarrow> to_str (the (map_of infra_nics (PStr p)))))))"

record HostDns =
  hd_resolver :: string
  hd_self_ip :: string
  hd_fqdn :: string

definition host_facts_of ::
  "(string \<times> pyval \<times> pyval) list \<Rightarrow> pyval \<times> pyval \<Rightarrow> (py_error, (pyval \<times> HostDns) list) result" where
  "host_facts_of infra hs = (case hs of (host, spec) \<Rightarrow>
     rbind (nic_items spec) (\<lambda>nics.
     if nics = [] then Inr []
     else
       rbind (primary_plane nics) (\<lambda>primary.
       rbind (resolver_ip infra host spec) (\<lambda>res.
       rbind (to_str (the (map_of nics (PStr primary)))) (\<lambda>self.
       rbind (to_str host) (\<lambda>name.
       rbind (zone_of spec) (\<lambda>z.
       Inr [(host, \<lparr>hd_resolver = res, hd_self_ip = self, hd_fqdn = name @ ''.'' @ z\<rparr>)])))))))"

definition host_dns_facts :: "pyval \<Rightarrow> (py_error, (pyval \<times> HostDns) list) result" where
  "host_dns_facts topo =
     rbind (infra_by_org topo) (\<lambda>infra.
     rbind (dict_get topo ''nodes'' PNone) (\<lambda>nv.
     rbind (dict_items (or_empty nv)) (\<lambda>nodes.
     rbind (traverse (host_facts_of infra) nodes) (\<lambda>parts. Inr (concat parts)))))"

section \<open>Addresses\<close>

text \<open>Every name of the lab that has an address, with it: what both kinds of zones are about.\<close>

definition node_addresses :: "string \<times> pyval \<times> string \<Rightarrow> (py_error, (string \<times> string) list) result" where
  "node_addresses hsz = (case hsz of (host, spec, zone) \<Rightarrow>
     rbind (node_ifaces spec) (\<lambda>ifs. Inr (map (\<lambda>(p, ip). (iface_name host zone p, ip)) ifs)))"

definition addresses :: "pyval \<Rightarrow> (py_error, (string \<times> string) list) result" where
  "addresses topo =
     rbind (zoned_nodes topo) (\<lambda>nodes.
     rbind (traverse node_addresses nodes) (\<lambda>parts.
     rbind (vips topo) (\<lambda>vs. Inr (concat parts @ vs))))"

lemma set_sorted_set [simp]: "set (sorted_set rs) = set rs"
  by (simp add: sorted_set_def)

lemma zone_of_known: "zone_of spec = Inr z \<Longrightarrow> z = CLIENT_ZONE \<or> z = SERVICE_ZONE"
  by (cases "dict_get spec ''org'' (PStr ''client'')")
    (auto simp: zone_of_def ZONES_def CLIENT_ZONE_def SERVICE_ZONE_def split: pyval.split_asm if_splits)

lemma zoned_nodes_zone:
  "zoned_nodes topo = Inr ns \<Longrightarrow> (h, sp, z) \<in> set ns \<Longrightarrow> z = CLIENT_ZONE \<or> z = SERVICE_ZONE"
  by (auto simp: zoned_nodes_def result_simps dest!: traverse_memD dest: zone_of_known)

lemma node_forward_parts:
  assumes "node_forward h sp z = Inr rs"
  obtains as primary where "node_addresses (h, sp, z) = Inr as"
    and "rs = map (\<lambda>(n, ip). Record n ''A'' ip) as @ [Record (h @ ''.'' @ z) ''CNAME'' (iface_name h z primary)]"
    and "iface_name h z primary \<in> fst ` set as"
proof -
  from assms obtain ifs nv primary where ifs: "node_ifaces sp = Inr ifs" and nv: "dict_get sp ''nics'' PNone = Inr nv"
    and p: "primary_plane (items (or_empty nv)) = Inr primary"
    and rs: "rs = map (\<lambda>(p, ip). Record (iface_name h z p) ''A'' ip) ifs @ [Record (h @ ''.'' @ z) ''CNAME'' (iface_name h z primary)]"
    by (auto simp: node_forward_def result_simps)
  from p obtain v where "map_of (items (or_empty nv)) (PStr primary) = Some v"
    by (auto simp: primary_plane_def find_Some_iff split: option.splits)
  then have mem: "(PStr primary, v) \<in> set (items (or_empty nv))" by (rule map_of_SomeD)
  from ifs nv have tr: "traverse (\<lambda>(p, ip). rbind (case p of PStr s \<Rightarrow> Inr s | _ \<Rightarrow> Inl (TypeErr ''startswith''))
       (\<lambda>plane. rbind (to_str ip) (\<lambda>a. Inr (plane, a)))) (items (or_empty nv)) = Inr ifs"
    by (auto simp: node_ifaces_def result_simps dict_items_def split: if_splits)
  from traverse_memI[OF tr mem] obtain y where "y \<in> set ifs" "fst y = primary"
    by (auto simp: result_simps)
  then have "(iface_name h z primary, snd y) \<in> set (map (\<lambda>(p, ip). (iface_name h z p, ip)) ifs)"
    by (auto intro!: image_eqI[where x = y] split: prod.split)
  then have "iface_name h z primary \<in> fst ` set (map (\<lambda>(p, ip). (iface_name h z p, ip)) ifs)"
    by (rule image_eqI[rotated]) simp
  with that[of "map (\<lambda>(p, ip). (iface_name h z p, ip)) ifs" primary] ifs rs show thesis
    by (simp add: node_addresses_def o_def case_prod_beta')
qed

lemma group_lookup:
  "map_of (fold group_add kvs []) k =
     (if filter (\<lambda>p. fst p = k) kvs = [] then None else Some (map snd (filter (\<lambda>p. fst p = k) kvs)))"
proof (induction kvs rule: rev_induct)
  case (snoc x kvs)
  then show ?case by (auto simp: group_add_def update_conv' split: if_splits option.splits)
qed simp

section \<open>Reversing an address\<close>

lemma rev_of_octets:
  assumes "rev_of ip = Inr (rz, owner)"
  obtains a b c d where "ip = a @ ''.'' @ b @ ''.'' @ c @ ''.'' @ d"
    and "split_on (\<lambda>x. x = CHR ''.'') owner = [d, c, b, a, ''in-addr'', ''arpa'']"
    and "rz = c @ ''.'' @ b @ ''.'' @ a @ ''.in-addr.arpa''"
proof -
  from assms obtain a b c d where sp: "split_on (\<lambda>x. x = CHR ''.'') ip = [a, b, c, d]"
    and out: "rz = c @ ''.'' @ b @ ''.'' @ a @ ''.in-addr.arpa''" "owner = d @ ''.'' @ c @ ''.'' @ b @ ''.'' @ a @ ''.in-addr.arpa''"
    by (auto simp: rev_of_def split: list.splits)
  have free: "CHR ''.'' \<notin> set w" if "w \<in> {a, b, c, d}" for w
    using split_on_free[of w "\<lambda>x. x = CHR ''.''" ip] sp that by auto
  have "split_on (\<lambda>x. x = CHR ''.'') owner = [d, c, b, a, ''in-addr'', ''arpa'']"
    using free by (simp add: out split_on_append split_on_whole)
  moreover have "ip = a @ ''.'' @ b @ ''.'' @ c @ ''.'' @ d"
    using join_split_on[of "CHR ''.''" ip] sp by simp
  ultimately show thesis using out(1) that by blast
qed

lemma rev_of_inject: "rev_of ip = Inr (rz, owner) \<Longrightarrow> rev_of ip' = Inr (rz', owner) \<Longrightarrow> ip = ip'"
  by (elim rev_of_octets) auto

section \<open>What the zones hold\<close>

lemma forward_parts:
  assumes "forward_zones topo = Inr F"
  obtains ns parts vs where "zoned_nodes topo = Inr ns" and "vips topo = Inr vs"
    and "traverse (\<lambda>(h, sp, z). rbind (node_forward h sp z) (\<lambda>rs. Inr (z, rs))) ns = Inr parts"
    and "F = [(CLIENT_ZONE, zone_records parts vs CLIENT_ZONE), (SERVICE_ZONE, zone_records parts vs SERVICE_ZONE)]"
  using assms by (auto simp: forward_zones_def result_simps ZONES_def CLIENT_ZONE_def SERVICE_ZONE_def)

lemma zones_differ: "CLIENT_ZONE \<noteq> SERVICE_ZONE"
  by (simp add: CLIENT_ZONE_def SERVICE_ZONE_def)

lemma in_zone_records:
  "r \<in> set (zone_records parts vs z) \<longleftrightarrow>
     (\<exists>rs. (z, rs) \<in> set parts \<and> r \<in> set rs) \<or> z = CLIENT_ZONE \<and> (\<exists>(fqdn, ip) \<in> set vs. r = Record fqdn ''A'' ip)"
  by (auto simp: zone_records_def)

lemma part_zone:
  assumes "zoned_nodes topo = Inr ns" and "traverse (\<lambda>(h, sp, z). rbind (node_forward h sp z) (\<lambda>rs. Inr (z, rs))) ns = Inr parts"
    and "(z, rs) \<in> set parts"
  obtains h sp where "(h, sp, z) \<in> set ns" and "node_forward h sp z = Inr rs" and "z = CLIENT_ZONE \<or> z = SERVICE_ZONE"
  using traverse_memD[OF assms(2,3)] zoned_nodes_zone[OF assms(1)] by (auto simp: result_simps)

definition addr_of :: "Record list \<Rightarrow> (string \<times> string) list" where
  "addr_of rs = map (\<lambda>r. (rr_name r, rr_value r)) (filter (\<lambda>r. rr_type r = ''A'') rs)"

lemma in_addr_of: "(n, ip) \<in> set (addr_of rs) \<longleftrightarrow> Record n ''A'' ip \<in> set rs"
proof (induction rs)
  case (Cons r rs)
  then show ?case by (cases r) (auto simp: addr_of_def)
qed (simp add: addr_of_def)

lemma node_forward_addr: "node_forward h sp z = Inr rs \<Longrightarrow> node_addresses (h, sp, z) = Inr (addr_of rs)"
  by (erule node_forward_parts) (simp add: addr_of_def o_def case_prod_beta')

lemma traverse_mapped:
  assumes "traverse f xs = Inr ys" and "\<And>x y. x \<in> set xs \<Longrightarrow> f x = Inr y \<Longrightarrow> g x = Inr (h y)"
  shows "traverse g xs = Inr (map h ys)"
  using assms by (induction xs arbitrary: ys) (auto simp: result_simps)

text \<open>The address records of the forward zones are exactly the addresses.\<close>

lemma forward_addresses:
  assumes "forward_zones topo = Inr F"
  obtains as where "addresses topo = Inr as"
    and "\<And>n ip. (\<exists>z rs. map_of F z = Some rs \<and> Record n ''A'' ip \<in> set rs) \<longleftrightarrow> (n, ip) \<in> set as"
proof -
  from forward_parts[OF assms] obtain ns parts vs where ns: "zoned_nodes topo = Inr ns" and vs: "vips topo = Inr vs"
    and parts: "traverse (\<lambda>(h, sp, z). rbind (node_forward h sp z) (\<lambda>rs. Inr (z, rs))) ns = Inr parts"
    and F: "F = [(CLIENT_ZONE, zone_records parts vs CLIENT_ZONE), (SERVICE_ZONE, zone_records parts vs SERVICE_ZONE)]" .
  have node: "node_addresses x = Inr (addr_of (snd p))"
    if "(case x of (h, sp, z) \<Rightarrow> rbind (node_forward h sp z) (\<lambda>rs. Inr (z, rs))) = Inr p" for x p
    using that by (cases x) (auto simp: result_simps intro: node_forward_addr)
  have as: "addresses topo = Inr (concat (map (addr_of \<circ> snd) parts) @ vs)"
    using ns vs traverse_mapped[OF parts, of node_addresses "addr_of \<circ> snd"] node by (simp add: addresses_def)
  have "(\<exists>z rs. map_of F z = Some rs \<and> Record n ''A'' ip \<in> set rs) \<longleftrightarrow>
      (\<exists>z. (z = CLIENT_ZONE \<or> z = SERVICE_ZONE) \<and> Record n ''A'' ip \<in> set (zone_records parts vs z))" for n ip
    using zones_differ by (auto simp: F)
  also have "\<dots> n ip \<longleftrightarrow> (\<exists>p \<in> set parts. Record n ''A'' ip \<in> set (snd p)) \<or> (n, ip) \<in> set vs" for n ip
  proof -
    have "z = CLIENT_ZONE \<or> z = SERVICE_ZONE" if "(z, rs) \<in> set parts" for z rs
      using part_zone[OF ns parts that] by blast
    then have "\<exists>z. (z = CLIENT_ZONE \<or> z = SERVICE_ZONE) \<and> Record n ''A'' ip \<in> set (zone_records parts vs z)"
      if "p \<in> set parts" and "Record n ''A'' ip \<in> set (snd p)" for p
    proof -
      have "(fst p, snd p) \<in> set parts" using that(1) by simp
      moreover from this that(2) have "Record n ''A'' ip \<in> set (zone_records parts vs (fst p))"
        unfolding in_zone_records by blast
      ultimately show ?thesis using \<open>\<And>z rs. (z, rs) \<in> set parts \<Longrightarrow> z = CLIENT_ZONE \<or> z = SERVICE_ZONE\<close> by blast
    qed
    moreover have "(n, ip) \<in> set vs \<Longrightarrow> Record n ''A'' ip \<in> set (zone_records parts vs CLIENT_ZONE)"
      by (auto simp: in_zone_records)
    moreover have "Record n ''A'' ip \<in> set (zone_records parts vs z) \<Longrightarrow>
        (\<exists>p \<in> set parts. Record n ''A'' ip \<in> set (snd p)) \<or> (n, ip) \<in> set vs" for z
      by (auto simp: in_zone_records intro: rev_bexI)
    ultimately show ?thesis by blast
  qed
  also have "\<dots> n ip \<longleftrightarrow> (n, ip) \<in> set (concat (map (addr_of \<circ> snd) parts) @ vs)" for n ip
    by (auto simp: in_addr_of)
  finally show thesis using as that by blast
qed

lemma pointers_of_nodes:
  assumes "traverse (\<lambda>(h, sp, z). rbind (node_ifaces sp) (\<lambda>ifs. traverse (\<lambda>(p, ip). pointer (iface_name h z p) ip) ifs)) ns = Inr parts"
  shows "\<exists>as. traverse node_addresses ns = Inr as \<and> traverse (\<lambda>(n, ip). pointer n ip) (concat as) = Inr (concat parts)"
  using assms
proof (induction ns arbitrary: parts)
  case (Cons x ns)
  obtain h sp z where x: "x = (h, sp, z)" by (cases x) auto
  from Cons.prems x obtain ifs ps pss where ifs: "node_ifaces sp = Inr ifs"
    and ps: "traverse (\<lambda>(p, ip). pointer (iface_name h z p) ip) ifs = Inr ps" and eq: "parts = ps # pss"
    and rest: "traverse (\<lambda>(h, sp, z). rbind (node_ifaces sp) (\<lambda>ifs. traverse (\<lambda>(p, ip). pointer (iface_name h z p) ip) ifs)) ns = Inr pss"
    by (auto simp: result_simps)
  from Cons.IH[OF rest] obtain as where as: "traverse node_addresses ns = Inr as"
    "traverse (\<lambda>(n, ip). pointer n ip) (concat as) = Inr (concat pss)" by blast
  have "traverse (\<lambda>(n, ip). pointer n ip) (map (\<lambda>(p, ip). (iface_name h z p, ip)) ifs) = Inr ps"
    using ps by (induction ifs arbitrary: ps) (auto simp: result_simps)
  moreover have "node_addresses x = Inr (map (\<lambda>(p, ip). (iface_name h z p, ip)) ifs)"
    by (simp add: node_addresses_def x ifs)
  ultimately show ?case
    using as eq by (intro exI[of _ "map (\<lambda>(p, ip). (iface_name h z p, ip)) ifs # as"]) (simp add: traverse_append)
qed simp

lemma reverse_parts:
  assumes "reverse_zones topo = Inr R"
  obtains as kvs where "addresses topo = Inr as" and "traverse (\<lambda>(n, ip). pointer n ip) as = Inr kvs"
    and "R = map (\<lambda>(rz, rs). (rz, sorted_set rs)) (fold group_add kvs [])"
proof -
  from assms obtain ns parts vs vparts where ns: "zoned_nodes topo = Inr ns" and vs: "vips topo = Inr vs"
    and parts: "traverse (\<lambda>(h, sp, z). rbind (node_ifaces sp) (\<lambda>ifs. traverse (\<lambda>(p, ip). pointer (iface_name h z p) ip) ifs)) ns = Inr parts"
    and vparts: "traverse (\<lambda>(fqdn, ip). pointer fqdn ip) vs = Inr vparts"
    and R: "R = map (\<lambda>(rz, rs). (rz, sorted_set rs)) (fold group_add (concat parts @ vparts) [])"
    by (auto simp: reverse_zones_def result_simps)
  from pointers_of_nodes[OF parts] obtain as where "traverse node_addresses ns = Inr as"
    and "traverse (\<lambda>(n, ip). pointer n ip) (concat as) = Inr (concat parts)" by blast
  with ns vs vparts R show thesis
    by (intro that[of "concat as @ vs" "concat parts @ vparts"]) (simp_all add: addresses_def traverse_append)
qed

lemma pointer_eq: "pointer n ip = Inr (rz, r) \<longleftrightarrow> (\<exists>owner. rev_of ip = Inr (rz, owner) \<and> r = Record owner ''PTR'' n)"
  by (auto simp: pointer_def result_simps)

text \<open>The pointer records of the reverse zones are exactly the reversed addresses.\<close>

lemma reverse_addresses:
  assumes "reverse_zones topo = Inr R" and "addresses topo = Inr as"
  shows "(\<exists>rs. map_of R rz = Some rs \<and> Record owner ''PTR'' n \<in> set rs)
       \<longleftrightarrow> (\<exists>ip. (n, ip) \<in> set as \<and> rev_of ip = Inr (rz, owner))"
    and "(n, ip) \<in> set as \<Longrightarrow> \<exists>rz owner. rev_of ip = Inr (rz, owner)"
proof -
  from reverse_parts[OF assms(1)] assms(2) obtain kvs where tr: "traverse (\<lambda>(n, ip). pointer n ip) as = Inr kvs"
    and R: "R = map (\<lambda>(rz, rs). (rz, sorted_set rs)) (fold group_add kvs [])" by (metis sum.inject(2))
  have look: "(\<exists>rs. map_of R rz = Some rs \<and> r \<in> set rs) \<longleftrightarrow> (rz, r) \<in> set kvs" for r
    unfolding R map_of_map group_lookup by (auto simp: image_iff filter_empty_conv)
  have "(rz, Record owner ''PTR'' n) \<in> set kvs \<longleftrightarrow> (\<exists>ip. (n, ip) \<in> set as \<and> rev_of ip = Inr (rz, owner))"
  proof
    assume "(rz, Record owner ''PTR'' n) \<in> set kvs"
    from traverse_memD[OF tr this] show "\<exists>ip. (n, ip) \<in> set as \<and> rev_of ip = Inr (rz, owner)"
      by (auto simp: pointer_eq)
  next
    assume "\<exists>ip. (n, ip) \<in> set as \<and> rev_of ip = Inr (rz, owner)"
    then obtain ip where "(n, ip) \<in> set as" "rev_of ip = Inr (rz, owner)" by blast
    with traverse_memI[OF tr this(1)] show "(rz, Record owner ''PTR'' n) \<in> set kvs" by (auto simp: pointer_eq)
  qed
  with look show "(\<exists>rs. map_of R rz = Some rs \<and> Record owner ''PTR'' n \<in> set rs)
       \<longleftrightarrow> (\<exists>ip. (n, ip) \<in> set as \<and> rev_of ip = Inr (rz, owner))" by blast
  show "(n, ip) \<in> set as \<Longrightarrow> \<exists>rz owner. rev_of ip = Inr (rz, owner)"
    using traverse_memI[OF tr, of "(n, ip)"] by (auto simp: pointer_eq)
qed

section \<open>Configuration lines\<close>

lemma zone_decl_not_forward: "zone_decl a \<noteq> zone_forward b ip"
proof
  assume "zone_decl a = zone_forward b ip"
  then have "rev (zone_decl a) = rev (zone_forward b ip)" by simp
  then show False by (simp add: zone_decl_def zone_forward_def)
qed

lemma zone_decl_inject: "zone_decl a = zone_decl b \<longleftrightarrow> a = b"
proof
  assume eq: "zone_decl a = zone_decl b"
  then have "length (zone_decl a) = length (zone_decl b)" by simp
  then have "length a = length b" by (simp add: zone_decl_def)
  with eq show "a = b" by (simp add: zone_decl_def)
qed simp

lemma reverse_zone_names: "reverse_zones topo = Inr R \<Longrightarrow> rz \<in> set (map fst R) \<Longrightarrow> last rz = CHR ''a''"
proof -
  assume R: "reverse_zones topo = Inr R" and rz: "rz \<in> set (map fst R)"
  have keys: "map fst (fold group_add kvs d) = add_all_new (map fst kvs) (map fst d)" for kvs :: "(string \<times> Record) list" and d
    by (induction kvs arbitrary: d) (auto simp: group_add_def keys_alist_update add_all_new_def add_new_def)
  from reverse_parts[OF R] obtain as kvs where tr: "traverse (\<lambda>(n, ip). pointer n ip) as = Inr kvs"
    and R': "R = map (\<lambda>(rz, rs). (rz, sorted_set rs)) (fold group_add kvs [])" by metis
  have "map fst R = map fst (fold group_add kvs [])" by (simp add: R' o_def case_prod_beta')
  with rz have "rz \<in> set (map fst kvs)" by (simp add: keys)
  then obtain r where "(rz, r) \<in> set kvs" by auto
  from traverse_memD[OF tr this] obtain ip owner where "rev_of ip = Inr (rz, owner)" by (auto simp: pointer_eq)
  then show ?thesis by (elim rev_of_octets) simp
qed

lemma render_parts_shape:
  assumes "render_parts topo = Inr r"
  shows "\<exists>infra ch cs sh ss rv client_ext svc_ext. infra_by_org topo = Inr infra
    \<and> map_of infra ''client'' = Some (ch, cs) \<and> map_of infra ''service'' = Some (sh, ss)
    \<and> ext_ip cs = Inr client_ext \<and> ext_ip ss = Inr svc_ext \<and> reverse_zones topo = Inr rv
    \<and> rd_client_local r = map zone_decl (CLIENT_ZONE # map fst rv) @ [zone_forward SERVICE_ZONE svc_ext]
    \<and> rd_service_local r = zone_decl SERVICE_ZONE # map (\<lambda>z. zone_forward z client_ext) (CLIENT_ZONE # map fst rv)
    \<and> map fst (rd_zone_files r) = map (\<lambda>z. z @ ''.zone'') (CLIENT_ZONE # SERVICE_ZONE # map fst rv)"
proof -
  from assms obtain infra where infra: "infra_by_org topo = Inr infra" by (auto simp: render_parts_def result_simps)
  show ?thesis
    using assms infra
    by (cases "map_of infra ''client''"; cases "map_of infra ''service''")
      (auto simp: render_parts_def result_simps Let_def o_def case_prod_beta')
qed

section \<open>Properties\<close>

text \<open>C25: forward and reverse name service agree: a name has an address record in some zone exactly when
  the pointer record of that address, in the reverse zone of its /24, names it back, so nothing
  resolves one way only; and every bare host name is an alias of a name that has an address record in
  the same zone.\<close>

theorem dns_forward_reverse:
  assumes "forward_zones topo = Inr F" and "reverse_zones topo = Inr R"
  shows "((\<exists>z rs. map_of F z = Some rs \<and> Record n ''A'' ip \<in> set rs) \<longleftrightarrow>
      (\<exists>rz owner rs. rev_of ip = Inr (rz, owner) \<and> map_of R rz = Some rs \<and> Record owner ''PTR'' n \<in> set rs))
    \<and> (\<forall>z rs h t. map_of F z = Some rs \<and> Record h ''CNAME'' t \<in> set rs \<longrightarrow> (\<exists>a. Record t ''A'' a \<in> set rs))"
proof
  obtain as where as: "addresses topo = Inr as"
    and f: "\<And>n ip. (\<exists>z rs. map_of F z = Some rs \<and> Record n ''A'' ip \<in> set rs) \<longleftrightarrow> (n, ip) \<in> set as"
    using forward_addresses[OF assms(1)] by blast
  note r = reverse_addresses[OF assms(2) as]
  have "(\<exists>rz owner rs. rev_of ip = Inr (rz, owner) \<and> map_of R rz = Some rs \<and> Record owner ''PTR'' n \<in> set rs) \<longleftrightarrow> (n, ip) \<in> set as"
  proof
    assume "\<exists>rz owner rs. rev_of ip = Inr (rz, owner) \<and> map_of R rz = Some rs \<and> Record owner ''PTR'' n \<in> set rs"
    then obtain rz owner where rev: "rev_of ip = Inr (rz, owner)" and "\<exists>rs. map_of R rz = Some rs \<and> Record owner ''PTR'' n \<in> set rs" by blast
    with r(1) obtain ip' where "(n, ip') \<in> set as" "rev_of ip' = Inr (rz, owner)" by blast
    with rev_of_inject[OF rev] show "(n, ip) \<in> set as" by blast
  next
    assume mem: "(n, ip) \<in> set as"
    with r(2) obtain rz owner where "rev_of ip = Inr (rz, owner)" by blast
    with mem r(1)[of rz owner n] show "\<exists>rz owner rs. rev_of ip = Inr (rz, owner) \<and> map_of R rz = Some rs \<and> Record owner ''PTR'' n \<in> set rs"
      by blast
  qed
  with f show "(\<exists>z rs. map_of F z = Some rs \<and> Record n ''A'' ip \<in> set rs) \<longleftrightarrow>
      (\<exists>rz owner rs. rev_of ip = Inr (rz, owner) \<and> map_of R rz = Some rs \<and> Record owner ''PTR'' n \<in> set rs)" by blast
next
  from forward_parts[OF assms(1)] obtain ns parts vs where ns: "zoned_nodes topo = Inr ns" and "vips topo = Inr vs"
    and parts: "traverse (\<lambda>(h, sp, z). rbind (node_forward h sp z) (\<lambda>rs. Inr (z, rs))) ns = Inr parts"
    and F: "F = [(CLIENT_ZONE, zone_records parts vs CLIENT_ZONE), (SERVICE_ZONE, zone_records parts vs SERVICE_ZONE)]" .
  have "\<exists>a. Record t ''A'' a \<in> set (zone_records parts vs z)" if "Record h ''CNAME'' t \<in> set (zone_records parts vs z)" for z h t
  proof -
    from that obtain rs where rs: "(z, rs) \<in> set parts" "Record h ''CNAME'' t \<in> set rs" by (auto simp: in_zone_records)
    from part_zone[OF ns parts rs(1)] obtain h' sp where "node_forward h' sp z = Inr rs" by metis
    then obtain as primary where rs': "rs = map (\<lambda>(n, ip). Record n ''A'' ip) as @ [Record (h' @ ''.'' @ z) ''CNAME'' (iface_name h' z primary)]"
      and mem: "iface_name h' z primary \<in> fst ` set as" by (rule node_forward_parts)
    from rs(2) have "t = iface_name h' z primary" by (auto simp: rs')
    with mem obtain a where "(t, a) \<in> set as" by auto
    then have "Record t ''A'' a \<in> set rs" by (auto simp: rs')
    with rs(1) show ?thesis by (auto simp: in_zone_records)
  qed
  then show "\<forall>z rs h t. map_of F z = Some rs \<and> Record h ''CNAME'' t \<in> set rs \<longrightarrow> (\<exists>a. Record t ''A'' a \<in> set rs)"
    by (auto simp: F split: if_splits)
qed

definition sample_dns :: pyval where
  "sample_dns = PDict
     [(PStr ''nodes'', PDict
        [(PStr ''pcmk-a1'', PDict [(PStr ''nics'', PDict [(PStr ''net-mgmt'', PStr ''10.50.0.11''), (PStr ''net-data-a'', PStr ''10.10.1.11'')])]),
         (PStr ''infra-client'', PDict [(PStr ''nics'', PDict [(PStr ''net-data-a'', PStr ''10.10.1.5''), (PStr ''net-ext'', PStr ''10.99.0.5'')])]),
         (PStr ''infra-svc'', PDict [(PStr ''org'', PStr ''service''), (PStr ''nics'', PDict [(PStr ''net-ext'', PStr ''10.99.0.6'')])])]),
      (PStr ''groups'', PDict [(PStr ''infra'', PList [PStr ''infra-client'', PStr ''infra-svc''])]),
      (PStr ''stacks'', PDict [(PStr ''pcmk'', PDict [(PStr ''short'', PStr ''PCMK''), (PStr ''qm'', PDict [(PStr ''vip'', PStr ''10.10.1.100'')])])])]"

theorem dns_forward_reverse_witness:
  "\<exists>F R. forward_zones sample_dns = Inr F \<and> reverse_zones sample_dns = Inr R
     \<and> (\<exists>z rs. map_of F z = Some rs \<and> Record ''pcmk-vip-a.client.com'' ''A'' ''10.10.1.100'' \<in> set rs)
     \<and> (\<exists>rz owner rs. rev_of ''10.10.1.100'' = Inr (rz, owner) \<and> map_of R rz = Some rs \<and> Record owner ''PTR'' ''pcmk-vip-a.client.com'' \<in> set rs)"
proof -
  have ev: "(case forward_zones sample_dns of Inl e \<Rightarrow> False
     | Inr F \<Rightarrow> (case map_of F ''client.com'' of None \<Rightarrow> False | Some rs \<Rightarrow> Record ''pcmk-vip-a.client.com'' ''A'' ''10.10.1.100'' \<in> set rs))"
    by code_simp
  have "\<not> isl (reverse_zones sample_dns)" by code_simp
  then obtain R where R: "reverse_zones sample_dns = Inr R" by (meson not_isl_Inr)
  from ev obtain F rs where F: "forward_zones sample_dns = Inr F" "map_of F ''client.com'' = Some rs"
    "Record ''pcmk-vip-a.client.com'' ''A'' ''10.10.1.100'' \<in> set rs" by (auto split: sum.splits option.splits)
  with dns_forward_reverse[OF F(1) R, of "''pcmk-vip-a.client.com''" "''10.10.1.100''"] R show ?thesis by blast
qed

text \<open>Each zone is served by one name server and reachable from the other: the service zone is mastered
  by the service organisation's server alone, every other zone that has a file by the client
  organisation's alone, and the other server forwards that zone to its master's address on the link
  between the organisations.\<close>

theorem zones_delegated:
  assumes "render_parts topo = Inr r" and "(z @ ''.zone'', body) \<in> set (rd_zone_files r)"
  shows "\<exists>infra ch cs sh ss client_ext svc_ext. infra_by_org topo = Inr infra
    \<and> map_of infra ''client'' = Some (ch, cs) \<and> map_of infra ''service'' = Some (sh, ss)
    \<and> ext_ip cs = Inr client_ext \<and> ext_ip ss = Inr svc_ext
    \<and> (if z = SERVICE_ZONE
       then zone_decl z \<in> set (rd_service_local r) \<and> zone_decl z \<notin> set (rd_client_local r)
         \<and> zone_forward z svc_ext \<in> set (rd_client_local r)
       else zone_decl z \<in> set (rd_client_local r) \<and> zone_decl z \<notin> set (rd_service_local r)
         \<and> zone_forward z client_ext \<in> set (rd_service_local r))"
proof -
  from render_parts_shape[OF assms(1)] obtain infra ch cs sh ss rv client_ext svc_ext
    where infra: "infra_by_org topo = Inr infra" "map_of infra ''client'' = Some (ch, cs)" "map_of infra ''service'' = Some (sh, ss)"
      "ext_ip cs = Inr client_ext" "ext_ip ss = Inr svc_ext" and rv: "reverse_zones topo = Inr rv"
    and cl: "rd_client_local r = map zone_decl (CLIENT_ZONE # map fst rv) @ [zone_forward SERVICE_ZONE svc_ext]"
    and sl: "rd_service_local r = zone_decl SERVICE_ZONE # map (\<lambda>z. zone_forward z client_ext) (CLIENT_ZONE # map fst rv)"
    and files: "map fst (rd_zone_files r) = map (\<lambda>z. z @ ''.zone'') (CLIENT_ZONE # SERVICE_ZONE # map fst rv)" by metis
  have "z @ ''.zone'' \<in> set (map fst (rd_zone_files r))" using assms(2) by force
  then have z: "z = CLIENT_ZONE \<or> z = SERVICE_ZONE \<or> z \<in> set (map fst rv)" by (auto simp: files)
  have service: "SERVICE_ZONE \<notin> set (CLIENT_ZONE # map fst rv)"
    using reverse_zone_names[OF rv, of SERVICE_ZONE] zones_differ by (auto simp: SERVICE_ZONE_def)
  show ?thesis
  proof (cases "z = SERVICE_ZONE")
    case True
    have "zone_decl SERVICE_ZONE \<notin> set (rd_client_local r)"
      using service by (force simp: cl zone_decl_inject zone_decl_not_forward)
    with True infra show ?thesis by (auto simp: cl sl)
  next
    case False
    then have "zone_decl z \<notin> set (rd_service_local r)" by (auto simp: sl zone_decl_inject zone_decl_not_forward)
    with False z infra show ?thesis by (auto simp: cl sl)
  qed
qed

theorem zones_delegated_witness:
  "\<exists>r. render_parts sample_dns = Inr r \<and> zone_decl CLIENT_ZONE \<in> set (rd_client_local r)
     \<and> zone_decl CLIENT_ZONE \<notin> set (rd_service_local r) \<and> zone_forward CLIENT_ZONE ''10.99.0.5'' \<in> set (rd_service_local r)"
proof -
  have ev: "(case render_parts sample_dns of Inl e \<Rightarrow> False
     | Inr r \<Rightarrow> map fst (rd_zone_files r) = [''client.com.zone'', ''service.com.zone'', ''0.50.10.in-addr.arpa.zone'', ''1.10.10.in-addr.arpa.zone'', ''0.99.10.in-addr.arpa.zone''])"
    by code_simp
  then obtain r where r: "render_parts sample_dns = Inr r" by (auto split: sum.splits)
  with ev have "CLIENT_ZONE @ ''.zone'' \<in> fst ` set (rd_zone_files r)"
    by (auto simp: CLIENT_ZONE_def simp flip: set_map)
  then obtain body where t: "(CLIENT_ZONE @ ''.zone'', body) \<in> set (rd_zone_files r)" by auto
  have "(case infra_by_org sample_dns of Inl e \<Rightarrow> False
     | Inr infra \<Rightarrow> (case map_of infra ''client'' of None \<Rightarrow> False | Some (h, sp) \<Rightarrow> ext_ip sp = Inr ''10.99.0.5''))" by code_simp
  with zones_delegated[OF r t] zones_differ r show ?thesis by (auto split: sum.splits option.splits)
qed

text \<open>A host asks itself when it is a name server, and otherwise its own organisation's name server, at an
  address on a plane both are attached to.\<close>

lemma resolver_sound:
  assumes "resolver_ip infra host spec = Inr ip"
  shows "host \<in> (fst \<circ> snd) ` set infra \<and> ip = ''127.0.0.1''
    \<or> (\<exists>org ih isp hn inn p v. org_of spec = Inr org \<and> map_of infra org = Some (ih, isp)
         \<and> nic_items spec = Inr hn \<and> nic_items isp = Inr inn \<and> p \<in> set RESOLVER_ORDER
         \<and> map_of hn (PStr p) \<noteq> None \<and> map_of inn (PStr p) = Some v \<and> to_str v = Inr ip)"
proof (cases "host \<in> set (map (fst \<circ> snd) infra)")
  case True
  with assms show ?thesis by (simp add: resolver_ip_def)
next
  case False
  with assms obtain org where org: "org_of spec = Inr org" by (auto simp: resolver_ip_def result_simps)
  with assms False obtain ih isp where i: "map_of infra org = Some (ih, isp)"
    by (cases "map_of infra org") (auto simp: resolver_ip_def result_simps)
  from assms False org i obtain hn inn where n: "nic_items spec = Inr hn" "nic_items isp = Inr inn"
    by (auto simp: resolver_ip_def result_simps)
  with assms False org i obtain p where p: "find (\<lambda>p. map_of hn (PStr p) \<noteq> None \<and> map_of inn (PStr p) \<noteq> None) RESOLVER_ORDER = Some p"
    and ip: "to_str (the (map_of inn (PStr p))) = Inr ip"
    by (cases "find (\<lambda>p. map_of hn (PStr p) \<noteq> None \<and> map_of inn (PStr p) \<noteq> None) RESOLVER_ORDER") (auto simp: resolver_ip_def)
  from p have "p \<in> set RESOLVER_ORDER" "map_of hn (PStr p) \<noteq> None" "map_of inn (PStr p) \<noteq> None"
    by (auto simp: find_Some_iff)
  with org i n ip show ?thesis by auto
qed

end
