(* ===== verification/Box_GC.thy ===== *)
theory Box_GC
  imports Boxes DNS "HOL-Library.Multiset"
begin

text \<open>
  Cleaning of the box layer (\<open>mqlab/box.py\<close>, with the names of \<open>mqlab/retired_boxes.py\<close>): the rename of
  legacy cache files, the removal of boxes and of retired names, the reclaiming of orphaned base
  images from the storage pool, and the removal of boxes no catalogue selection resolves to.

  The pool, the registered boxes and the deletions go through commands of the environment; the
  registered images of Vagrant are files of the store, with their modification times an argument.
\<close>

section \<open>Retired names and the cache\<close>

definition RETIRED_BOX_NAMES :: "string list" where
  "RETIRED_BOX_NAMES = [''obs-ubuntu2404'', ''infra-ubuntu2404'', ''mq-ubuntu2404'', ''mq-nativeha-ubuntu'', ''pcmk-ubuntu'',
     ''rhel/9.6-x86_64'']"

definition RETIRED_BASE_ARTIFACTS :: "(string \<times> string \<times> string) list" where
  "RETIRED_BASE_ARTIFACTS = [(''rhel/9.6-x86_64'', ''rhel-9.6-x86_64-libvirt.box'', ''rhel/9-x86_64'')]"

text \<open>The renames, in the order tried.\<close>

definition cache_moves :: "BoxEnv \<Rightarrow> (string \<times> string) list" where
  "cache_moves env =
     concat (map (\<lambda>(_, spec). if bx_has_manifest_hash spec then
         [(bx_name spec @ ''.box'', bx_name spec @ ''-x86_64.box''),
          (bx_name spec @ ''.manifest-hash'', bx_name spec @ ''-x86_64.manifest-hash'')] else []) (be_fleet env))
     @ map (\<lambda>(_, legacy, new_box). (legacy, base_cache_artifact new_box)) RETIRED_BASE_ARTIFACTS"

definition exists_path :: "files \<Rightarrow> string \<Rightarrow> bool" where
  "exists_path fs p \<longleftrightarrow> is_file fs p \<or> dir_there p fs"

definition migrate_one :: "string \<Rightarrow> bool \<Rightarrow> string \<times> string \<Rightarrow> (string \<times> string) list box_op" where
  "migrate_one dir dry_run mv = (case mv of (legacy, new) \<Rightarrow>
     let src = dir @ ''/'' @ legacy; dst = dir @ ''/'' @ new in
     op_bind (op_get cm_files) (\<lambda>fs.
     if is_file fs src \<and> \<not> exists_path fs dst
     then op_bind (op_when (\<not> dry_run) (files_op (move_file src dst))) (\<lambda>_. op_return [(src, dst)])
     else op_return []))"

definition migrate_box_cache :: "BoxEnv \<Rightarrow> bool \<Rightarrow> (string \<times> string) list box_op" where
  "migrate_box_cache env dry_run =
     op_bind (op_each (migrate_one (boxes_cache_dir env) dry_run) (cache_moves env)) (\<lambda>rss. op_return (concat rss))"

definition vagrant_box_remove :: "BoxEnv \<Rightarrow> string \<Rightarrow> unit box_op" where
  "vagrant_box_remove env name =
     op_bind (run_box env (lab_command env [''vagrant'', ''box'', ''remove'', name])) (\<lambda>(rc, ls).
     op_guard (rc = 0 \<or> sublist ''not installed'' (py_lower (str_join [CHR 0x0A] ls))) (Exit rc))"

definition unlink_if_file :: "string \<Rightarrow> bool \<Rightarrow> string list box_op" where
  "unlink_if_file p dry_run =
     op_bind (op_get (\<lambda>s. is_file (cm_files s) p)) (\<lambda>there.
     if there then op_bind (op_when (\<not> dry_run) (files_op (unlink p))) (\<lambda>_. op_return [p]) else op_return [])"

definition clean_box :: "BoxEnv \<Rightarrow> string \<Rightarrow> string list box_op" where
  "clean_box env name =
     op_bind (fleet_spec env name) (\<lambda>spec.
     op_bind (op_each (\<lambda>f. unlink_if_file (boxes_cache_dir env @ ''/'' @ f) False)
        (bx_cache_artifact spec # (if bx_has_manifest_hash spec
           then [manifest_hash_artifact spec, components_record_artifact spec] else []))) (\<lambda>rss.
     op_bind (vagrant_box_remove env name) (\<lambda>_.
     op_return (concat rss @ [''vagrant box '' @ [CHR 0x27] @ name @ [CHR 0x27]]))))"

definition clean_boxes :: "BoxEnv \<Rightarrow> string list \<Rightarrow> string list box_op" where
  "clean_boxes env names = op_bind (op_each (clean_box env) names) (\<lambda>rss. op_return (concat rss))"

text \<open>\<open>mqlab box clean\<close>: the whole fleet needs a confirmation.\<close>

definition box_clean :: "BoxEnv \<Rightarrow> string list \<Rightarrow> bool \<Rightarrow> bool \<Rightarrow> string list box_op" where
  "box_clean env names every yes =
     op_bind (op_guard (\<not> (every \<and> \<not> yes)) (Exit 2)) (\<lambda>_.
     op_bind (select_boxes env names every) (clean_boxes env))"

definition clean_retired :: "BoxEnv \<Rightarrow> bool \<Rightarrow> string list box_op" where
  "clean_retired env dry_run =
     op_bind (registered_boxes env) (\<lambda>registered.
     let retired = filter (\<lambda>n. map_of registered n \<noteq> None) RETIRED_BOX_NAMES in
     op_bind (op_when (\<not> dry_run) (op_bind (op_each (vagrant_box_remove env) retired) (\<lambda>_. op_return ()))) (\<lambda>_.
     op_return retired))"

definition retired_files :: "string list" where
  "retired_files = concat (map (\<lambda>name.
     if map_of RETIRED_BASE_ARTIFACTS name \<noteq> None then []
     else concat (map (\<lambda>stem. map (\<lambda>sfx. stem @ sfx) [''.box'', ''.manifest-hash''])
            (name # map (\<lambda>arch. name @ ''-'' @ arch) HOST_ARCHES))) RETIRED_BOX_NAMES)"

definition clean_retired_cache :: "BoxEnv \<Rightarrow> bool \<Rightarrow> string list box_op" where
  "clean_retired_cache env dry_run =
     op_bind (op_each (\<lambda>f. unlink_if_file (boxes_cache_dir env @ ''/'' @ f) dry_run) retired_files) (\<lambda>rss.
     op_return (concat rss))"

text \<open>\<open>name.replace("/", "-VAGRANTSLASH-")\<close>.\<close>

definition volume_stem :: "string \<Rightarrow> string" where
  "volume_stem name = concat (map (\<lambda>c. if c = CHR ''/'' then ''-VAGRANTSLASH-'' else [c]) name)"

definition retired_volume_stems :: "string list" where
  "retired_volume_stems = map volume_stem RETIRED_BOX_NAMES"

section \<open>The storage pool\<close>

definition IMAGE_MARK :: string where
  "IMAGE_MARK = ''_vagrant_box_image_0_''"

text \<open>\<open>^(?P<stem>.+)_vagrant_box_image_0_(?P<ts>\d+)_box\.img$\<close> on a name of one line: the digits are the last
  run of digits before the ending, and the stem is what is left of the marker.\<close>

definition box_image :: "string \<Rightarrow> (string \<times> string) option" where
  "box_image n =
     (if \<not> suffix ''_box.img'' n then None
      else let r = take (length n - 8) n; ts = rev (takeWhile is_digit (rev r)); q = take (length r - length ts) r in
        if ts \<noteq> [] \<and> suffix IMAGE_MARK q \<and> length IMAGE_MARK < length q
        then Some (take (length q - length IMAGE_MARK) q, ts) else None)"

definition current_name :: "string \<Rightarrow> int \<Rightarrow> string" where
  "current_name stem mtime = stem @ IMAGE_MARK @ int_str mtime @ ''_box.img''"

text \<open>Stem and base volumes of every registered box without a version.\<close>

definition current_box_volumes :: "string \<Rightarrow> (string \<Rightarrow> int) \<Rightarrow> files \<Rightarrow> (string \<times> string list) list" where
  "current_box_volumes boxes_dir mtime fs =
     fold group_add (concat (map (\<lambda>stem.
       map (\<lambda>p. (stem, current_name stem (mtime p)))
         (filter (\<lambda>p. below (boxes_dir @ ''/'' @ stem @ ''/0'') p \<and> path_base p = ''box.img''
            \<and> path_base (path_parent p) = ''libvirt'') (sort (map fst fs)))) (dir_names boxes_dir fs))) []"

definition virsh :: "string list \<Rightarrow> Command" where
  "virsh args = \<lparr>argv = [''virsh'', ''-c'', ''qemu:///system''] @ args, cwd = None, cmd_env = None\<rparr>"

definition virsh_run :: "BoxEnv \<Rightarrow> string list \<Rightarrow> (int \<times> string) box_op" where
  "virsh_run env args = op_bind (run_box env (virsh args)) (\<lambda>(rc, ls). op_return (rc, str_join [CHR 0x0A] ls))"

definition VOLUME_VANISHED_MARKERS :: "string list" where
  "VOLUME_VANISHED_MARKERS = [''storage volume not found'', ''no storage vol with matching'']"

definition POOL_ABSENT_MARKERS :: "string list" where
  "POOL_ABSENT_MARKERS = [''storage pool not found'', ''no storage pool with matching name'']"

definition has_marker :: "string list \<Rightarrow> string \<Rightarrow> bool" where
  "has_marker markers out \<longleftrightarrow> list_ex (\<lambda>m. sublist m (py_lower out)) markers"

definition volume_line :: "string \<Rightarrow> string option" where
  "volume_line raw =
     (let line = py_strip raw in
      if line = [] \<or> prefix ''Name'' line \<or> set line \<subseteq> {CHR ''-''} then None else Some (hd (split_ws line)))"

definition pool_volume_names :: "BoxEnv \<Rightarrow> string \<Rightarrow> string list box_op" where
  "pool_volume_names env pool =
     op_bind (virsh_run env [''vol-list'', ''--pool'', pool]) (\<lambda>(rc, out).
     op_bind (op_guard (rc = 0) (if has_marker POOL_ABSENT_MARKERS out then PoolAbsent else RuntimeErr ''vol-list failed'')) (\<lambda>_.
     op_return (List.map_filter volume_line (splitlines out))))"

text \<open>The first place where \<open>pre\<close>, a non-empty run of allowed characters and \<open>post\<close> follow one another: the run.\<close>

fun search_between :: "string \<Rightarrow> (char \<Rightarrow> bool) \<Rightarrow> string \<Rightarrow> string \<Rightarrow> string option" where
  "search_between pre ok post [] = None"
| "search_between pre ok post (c # s) =
     (let rest = drop (length pre) (c # s); run = takeWhile ok rest in
      if prefix pre (c # s) \<and> run \<noteq> [] \<and> prefix post (drop (length run) rest) then Some run
      else search_between pre ok post s)"

definition allocation :: "string \<Rightarrow> (py_error, int) result" where
  "allocation xml =
     (case search_between (''<allocation unit='' @ [CHR 0x27] @ ''bytes'' @ [CHR 0x27] @ ''>'') is_digit ''</allocation>'' xml of
        None \<Rightarrow> Inr 0 | Some ds \<Rightarrow> to_int (PStr ds))"

definition backing :: "string \<Rightarrow> string option" where
  "backing xml =
     (case find_sub ''<backingStore>'' xml of
        None \<Rightarrow> None
      | Some i \<Rightarrow> map_option (\<lambda>p. path_base (rstrip_when (\<lambda>c. c = CHR ''/'') (py_strip p)))
          (search_between ''<path>'' (\<lambda>c. c \<noteq> CHR ''<'') ''</path>'' (drop (i + length ''<backingStore>'') xml)))"

definition vol_detail :: "BoxEnv \<Rightarrow> string \<Rightarrow> string \<Rightarrow> (int \<times> string option) box_op" where
  "vol_detail env pool name =
     op_bind (virsh_run env [''vol-dumpxml'', name, ''--pool'', pool]) (\<lambda>(rc, xml).
     op_bind (op_guard (rc = 0) (if has_marker VOLUME_VANISHED_MARKERS xml then VolumeVanished else RuntimeErr ''vol-dumpxml failed'')) (\<lambda>_.
     op_bind (op_lift BoxRaised (allocation xml)) (\<lambda>alloc. op_return (alloc, backing xml))))"

definition vol_delete :: "BoxEnv \<Rightarrow> string \<Rightarrow> string \<Rightarrow> unit box_op" where
  "vol_delete env pool name =
     op_bind (virsh_run env [''vol-delete'', name, ''--pool'', pool]) (\<lambda>(rc, out).
     op_guard (rc = 0 \<or> has_marker [''not found'', ''no storage vol''] out) (RuntimeErr ''vol-delete failed''))"

record PoolScan =
  ps_names :: "string list"
  ps_alloc :: "(string \<times> int) list"
  ps_in_use :: "string list"
  ps_vanished :: "string list"

definition scan_volume :: "BoxEnv \<Rightarrow> string \<Rightarrow> string \<Rightarrow> (int \<times> string option) option box_op" where
  "scan_volume env pool name =
     op_catch (op_bind (vol_detail env pool name) (\<lambda>d. op_return (Some d)))
       (\<lambda>e. if e = VolumeVanished then op_return None else op_raise e)"

definition scan_add :: "string \<times> (int \<times> string option) option \<Rightarrow> PoolScan \<Rightarrow> PoolScan" where
  "scan_add nd p = (case nd of
     (n, None) \<Rightarrow> p\<lparr>ps_vanished := ps_vanished p @ [n]\<rparr>
   | (n, Some (alloc, back)) \<Rightarrow>
       p\<lparr>ps_names := ps_names p @ [n], ps_alloc := AList.update n alloc (ps_alloc p),
         ps_in_use := (case back of None \<Rightarrow> ps_in_use p | Some b \<Rightarrow> if b \<noteq> [] then add_new b (ps_in_use p) else ps_in_use p)\<rparr>)"

definition scan_pool :: "BoxEnv \<Rightarrow> string \<Rightarrow> PoolScan box_op" where
  "scan_pool env pool =
     op_bind (pool_volume_names env pool) (\<lambda>names.
     op_bind (op_each (scan_volume env pool) names) (\<lambda>ds.
     op_return (fold scan_add (zip names ds) \<lparr>ps_names = [], ps_alloc = [], ps_in_use = [], ps_vanished = []\<rparr>)))"

definition image_entry :: "string \<Rightarrow> (py_error, (string \<times> int \<times> string) list) result" where
  "image_entry n = (case box_image n of None \<Rightarrow> Inr []
     | Some (stem, ts) \<Rightarrow> rbind (to_int (PStr ts)) (\<lambda>t. Inr [(stem, t, n)]))"

definition box_images :: "PoolScan \<Rightarrow> (py_error, (string \<times> (int \<times> string) list) list) result" where
  "box_images p = rbind (traverse image_entry (ps_names p)) (\<lambda>ess. Inr (fold group_add (concat ess) []))"

definition in_use_stems :: "PoolScan \<Rightarrow> string list" where
  "in_use_stems p = map fst (List.map_filter box_image (ps_in_use p))"

section \<open>Reclaiming orphaned images\<close>

record GcResult =
  gr_deleted :: "string list"
  gr_freed :: int
  gr_kept :: "string list"
  gr_skipped :: "string list"
  gr_dry_run :: bool
  gr_vanished :: "string list"
  gr_absent_pool :: "string option"

definition gc_keep ::
  "(string \<times> string list) list \<Rightarrow> string list \<Rightarrow> string \<Rightarrow> (int \<times> string) list \<Rightarrow> string list" where
  "gc_keep reg dead stem images =
     (if List.member dead stem then []
      else case map_of reg stem of
        Some vs \<Rightarrow> filter (List.member vs) (map snd images)
      | None \<Rightarrow> [snd (last images)])"

datatype verdict = Kept string | Skipped string | Deleted string

definition gc_image :: "BoxEnv \<Rightarrow> string \<Rightarrow> bool \<Rightarrow> string list \<Rightarrow> string list \<Rightarrow> int \<times> string \<Rightarrow> verdict box_op" where
  "gc_image env pool dry_run in_use keep img = (case img of (ts, name) \<Rightarrow>
     if List.member keep name then op_return (Kept name)
     else if List.member in_use name then op_return (Skipped name)
     else op_bind (op_when (\<not> dry_run) (vol_delete env pool name)) (\<lambda>_. op_return (Deleted name)))"

definition gc_stem ::
  "BoxEnv \<Rightarrow> string \<Rightarrow> bool \<Rightarrow> (string \<times> string list) list \<Rightarrow> string list \<Rightarrow> string list
     \<Rightarrow> string \<times> (int \<times> string) list \<Rightarrow> verdict list box_op" where
  "gc_stem env pool dry_run reg dead in_use si = (case si of (stem, imgs) \<Rightarrow>
     let images = sort imgs in
     op_each (gc_image env pool dry_run in_use (gc_keep reg dead stem images)) images)"

definition deleted_of :: "verdict list \<Rightarrow> string list" where
  "deleted_of vs = List.map_filter (\<lambda>v. case v of Deleted n \<Rightarrow> Some n | _ \<Rightarrow> None) vs"

definition kept_of :: "verdict list \<Rightarrow> string list" where
  "kept_of vs = List.map_filter (\<lambda>v. case v of Kept n \<Rightarrow> Some n | _ \<Rightarrow> None) vs"

definition skipped_of :: "verdict list \<Rightarrow> string list" where
  "skipped_of vs = List.map_filter (\<lambda>v. case v of Skipped n \<Rightarrow> Some n | _ \<Rightarrow> None) vs"

definition gc_absent :: "bool \<Rightarrow> string \<Rightarrow> GcResult" where
  "gc_absent dry_run pool = \<lparr>gr_deleted = [], gr_freed = 0, gr_kept = [], gr_skipped = [], gr_dry_run = dry_run,
     gr_vanished = [], gr_absent_pool = Some pool\<rparr>"

definition gc_scanned ::
  "BoxEnv \<Rightarrow> string \<Rightarrow> bool \<Rightarrow> (string \<times> string list) list \<Rightarrow> string list \<Rightarrow> PoolScan \<Rightarrow> GcResult box_op" where
  "gc_scanned env pool dry_run reg dead scan =
     op_bind (op_lift BoxRaised (box_images scan)) (\<lambda>groups.
     op_bind (op_each (gc_stem env pool dry_run reg dead (ps_in_use scan)) (sort_key fst groups)) (\<lambda>vss.
     let deleted = deleted_of (concat vss) in
     op_return \<lparr>gr_deleted = deleted,
       gr_freed = sum_list (map (\<lambda>n. case map_of (ps_alloc scan) n of None \<Rightarrow> 0 | Some a \<Rightarrow> a) deleted),
       gr_kept = kept_of (concat vss), gr_skipped = skipped_of (concat vss), gr_dry_run = dry_run,
       gr_vanished = ps_vanished scan, gr_absent_pool = None\<rparr>))"

definition gc_orphaned_images ::
  "BoxEnv \<Rightarrow> string \<Rightarrow> (string \<Rightarrow> int) \<Rightarrow> string \<Rightarrow> bool \<Rightarrow> string list \<Rightarrow> GcResult box_op" where
  "gc_orphaned_images env boxes_dir mtime pool dry_run dead_stems =
     op_bind (op_get (\<lambda>s. current_box_volumes boxes_dir mtime (cm_files s))) (\<lambda>reg.
     op_bind (op_catch (op_bind (scan_pool env pool) (\<lambda>p. op_return (Some p)))
        (\<lambda>e. if e = PoolAbsent then op_return None else op_raise e)) (\<lambda>scan.
     case scan of
       None \<Rightarrow> op_return (gc_absent dry_run pool)
     | Some p \<Rightarrow> gc_scanned env pool dry_run reg (retired_volume_stems @ dead_stems) p))"

text \<open>The automatic hook: a failure is reported, never raised.\<close>

definition gc_best_effort :: "BoxEnv \<Rightarrow> string \<Rightarrow> (string \<Rightarrow> int) \<Rightarrow> GcResult option box_op" where
  "gc_best_effort env boxes_dir mtime =
     op_catch (op_bind (gc_orphaned_images env boxes_dir mtime ''default'' False []) (\<lambda>r. op_return (Some r)))
       (\<lambda>e. op_return None)"

section \<open>Unreferenced boxes\<close>

definition resolvable_box_names ::
  "BoxEnv \<Rightarrow> (string \<times> string list) list \<Rightarrow> (py_error, string list) result" where
  "resolvable_box_names env roles =
     rbind (all_boxes (be_catalog env) None roles) (\<lambda>boxes.
     Inr (map b_name boxes @ map (oe_base_box \<circ> snd) (c_oses (be_catalog env)) @ map fst (be_fleet env)))"

text \<open>\<open>[a-z]+[0-9]+\<close> with a known family.\<close>

definition os_token_ok :: "string \<Rightarrow> bool" where
  "os_token_ok t = (let f = takeWhile is_lower t in
     f \<noteq> [] \<and> all_in is_digit (drop (length f) t) \<and> map_of FAMILIES f \<noteq> None)"

definition generated_box_name :: "string \<Rightarrow> Catalog \<Rightarrow> bool" where
  "generated_box_name name cat \<longleftrightarrow>
     list_ex (\<lambda>(role, _). prefix (role @ ''-'') name \<and> os_token_ok (drop (length role + 1) name)) (c_roles cat)"

text \<open>The box a cache file \<open><box>-<arch>.<kind>\<close> belongs to, and \<open>Path.stem\<close>.\<close>

definition fat_cache_name :: "string \<Rightarrow> string option" where
  "fat_cache_name f =
     (case find (\<lambda>e. suffix e f \<and> length e < length f)
        (concat (map (\<lambda>arch. map (\<lambda>kind. ''-'' @ arch @ ''.'' @ kind) [''box'', ''manifest-hash'', ''components.json'']) HOST_ARCHES)) of
        None \<Rightarrow> None | Some e \<Rightarrow> Some (take (length f - length e) f))"

definition path_stem :: "string \<Rightarrow> string" where
  "path_stem f =
     (let ext = takeWhile (\<lambda>c. c \<noteq> CHR ''.'') (rev f) in
      if ext = [] \<or> length f \<le> length ext + 1 then f else take (length f - length ext - 1) f)"

record UnreferencedBox =
  ub_name :: string
  ub_registered :: bool
  ub_cache_files :: "string list"
  ub_has_volumes :: bool

record UnreferencedResult =
  ur_removed :: "UnreferencedBox list"
  ur_in_use :: "UnreferencedBox list"
  ur_resolvable :: "string list"
  ur_foreign :: "string list"
  ur_dry_run :: bool

definition dead_stems :: "UnreferencedResult \<Rightarrow> string list" where
  "dead_stems r = map ub_name (ur_removed r)"

text \<open>What the pool says: the stems in use and the generated stems with images.\<close>

definition pool_stems :: "BoxEnv \<Rightarrow> string \<Rightarrow> (string list \<times> string list) box_op" where
  "pool_stems env pool =
     op_catch (op_bind (scan_pool env pool) (\<lambda>p.
        op_bind (op_lift BoxRaised (box_images p)) (\<lambda>groups.
        op_return (in_use_stems p, filter (\<lambda>n. generated_box_name n (be_catalog env)) (map fst groups)))))
       (\<lambda>e. if e = PoolAbsent then op_return ([], []) else op_raise e)"

text \<open>A file of the cache: of a retired box (left to that pass), of a generated box, or foreign.\<close>

datatype cache_file = RetiredFile | BoxFile string string | ForeignFile string

definition classify_file :: "BoxEnv \<Rightarrow> string \<Rightarrow> cache_file" where
  "classify_file env f =
     (let path = boxes_cache_dir env @ ''/'' @ f in
      if (case fat_cache_name f of None \<Rightarrow> False | Some n \<Rightarrow> List.member RETIRED_BOX_NAMES n)
         \<or> List.member RETIRED_BOX_NAMES (path_stem f) then RetiredFile
      else case fat_cache_name f of
        Some n \<Rightarrow> (if generated_box_name n (be_catalog env) then BoxFile n path else ForeignFile path)
      | None \<Rightarrow> ForeignFile path)"

definition cached_files :: "cache_file list \<Rightarrow> (string \<times> string list) list" where
  "cached_files cfs = fold group_add (List.map_filter (\<lambda>c. case c of BoxFile n p \<Rightarrow> Some (n, p) | _ \<Rightarrow> None) cfs) []"

datatype unref_verdict = Resolvable string | InUse UnreferencedBox | Removed UnreferencedBox

definition unref_box ::
  "BoxEnv \<Rightarrow> bool \<Rightarrow> string list \<Rightarrow> string list \<Rightarrow> string list \<Rightarrow> (string \<times> string list) list \<Rightarrow> string list
     \<Rightarrow> string \<Rightarrow> unref_verdict box_op" where
  "unref_box env dry_run protected in_use registered cached pooled name =
     (if List.member protected name then op_return (Resolvable name)
      else
        let fs = (case map_of cached name of None \<Rightarrow> [] | Some ps \<Rightarrow> ps);
            found = \<lparr>ub_name = name, ub_registered = List.member registered name, ub_cache_files = fs,
                     ub_has_volumes = List.member pooled name\<rparr>
        in
        if List.member in_use name then op_return (InUse found)
        else op_bind (op_when (\<not> dry_run)
               (op_bind (op_each (\<lambda>p. files_op (unlink p)) fs) (\<lambda>_.
                op_when (ub_registered found) (vagrant_box_remove env name)))) (\<lambda>_.
             op_return (Removed found)))"

definition unref_registered :: "BoxEnv \<Rightarrow> (string \<times> string) list \<Rightarrow> string list" where
  "unref_registered env boxes = filter (\<lambda>n. generated_box_name n (be_catalog env))
     (filter (\<lambda>n. \<not> List.member RETIRED_BOX_NAMES n) (map fst boxes))"

definition unref_candidates :: "string list \<Rightarrow> (string \<times> string list) list \<Rightarrow> string list \<Rightarrow> string list" where
  "unref_candidates registered cached pooled =
     filter (\<lambda>n. \<not> List.member RETIRED_BOX_NAMES n) (sort (remdups (registered @ map fst cached @ pooled)))"

definition unref_result :: "bool \<Rightarrow> string list \<Rightarrow> unref_verdict list \<Rightarrow> UnreferencedResult" where
  "unref_result dry_run foreign vs =
     \<lparr>ur_removed = List.map_filter (\<lambda>v. case v of Removed b \<Rightarrow> Some b | _ \<Rightarrow> None) vs,
      ur_in_use = List.map_filter (\<lambda>v. case v of InUse b \<Rightarrow> Some b | _ \<Rightarrow> None) vs,
      ur_resolvable = List.map_filter (\<lambda>v. case v of Resolvable n \<Rightarrow> Some n | _ \<Rightarrow> None) vs,
      ur_foreign = sort foreign, ur_dry_run = dry_run\<rparr>"

definition clean_unreferenced ::
  "BoxEnv \<Rightarrow> (string \<times> string list) list \<Rightarrow> string \<Rightarrow> bool \<Rightarrow> UnreferencedResult box_op" where
  "clean_unreferenced env roles pool dry_run =
     op_bind (op_lift BoxRaised (resolvable_box_names env roles)) (\<lambda>protected.
     op_bind (pool_stems env pool) (\<lambda>(in_use, pooled).
     op_bind (registered_boxes env) (\<lambda>boxes.
     let registered = unref_registered env boxes;
         foreign_boxes = filter (\<lambda>n. \<not> generated_box_name n (be_catalog env))
           (filter (\<lambda>n. \<not> List.member RETIRED_BOX_NAMES n) (map fst boxes)) in
     op_bind (op_get (\<lambda>s. filter (\<lambda>f. is_file (cm_files s) (boxes_cache_dir env @ ''/'' @ f))
        (dir_names (boxes_cache_dir env) (cm_files s)))) (\<lambda>files.
     let kinds = map (classify_file env) files; cached = cached_files kinds;
         foreign_files = List.map_filter (\<lambda>c. case c of ForeignFile p \<Rightarrow> Some p | _ \<Rightarrow> None) kinds in
     op_bind (op_each (unref_box env dry_run protected in_use registered cached pooled)
        (unref_candidates registered cached pooled)) (\<lambda>vs.
     op_return (unref_result dry_run (foreign_boxes @ foreign_files) vs))))))"

text \<open>\<open>mqlab box gc\<close>.\<close>

definition box_gc ::
  "BoxEnv \<Rightarrow> (string \<times> string list) list \<Rightarrow> string \<Rightarrow> (string \<Rightarrow> int) \<Rightarrow> bool \<Rightarrow> bool
     \<Rightarrow> (string list \<times> string list \<times> UnreferencedResult option \<times> GcResult) box_op" where
  "box_gc env roles boxes_dir mtime dry_run unreferenced =
     op_bind (clean_retired env dry_run) (\<lambda>retired.
     op_bind (clean_retired_cache env dry_run) (\<lambda>artifacts.
     op_bind (if unreferenced then op_bind (clean_unreferenced env roles ''default'' dry_run) (\<lambda>r. op_return (Some r))
              else op_return None) (\<lambda>unref.
     op_bind (gc_orphaned_images env boxes_dir mtime ''default'' dry_run
        (case unref of None \<Rightarrow> [] | Some r \<Rightarrow> dead_stems r)) (\<lambda>res.
     op_return (retired, artifacts, unref, res)))))"

section \<open>Grouping\<close>

lemma update_same_key:
  "mset (concat (map snd (AList.update k ((case map_of d k of None \<Rightarrow> [] | Some vs \<Rightarrow> vs) @ [v]) d)))
     = add_mset v (mset (concat (map snd d)))"
  by (induction d) auto

lemma group_add_mset:
  "mset (concat (map snd (fold group_add kvs d))) = mset (map snd kvs) + mset (concat (map snd d))"
proof (induction kvs arbitrary: d)
  case (Cons kv kvs)
  from Cons.IH[of "group_add kv d"] update_same_key[of "fst kv" d "snd kv"] show ?case
    by (simp add: group_add_def)
qed simp

lemma group_add_keys: "map fst (fold group_add kvs d) = add_all_new (map fst kvs) (map fst d)"
  by (induction kvs arbitrary: d) (auto simp: group_add_def keys_alist_update add_all_new_def add_new_def)

lemma group_member:
  assumes "(k, vs) \<in> set (fold group_add kvs [])"
  shows "vs = map snd (filter (\<lambda>kv. fst kv = k) kvs) \<and> vs \<noteq> []"
proof -
  have "distinct (map fst (fold group_add kvs []))" by (simp add: group_add_keys)
  with assms have "map_of (fold group_add kvs []) k = Some vs" by simp
  then show ?thesis unfolding group_lookup by (auto split: if_splits)
qed

section \<open>What the reclaiming deletes\<close>

fun verdict_name :: "verdict \<Rightarrow> string" where
  "verdict_name (Kept n) = n"
| "verdict_name (Skipped n) = n"
| "verdict_name (Deleted n) = n"

definition verdict_ok :: "string list \<Rightarrow> string list \<Rightarrow> int \<times> string \<Rightarrow> verdict \<Rightarrow> bool" where
  "verdict_ok in_use keep img v \<longleftrightarrow> verdict_name v = snd img \<and>
     (case v of Kept n \<Rightarrow> n \<in> set keep | Skipped n \<Rightarrow> n \<notin> set keep \<and> n \<in> set in_use
      | Deleted n \<Rightarrow> n \<notin> set keep \<and> n \<notin> set in_use)"

lemma gc_image_ok: "gc_image env pool dry_run in_use keep img u = (Inr v, w) \<Longrightarrow> verdict_ok in_use keep img v"
  by (cases img) (auto simp: gc_image_def verdict_ok_def op_bind_Inr split: if_splits)

lemma verdicts_mset: "mset (deleted_of vs @ kept_of vs @ skipped_of vs) = mset (map verdict_name vs)"
  unfolding deleted_of_def kept_of_def skipped_of_def by (induction vs) (auto simp: List.map_filter_def split: verdict.splits)

text \<open>The deletions issued between two states.\<close>

definition deletes :: "string \<Rightarrow> CompState \<Rightarrow> CompState \<Rightarrow> string list \<Rightarrow> bool" where
  "deletes pool s t names \<longleftrightarrow> (\<exists>cmds. cm_ran t = cm_ran s @ cmds
     \<and> map fst cmds = map (\<lambda>n. virsh [''vol-delete'', n, ''--pool'', pool]) names)"

lemma deletes_refl: "deletes pool s s []"
  by (simp add: deletes_def)

lemma deletes_trans: "deletes pool s t xs \<Longrightarrow> deletes pool t u ys \<Longrightarrow> deletes pool s u (xs @ ys)"
  unfolding deletes_def by (metis append.assoc map_append)

lemma vol_delete_deletes: "vol_delete env pool n s = (Inr u, t) \<Longrightarrow> deletes pool s t [n]"
  by (auto simp: vol_delete_def virsh_run_def run_box_def run_cmd_def op_bind_Inr deletes_def split: prod.splits)

definition issued :: "bool \<Rightarrow> verdict list \<Rightarrow> string list" where
  "issued dry_run vs = (if dry_run then [] else deleted_of vs)"

lemma deleted_of_append [simp]: "deleted_of [] = []" "deleted_of (xs @ ys) = deleted_of xs @ deleted_of ys"
  by (simp_all add: deleted_of_def map_filter_append)

lemma issued_append [simp]: "issued dry_run (xs @ ys) = issued dry_run xs @ issued dry_run ys"
  by (simp add: issued_def)

lemma gc_image_deletes:
  "gc_image env pool dry_run in_use keep img s = (Inr v, t) \<Longrightarrow> deletes pool s t (issued dry_run [v])"
  by (cases img) (auto simp: gc_image_def op_bind_Inr op_when_eq issued_def deleted_of_def List.map_filter_def deletes_refl
    split: if_splits dest: vol_delete_deletes)

lemma each_deletes:
  assumes "op_each f xs s = (Inr yss, t)" and "\<And>x u ys w. x \<in> set xs \<Longrightarrow> f x u = (Inr ys, w) \<Longrightarrow> deletes pool u w (g ys)"
  shows "deletes pool s t (concat (map g yss))"
  using assms
proof (induction xs arbitrary: s yss)
  case (Cons x xs)
  from Cons.prems(1) obtain y u ys where y: "f x s = (Inr y, u)" "op_each f xs u = (Inr ys, t)" "yss = y # ys"
    by (auto simp: op_bind_Inr)
  have "deletes pool u t (concat (map g ys))" by (rule Cons.IH[OF y(2)]) (use Cons.prems(2) in auto)
  with Cons.prems(2)[OF _ y(1)] y(3) show ?case by (auto intro: deletes_trans)
qed (simp add: deletes_refl)

lemma concat_issued: "concat (map (\<lambda>v. issued dry_run [v]) vs) = issued dry_run vs"
proof (induction vs)
  case (Cons v vs)
  then show ?case using issued_append[of dry_run "[v]" vs] by simp
qed (simp add: issued_def deleted_of_def)

lemma gc_stem_deletes:
  assumes "gc_stem env pool dry_run reg dead in_use si s = (Inr vs, t)"
  shows "deletes pool s t (issued dry_run vs)"
proof -
  from assms obtain keep where
    "op_each (gc_image env pool dry_run in_use keep) (sort (snd si)) s = (Inr vs, t)"
    by (cases si) (auto simp: gc_stem_def Let_def)
  then have "deletes pool s t (concat (map (\<lambda>v. issued dry_run [v]) vs))"
    by (rule each_deletes) (rule gc_image_deletes)
  then show ?thesis by (simp add: concat_issued)
qed

lemma gc_stem_ok:
  assumes "gc_stem env pool dry_run reg dead in_use si s = (Inr vs, t)"
  shows "list_all2 (verdict_ok in_use (gc_keep reg dead (fst si) (sort (snd si)))) (sort (snd si)) vs"
proof -
  from assms have "op_each (gc_image env pool dry_run in_use (gc_keep reg dead (fst si) (sort (snd si)))) (sort (snd si)) s = (Inr vs, t)"
    by (cases si) (auto simp: gc_stem_def Let_def)
  from op_each_Inr[OF this] show ?thesis by (rule list_all2_mono) (auto dest: gc_image_ok)
qed

lemma verdicts_names: "list_all2 (verdict_ok in_use keep) images vs \<Longrightarrow> map verdict_name vs = map snd images"
  by (induction rule: list_all2_induct) (auto simp: verdict_ok_def)

lemma concat_names:
  assumes "list_all2 (\<lambda>si vs. map verdict_name vs = map snd (sort (snd si))) groups vss"
  shows "mset (map verdict_name (concat vss)) = image_mset snd (mset (concat (map snd groups)))"
  using assms
proof (induction rule: list_all2_induct)
  case (Cons si groups vs vss)
  have "mset (map verdict_name vs) = image_mset snd (mset (snd si))"
    unfolding Cons.hyps(1) by simp
  with Cons.IH show ?case by simp
qed simp

text \<open>The images of a scan, as stem, time and name.\<close>

definition image_of :: "string \<Rightarrow> int \<Rightarrow> string \<Rightarrow> bool" where
  "image_of stem t n \<longleftrightarrow> (\<exists>ts. box_image n = Some (stem, ts) \<and> to_int (PStr ts) = Inr t)"

lemma entries_exact:
  assumes "traverse image_entry names = Inr ess"
  shows "map (snd \<circ> snd) (concat ess) = filter (\<lambda>n. box_image n \<noteq> None) names
    \<and> (\<forall>(stem, t, n) \<in> set (concat ess). image_of stem t n)"
  using assms
proof (induction names arbitrary: ess)
  case (Cons n names)
  then obtain es rest where e: "image_entry n = Inr es" "traverse image_entry names = Inr rest" "ess = es # rest"
    by (auto simp: rbind_eq_Inr)
  from e(1) consider "box_image n = None" "es = []"
    | stem ts t where "box_image n = Some (stem, ts)" "to_int (PStr ts) = Inr t" "es = [(stem, t, n)]"
    by (auto simp: image_entry_def rbind_eq_Inr simp del: to_int.simps split: option.splits)
  then show ?case
    using Cons.IH[OF e(2)] e(3) by cases (auto simp: image_of_def simp del: to_int.simps)
qed simp

lemma groups_exact:
  assumes "box_images scan = Inr groups"
  shows "image_mset snd (mset (concat (map snd groups))) = mset (filter (\<lambda>n. box_image n \<noteq> None) (ps_names scan))"
    and "(stem, imgs) \<in> set groups \<Longrightarrow> imgs \<noteq> [] \<and> (\<forall>(t, n) \<in> set imgs. image_of stem t n)"
proof -
  from assms obtain ess where e: "traverse image_entry (ps_names scan) = Inr ess" "groups = fold group_add (concat ess) []"
    by (auto simp: box_images_def rbind_eq_Inr)
  have "mset (concat (map snd groups)) = image_mset snd (mset (concat ess))"
    unfolding e(2) group_add_mset by simp
  then have "image_mset snd (mset (concat (map snd groups))) = mset (map (snd \<circ> snd) (concat ess))"
    by (simp only: multiset.map_comp mset_map)
  also have "map (snd \<circ> snd) (concat ess) = filter (\<lambda>n. box_image n \<noteq> None) (ps_names scan)"
    using entries_exact[OF e(1)] by blast
  finally show "image_mset snd (mset (concat (map snd groups))) = mset (filter (\<lambda>n. box_image n \<noteq> None) (ps_names scan))" .
  show "imgs \<noteq> [] \<and> (\<forall>(t, n) \<in> set imgs. image_of stem t n)" if "(stem, imgs) \<in> set groups"
  proof -
    from group_member[OF that[unfolded e(2)]] have m: "imgs = map snd (filter (\<lambda>kv. fst kv = stem) (concat ess))" "imgs \<noteq> []"
      by blast+
    have "image_of stem (fst tn) (snd tn)" if "tn \<in> set imgs" for tn
    proof -
      from that m(1) have "(stem, tn) \<in> set (concat ess)" by auto
      with entries_exact[OF e(1)] show ?thesis by fastforce
    qed
    with m(2) show ?thesis by auto
  qed
qed

text \<open>Why an image may go: its box is dead, its registered box resolves to other volumes, or the box is not
  registered and a newer image of it is kept.\<close>

definition orphaned :: "(string \<times> string list) list \<Rightarrow> string list \<Rightarrow> string list \<Rightarrow> string \<Rightarrow> bool" where
  "orphaned reg dead kept n \<longleftrightarrow> (\<exists>stem t. image_of stem t n \<and> (stem \<in> set dead \<or>
     (case map_of reg stem of
        Some vs \<Rightarrow> n \<notin> set vs
      | None \<Rightarrow> \<exists>t' m. m \<in> set kept \<and> m \<noteq> n \<and> image_of stem t' m \<and> t \<le> t')))"

lemma sort_last_le:
  assumes "(x :: 'a :: linorder) \<in> set xs"
  shows "x \<le> last (sort xs)"
proof -
  from assms have ne: "sort xs \<noteq> []" by (metis empty_iff set_empty set_sort)
  then have "sorted (butlast (sort xs) @ [last (sort xs)])" by (simp add: sorted_sort)
  moreover have "x \<in> set (butlast (sort xs) @ [last (sort xs)])" using assms ne by simp
  ultimately show ?thesis by (auto simp: sorted_append)
qed

lemma verdict_kept:
  assumes "list_all2 (verdict_ok in_use keep) images vs" and "n \<in> snd ` set images" and "n \<in> set keep"
  shows "n \<in> set (kept_of vs)"
proof -
  from assms(2) obtain k where "k < length images" "snd (images ! k) = n" by (auto simp: in_set_conv_nth)
  with assms(1) have k: "k < length vs" "verdict_ok in_use keep (images ! k) (vs ! k)"
    by (auto simp: list_all2_conv_all_nth)
  then have "vs ! k = Kept n"
    using assms(3) \<open>snd (images ! k) = n\<close> by (cases "vs ! k") (auto simp: verdict_ok_def)
  with k(1) have "Kept n \<in> set vs" by (metis nth_mem)
  then show ?thesis by (force simp: kept_of_def List.map_filter_def)
qed

lemma deleted_verdict:
  assumes "list_all2 (verdict_ok in_use keep) images vs" and "n \<in> set (deleted_of vs)"
  shows "n \<in> snd ` set images \<and> n \<notin> set keep \<and> n \<notin> set in_use"
proof -
  from assms(2) have "Deleted n \<in> set vs" by (auto simp: deleted_of_def List.map_filter_def split: verdict.splits)
  then obtain k where "k < length vs" "vs ! k = Deleted n" by (auto simp: in_set_conv_nth)
  with assms(1) have "k < length images" "verdict_ok in_use keep (images ! k) (Deleted n)"
    by (auto simp: list_all2_conv_all_nth)
  then show ?thesis by (force simp: verdict_ok_def)
qed

lemma gc_stem_orphaned:
  assumes "gc_stem env pool dry_run reg dead in_use (stem, imgs) s = (Inr vs, t)"
    and "imgs \<noteq> []" and "\<forall>(t, n) \<in> set imgs. image_of stem t n" and "n \<in> set (deleted_of vs)"
  shows "n \<notin> set in_use \<and> orphaned reg dead (kept_of vs) n"
proof -
  note ok = gc_stem_ok[OF assms(1), simplified]
  from deleted_verdict[OF ok assms(4)] obtain tn where d: "(tn, n) \<in> set imgs" "n \<notin> set (gc_keep reg dead stem (sort imgs))"
      "n \<notin> set in_use" by auto
  have here: "image_of stem tn n" using assms(3) d(1) by auto
  have "orphaned reg dead (kept_of vs) n"
  proof (cases "stem \<in> set dead")
    case False
    show ?thesis
    proof (cases "map_of reg stem")
      case None
      obtain t' m where last: "last (sort imgs) = (t', m)" by fastforce
      have "(t', m) \<in> set imgs" using last assms(2) by (metis last_in_set set_empty set_sort)
      moreover have "(tn, n) \<le> (t', m)" using sort_last_le[OF d(1)] last by simp
      moreover have "m \<in> set (kept_of vs)"
        by (rule verdict_kept[OF ok]) (use calculation(1) None False last in \<open>force simp: gc_keep_def\<close>)+
      moreover have "m \<noteq> n" using d(2) None False last by (simp add: gc_keep_def)
      ultimately show ?thesis
        using here assms(3) None unfolding orphaned_def by (fastforce simp: less_eq_prod_def)
    next
      case (Some vs)
      with d False have "n \<notin> set vs" by (force simp: gc_keep_def)
      with here Some show ?thesis unfolding orphaned_def by force
    qed
  qed (use here in \<open>auto simp: orphaned_def\<close>)
  with d(3) show ?thesis by blast
qed

lemma concat_sorted: "mset (concat (map h (sort_key f xs))) = mset (concat (map h xs))"
proof -
  have "mset (concat (map h ys)) = (\<Sum>y \<in># mset ys. mset (h y))" for ys
    by (induction ys) simp_all
  then show ?thesis by simp
qed

lemma orphaned_mono: "orphaned reg dead kept n \<Longrightarrow> set kept \<subseteq> set kept' \<Longrightarrow> orphaned reg dead kept' n"
  unfolding orphaned_def by (fastforce split: option.splits)

lemma verdicts_concat:
  "set (deleted_of (concat vss)) = (\<Union>vs \<in> set vss. set (deleted_of vs))"
  "set (kept_of (concat vss)) = (\<Union>vs \<in> set vss. set (kept_of vs))"
  by (auto simp: deleted_of_def kept_of_def List.map_filter_def)

definition gc_exact :: "string \<Rightarrow> bool \<Rightarrow> (string \<times> string list) list \<Rightarrow> string list \<Rightarrow> PoolScan \<Rightarrow> GcResult \<Rightarrow> CompState \<Rightarrow> CompState \<Rightarrow> bool" where
  "gc_exact pool dry_run reg dead scan r v t \<longleftrightarrow>
     mset (gr_deleted r @ gr_kept r @ gr_skipped r) = mset (filter (\<lambda>n. box_image n \<noteq> None) (ps_names scan))
     \<and> (\<forall>n \<in> set (gr_deleted r). n \<notin> set (ps_in_use scan) \<and> orphaned reg dead (gr_kept r) n)
     \<and> deletes pool v t (if dry_run then [] else gr_deleted r)"

lemma gc_scanned_exact:
  assumes "gc_scanned env pool dry_run reg dead scan v = (Inr r, t)"
  shows "gc_exact pool dry_run reg dead scan r v t"
proof -
  from assms obtain groups vss where g: "box_images scan = Inr groups"
      and each: "op_each (gc_stem env pool dry_run reg dead (ps_in_use scan)) (sort_key fst groups) v = (Inr vss, t)"
      and r: "gr_deleted r = deleted_of (concat vss)" "gr_kept r = kept_of (concat vss)" "gr_skipped r = skipped_of (concat vss)"
    by (auto simp: gc_scanned_def op_bind_Inr Let_def)
  from op_each_Inr[OF each] have ran: "list_all2 (\<lambda>si vs. \<exists>u w. gc_stem env pool dry_run reg dead (ps_in_use scan) si u = (Inr vs, w))
      (sort_key fst groups) vss" .
  have "list_all2 (\<lambda>si vs. map verdict_name vs = map snd (sort (snd si))) (sort_key fst groups) vss"
    using ran by (rule list_all2_mono) (auto dest!: gc_stem_ok verdicts_names)
  from concat_names[OF this] have "mset (map verdict_name (concat vss)) = image_mset snd (mset (concat (map snd groups)))"
    by (simp only: concat_sorted)
  with groups_exact(1)[OF g] verdicts_mset[of "concat vss"]
  have part: "mset (gr_deleted r @ gr_kept r @ gr_skipped r) = mset (filter (\<lambda>n. box_image n \<noteq> None) (ps_names scan))"
    unfolding r by simp
  have gone: "n \<notin> set (ps_in_use scan) \<and> orphaned reg dead (gr_kept r) n" if "n \<in> set (gr_deleted r)" for n
  proof -
    from that obtain vs where vs: "vs \<in> set vss" "n \<in> set (deleted_of vs)" unfolding r verdicts_concat by blast
    then obtain k where k: "k < length vss" "vss ! k = vs" by (auto simp: in_set_conv_nth)
    obtain stem imgs where si: "sort_key fst groups ! k = (stem, imgs)" by fastforce
    from list_all2_nthD2[OF ran k(1)] si k(2) obtain u w where
      st: "gc_stem env pool dry_run reg dead (ps_in_use scan) (stem, imgs) u = (Inr vs, w)" by auto
    have "sort_key fst groups ! k \<in> set (sort_key fst groups)"
      by (rule nth_mem) (use list_all2_lengthD[OF ran] k(1) in simp)
    then have "(stem, imgs) \<in> set groups" by (simp add: si)
    with gc_stem_orphaned[OF st _ _ vs(2)] groups_exact(2)[OF g, of stem imgs]
    have "n \<notin> set (ps_in_use scan) \<and> orphaned reg dead (kept_of vs) n" by blast
    moreover have "set (kept_of vs) \<subseteq> set (gr_kept r)" unfolding r verdicts_concat using vs(1) by blast
    ultimately show ?thesis using orphaned_mono by blast
  qed
  have "deletes pool v t (concat (map (issued dry_run) vss))"
    using each by (rule each_deletes) (rule gc_stem_deletes)
  moreover have "concat (map (issued dry_run) vss) = (if dry_run then [] else gr_deleted r)"
    unfolding r by (induction vss) (auto simp: issued_def)
  ultimately show ?thesis using part gone unfolding gc_exact_def by auto
qed


section \<open>What the other passes remove\<close>

lemma unref_box_removed:
  assumes "unref_box env dry_run protected in_use registered cached pooled n u = (Inr (Removed b), w)"
  shows "ub_name b = n \<and> n \<notin> set protected \<and> n \<notin> set in_use
    \<and> ub_cache_files b = (case map_of cached n of None \<Rightarrow> [] | Some ps \<Rightarrow> ps)"
  using assms by (auto simp: unref_box_def Let_def op_bind_Inr split: if_splits)

lemma cached_generated:
  assumes "n \<in> fst ` set (cached_files (map (classify_file env) files))"
  shows "generated_box_name n (be_catalog env)"
proof -
  let ?kvs = "List.map_filter (\<lambda>c. case c of BoxFile n p \<Rightarrow> Some (n, p) | _ \<Rightarrow> None) (map (classify_file env) files)"
  have "set (map fst (cached_files (map (classify_file env) files))) = fst ` set ?kvs"
    unfolding cached_files_def group_add_keys by simp
  with assms obtain p where "(n, p) \<in> set ?kvs" by auto
  then obtain f where "classify_file env f = BoxFile n p"
    by (auto simp: List.map_filter_def split: cache_file.splits)
  then show ?thesis by (auto simp: classify_file_def Let_def split: if_splits option.splits)
qed


lemma migrate_one_returns:
  "\<exists>rs t. migrate_one dir dry_run mv s = (Inr rs, t)"
  by (cases mv) (simp add: migrate_one_def Let_def op_bind_def op_get_def op_when_def op_return_def files_op_def op_modify_def)

text \<open>The names of the renames are file names, and none is both a source and a target.\<close>

definition moves_apart :: "(string \<times> string) list \<Rightarrow> bool" where
  "moves_apart moves \<longleftrightarrow> (\<forall>(l, n) \<in> set moves. CHR ''/'' \<notin> set l \<and> CHR ''/'' \<notin> set n \<and> l \<notin> snd ` set moves)"

text \<open>A rename with nothing left to do.\<close>

definition settled :: "string \<Rightarrow> files \<Rightarrow> string \<times> string \<Rightarrow> bool" where
  "settled dir fs mv \<longleftrightarrow> \<not> (is_file fs (dir @ ''/'' @ fst mv) \<and> \<not> exists_path fs (dir @ ''/'' @ snd mv))"

lemma dir_there_iff: "dir_there d fs \<longleftrightarrow> (\<exists>p. below d p \<and> map_of fs p \<noteq> None)"
proof
  assume "dir_there d fs"
  then obtain p c where "(p, c) \<in> set fs" "below d p" by (auto simp: dir_there_def list_ex_iff)
  then show "\<exists>p. below d p \<and> map_of fs p \<noteq> None" by (metis option.distinct(1) weak_map_of_SomeI)
next
  assume "\<exists>p. below d p \<and> map_of fs p \<noteq> None"
  then show "dir_there d fs" by (force simp: dir_there_def list_ex_iff dest: map_of_SomeD)
qed

lemma not_below_name: "CHR ''/'' \<notin> set l \<Longrightarrow> \<not> below (dir @ ''/'' @ n) (dir @ ''/'' @ l)"
  by (auto simp: below_def prefix_def)

lemma settled_rename:
  assumes "settled dir fs (l, n)" and "CHR ''/'' \<notin> set l2" and "l2 \<noteq> n" and "n2 \<noteq> l"
    and "map_of fs (dir @ ''/'' @ l2) = Some c" and "l2 \<noteq> n2"
  shows "settled dir (move_file (dir @ ''/'' @ l2) (dir @ ''/'' @ n2) fs) (l, n)"
proof -
  define fs' where "fs' = move_file (dir @ ''/'' @ l2) (dir @ ''/'' @ n2) fs"
  have look: "map_of fs' q = (if q = dir @ ''/'' @ n2 then Some c else if q = dir @ ''/'' @ l2 then None else map_of fs q)" for q
    unfolding fs'_def using assms(5,6) by (intro map_of_move_file) auto
  have "exists_path fs' (dir @ ''/'' @ n)" if "exists_path fs (dir @ ''/'' @ n)"
    using that assms(3) not_below_name[OF assms(2), of dir n]
    unfolding exists_path_def dir_there_iff is_file_def look by (metis append_Cons append_Nil same_append_eq list.inject option.distinct(1))
  moreover have "is_file fs (dir @ ''/'' @ l)" if "is_file fs' (dir @ ''/'' @ l)"
    using that assms(4) by (auto simp: is_file_def look split: if_splits)
  ultimately show ?thesis using assms(1) unfolding settled_def fs'_def[symmetric] by auto
qed

lemma migrate_one_cases:
  assumes "migrate_one dir False mv s = (Inr rs, t)"
  shows "(rs = [] \<and> t = s \<and> settled dir (cm_files s) mv)
    \<or> (\<exists>c. map_of (cm_files s) (dir @ ''/'' @ fst mv) = Some c \<and> \<not> exists_path (cm_files s) (dir @ ''/'' @ snd mv)
        \<and> rs = [(dir @ ''/'' @ fst mv, dir @ ''/'' @ snd mv)]
        \<and> t = s\<lparr>cm_files := move_file (dir @ ''/'' @ fst mv) (dir @ ''/'' @ snd mv) (cm_files s)\<rparr>)"
  using assms
  by (cases mv) (auto simp: migrate_one_def Let_def op_bind_Inr op_when_eq settled_def is_file_def split: if_splits)

text \<open>What a run of renames does: each content stays or moves along reported renames, no rename overwrites,
  and the renames tried are settled.\<close>

lemma migrate_each:
  assumes "op_each (migrate_one dir False) todo s = (Inr rss, t)" and "moves_apart moves"
    and "set todo \<subseteq> set moves" and "\<And>mv. mv \<in> seen \<Longrightarrow> settled dir (cm_files s) mv" and "seen \<subseteq> set moves"
  shows "(\<forall>mv \<in> seen \<union> set todo. settled dir (cm_files t) mv)
    \<and> (\<forall>p c. map_of (cm_files s) p = Some c \<longrightarrow> (\<exists>q. map_of (cm_files t) q = Some c \<and> (p, q) \<in> (set (concat rss))\<^sup>*))"
  using assms
proof (induction todo arbitrary: s rss seen)
  case (Cons mv todo)
  from Cons.prems(1) obtain rs u rest where
      u: "migrate_one dir False mv s = (Inr rs, u)" "op_each (migrate_one dir False) todo u = (Inr rest, t)" "rss = rs # rest"
    by (auto simp: op_bind_Inr)
  obtain l n where mv: "mv = (l, n)" by fastforce
  have apart: "CHR ''/'' \<notin> set l" "l \<notin> snd ` set moves" "l \<noteq> n"
    using Cons.prems(2,3) mv by (force simp: moves_apart_def)+
  have "(\<forall>m \<in> insert mv seen. settled dir (cm_files u) m)
      \<and> (\<forall>p c. map_of (cm_files s) p = Some c \<longrightarrow> (\<exists>q. map_of (cm_files u) q = Some c \<and> (p, q) \<in> (set rs)\<^sup>*))"
    using migrate_one_cases[OF u(1)]
  proof (elim disjE exE conjE)
    fix c assume c: "map_of (cm_files s) (dir @ ''/'' @ fst mv) = Some c" "\<not> exists_path (cm_files s) (dir @ ''/'' @ snd mv)"
      "rs = [(dir @ ''/'' @ fst mv, dir @ ''/'' @ snd mv)]"
      "u = s\<lparr>cm_files := move_file (dir @ ''/'' @ fst mv) (dir @ ''/'' @ snd mv) (cm_files s)\<rparr>"
    have look: "map_of (cm_files u) q = (if q = dir @ ''/'' @ n then Some c else if q = dir @ ''/'' @ l then None
        else map_of (cm_files s) q)" for q
      using c(1) apart(3) unfolding c(4) mv by (simp add: map_of_move_file)
    have "settled dir (cm_files u) m" if "m \<in> seen" for m
    proof -
      obtain l1 n1 where m: "m = (l1, n1)" by fastforce
      with that Cons.prems(5) have "m \<in> set moves" by auto
      then have "l \<noteq> n1" "n \<noteq> l1" using apart(2) Cons.prems(2,3) mv m by (force simp: moves_apart_def)+
      with settled_rename[OF Cons.prems(4)[OF that, unfolded m] apart(1)] c(1,4) apart(3) m mv show ?thesis by auto
    qed
    moreover have "settled dir (cm_files u) mv" by (simp add: settled_def mv exists_path_def is_file_def look)
    moreover have "\<exists>q. map_of (cm_files u) q = Some d \<and> (p, q) \<in> (set rs)\<^sup>*" if "map_of (cm_files s) p = Some d" for p d
    proof (cases "p = dir @ ''/'' @ l")
      case True
      with that c(1,3) mv show ?thesis by (intro exI[of _ "dir @ ''/'' @ n"]) (auto simp: look)
    next
      case False
      moreover have "p \<noteq> dir @ ''/'' @ n" using that c(2) mv by (auto simp: exists_path_def is_file_def)
      ultimately show ?thesis using that by (intro exI[of _ p]) (auto simp: look)
    qed
    ultimately show ?thesis by blast
  qed (use Cons.prems(4) in auto)
  note step = this
  have "(\<forall>m \<in> insert mv seen \<union> set todo. settled dir (cm_files t) m)
      \<and> (\<forall>p c. map_of (cm_files u) p = Some c \<longrightarrow> (\<exists>q. map_of (cm_files t) q = Some c \<and> (p, q) \<in> (set (concat rest))\<^sup>*))"
    by (rule Cons.IH[OF u(2) Cons.prems(2)]) (use Cons.prems(3,5) step in auto)
  note later = this
  have "(p, r) \<in> (set (concat rss))\<^sup>*" if "(p, q) \<in> (set rs)\<^sup>*" "(q, r) \<in> (set (concat rest))\<^sup>*" for p q r
    using that rtrancl_mono[of "set rs" "set (concat rss)"] rtrancl_mono[of "set (concat rest)" "set (concat rss)"]
    by (auto simp: u(3) intro: rtrancl_trans)
  note chain = this
  have "\<exists>q. map_of (cm_files t) q = Some c \<and> (p, q) \<in> (set (concat rss))\<^sup>*" if "map_of (cm_files s) p = Some c" for p c
  proof -
    from step that obtain q where q: "map_of (cm_files u) q = Some c" "(p, q) \<in> (set rs)\<^sup>*" by blast
    with later obtain r where "map_of (cm_files t) r = Some c" "(q, r) \<in> (set (concat rest))\<^sup>*" by blast
    with q chain show ?thesis by blast
  qed
  with later show ?case by auto
qed auto

lemma settled_no_move:
  assumes "\<forall>mv \<in> set moves. settled dir (cm_files t) mv"
  shows "\<exists>rss. op_each (migrate_one dir False) moves t = (Inr rss, t) \<and> concat rss = []"
  using assms
  by (induction moves) (auto simp: migrate_one_def Let_def op_bind_def op_get_def op_return_def settled_def)

text \<open>C30: The cache migration loses and overwrites nothing: every cached content is afterwards at its old path
  or at the end of reported renames. A second run finds nothing to do and changes nothing.\<close>

theorem cache_migration_safe:
  assumes "moves_apart (cache_moves env)" and "migrate_box_cache env False s = (Inr rs, t)"
  shows "migrate_box_cache env False t = (Inr [], t)
    \<and> (\<forall>p c. map_of (cm_files s) p = Some c \<longrightarrow> (\<exists>q. map_of (cm_files t) q = Some c \<and> (p, q) \<in> (set rs)\<^sup>*))"
proof -
  from assms(2) obtain rss where r: "op_each (migrate_one (boxes_cache_dir env) False) (cache_moves env) s = (Inr rss, t)"
      "rs = concat rss"
    by (auto simp: migrate_box_cache_def op_bind_Inr)
  have m: "(\<forall>mv \<in> {} \<union> set (cache_moves env). settled (boxes_cache_dir env) (cm_files t) mv)
      \<and> (\<forall>p c. map_of (cm_files s) p = Some c \<longrightarrow> (\<exists>q. map_of (cm_files t) q = Some c \<and> (p, q) \<in> (set (concat rss))\<^sup>*))"
    by (rule migrate_each[OF r(1) assms(1)]) auto
  then have "\<forall>mv \<in> set (cache_moves env). settled (boxes_cache_dir env) (cm_files t) mv" by simp
  from settled_no_move[OF this] obtain rss' where
      "op_each (migrate_one (boxes_cache_dir env) False) (cache_moves env) t = (Inr rss', t)" "concat rss' = []" by blast
  with m r(2) show ?thesis by (auto simp: migrate_box_cache_def op_bind_def op_return_def)
qed

section \<open>A sample pool\<close>

definition sample_image :: "string \<Rightarrow> string" where
  "sample_image ts = ''obs-rhel8_vagrant_box_image_0_'' @ ts @ ''_box.img''"

text \<open>Three images of a box that is not registered, the oldest backing a live disk.\<close>

definition sample_virsh :: "Command \<Rightarrow> files \<Rightarrow> int \<times> string list \<times> files" where
  "sample_virsh c fs =
     (0, (case argv c of
            [v, f, q, cmd, pflag, pool] \<Rightarrow> map (\<lambda>n. n @ '' /p'') [sample_image ''1'', sample_image ''2'', sample_image ''3'', ''vm.img'']
          | [v, f, q, cmd, n, pflag, pool] \<Rightarrow>
              if n = ''vm.img'' then [''<backingStore><path>/p/'' @ sample_image ''1'' @ ''</path>''] else []
          | _ \<Rightarrow> [''obs-rhel8 (libvirt, 0)'']), fs)"

definition sample_gc_env :: BoxEnv where
  "sample_gc_env = sample_box_env\<lparr>be_comp := (sample_comp_env 0)\<lparr>ce_run := sample_virsh\<rparr>\<rparr>"

definition sample_gc :: GcResult where
  "sample_gc = \<lparr>gr_deleted = [sample_image ''2''], gr_freed = 0, gr_kept = [sample_image ''3''],
     gr_skipped = [sample_image ''1''], gr_dry_run = False, gr_vanished = [], gr_absent_pool = None\<rparr>"

lemma sample_gc_run:
  "fst (gc_orphaned_images sample_gc_env ''/v'' (\<lambda>_. 0) ''default'' False [] sample_comp_state) = Inr sample_gc"
  by code_simp


definition sample_unused :: UnreferencedBox where
  "sample_unused = \<lparr>ub_name = ''obs-rhel8'', ub_registered = True, ub_cache_files = [], ub_has_volumes = False\<rparr>"

definition sample_registered_env :: BoxEnv where
  "sample_registered_env = sample_gc_env\<lparr>be_comp := (sample_comp_env 0)\<lparr>ce_run := \<lambda>c fs. (case argv c of
       [v, b, l] \<Rightarrow> (0, [''obs-rhel8 (libvirt, 0)'', ''obs-rhel9 (libvirt, 0)''], fs)
     | [v, b, r, n] \<Rightarrow> (0, [], fs) | _ \<Rightarrow> (1, [''Storage pool not found''], fs))\<rparr>\<rparr>"

lemma sample_unref_run:
  "case fst (clean_unreferenced sample_registered_env [] ''default'' False sample_comp_state) of
     Inl e \<Rightarrow> False | Inr r \<Rightarrow> ur_removed r = [sample_unused] \<and> ur_resolvable r = [''obs-rhel9'']"
  by code_simp


definition sample_cache_state :: CompState where
  "sample_cache_state = \<lparr>cm_files = [(''/r/build/state/boxes/obs-rhel9.box'', Text ''img'')], cm_ran = []\<rparr>"

lemma sample_migrates:
  "fst (migrate_box_cache sample_box_env False sample_cache_state)
     = Inr [(''/r/build/state/boxes/obs-rhel9.box'', ''/r/build/state/boxes/obs-rhel9-x86_64.box'')]"
  by code_simp

theorem cache_migration_safe_witness:
  "\<exists>t. migrate_box_cache sample_box_env False sample_cache_state
      = (Inr [(''/r/build/state/boxes/obs-rhel9.box'', ''/r/build/state/boxes/obs-rhel9-x86_64.box'')], t)
    \<and> migrate_box_cache sample_box_env False t = (Inr [], t)"
proof -
  obtain t where m: "migrate_box_cache sample_box_env False sample_cache_state
      = (Inr [(''/r/build/state/boxes/obs-rhel9.box'', ''/r/build/state/boxes/obs-rhel9-x86_64.box'')], t)"
    using sample_migrates by (metis prod.collapse)
  have "moves_apart (cache_moves sample_box_env)" by code_simp
  from cache_migration_safe[OF this m] m show ?thesis by auto
qed

end
