(* ===== verification/Teardown.thy ===== *)
theory Teardown
  imports Bootstrap Instances Box_GC
begin

text \<open>
  Taking a stack down: the teardown verb of \<open>mqlab/cli.py\<close> with its destroy planner and the count of the
  stacks that are still up, the parser of \<open>virsh list\<close> (\<open>mqlab/fleet.py\<close>), and the bring-up side of the
  same concern, the reconciliation of Vagrant's cached box names.

  The host is explicit state: the state of each libvirt domain, the machine directories Vagrant keeps, and
  the directory of instance records. What a command does to it, and what \<open>virsh list\<close> prints, are
  arguments; \<open>host_commands\<close> states what the commands of a teardown are documented to do when they exit 0.
  The reclaiming of box images after a teardown is the function \<open>gc_best_effort\<close> of the box theories.
\<close>

section \<open>Domain states\<close>

definition domain_line :: "string \<Rightarrow> (string \<times> string) option" where
  "domain_line raw =
     (let line = py_strip raw in
      if line = [] \<or> prefix ''Id'' line \<or> set line \<subseteq> {CHR ''-''} then None
      else case split_ws line of
        a # b # c # cs \<Rightarrow> Some (b, str_join '' '' (c # cs))
      | _ \<Rightarrow> None)"

definition parse_domain_states :: "string \<Rightarrow> (string \<times> string) list" where
  "parse_domain_states t = fold (\<lambda>raw d. case domain_line raw of None \<Rightarrow> d | Some (n, s) \<Rightarrow> AList.update n s d)
     (splitlines t) []"

section \<open>The host\<close>

record HostWorld =
  hw_domains :: "string \<rightharpoonup> string"
  hw_machines :: "string list"
  hw_dir :: Dir

type_synonym effect = "string list \<Rightarrow> HostWorld \<Rightarrow> int \<times> HostWorld"

definition VIRSH :: "string list" where
  "VIRSH = [''virsh'', ''-c'', ''qemu:///system'']"

definition domain_of :: "string \<Rightarrow> string" where
  "domain_of g = ''lab_'' @ g"

definition forceoff_step :: "string \<Rightarrow> CommandStep" where
  "forceoff_step g = plain_step (g @ '' force-off'') (run_in None (VIRSH @ [''destroy'', domain_of g]))"

definition undefine_step :: "string \<Rightarrow> CommandStep" where
  "undefine_step g = plain_step (g @ '' undefine'')
     (run_in None (VIRSH @ [''undefine'', domain_of g, ''--remove-all-storage'', ''--nvram'']))"

definition vagrant_machine_dir :: "string \<Rightarrow> string \<Rightarrow> string" where
  "vagrant_machine_dir root_dir g = root_dir @ ''/build/state/vagrant/machines/'' @ g"

definition forget_machine_step :: "string \<Rightarrow> string \<Rightarrow> CommandStep" where
  "forget_machine_step root_dir g = plain_step (g @ '' forget vagrant machine'')
     (run_in None [''rm'', ''-rf'', vagrant_machine_dir root_dir g])"

text \<open>Running steps that have no retry policy: up to the first that exits non-zero, with that exit code.\<close>

fun exec_steps :: "effect \<Rightarrow> CommandStep list \<Rightarrow> HostWorld \<Rightarrow> int option \<times> HostWorld" where
  "exec_steps eff [] w = (None, w)"
| "exec_steps eff (s # ss) w =
     (case eff (argv (cs_command s)) w of (code, w') \<Rightarrow> if code = 0 then exec_steps eff ss w' else (Some code, w'))"

section \<open>The destroy planner\<close>

definition destroy_guest :: "string \<Rightarrow> string list \<Rightarrow> (string \<rightharpoonup> string) \<Rightarrow> string \<Rightarrow> CommandStep list" where
  "destroy_guest root_dir machines states g =
     (if classify_guest states g = ABSENT then []
      else if is_live states g then [forceoff_step g, undefine_step g] else [undefine_step g])
     @ (if List.member machines g then [forget_machine_step root_dir g] else [])"

definition plan_destroy :: "string \<Rightarrow> string list \<Rightarrow> string list \<Rightarrow> (string \<rightharpoonup> string) \<Rightarrow> CommandStep list \<times> string list" where
  "plan_destroy root_dir machines guests states =
     (concat (map (destroy_guest root_dir machines states) guests),
      map (\<lambda>g. g @ '': already gone'') (filter (\<lambda>g. classify_guest states g = ABSENT) guests))"

section \<open>The reference count\<close>

definition names_of :: "pyval list \<Rightarrow> (py_error, string list) result" where
  "names_of vs = traverse host_text vs"

definition stack_guests :: "pyval \<Rightarrow> string \<Rightarrow> (py_error, string list) result" where
  "stack_guests topo name = rbind (stack_members topo name) (\<lambda>ms. names_of (case ms of None \<Rightarrow> [] | Some xs \<Rightarrow> xs))"

fun any_stack_up :: "pyval \<Rightarrow> (string \<rightharpoonup> string) \<Rightarrow> string \<Rightarrow> (pyval \<times> Stack) list \<Rightarrow> (py_error, bool) result" where
  "any_stack_up topo states exclude [] = Inr False"
| "any_stack_up topo states exclude ((n, stk) # rest) =
     (if n = PStr exclude \<or> stk_cluster_group stk = PNone then any_stack_up topo states exclude rest
      else rbind (host_text n) (\<lambda>name. rbind (stack_guests topo name) (\<lambda>guests.
        if list_ex (is_live states) guests then Inr True else any_stack_up topo states exclude rest)))"

definition other_stacks_up :: "pyval \<Rightarrow> (string \<rightharpoonup> string) \<Rightarrow> string \<Rightarrow> (py_error, bool) result" where
  "other_stacks_up topo states exclude = rbind (lab_stacks topo) (any_stack_up topo states exclude)"

section \<open>The verb\<close>

record TeardownPlan =
  tp_members :: "string list"
  tp_commons :: "string list"
  tp_lever :: bool
  tp_last :: bool
  tp_destroy_commons :: bool
  tp_steps :: "CommandStep list"

definition teardown_plan ::
  "LabEnv \<Rightarrow> Stack \<Rightarrow> string \<Rightarrow> bool \<Rightarrow> string list \<Rightarrow> (string \<rightharpoonup> string) \<Rightarrow> (py_error, TeardownPlan) result" where
  "teardown_plan env stk name commons machines states =
     rbind (stack_guests (le_topo env) name) (\<lambda>members.
     rbind (all_vms (le_topo env) stk False) (\<lambda>vs.
     rbind (names_of vs) (\<lambda>vms.
     rbind (hugepages_enabled (le_topo env)) (\<lambda>lever.
     rbind (if lever \<or> \<not> commons then rbind (other_stacks_up (le_topo env) states name) (\<lambda>up. Inr (\<not> up)) else Inr False) (\<lambda>last_down.
     let commons_vms = filter (\<lambda>vm. vm \<notin> set members) vms;
         take_commons = commons \<or> last_down;
         member_steps = fst (plan_destroy (le_root env) machines members states);
         commons_steps = (if take_commons
           then map (\<lambda>s. s\<lparr>cs_label := ''commons destroy: '' @ cs_label s\<rparr>) (fst (plan_destroy (le_root env) machines commons_vms states))
           else [])
     in Inr \<lparr>tp_members = members, tp_commons = commons_vms, tp_lever = lever, tp_last = last_down,
             tp_destroy_commons = take_commons, tp_steps = member_steps @ commons_steps\<rparr>)))))"

datatype teardown_end = TornDown bool \<comment> \<open>whether the huge pages were released\<close> | TdExit int | TdRaised py_error

definition teardown_run ::
  "LabEnv \<Rightarrow> effect \<Rightarrow> (HostWorld \<Rightarrow> string) \<Rightarrow> string \<Rightarrow> bool \<Rightarrow> HostWorld \<Rightarrow> teardown_end \<times> HostWorld" where
  "teardown_run env eff listing name commons w =
     (case lab_stacks (le_topo env) of
        Inl e \<Rightarrow> (TdRaised e, w)
      | Inr stacks \<Rightarrow>
          (case map_of stacks (PStr name) of
             None \<Rightarrow> (TdExit 2, w)
           | Some stk \<Rightarrow>
               (case teardown_plan env stk name commons (hw_machines w) (map_of (parse_domain_states (listing w))) of
                  Inl e \<Rightarrow> (TdRaised e, w)
                | Inr plan \<Rightarrow>
                    (case exec_steps eff (tp_steps plan) w of
                       (Some code, w') \<Rightarrow> (TdExit code, w')
                     | (None, w') \<Rightarrow>
                         let w2 = w'\<lparr>hw_dir := delete_record name (hw_dir w')\<rparr> in
                         if tp_lever plan \<and> tp_last plan
                         then (case eff (argv (release_command (le_root env))) w2 of
                             (code, w3) \<Rightarrow> (if code = 0 then TornDown True else TdExit code, w3))
                         else (TornDown False, w2)))))"

section \<open>Vagrant's cached box\<close>

text \<open>The box name in the \<open>box_meta\<close> of a guest: nothing when there is no such file, an exception when it is not JSON.\<close>

definition cached_box_name :: "(string \<rightharpoonup> json_text) \<Rightarrow> string \<Rightarrow> (py_error, string option) result" where
  "cached_box_name metas g =
     (case metas g of
        None \<Rightarrow> Inr None
      | Some NotJson \<Rightarrow> Inl (ValueErr ''JSONDecodeError'')
      | Some (Json v) \<Rightarrow> rbind (dict_get v ''name'' PNone) (\<lambda>n. Inr (case n of PStr s \<Rightarrow> Some s | _ \<Rightarrow> None)))"

datatype stale = RetiredBox string | Repointed string pyval

definition stale_box_meta :: "(string \<rightharpoonup> json_text) \<Rightarrow> (pyval \<times> pyval) list \<Rightarrow> string \<Rightarrow> (py_error, stale option) result" where
  "stale_box_meta metas nodes g =
     rbind (cached_box_name metas g) (\<lambda>cached.
     case cached of
       None \<Rightarrow> Inr None
     | Some c \<Rightarrow>
         if List.member RETIRED_BOX_NAMES c then Inr (Some (RetiredBox c))
         else rbind (dict_get (or_empty (case map_of nodes (PStr g) of None \<Rightarrow> PNone | Some v \<Rightarrow> v)) ''box'' PNone) (\<lambda>box.
           Inr (if box \<noteq> PNone \<and> box \<noteq> PStr c then Some (Repointed c box) else None)))"

definition plan_reconcile_box_meta ::
  "string \<Rightarrow> (string \<rightharpoonup> json_text) \<Rightarrow> (pyval \<times> pyval) list \<Rightarrow> string list \<Rightarrow> (py_error, CommandStep list \<times> stale list) result" where
  "plan_reconcile_box_meta root_dir metas nodes guests =
     rbind (traverse (\<lambda>g. rbind (stale_box_meta metas nodes g) (\<lambda>n. Inr (g, n))) guests) (\<lambda>rs.
     Inr (map (\<lambda>(g, n). forget_machine_step root_dir g) (filter (\<lambda>(g, n). n \<noteq> None) rs), List.map_filter snd rs))"

section \<open>What the commands do\<close>

text \<open>The documented effects of the commands of a teardown when they exit 0; none of them touches the instance records.\<close>

definition host_commands :: "effect \<Rightarrow> string \<Rightarrow> bool" where
  "host_commands eff root_dir \<longleftrightarrow>
     (\<forall>a w. hw_dir (snd (eff a w)) = hw_dir w)
     \<and> (\<forall>g w w'. eff (argv (cs_command (forceoff_step g))) w = (0, w')
          \<longrightarrow> hw_domains w' = (hw_domains w)(domain_of g \<mapsto> ''shut off'') \<and> hw_machines w' = hw_machines w)
     \<and> (\<forall>g w w'. eff (argv (cs_command (undefine_step g))) w = (0, w')
          \<longrightarrow> hw_domains w' = (hw_domains w)(domain_of g := None) \<and> hw_machines w' = hw_machines w)
     \<and> (\<forall>g w w'. eff (argv (cs_command (forget_machine_step root_dir g))) w = (0, w')
          \<longrightarrow> hw_domains w' = hw_domains w \<and> hw_machines w' = removeAll g (hw_machines w))
     \<and> (\<forall>w w'. eff (argv (release_command root_dir)) w = (0, w') \<longrightarrow> hw_domains w' = hw_domains w \<and> hw_machines w' = hw_machines w)"

lemma exec_append:
  "exec_steps eff (ss @ ts) w = (case exec_steps eff ss w of (None, w') \<Rightarrow> exec_steps eff ts w' | (Some c, w') \<Rightarrow> (Some c, w'))"
  by (induction ss arbitrary: w) (auto split: prod.splits)

lemma exec_relabel: "exec_steps eff (map (\<lambda>s. s\<lparr>cs_label := f s\<rparr>) ss) w = exec_steps eff ss w"
  by (induction ss arbitrary: w) (auto split: prod.splits)

lemma exec_dir:
  assumes "host_commands eff root_dir" and "exec_steps eff ss w = (r, w')"
  shows "hw_dir w' = hw_dir w"
  using assms(2)
proof (induction ss arbitrary: w)
  case (Cons s ss)
  obtain c w1 where e: "eff (argv (cs_command s)) w = (c, w1)" by fastforce
  have "hw_dir (snd (eff (argv (cs_command s)) w)) = hw_dir w" using assms(1) unfolding host_commands_def by blast
  with e have "hw_dir w1 = hw_dir w" by simp
  with Cons e show ?case by (auto split: if_splits)
qed simp

text \<open>A plan without a retry policy runs like this under the run loop of the orchestrator.\<close>

definition attempts_in :: "effect \<Rightarrow> CommandStep list \<Rightarrow> HostWorld \<Rightarrow> nat \<Rightarrow> nat \<Rightarrow> Attempt" where
  "attempts_in eff ss w i k = \<lparr>at_started = 0, at_output = [],
     at_exit = (let w' = snd (exec_steps eff (take (i - 1) ss) w) in fst (eff (argv (cs_command (ss ! (i - 1)))) w')), at_ended = 0\<rparr>"

lemma exec_None_take: "exec_steps eff ss w = (None, w') \<Longrightarrow> fst (exec_steps eff (take n ss) w) = None"
  by (induction ss arbitrary: w n; case_tac n) (auto split: prod.splits if_splits)

lemma exec_run_steps:
  assumes "exec_steps eff ss w = (None, w')"
  shows "fst (run_steps m (attempts_in eff ss w) ss) = Inr ()"
proof (rule run_steps_ok, intro allI impI)
  fix i assume i: "i < length ss"
  have "fst (exec_steps eff (take (Suc i) ss) w) = None" by (rule exec_None_take[OF assms])
  moreover have "take (Suc i) ss = take i ss @ [ss ! i]" by (rule take_Suc_conv_app_nth[OF i])
  moreover have "fst (exec_steps eff (take i ss) w) = None" by (rule exec_None_take[OF assms])
  ultimately have "fst (eff (argv (cs_command (ss ! i))) (snd (exec_steps eff (take i ss) w))) = 0"
    by (auto simp: exec_append split: prod.splits option.splits if_splits)
  then show "step_ok (ss ! i) (attempts_in eff ss w (Suc i))"
    by (intro first_try_ok) (simp add: attempts_in_def Let_def)
qed

lemma domain_of_inject [simp]: "domain_of g = domain_of h \<longleftrightarrow> g = h"
  by (simp add: domain_of_def)

lemma destroy_guest_effect:
  assumes "host_commands eff root_dir" and "exec_steps eff (destroy_guest root_dir machines states g) w = (None, w')"
  shows "hw_domains w' = (if states (domain_of g) = None then hw_domains w else (hw_domains w)(domain_of g := None))
    \<and> hw_machines w' = (if g \<in> set machines then removeAll g (hw_machines w) else hw_machines w)"
proof -
  from assms(1) have laws:
    "\<And>w w'. eff (argv (cs_command (forceoff_step g))) w = (0, w') \<Longrightarrow> hw_domains w' = (hw_domains w)(domain_of g \<mapsto> ''shut off'') \<and> hw_machines w' = hw_machines w"
    "\<And>w w'. eff (argv (cs_command (undefine_step g))) w = (0, w') \<Longrightarrow> hw_domains w' = (hw_domains w)(domain_of g := None) \<and> hw_machines w' = hw_machines w"
    "\<And>w w'. eff (argv (cs_command (forget_machine_step root_dir g))) w = (0, w') \<Longrightarrow> hw_domains w' = hw_domains w \<and> hw_machines w' = removeAll g (hw_machines w)"
    unfolding host_commands_def by blast+
  have absent: "classify_guest states g = ABSENT \<longleftrightarrow> states (domain_of g) = None"
    by (simp add: classify_guest_def domain_of_def split: option.splits)
  show ?thesis
    using assms(2) unfolding destroy_guest_def absent
    by (auto simp: exec_append split: if_splits prod.splits dest!: laws)
qed

lemma destroy_guests_effect:
  assumes "host_commands eff root_dir"
    and "exec_steps eff (concat (map (destroy_guest root_dir machines states) gs)) w = (None, w')"
  shows "hw_domains w' = (\<lambda>d. if d \<in> domain_of ` {g \<in> set gs. states (domain_of g) \<noteq> None} then None else hw_domains w d)
    \<and> set (hw_machines w') = set (hw_machines w) - (set gs \<inter> set machines)"
  using assms(2)
proof (induction gs arbitrary: w)
  case Nil
  then show ?case by simp
next
  case (Cons g gs)
  from Cons.prems obtain w1 where s: "exec_steps eff (destroy_guest root_dir machines states g) w = (None, w1)"
    "exec_steps eff (concat (map (destroy_guest root_dir machines states) gs)) w1 = (None, w')"
    by (auto simp: exec_append split: prod.splits option.splits)
  note one = destroy_guest_effect[OF assms(1) s(1)] note rest = Cons.IH[OF s(2)]
  have "hw_domains w' d = (if d \<in> domain_of ` {g' \<in> set (g # gs). states (domain_of g') \<noteq> None} then None else hw_domains w d)" for d
    using one rest by (cases "states (domain_of g)") (auto simp: image_iff)
  moreover have "set (hw_machines w') = set (hw_machines w) - (set (g # gs) \<inter> set machines)"
    using one rest by auto
  ultimately show ?case by blast
qed

text \<open>All guests of a plan made from the true states are gone, with their machine directories, and nothing else.\<close>

lemma destroyed_effect:
  assumes "host_commands eff root_dir"
    and "exec_steps eff (concat (map (destroy_guest root_dir (hw_machines w) (hw_domains w)) gs)) w = (None, w')"
  shows "hw_domains w' = (\<lambda>d. if d \<in> domain_of ` set gs then None else hw_domains w d)
    \<and> set (hw_machines w') = set (hw_machines w) - set gs"
proof -
  note e = destroy_guests_effect[OF assms]
  have "hw_domains w' d = (if d \<in> domain_of ` set gs then None else hw_domains w d)" for d
    using e by (auto simp: image_iff)
  moreover have "set (hw_machines w') = set (hw_machines w) - set gs" using e by auto
  ultimately show ?thesis by blast
qed

section \<open>A completed teardown\<close>

lemma any_stack_up_none:
  assumes "any_stack_up topo states ex xs = Inr False" and "(n, stk) \<in> set xs" and "n \<noteq> PStr ex" and "stk_cluster_group stk \<noteq> PNone"
  shows "\<exists>name guests. host_text n = Inr name \<and> stack_guests topo name = Inr guests \<and> (\<forall>g \<in> set guests. \<not> is_live states g)"
  using assms
proof (induction xs)
  case (Cons x xs)
  show ?case
  proof (cases "(n, stk) = x")
    case True
    with Cons.prems show ?thesis by (auto simp: rbind_eq_Inr list_ex_iff split: if_splits)
  next
    case False
    then have "(n, stk) \<in> set xs" using Cons.prems(2) by simp
    moreover have "any_stack_up topo states ex xs = Inr False"
      using Cons.prems(1) by (cases x) (auto simp: rbind_eq_Inr split: if_splits)
    ultimately show ?thesis using Cons.IH Cons.prems(3,4) by blast
  qed
qed simp

lemma other_stacks_down:
  assumes "other_stacks_up topo states ex = Inr False" and "lab_stacks topo = Inr stacks"
    and "(PStr n, stk) \<in> set stacks" and "n \<noteq> ex" and "stk_cluster_group stk \<noteq> PNone"
  shows "\<exists>guests. stack_guests topo n = Inr guests \<and> (\<forall>g \<in> set guests. \<not> is_live states g)"
proof -
  have "any_stack_up topo states ex stacks = Inr False" using assms(1,2) by (simp add: other_stacks_up_def)
  from any_stack_up_none[OF this assms(3) _ assms(5)] assms(4) show ?thesis by (auto simp: host_text_def)
qed

lemma teardown_plan_parts:
  assumes "teardown_plan env stk name commons machines states = Inr plan"
  shows "stack_guests (le_topo env) name = Inr (tp_members plan)
    \<and> (\<exists>vs vms. all_vms (le_topo env) stk False = Inr vs \<and> names_of vs = Inr vms
        \<and> tp_commons plan = filter (\<lambda>vm. vm \<notin> set (tp_members plan)) vms)
    \<and> (tp_last plan \<longrightarrow> other_stacks_up (le_topo env) states name = Inr False)
    \<and> tp_destroy_commons plan = (commons \<or> tp_last plan)
    \<and> (\<not> commons \<longrightarrow> other_stacks_up (le_topo env) states name = Inr (\<not> tp_last plan))
    \<and> (\<exists>f. tp_steps plan = concat (map (destroy_guest (le_root env) machines states) (tp_members plan))
         @ (if tp_destroy_commons plan
            then map (\<lambda>s. s\<lparr>cs_label := f s\<rparr>) (concat (map (destroy_guest (le_root env) machines states) (tp_commons plan))) else []))"
  using assms
  by (fastforce simp: teardown_plan_def plan_destroy_def rbind_eq_Inr Let_def split: if_splits)

lemma teardown_exec:
  assumes "teardown_plan env stk name commons machines states = Inr plan"
  shows "exec_steps eff (tp_steps plan) w =
    exec_steps eff (concat (map (destroy_guest (le_root env) machines states)
      (tp_members plan @ (if tp_destroy_commons plan then tp_commons plan else [])))) w"
proof -
  obtain f where "tp_steps plan = concat (map (destroy_guest (le_root env) machines states) (tp_members plan))
      @ (if tp_destroy_commons plan
         then map (\<lambda>s. s\<lparr>cs_label := f s\<rparr>) (concat (map (destroy_guest (le_root env) machines states) (tp_commons plan))) else [])"
    using teardown_plan_parts[OF assms] by blast
  then show ?thesis by (auto simp: exec_append exec_relabel split: prod.splits option.splits)
qed

text \<open>The guests a teardown takes: the members, and the other guests of the stack when the commons go too.\<close>

definition taken :: "TeardownPlan \<Rightarrow> string set" where
  "taken plan = set (tp_members plan) \<union> (if tp_destroy_commons plan then set (tp_commons plan) else {})"

lemma release_effect:
  assumes "host_commands eff root_dir" and "eff (argv (release_command root_dir)) w = (0, w')"
  shows "hw_domains w' = hw_domains w \<and> hw_machines w' = hw_machines w \<and> hw_dir w' = hw_dir w"
  using assms unfolding host_commands_def by (metis snd_conv)

text \<open>The ways a teardown ends: before its first command, at a failing command, or past all of them.\<close>

lemma teardown_run_cases:
  assumes "teardown_run env eff listing name commons w = (e, w')"
  obtains (early) "w' = w" "\<forall>b. e \<noteq> TornDown b"
  | (stopped) stk plan c where "teardown_plan env stk name commons (hw_machines w) (map_of (parse_domain_states (listing w))) = Inr plan"
      "exec_steps eff (tp_steps plan) w = (Some c, w')" "e = TdExit c"
  | (past) stacks stk plan w1 where "lab_stacks (le_topo env) = Inr stacks" "map_of stacks (PStr name) = Some stk"
      "teardown_plan env stk name commons (hw_machines w) (map_of (parse_domain_states (listing w))) = Inr plan"
      "exec_steps eff (tp_steps plan) w = (None, w1)"
      "let w2 = w1\<lparr>hw_dir := delete_record name (hw_dir w1)\<rparr> in
       if tp_lever plan \<and> tp_last plan
       then \<exists>c. eff (argv (release_command (le_root env))) w2 = (c, w') \<and> e = (if c = 0 then TornDown True else TdExit c)
       else e = TornDown False \<and> w' = w2"
  using assms unfolding teardown_run_def
  by (auto simp: Let_def split: sum.splits option.splits prod.splits if_splits)

lemma teardown_completed:
  assumes laws: "host_commands eff (le_root env)"
    and listing: "map_of (parse_domain_states (listing w)) = hw_domains w"
    and run: "teardown_run env eff listing name commons w = (TornDown released, w')"
  shows "\<exists>stacks stk plan. lab_stacks (le_topo env) = Inr stacks \<and> map_of stacks (PStr name) = Some stk
    \<and> teardown_plan env stk name commons (hw_machines w) (hw_domains w) = Inr plan
    \<and> hw_domains w' = (\<lambda>d. if d \<in> domain_of ` taken plan then None else hw_domains w d)
    \<and> set (hw_machines w') = set (hw_machines w) - taken plan
    \<and> hw_dir w' = delete_record name (hw_dir w) \<and> (released \<longrightarrow> tp_last plan)"
proof -
  from run obtain stacks stk plan w1 where s: "lab_stacks (le_topo env) = Inr stacks" "map_of stacks (PStr name) = Some stk"
    and plan: "teardown_plan env stk name commons (hw_machines w) (hw_domains w) = Inr plan"
    and steps: "exec_steps eff (tp_steps plan) w = (None, w1)"
    and rest: "let w2 = w1\<lparr>hw_dir := delete_record name (hw_dir w1)\<rparr> in
       if tp_lever plan \<and> tp_last plan
       then \<exists>c. eff (argv (release_command (le_root env))) w2 = (c, w') \<and> TornDown released = (if c = 0 then TornDown True else TdExit c)
       else TornDown released = TornDown False \<and> w' = w2"
    unfolding listing[symmetric] by (cases rule: teardown_run_cases) auto
  have gs: "taken plan = set (tp_members plan @ (if tp_destroy_commons plan then tp_commons plan else []))"
    by (simp add: taken_def)
  note gone = destroyed_effect[OF laws steps[unfolded teardown_exec[OF plan]], folded gs]
  have "hw_dir w1 = hw_dir w" by (rule exec_dir[OF laws steps])
  then have "hw_domains w' = hw_domains w1 \<and> hw_machines w' = hw_machines w1
      \<and> hw_dir w' = delete_record name (hw_dir w) \<and> (released \<longrightarrow> tp_last plan)"
    using rest release_effect[OF laws] by (cases "tp_lever plan \<and> tp_last plan") (auto simp: Let_def split: if_splits)
  with s plan gone show ?thesis by auto
qed

text \<open>C17: A teardown that completes leaves no domain and no machine directory of the stack's members, deletes the
stack's record, and touches no other domain, directory or record. The shared guests of the stack go exactly
when that was asked for or no other stack is up; without being asked, they go and the huge pages are released
only if no guest of any other stack is live.\<close>

theorem teardown_complete:
  assumes "host_commands eff (le_root env)"
    and "map_of (parse_domain_states (listing w)) = hw_domains w"
    and "teardown_run env eff listing name commons w = (TornDown released, w')"
  shows "\<exists>stacks members vms. lab_stacks (le_topo env) = Inr stacks
    \<and> stack_guests (le_topo env) name = Inr members
    \<and> (\<exists>stk vs. map_of stacks (PStr name) = Some stk \<and> all_vms (le_topo env) stk False = Inr vs \<and> names_of vs = Inr vms)
    \<and> (let gone = set members \<union> (if commons \<or> other_stacks_up (le_topo env) (hw_domains w) name = Inr False then set vms else {}) in
        hw_domains w' = (\<lambda>d. if d \<in> domain_of ` gone then None else hw_domains w d)
        \<and> set (hw_machines w') = set (hw_machines w) - gone)
    \<and> hw_dir w' = delete_record name (hw_dir w)
    \<and> (released \<or> (\<not> commons \<and> other_stacks_up (le_topo env) (hw_domains w) name = Inr False) \<longrightarrow>
        (\<forall>n stk. (PStr n, stk) \<in> set stacks \<and> n \<noteq> name \<and> stk_cluster_group stk \<noteq> PNone \<longrightarrow>
          (\<exists>guests. stack_guests (le_topo env) n = Inr guests \<and> (\<forall>g \<in> set guests. \<not> is_live (hw_domains w) g))))"
proof -
  obtain stacks stk plan where st: "lab_stacks (le_topo env) = Inr stacks" "map_of stacks (PStr name) = Some stk"
    and plan: "teardown_plan env stk name commons (hw_machines w) (hw_domains w) = Inr plan"
    and gone: "hw_domains w' = (\<lambda>d. if d \<in> domain_of ` taken plan then None else hw_domains w d)"
      "set (hw_machines w') = set (hw_machines w) - taken plan"
    and dir: "hw_dir w' = delete_record name (hw_dir w)" and rel: "released \<longrightarrow> tp_last plan"
    using teardown_completed[OF assms] by blast
  note parts = teardown_plan_parts[OF plan]
  then obtain vs vms where vms: "all_vms (le_topo env) stk False = Inr vs" "names_of vs = Inr vms"
    "tp_commons plan = filter (\<lambda>vm. vm \<notin> set (tp_members plan)) vms" by blast
  have last: "tp_last plan \<longrightarrow> other_stacks_up (le_topo env) (hw_domains w) name = Inr False" using parts by blast
  have take: "tp_destroy_commons plan \<longleftrightarrow> commons \<or> other_stacks_up (le_topo env) (hw_domains w) name = Inr False"
    using parts by auto
  have "taken plan = set (tp_members plan) \<union>
      (if commons \<or> other_stacks_up (le_topo env) (hw_domains w) name = Inr False then set vms else {})"
    unfolding taken_def take using vms(3) by auto
  moreover have "\<forall>n stk. (PStr n, stk) \<in> set stacks \<and> n \<noteq> name \<and> stk_cluster_group stk \<noteq> PNone \<longrightarrow>
      (\<exists>guests. stack_guests (le_topo env) n = Inr guests \<and> (\<forall>g \<in> set guests. \<not> is_live (hw_domains w) g))"
    if "other_stacks_up (le_topo env) (hw_domains w) name = Inr False"
    using other_stacks_down[OF that st(1)] by blast
  moreover have "stack_guests (le_topo env) name = Inr (tp_members plan)" using parts by blast
  ultimately show ?thesis
    using st vms(1,2) gone dir rel last unfolding Let_def
    by (intro exI[of _ stacks] exI[of _ "tp_members plan"] exI[of _ vms] exI[of _ stk] exI[of _ vs] conjI) simp_all
qed

text \<open>C18: The record of a stack is deleted only after every guest the teardown takes is gone, and no other record with it:
a teardown that stops at a failing command before that leaves all records, so the stack stays pinned to its system.\<close>

theorem teardown_keeps_record:
  assumes "host_commands eff (le_root env)"
    and "map_of (parse_domain_states (listing w)) = hw_domains w"
    and "teardown_run env eff listing name commons w = (e, w')" and "hw_dir w' \<noteq> hw_dir w"
  shows "\<exists>stk plan w1. teardown_plan env stk name commons (hw_machines w) (hw_domains w) = Inr plan
    \<and> exec_steps eff (tp_steps plan) w = (None, w1)
    \<and> (\<forall>g \<in> taken plan. hw_domains w1 (domain_of g) = None)
    \<and> hw_dir w' = delete_record name (hw_dir w)"
proof -
  have same: "eff a v = (c, v') \<Longrightarrow> hw_dir v' = hw_dir v" for a v c v'
    using assms(1) unfolding host_commands_def by (metis snd_conv)
  from assms(3) obtain stk plan w1 where plan: "teardown_plan env stk name commons (hw_machines w) (hw_domains w) = Inr plan"
    and steps: "exec_steps eff (tp_steps plan) w = (None, w1)"
    and dir: "hw_dir w' = delete_record name (hw_dir w1)"
    unfolding assms(2)[symmetric]
  proof (cases rule: teardown_run_cases)
    case (stopped stk plan c)
    with exec_dir[OF assms(1)] assms(4) show ?thesis by blast
  next
    case (past stacks stk plan w1)
    then have "hw_dir w' = delete_record name (hw_dir w1)" by (auto simp: Let_def dest!: same split: if_splits)
    with past that show ?thesis unfolding assms(2)[symmetric] by blast
  qed (use assms(4) in simp)
  have gs: "taken plan = set (tp_members plan @ (if tp_destroy_commons plan then tp_commons plan else []))"
    by (simp add: taken_def)
  have "hw_domains w1 = (\<lambda>d. if d \<in> domain_of ` taken plan then None else hw_domains w d)"
    using destroyed_effect[OF assms(1) steps[unfolded teardown_exec[OF plan]], folded gs] by blast
  then show ?thesis using plan steps dir exec_dir[OF assms(1) steps] by force
qed

section \<open>A concrete host\<close>

definition sample_effect :: effect where
  "sample_effect a w = (0,
     if take 4 a = VIRSH @ [''destroy''] then w\<lparr>hw_domains := (hw_domains w)(a ! 4 \<mapsto> ''shut off'')\<rparr>
     else if take 4 a = VIRSH @ [''undefine''] then w\<lparr>hw_domains := (hw_domains w)(a ! 4 := None)\<rparr>
     else if take 1 a = [''rm''] then w\<lparr>hw_machines := filter (\<lambda>h. vagrant_machine_dir ''/lab'' h \<noteq> a ! 2) (hw_machines w)\<rparr>
     else w)"

lemma sample_effect_ok: "host_commands sample_effect (le_root sample_env)"
proof -
  have "filter (\<lambda>h. h \<noteq> g) hs = removeAll g hs" for g :: string and hs by (induction hs) auto
  then show ?thesis
    by (auto simp: host_commands_def sample_effect_def forceoff_step_def undefine_step_def forget_machine_step_def
        plain_step_def run_in_def VIRSH_def vagrant_machine_dir_def sample_env_def release_command_def hugepage_play_def)
qed

definition sample_listing :: string where
  "sample_listing = '' Id   Name        State'' @ [CHR 10] @ ''----------------------'' @ [CHR 10]
     @ '' 1    lab_a1      running'' @ [CHR 10] @ '' -    lab_a2      shut off'' @ [CHR 10]
     @ '' 3    lab_obs     running'' @ [CHR 10] @ '' 4    lab_other   running'' @ [CHR 10]"

definition sample_host :: HostWorld where
  "sample_host = \<lparr>hw_domains = map_of (parse_domain_states sample_listing), hw_machines = [''a1'', ''b1'', ''obs'', ''other''],
     hw_dir = \<lparr>recs = (\<lambda>s. if s = ''rdqm-rhel'' then Some NotJson else None), temps = []\<rparr>\<rparr>"

lemma sample_teardown:
  "fst (teardown_run sample_env sample_effect (\<lambda>_. sample_listing) ''rdqm-rhel'' False sample_host) = TornDown False"
  by code_simp

theorem teardown_complete_witness:
  "\<exists>w'. teardown_run sample_env sample_effect (\<lambda>_. sample_listing) ''rdqm-rhel'' False sample_host = (TornDown False, w')
     \<and> hw_dir w' = delete_record ''rdqm-rhel'' (hw_dir sample_host)"
proof -
  obtain w' where run: "teardown_run sample_env sample_effect (\<lambda>_. sample_listing) ''rdqm-rhel'' False sample_host = (TornDown False, w')"
    using sample_teardown by (metis prod.collapse)
  have listing: "map_of (parse_domain_states ((\<lambda>_. sample_listing) sample_host)) = hw_domains sample_host"
    by (simp add: sample_host_def)
  from teardown_complete[OF sample_effect_ok listing run] run show ?thesis by blast
qed

theorem teardown_keeps_record_witness:
  "\<exists>w'. teardown_run sample_env sample_effect (\<lambda>_. sample_listing) ''rdqm-rhel'' False sample_host = (TornDown False, w')
     \<and> (\<exists>plan w1. exec_steps sample_effect (tp_steps plan) sample_host = (None, w1) \<and> (\<forall>g \<in> taken plan. hw_domains w1 (domain_of g) = None))"
proof -
  obtain w' where run: "teardown_run sample_env sample_effect (\<lambda>_. sample_listing) ''rdqm-rhel'' False sample_host = (TornDown False, w')"
    using sample_teardown by (metis prod.collapse)
  have listing: "map_of (parse_domain_states ((\<lambda>_. sample_listing) sample_host)) = hw_domains sample_host"
    by (simp add: sample_host_def)
  have "recs (hw_dir (snd (teardown_run sample_env sample_effect (\<lambda>_. sample_listing) ''rdqm-rhel'' False sample_host))) ''rdqm-rhel'' = None"
    by code_simp
  moreover have "recs (hw_dir sample_host) ''rdqm-rhel'' = Some NotJson" by code_simp
  ultimately have "hw_dir w' \<noteq> hw_dir sample_host" using run by fastforce
  from teardown_keeps_record[OF sample_effect_ok listing run this] run show ?thesis by blast
qed

text \<open>The probe of the domain states does not look at the exit code of \<open>virsh\<close>: when the listing fails, every guest
looks gone, and the teardown of a running stack completes. Nothing is destroyed, but the machine directories and
the record that pins the stack to its system are.\<close>

definition failed_listing :: string where
  "failed_listing = ''error: failed to connect to the hypervisor'' @ [CHR 10]"

lemma teardown_trusts_failed_probe:
  "(case teardown_run sample_env sample_effect (\<lambda>_. failed_listing) ''rdqm-rhel'' False sample_host of
     (e, w') \<Rightarrow> e = TornDown False \<and> hw_domains w' ''lab_a1'' = Some ''running'' \<and> hw_machines w' = [''other'']
       \<and> recs (hw_dir w') ''rdqm-rhel'' = None)"
  by code_simp

section \<open>Which cached boxes are forgotten\<close>

text \<open>The step list names exactly the guests whose cached box is retired or is not the box the topology gives them.\<close>

lemma traverse_pair:
  "traverse (\<lambda>g. rbind (f g) (\<lambda>n. Inr (g, n))) gs = Inr rs
    \<longleftrightarrow> map fst rs = gs \<and> (\<forall>(g, n) \<in> set rs. f g = Inr n)"
  by (induction gs arbitrary: rs) (auto simp: rbind_eq_Inr Cons_eq_map_conv)

lemma reconcile_forgets_exactly:
  assumes "plan_reconcile_box_meta root_dir metas nodes guests = Inr (steps, ns)"
  shows "steps = map (forget_machine_step root_dir)
      (filter (\<lambda>g. stale_box_meta metas nodes g \<noteq> Inr None) guests)
    \<and> length ns = length steps"
proof -
  from assms obtain rs where rs: "map fst rs = guests" "\<forall>(g, n) \<in> set rs. stale_box_meta metas nodes g = Inr n"
    and steps: "steps = map (\<lambda>(g, n). forget_machine_step root_dir g) (filter (\<lambda>(g, n). n \<noteq> None) rs)"
    and nts: "ns = List.map_filter snd rs"
    by (auto simp: plan_reconcile_box_meta_def rbind_eq_Inr traverse_pair)
  from rs(2) have "map (\<lambda>(g, n). forget_machine_step root_dir g) (filter (\<lambda>(g, n). n \<noteq> None) rs)
      = map (forget_machine_step root_dir) (filter (\<lambda>g. stale_box_meta metas nodes g \<noteq> Inr None) (map fst rs))
    \<and> length (List.map_filter snd rs) = length (filter (\<lambda>(g, n). n \<noteq> None) rs)"
    by (induction rs) (auto simp: List.map_filter_def)
  then show ?thesis unfolding steps nts rs(1)[symmetric] by (metis length_map)
qed

end
