(* ===== verification/Projections.thy ===== *)
theory Projections
  imports DNS Phases
begin

text \<open>
  The files the lab renders from the topology for the tools that reach its hosts: the Ansible inventory
  (\<open>mqlab/inventory.py\<close>), the salt-ssh roster (\<open>mqlab/roster.py\<close>), the Prometheus targets and exporter list
  (\<open>mqlab/scrape.py\<close>) and the console endpoints (\<open>mqlab/mqweb_endpoints.py\<close>). The inventory is modelled down to its
  text; the others are the values that are dumped as YAML or JSON. Names of hosts, groups and stacks
  are texts; other keys are outside the model. Every integrity error is a \<open>ValueErr\<close>.
\<close>

section \<open>Inventory\<close>

text \<open>\<open>topo.get(key, {})\<close> with its items, and \<open>(cfg or {}).get("groups", [])\<close>.\<close>

definition section_items :: "pyval \<Rightarrow> string \<Rightarrow> (py_error, (pyval \<times> pyval) list) result" where
  "section_items topo key = rbind (dict_get topo key (PDict [])) dict_items"

definition stack_groups :: "pyval \<Rightarrow> (py_error, string list) result" where
  "stack_groups cfg =
     rbind (dict_get (or_empty cfg) ''groups'' (PList [])) (\<lambda>gv.
     rbind (py_list gv) (traverse host_text))"

definition mgmt_ip :: "pyval \<Rightarrow> string \<Rightarrow> (py_error, string) result" where
  "mgmt_ip nodes host =
     rbind (dict_get nodes host PNone) (\<lambda>spec.
     if spec = PNone then Inl (ValueErr ''undefined host'')
     else rbind (dict_get spec ''nics'' PNone) (\<lambda>nv.
       rbind (dict_get (or_empty nv) ''net-mgmt'' PNone) (\<lambda>ip.
       if \<not> truthy ip then Inl (ValueErr ''no net-mgmt IP'') else to_str ip)))"

definition stack_group :: "string \<Rightarrow> string" where
  "stack_group s = map (\<lambda>c. if c = CHR ''-'' then CHR ''_'' else c) s"

record Inventory =
  iv_groups :: "(string \<times> (string \<times> string) list) list"
  iv_children :: "(string \<times> string list) list"

definition inv_group :: "pyval \<Rightarrow> pyval \<times> pyval \<Rightarrow> (py_error, string \<times> (string \<times> string) list) result" where
  "inv_group nodes gh = (case gh of (g, hv) \<Rightarrow>
     rbind (host_text g) (\<lambda>group.
     rbind (py_list hv) (\<lambda>hs.
     rbind (traverse (\<lambda>h. rbind (host_text h) (\<lambda>host. rbind (mgmt_ip nodes host) (\<lambda>ip. Inr (host, ip)))) hs) (\<lambda>rows.
     Inr (group, rows)))))"

definition inv_stack :: "string list \<Rightarrow> pyval \<times> pyval \<Rightarrow> (py_error, (string \<times> string list) option) result" where
  "inv_stack groups sc = (case sc of (s, cfg) \<Rightarrow>
     rbind (stack_groups cfg) (\<lambda>members.
     rbind (host_text s) (\<lambda>stack.
     rbind (ensure (set members \<subseteq> set groups) (ValueErr ''undefined group'')) (\<lambda>_.
     Inr (if members = [] then None else Some (stack, members))))))"

definition inventory_parts :: "pyval \<Rightarrow> (py_error, Inventory) result" where
  "inventory_parts topo =
     rbind (dict_get topo ''nodes'' (PDict [])) (\<lambda>nodes.
     rbind (section_items topo ''groups'') (\<lambda>groups.
     rbind (traverse (inv_group nodes) groups) (\<lambda>gs.
     rbind (section_items topo ''stacks'') (\<lambda>stacks.
     rbind (traverse (inv_stack (map fst gs)) stacks) (\<lambda>ss.
     Inr \<lparr>iv_groups = gs, iv_children = List.map_filter id ss\<rparr>)))))"

definition inventory_lines :: "Inventory \<Rightarrow> string list" where
  "inventory_lines iv =
     concat (map (\<lambda>(g, rows). (''['' @ g @ '']'') # map (\<lambda>(h, ip). h @ '' ansible_host='' @ ip) rows) (iv_groups iv))
     @ concat (map (\<lambda>(s, members). (''['' @ stack_group s @ '':children]'') # members) (iv_children iv))
     @ [''[all:vars]'', ''ansible_user=vagrant'', ''ansible_ssh_private_key_file=~/.vagrant.d/insecure_private_key'',
        ''ansible_ssh_common_args=-o StrictHostKeyChecking=no'', ''ansible_python_interpreter=/usr/bin/python3'']"

definition render_inventory :: "pyval \<Rightarrow> (py_error, string) result" where
  "render_inventory topo = rbind (inventory_parts topo) (\<lambda>iv. Inr (str_join [CHR 0x0A] (inventory_lines iv) @ [CHR 0x0A]))"

section \<open>Roster\<close>

record RosterRow =
  ro_host :: string
  ro_groups :: "string list"
  ro_stacks :: "string list"

definition roster_mgmt_ip :: "pyval \<Rightarrow> string \<Rightarrow> (py_error, string) result" where
  "roster_mgmt_ip nodes host =
     rbind (dict_get nodes host PNone) (\<lambda>spec.
     if spec = PNone then Inl (ValueErr ''undefined host'')
     else rbind (dict_get spec ''nics'' PNone) (\<lambda>nv.
       rbind (dict_get (or_empty nv) ''net-mgmt'' PNone) (\<lambda>ip.
       if \<not> truthy ip then Inl (ValueErr ''no net-mgmt IP'') else to_str ip)))"

text \<open>The names in the document: the groups with their hosts, the stacks with their groups.\<close>

definition roster_group :: "pyval \<times> pyval \<Rightarrow> (py_error, string \<times> string list) result" where
  "roster_group gh = (case gh of (g, hv) \<Rightarrow>
     rbind (host_text g) (\<lambda>group. rbind (py_list hv) (\<lambda>hs. rbind (traverse host_text hs) (\<lambda>hosts. Inr (group, hosts)))))"

definition roster_stack :: "string list \<Rightarrow> pyval \<times> pyval \<Rightarrow> (py_error, string \<times> string list) result" where
  "roster_stack groups sc = (case sc of (s, cfg) \<Rightarrow>
     rbind (stack_groups cfg) (\<lambda>members.
     rbind (host_text s) (\<lambda>stack.
     rbind (ensure (set members \<subseteq> set groups) (ValueErr ''undefined group'')) (\<lambda>_. Inr (stack, members)))))"

definition host_groups_of :: "(string \<times> string list) list \<Rightarrow> (string \<times> string list) list" where
  "host_groups_of gs = fold group_add (concat (map (\<lambda>(g, hosts). map (\<lambda>h. (h, g)) hosts) gs)) []"

definition host_stacks_of :: "(string \<times> string list) list \<Rightarrow> string list \<Rightarrow> string list" where
  "host_stacks_of stacks hgroups = map fst (filter (\<lambda>(s, members). set members \<inter> set hgroups \<noteq> {}) stacks)"

definition roster_rows :: "pyval \<Rightarrow> (py_error, (string \<times> RosterRow) list) result" where
  "roster_rows topo =
     rbind (dict_get topo ''nodes'' (PDict [])) (\<lambda>nodes.
     rbind (section_items topo ''stacks'') (\<lambda>sitems.
     rbind (section_items topo ''groups'') (\<lambda>gitems.
     rbind (traverse (\<lambda>(g, _). host_text g) gitems) (\<lambda>names.
     rbind (traverse (roster_stack names) sitems) (\<lambda>stacks.
     rbind (traverse roster_group gitems) (\<lambda>groups.
     traverse (\<lambda>(host, hgroups). rbind (roster_mgmt_ip nodes host) (\<lambda>ip.
       Inr (host, \<lparr>ro_host = ip, ro_groups = hgroups, ro_stacks = host_stacks_of stacks hgroups\<rparr>))) (host_groups_of groups)))))))"

section \<open>Scrape targets\<close>

definition NODE_EXPORTER_PORT :: string where "NODE_EXPORTER_PORT = ''9100''"
definition HYPERVISOR_MGMT_IP :: string where "HYPERVISOR_MGMT_IP = ''10.50.0.1''"
definition MQ_LISTENER_PORT :: string where "MQ_LISTENER_PORT = ''1414''"
definition MON_CHANNEL :: string where "MON_CHANNEL = ''MON.SVRCONN''"

record Target =
  tg_address :: string
  tg_host :: string
  tg_groups :: string

definition scrape_mgmt_ip :: "pyval \<Rightarrow> (py_error, string) result" where
  "scrape_mgmt_ip spec =
     rbind (dict_get spec ''nics'' PNone) (\<lambda>nv.
     rbind (dict_get (or_empty nv) ''net-mgmt'' PNone) (\<lambda>ip.
     if \<not> truthy ip then Inl (ValueErr ''host has no net-mgmt IP'') else to_str ip))"

definition groups_of :: "(string \<times> string list) list \<Rightarrow> string \<Rightarrow> string" where
  "groups_of groups host = str_join '','' (sort (map fst (filter (\<lambda>(g, hosts). host \<in> set hosts) groups)))"

definition node_target :: "(string \<times> string list) list \<Rightarrow> pyval \<times> pyval \<Rightarrow> (py_error, Target) result" where
  "node_target groups ns = (case ns of (n, spec) \<Rightarrow>
     rbind (host_text n) (\<lambda>host.
     rbind (scrape_mgmt_ip (or_empty spec)) (\<lambda>ip.
     Inr \<lparr>tg_address = ip @ '':'' @ NODE_EXPORTER_PORT, tg_host = host, tg_groups = groups_of groups host\<rparr>)))"

definition render_scrape_targets :: "pyval \<Rightarrow> (py_error, Target list) result" where
  "render_scrape_targets topo =
     rbind (section_items topo ''nodes'') (\<lambda>nodes.
     rbind (section_items topo ''groups'') (\<lambda>gitems.
     rbind (traverse roster_group gitems) (\<lambda>groups.
     rbind (traverse (node_target groups) nodes) (\<lambda>ts.
     Inr (ts @ [\<lparr>tg_address = HYPERVISOR_MGMT_IP @ '':'' @ NODE_EXPORTER_PORT, tg_host = ''hypervisor'', tg_groups = ''hypervisor''\<rparr>])))))"

record Exporter =
  ex_stack :: string
  ex_role :: string
  ex_qm :: string
  ex_conn :: string
  ex_port :: pyval

definition ex_instance :: "Exporter \<Rightarrow> string" where
  "ex_instance e = py_lower (ex_qm e)"

text \<open>\<open>(topo.get(key) or {})\<close>.\<close>

definition sub_doc :: "pyval \<Rightarrow> string \<Rightarrow> (py_error, pyval) result" where
  "sub_doc v key = rbind (dict_get v key PNone) (\<lambda>w. Inr (or_empty w))"

text \<open>\<open>((nodes.get(h) or {}).get("nics") or {}).get(net)\<close>, refused when empty, for every host of a group.\<close>

definition group_addresses :: "pyval \<Rightarrow> string \<Rightarrow> string \<Rightarrow> (py_error, string list) result" where
  "group_addresses topo grp net =
     rbind (sub_doc topo ''nodes'') (\<lambda>nodes.
     rbind (sub_doc topo ''groups'') (\<lambda>groups.
     rbind (dict_get groups grp PNone) (\<lambda>hv.
     rbind (py_list (or_list hv)) (\<lambda>hs.
     traverse (\<lambda>h. rbind (host_text h) (\<lambda>host.
       rbind (dict_get nodes host PNone) (\<lambda>spec.
       rbind (sub_doc (or_empty spec) ''nics'') (\<lambda>nics.
       rbind (dict_get nics net PNone) (\<lambda>ip.
       if \<not> truthy ip then Inl (ValueErr ''no address'') else to_str ip))))) hs))))"

definition conn_name :: "string \<Rightarrow> string" where
  "conn_name ip = ip @ ''('' @ MQ_LISTENER_PORT @ '')''"

definition app_qm_conn :: "pyval \<Rightarrow> pyval \<Rightarrow> (py_error, string) result" where
  "app_qm_conn topo cfg =
     rbind (sub_doc cfg ''qm'') (\<lambda>qm.
     rbind (dict_get qm ''vip'' PNone) (\<lambda>vip.
     if truthy vip then rbind (to_str vip) (\<lambda>v. Inr (conn_name v))
     else rbind (dict_get cfg ''cluster_group'' PNone) (\<lambda>cg.
       if \<not> truthy cg then Inl (ValueErr ''no QM VIP and no cluster_group'')
       else rbind (host_text cg) (\<lambda>group.
         rbind (group_addresses topo group ''net-mgmt'') (\<lambda>ips.
         if ips = [] then Inl (ValueErr ''cluster_group has no hosts'')
         else Inr (str_join '','' (map conn_name ips)))))))"

definition svc_exporter :: "pyval \<Rightarrow> (py_error, Exporter) result" where
  "svc_exporter topo =
     rbind (sub_doc topo ''svc'') (\<lambda>svc.
     rbind (dict_get svc ''short'' PNone) (\<lambda>short.
     rbind (dict_get svc ''conn'' PNone) (\<lambda>conn.
     rbind (dict_get svc ''exporter_port'' PNone) (\<lambda>port.
     if \<not> truthy short \<or> \<not> truthy conn \<or> \<not> truthy port then Inl (ValueErr ''svc block'')
     else rbind (to_str short) (\<lambda>s. rbind (to_str conn) (\<lambda>c.
       Inr \<lparr>ex_stack = ''commons'', ex_role = ''svc'', ex_qm = s @ ''QM'', ex_conn = conn_name c, ex_port = port\<rparr>))))))"

definition app_exporter :: "pyval \<Rightarrow> pyval \<times> pyval \<Rightarrow> (py_error, Exporter option) result" where
  "app_exporter topo nc = (case nc of (n, cfg0) \<Rightarrow>
     let cfg = or_empty cfg0 in
     rbind (dict_get cfg ''short'' PNone) (\<lambda>short.
     rbind (sub_doc cfg ''alloc'') (\<lambda>alloc.
     rbind (dict_get alloc ''exporter_app_port'' PNone) (\<lambda>port.
     if \<not> truthy short \<or> \<not> truthy port then Inr None
     else rbind (host_text n) (\<lambda>name. rbind (to_str short) (\<lambda>s. rbind (app_qm_conn topo cfg) (\<lambda>conn.
       Inr (Some \<lparr>ex_stack = name, ex_role = ''app'', ex_qm = s @ ''APP'', ex_conn = conn, ex_port = port\<rparr>))))))))"

definition mq_exporter_instances :: "pyval \<Rightarrow> string option \<Rightarrow> (py_error, Exporter list) result" where
  "mq_exporter_instances topo stack =
     rbind (sub_doc topo ''stacks'') (\<lambda>sv.
     rbind (dict_items sv) (\<lambda>stacks.
     rbind (traverse (app_exporter topo) stacks) (\<lambda>apps.
     rbind (svc_exporter topo) (\<lambda>svc.
     let out = List.map_filter id apps @ [svc] in
     Inr (case stack of None \<Rightarrow> out | Some s \<Rightarrow> filter (\<lambda>e. ex_stack e \<in> {s, ''commons''}) out)))))"

definition probe_mgmt_ip :: "pyval \<Rightarrow> (py_error, string) result" where
  "probe_mgmt_ip topo =
     rbind (sub_doc topo ''groups'') (\<lambda>groups.
     rbind (dict_get groups ''probe'' PNone) (\<lambda>hv.
     rbind (py_list (or_list hv)) (\<lambda>hs.
     case hs of
       [] \<Rightarrow> Inl (ValueErr ''no probe group host'')
     | h # _ \<Rightarrow> rbind (host_text h) (\<lambda>host.
         rbind (sub_doc topo ''nodes'') (\<lambda>nodes.
         rbind (dict_get nodes host PNone) (\<lambda>spec. scrape_mgmt_ip (or_empty spec)))))))"

text \<open>The \<open>ibmmq\<close> targets: address, stack and role of every exporter.\<close>

definition render_mq_scrape_targets :: "pyval \<Rightarrow> (py_error, (string \<times> string \<times> string) list) result" where
  "render_mq_scrape_targets topo =
     rbind (probe_mgmt_ip topo) (\<lambda>probe.
     rbind (mq_exporter_instances topo None) (\<lambda>es.
     traverse (\<lambda>e. rbind (to_str (ex_port e)) (\<lambda>p. Inr (probe @ '':'' @ p, ex_stack e, ex_role e))) es))"

section \<open>Console endpoints\<close>

datatype kind = Vip | ActiveInstance | Counterparty

record Endpoint =
  en_stack :: string
  en_kind :: kind
  en_sites :: "(string \<times> string list) list"

definition url :: "string \<Rightarrow> string" where
  "url ip = ''https://'' @ ip @ '':9443''"

definition node_urls :: "pyval \<Rightarrow> string \<Rightarrow> string \<Rightarrow> (py_error, string list) result" where
  "node_urls topo grp net = rbind (group_addresses topo grp net) (\<lambda>ips. Inr (map url ips))"

definition stack_endpoint :: "pyval \<Rightarrow> pyval \<times> pyval \<Rightarrow> (py_error, Endpoint) result" where
  "stack_endpoint topo nc = (case nc of (n, cfg0) \<Rightarrow>
     let cfg = or_empty cfg0 in
     rbind (host_text n) (\<lambda>name.
     rbind (sub_doc cfg ''qm'') (\<lambda>qm.
     rbind (dict_get qm ''vip'' PNone) (\<lambda>vip.
     rbind (dict_get qm ''vip_b'' PNone) (\<lambda>vip_b.
     if truthy vip then
       if \<not> truthy vip_b then Inl (ValueErr ''site-A VIP but no vip_b'')
       else rbind (to_str vip) (\<lambda>a. rbind (to_str vip_b) (\<lambda>b.
         Inr \<lparr>en_stack = name, en_kind = Vip, en_sites = [(''site-a'', [url a]), (''site-b'', [url b])]\<rparr>))
     else rbind (dict_get cfg ''cluster_group'' PNone) (\<lambda>cg.
       if \<not> truthy cg then Inl (ValueErr ''no vip and no cluster_group'')
       else rbind (host_text cg) (\<lambda>group_a.
         rbind (node_urls topo group_a ''net-data-a'') (\<lambda>as.
         rbind (dict_get cfg ''groups'' PNone) (\<lambda>gv.
         rbind (py_list (or_list gv)) (\<lambda>gl.
         rbind (traverse host_text gl) (\<lambda>gs.
         case filter (\<lambda>g. g \<noteq> group_a) gs of
           [] \<Rightarrow> Inr \<lparr>en_stack = name, en_kind = ActiveInstance, en_sites = [(''site-a'', as)]\<rparr>
         | g # _ \<Rightarrow> rbind (node_urls topo g ''net-data-b'') (\<lambda>bs.
             Inr \<lparr>en_stack = name, en_kind = ActiveInstance, en_sites = [(''site-a'', as), (''site-b'', bs)]\<rparr>))))))))))))"

definition mqweb_endpoints :: "pyval \<Rightarrow> (py_error, Endpoint list) result" where
  "mqweb_endpoints topo =
     rbind (sub_doc topo ''nodes'') (\<lambda>nodes.
     rbind (sub_doc topo ''stacks'') (\<lambda>sv.
     rbind (dict_items sv) (\<lambda>stacks.
     rbind (traverse (stack_endpoint topo) stacks) (\<lambda>es.
     rbind (dict_get nodes ''svc-sim'' PNone) (\<lambda>spec.
     rbind (sub_doc (or_empty spec) ''nics'') (\<lambda>nics.
     rbind (dict_get nics ''net-ext'' PNone) (\<lambda>ip.
     if truthy ip then rbind (to_str ip) (\<lambda>a.
       Inr (es @ [\<lparr>en_stack = ''svc-sim'', en_kind = Counterparty, en_sites = [(''site-a'', [url a])]\<rparr>]))
     else Inr es)))))))"

section \<open>The names both files share\<close>

lemma traverse_then_map:
  "traverse (\<lambda>x. rbind (f x) (\<lambda>y. Inr (g y))) xs = rbind (traverse f xs) (\<lambda>ys. Inr (map g ys))"
proof (induction xs)
  case (Cons x xs)
  then show ?case by (cases "f x"; cases "traverse f xs") simp_all
qed simp

lemma traverse_pairs:
  "traverse (\<lambda>h. rbind (f h) (\<lambda>n. rbind (g n) (\<lambda>v. Inr (n, v)))) hs = Inr rows
     \<longleftrightarrow> traverse f hs = Inr (map fst rows) \<and> (\<forall>(n, v) \<in> set rows. g n = Inr v)"
proof (induction hs arbitrary: rows)
  case (Cons h hs)
  show ?case
  proof (cases rows)
    case Nil
    then show ?thesis by (auto simp: rbind_eq_Inr)
  next
    case (Cons r rs)
    obtain n v where r: "r = (n, v)" by fastforce
    have "traverse (\<lambda>h. rbind (f h) (\<lambda>n. rbind (g n) (\<lambda>v. Inr (n, v)))) (h # hs) = Inr (r # rs)
        \<longleftrightarrow> f h = Inr n \<and> g n = Inr v \<and> traverse (\<lambda>h. rbind (f h) (\<lambda>n. rbind (g n) (\<lambda>v. Inr (n, v)))) hs = Inr rs"
      by (auto simp: rbind_eq_Inr r)
    moreover have "traverse f (h # hs) = Inr (map fst (r # rs)) \<longleftrightarrow> f h = Inr n \<and> traverse f hs = Inr (map fst rs)"
      by (auto simp: rbind_eq_Inr r)
    ultimately show ?thesis using Cons.IH[of rs] by (auto simp: \<open>rows = r # rs\<close> r)
  qed
qed auto

lemma inv_group_iff:
  "inv_group nodes gh = Inr (g, rows)
     \<longleftrightarrow> roster_group gh = Inr (g, map fst rows) \<and> (\<forall>(h, ip) \<in> set rows. mgmt_ip nodes h = Inr ip)"
  by (cases gh) (auto simp: inv_group_def roster_group_def rbind_eq_Inr traverse_pairs)

lemma inv_groups_iff:
  "traverse (inv_group nodes) gitems = Inr gs
     \<longleftrightarrow> traverse roster_group gitems = Inr (map (\<lambda>(g, rows). (g, map fst rows)) gs)
       \<and> (\<forall>(g, rows) \<in> set gs. \<forall>(h, ip) \<in> set rows. mgmt_ip nodes h = Inr ip)"
proof (induction gitems arbitrary: gs)
  case (Cons gh gitems)
  show ?case
  proof (cases gs)
    case Nil
    then show ?thesis by (auto simp: rbind_eq_Inr)
  next
    case (Cons x xs)
    obtain g rows where x: "x = (g, rows)" by fastforce
    have "traverse (inv_group nodes) (gh # gitems) = Inr (x # xs)
        \<longleftrightarrow> inv_group nodes gh = Inr (g, rows) \<and> traverse (inv_group nodes) gitems = Inr xs"
      by (auto simp: rbind_eq_Inr x)
    moreover have "traverse roster_group (gh # gitems) = Inr (map (\<lambda>(g, rows). (g, map fst rows)) (x # xs))
        \<longleftrightarrow> roster_group gh = Inr (g, map fst rows) \<and> traverse roster_group gitems = Inr (map (\<lambda>(g, rows). (g, map fst rows)) xs)"
      by (auto simp: rbind_eq_Inr x)
    ultimately show ?thesis using Cons.IH[of xs] by (auto simp: \<open>gs = x # xs\<close> x inv_group_iff)
  qed
qed auto

lemma inv_stack_eq:
  "inv_stack groups = (\<lambda>sc. rbind (roster_stack groups sc) (\<lambda>y. Inr (if snd y = [] then None else Some y)))"
proof
  fix sc :: "pyval \<times> pyval"
  obtain s cfg where sc: "sc = (s, cfg)" by fastforce
  show "inv_stack groups sc = rbind (roster_stack groups sc) (\<lambda>y. Inr (if snd y = [] then None else Some y))"
    by (simp add: inv_stack_def roster_stack_def sc rbind_assoc)
qed

lemma children_of:
  "List.map_filter id (map (\<lambda>y. if snd y = [] then None else Some y) ys) = filter (\<lambda>y. snd y \<noteq> []) ys"
  by (induction ys) (auto simp: List.map_filter_simps)

lemma group_names:
  "traverse roster_group gitems = Inr groups \<Longrightarrow> traverse (\<lambda>(g, _). host_text g) gitems = Inr (map fst groups)"
  by (induction gitems arbitrary: groups) (auto simp: rbind_eq_Inr roster_group_def)

text \<open>What both renderings read out of the document: the nodes, the groups with their hosts, the stacks with their
  groups, every reference resolved.\<close>

definition names_view :: "pyval \<Rightarrow> pyval \<Rightarrow> (string \<times> string list) list \<Rightarrow> (string \<times> string list) list \<Rightarrow> bool" where
  "names_view topo nodes groups stacks \<longleftrightarrow>
     dict_get topo ''nodes'' (PDict []) = Inr nodes
     \<and> (\<exists>gitems. section_items topo ''groups'' = Inr gitems \<and> traverse roster_group gitems = Inr groups)
     \<and> (\<exists>sitems. section_items topo ''stacks'' = Inr sitems \<and> traverse (roster_stack (map fst groups)) sitems = Inr stacks)"

lemma inventory_parts_iff:
  "inventory_parts topo = Inr iv \<longleftrightarrow>
     (\<exists>nodes stacks. names_view topo nodes (map (\<lambda>(g, rows). (g, map fst rows)) (iv_groups iv)) stacks
        \<and> (\<forall>(g, rows) \<in> set (iv_groups iv). \<forall>(h, ip) \<in> set rows. mgmt_ip nodes h = Inr ip)
        \<and> iv_children iv = filter (\<lambda>y. snd y \<noteq> []) stacks)"
proof -
  have names: "map fst (map (\<lambda>(g, rows). (g, map fst rows)) gs) = map fst gs" for gs :: "(string \<times> (string \<times> string) list) list"
    by (simp add: o_def case_prod_beta')
  have "inventory_parts topo = Inr iv \<longleftrightarrow> (\<exists>nodes gitems sitems stacks. dict_get topo ''nodes'' (PDict []) = Inr nodes
      \<and> section_items topo ''groups'' = Inr gitems \<and> traverse (inv_group nodes) gitems = Inr (iv_groups iv)
      \<and> section_items topo ''stacks'' = Inr sitems \<and> traverse (roster_stack (map fst (iv_groups iv))) sitems = Inr stacks
      \<and> iv_children iv = filter (\<lambda>y. snd y \<noteq> []) stacks)"
    by (cases iv) (auto simp: inventory_parts_def inv_stack_eq traverse_then_map rbind_eq_Inr children_of)
  then show ?thesis unfolding names_view_def names inv_groups_iff by blast
qed

lemma roster_mgmt_ip_eq: "roster_mgmt_ip = mgmt_ip"
  by (rule ext)+ (simp add: roster_mgmt_ip_def mgmt_ip_def)

definition roster_row :: "(string \<times> string list) list \<Rightarrow> string list \<Rightarrow> string \<Rightarrow> RosterRow" where
  "roster_row stacks hgroups ip = \<lparr>ro_host = ip, ro_groups = hgroups, ro_stacks = host_stacks_of stacks hgroups\<rparr>"

lemma roster_rows_iff:
  "roster_rows topo = Inr rows \<longleftrightarrow>
     (\<exists>nodes groups stacks. names_view topo nodes groups stacks
        \<and> traverse (\<lambda>(host, hgroups). rbind (mgmt_ip nodes host) (\<lambda>ip. Inr (host, roster_row stacks hgroups ip)))
            (host_groups_of groups) = Inr rows)"
proof
  assume "roster_rows topo = Inr rows"
  then obtain nodes sitems gitems names stacks groups where
    v: "dict_get topo ''nodes'' (PDict []) = Inr nodes" "section_items topo ''stacks'' = Inr sitems"
    "section_items topo ''groups'' = Inr gitems" "traverse (\<lambda>(g, _). host_text g) gitems = Inr names"
    "traverse (roster_stack names) sitems = Inr stacks" "traverse roster_group gitems = Inr groups"
    "traverse (\<lambda>(host, hgroups). rbind (mgmt_ip nodes host) (\<lambda>ip. Inr (host, roster_row stacks hgroups ip)))
       (host_groups_of groups) = Inr rows"
    by (auto simp: roster_rows_def rbind_eq_Inr roster_mgmt_ip_eq roster_row_def)
  with group_names[OF v(6)] have "names = map fst groups" by simp
  with v show "\<exists>nodes groups stacks. names_view topo nodes groups stacks
        \<and> traverse (\<lambda>(host, hgroups). rbind (mgmt_ip nodes host) (\<lambda>ip. Inr (host, roster_row stacks hgroups ip)))
            (host_groups_of groups) = Inr rows"
    unfolding names_view_def by blast
next
  assume "\<exists>nodes groups stacks. names_view topo nodes groups stacks
        \<and> traverse (\<lambda>(host, hgroups). rbind (mgmt_ip nodes host) (\<lambda>ip. Inr (host, roster_row stacks hgroups ip)))
            (host_groups_of groups) = Inr rows"
  then show "roster_rows topo = Inr rows"
    by (auto simp: names_view_def roster_rows_def group_names roster_mgmt_ip_eq roster_row_def)
qed

lemma names_view_unique:
  "names_view topo nodes groups stacks \<Longrightarrow> names_view topo nodes' groups' stacks' \<Longrightarrow> nodes' = nodes \<and> groups' = groups \<and> stacks' = stacks"
  by (auto simp: names_view_def)

section \<open>Hosts and their groups\<close>

lemma host_groups_keys: "map fst (fold group_add kvs d) = add_all_new (map fst kvs) (map fst d)"
  by (induction kvs arbitrary: d) (auto simp: group_add_def keys_alist_update add_all_new_def add_new_def)

lemma host_groups_distinct: "distinct (map fst (host_groups_of groups))"
  by (simp add: host_groups_of_def host_groups_keys)

lemma host_groups_entry:
  "(h, gs) \<in> set (host_groups_of groups) \<longleftrightarrow>
     gs \<noteq> [] \<and> gs = map snd (filter (\<lambda>p. fst p = h) (concat (map (\<lambda>(g, hosts). map (\<lambda>h. (h, g)) hosts) groups)))"
proof -
  have "(h, gs) \<in> set (host_groups_of groups) \<longleftrightarrow> map_of (host_groups_of groups) h = Some gs"
    using host_groups_distinct map_of_eq_Some_iff by metis
  then show ?thesis by (auto simp: host_groups_of_def group_lookup)
qed

lemma host_groups_set:
  assumes "(h, gs) \<in> set (host_groups_of groups)"
  shows "set gs = {g. \<exists>hosts. (g, hosts) \<in> set groups \<and> h \<in> set hosts}"
  using assms unfolding host_groups_entry by force

lemma host_groups_hosts: "fst ` set (host_groups_of groups) = (\<Union>(g, hosts) \<in> set groups. set hosts)"
proof -
  have "fst ` set (host_groups_of groups) = set (map fst (host_groups_of groups))" by simp
  also have "\<dots> = (\<Union>(g, hosts) \<in> set groups. set hosts)"
    unfolding host_groups_of_def host_groups_keys by force
  finally show ?thesis .
qed

lemma roster_row_entry:
  assumes "traverse (\<lambda>(host, hgroups). rbind (mgmt_ip nodes host) (\<lambda>ip. Inr (host, roster_row stacks hgroups ip))) hgs = Inr rows"
  shows "map fst rows = map fst hgs"
    and "(h, r) \<in> set rows \<Longrightarrow> \<exists>gs ip. (h, gs) \<in> set hgs \<and> mgmt_ip nodes h = Inr ip \<and> r = roster_row stacks gs ip"
    and "(h, gs) \<in> set hgs \<Longrightarrow> \<exists>ip. mgmt_ip nodes h = Inr ip \<and> (h, roster_row stacks gs ip) \<in> set rows"
proof -
  show "map fst rows = map fst hgs" using assms by (induction hgs arbitrary: rows) (auto simp: rbind_eq_Inr)
  show "(h, r) \<in> set rows \<Longrightarrow> \<exists>gs ip. (h, gs) \<in> set hgs \<and> mgmt_ip nodes h = Inr ip \<and> r = roster_row stacks gs ip"
    by (drule traverse_memD[OF assms]) (fastforce simp: rbind_eq_Inr)
  show "(h, gs) \<in> set hgs \<Longrightarrow> \<exists>ip. mgmt_ip nodes h = Inr ip \<and> (h, roster_row stacks gs ip) \<in> set rows"
    by (drule traverse_memI[OF assms]) (auto simp: rbind_eq_Inr)
qed

text \<open>The address book of an inventory.\<close>

definition iv_hosts :: "Inventory \<Rightarrow> (string \<times> string) set" where
  "iv_hosts iv = (\<Union>(g, rows) \<in> set (iv_groups iv). set rows)"

lemma iv_hosts_iff:
  assumes "\<forall>(g, rows) \<in> set (iv_groups iv). \<forall>(h, ip) \<in> set rows. mgmt_ip nodes h = Inr ip"
  shows "(h, ip) \<in> iv_hosts iv \<longleftrightarrow>
    (\<exists>g rows. (g, rows) \<in> set (iv_groups iv) \<and> h \<in> fst ` set rows) \<and> mgmt_ip nodes h = Inr ip"
proof -
  have ok: "mgmt_ip nodes h = Inr a" if "(g, rows) \<in> set (iv_groups iv)" "(h, a) \<in> set rows" for g rows a
    using bspec[OF assms that(1)] that(2) by fastforce
  show ?thesis
  proof
    assume "(h, ip) \<in> iv_hosts iv"
    then obtain g rows where r: "(g, rows) \<in> set (iv_groups iv)" "(h, ip) \<in> set rows" by (auto simp: iv_hosts_def)
    then have "h \<in> fst ` set rows" by (metis fst_conv imageI)
    with r ok[OF r] show "(\<exists>g rows. (g, rows) \<in> set (iv_groups iv) \<and> h \<in> fst ` set rows) \<and> mgmt_ip nodes h = Inr ip" by blast
  next
    assume "(\<exists>g rows. (g, rows) \<in> set (iv_groups iv) \<and> h \<in> fst ` set rows) \<and> mgmt_ip nodes h = Inr ip"
    then obtain g rows a where r: "(g, rows) \<in> set (iv_groups iv)" "(h, a) \<in> set rows" and ip: "mgmt_ip nodes h = Inr ip" by auto
    from ok[OF r] ip have "a = ip" by simp
    with r show "(h, ip) \<in> iv_hosts iv" unfolding iv_hosts_def by blast
  qed
qed

lemma inventory_of_roster:
  assumes "names_view topo nodes groups stacks" and "\<forall>(g, hosts) \<in> set groups. \<forall>h \<in> set hosts. \<exists>ip. mgmt_ip nodes h = Inr ip"
  shows "\<exists>iv. inventory_parts topo = Inr iv"
proof -
  let ?gs = "map (\<lambda>(g, hosts). (g, map (\<lambda>h. (h, projr (mgmt_ip nodes h))) hosts)) groups"
  let ?iv = "\<lparr>iv_groups = ?gs, iv_children = filter (\<lambda>y. snd y \<noteq> []) stacks\<rparr>"
  have "map (\<lambda>(g, rows). (g, map fst rows)) ?gs = groups" by (induction groups) (auto simp: o_def)
  moreover have "\<forall>(g, rows) \<in> set ?gs. \<forall>(h, ip) \<in> set rows. mgmt_ip nodes h = Inr ip" using assms(2) by fastforce
  ultimately have "inventory_parts topo = Inr ?iv" unfolding inventory_parts_iff using assms(1) by (intro exI[of _ nodes] exI[of _ stacks]) simp
  then show ?thesis by blast
qed

lemma roster_of_inventory:
  assumes "inventory_parts topo = Inr iv"
  shows "\<exists>rows. roster_rows topo = Inr rows"
proof -
  from assms obtain nodes stacks where v: "names_view topo nodes (map (\<lambda>(g, rows). (g, map fst rows)) (iv_groups iv)) stacks"
    and ips: "\<forall>(g, rows) \<in> set (iv_groups iv). \<forall>(h, ip) \<in> set rows. mgmt_ip nodes h = Inr ip"
    unfolding inventory_parts_iff by blast
  let ?groups = "map (\<lambda>(g, rows). (g, map fst rows)) (iv_groups iv)"
  have "\<exists>y. (\<lambda>(host, hgroups). rbind (mgmt_ip nodes host) (\<lambda>ip. Inr (host, roster_row stacks hgroups ip))) x = Inr y"
    if "x \<in> set (host_groups_of ?groups)" for x
  proof -
    have "fst x \<in> (\<Union>(g, hosts) \<in> set ?groups. set hosts)" using that host_groups_hosts[of ?groups] by blast
    then obtain ip where "mgmt_ip nodes (fst x) = Inr ip" using ips by fastforce
    then show ?thesis by (cases x) simp
  qed
  then have "\<exists>rows. traverse (\<lambda>(host, hgroups). rbind (mgmt_ip nodes host) (\<lambda>ip. Inr (host, roster_row stacks hgroups ip)))
      (host_groups_of ?groups) = Inr rows" unfolding traverse_ok_iff by blast
  with v show ?thesis unfolding roster_rows_iff by blast
qed

section \<open>Endpoints\<close>

text \<open>The disaster-recovery rule of the endpoints: a service address is published for both sites or not at all.\<close>

lemma vip_endpoint_sites:
  assumes "stack_endpoint topo nc = Inr e" and "en_kind e = Vip"
  shows "\<exists>a b. en_sites e = [(''site-a'', [url a]), (''site-b'', [url b])]"
  using assms by (cases nc) (auto simp: stack_endpoint_def rbind_eq_Inr Let_def neq_Nil_conv split: if_splits list.splits)

lemma endpoint_sites:
  assumes "mqweb_endpoints topo = Inr es" and "e \<in> set es" and "en_kind e = Vip"
  shows "\<exists>a b. en_sites e = [(''site-a'', [url a]), (''site-b'', [url b])]"
proof -
  from assms(1) obtain stacks es' where "traverse (stack_endpoint topo) stacks = Inr es'"
    and "es = es' \<or> (\<exists>a. es = es' @ [\<lparr>en_stack = ''svc-sim'', en_kind = Counterparty, en_sites = [(''site-a'', [url a])]\<rparr>])"
    by (auto simp: mqweb_endpoints_def rbind_eq_Inr split: if_splits)
  moreover from this(2) assms(2,3) have "e \<in> set es'" by auto
  ultimately obtain nc where "stack_endpoint topo nc = Inr e" by (blast dest: traverse_memD)
  then show ?thesis using assms(3) by (rule vip_endpoint_sites)
qed

section \<open>Properties\<close>

text \<open>C26: the inventory and the roster describe the same lab: one can be rendered exactly when the other can, they
  hold the same hosts with the same addresses, each host once in the roster, and the groups and stacks the
  roster gives a host are those of the inventory.\<close>

theorem inventory_roster_agree:
  "((\<exists>iv. inventory_parts topo = Inr iv) \<longleftrightarrow> (\<exists>rows. roster_rows topo = Inr rows))
   \<and> (\<forall>iv rows. inventory_parts topo = Inr iv \<and> roster_rows topo = Inr rows \<longrightarrow>
        (\<lambda>(h, r). (h, ro_host r)) ` set rows = iv_hosts iv \<and> distinct (map fst rows)
        \<and> (\<forall>(h, r) \<in> set rows.
             set (ro_groups r) = {g. \<exists>hs. (g, hs) \<in> set (iv_groups iv) \<and> h \<in> fst ` set hs}
           \<and> set (ro_stacks r) = {s. \<exists>ms. (s, ms) \<in> set (iv_children iv) \<and> set ms \<inter> set (ro_groups r) \<noteq> {}}))"
proof (intro conjI allI impI; (elim conjE)?)
  show "(\<exists>iv. inventory_parts topo = Inr iv) \<longleftrightarrow> (\<exists>rows. roster_rows topo = Inr rows)"
  proof
    assume "\<exists>rows. roster_rows topo = Inr rows"
    then obtain rows nodes groups stacks where v: "names_view topo nodes groups stacks"
      and tr: "traverse (\<lambda>(host, hgroups). rbind (mgmt_ip nodes host) (\<lambda>ip. Inr (host, roster_row stacks hgroups ip)))
        (host_groups_of groups) = Inr rows" unfolding roster_rows_iff by blast
    have "\<exists>ip. mgmt_ip nodes h = Inr ip" if "(g, hosts) \<in> set groups" "h \<in> set hosts" for g hosts h
    proof -
      have "h \<in> fst ` set (host_groups_of groups)" unfolding host_groups_hosts using that by blast
      with roster_row_entry(3)[OF tr] show ?thesis by fastforce
    qed
    with inventory_of_roster[OF v] show "\<exists>iv. inventory_parts topo = Inr iv" by blast
  qed (use roster_of_inventory in blast)
next
  fix iv rows
  assume iv: "inventory_parts topo = Inr iv" and ros: "roster_rows topo = Inr rows"
  let ?groups = "map (\<lambda>(g, rows). (g, map fst rows)) (iv_groups iv)"
  from iv obtain nodes stacks where v: "names_view topo nodes ?groups stacks"
    and ips: "\<forall>(g, rows) \<in> set (iv_groups iv). \<forall>(h, ip) \<in> set rows. mgmt_ip nodes h = Inr ip"
    and ch: "iv_children iv = filter (\<lambda>y. snd y \<noteq> []) stacks"
    unfolding inventory_parts_iff by blast
  from ros v have tr: "traverse (\<lambda>(host, hgroups). rbind (mgmt_ip nodes host) (\<lambda>ip. Inr (host, roster_row stacks hgroups ip)))
      (host_groups_of ?groups) = Inr rows"
    unfolding roster_rows_iff using names_view_unique[OF v] by blast
  have listed: "g \<in> set gs \<longleftrightarrow> (\<exists>hs. (g, hs) \<in> set (iv_groups iv) \<and> h \<in> fst ` set hs)" if "(h, gs) \<in> set (host_groups_of ?groups)" for h gs g
    using host_groups_set[OF that] by force
  show "distinct (map fst rows)" using host_groups_distinct roster_row_entry(1)[OF tr] by simp
  show "(\<lambda>(h, r). (h, ro_host r)) ` set rows = iv_hosts iv"
  proof (rule set_eqI)
    fix x :: "string \<times> string"
    obtain h ip where x: "x = (h, ip)" by fastforce
    have "x \<in> (\<lambda>(h, r). (h, ro_host r)) ` set rows \<longleftrightarrow> h \<in> fst ` set (host_groups_of ?groups) \<and> mgmt_ip nodes h = Inr ip"
    proof
      assume "x \<in> (\<lambda>(h, r). (h, ro_host r)) ` set rows"
      then obtain r where "(h, r) \<in> set rows" and ip: "ip = ro_host r" by (auto simp: x)
      from roster_row_entry(2)[OF tr this(1)] obtain gs a where "(h, gs) \<in> set (host_groups_of ?groups)"
        "mgmt_ip nodes h = Inr a" "r = roster_row stacks gs a" by blast
      then show "h \<in> fst ` set (host_groups_of ?groups) \<and> mgmt_ip nodes h = Inr ip"
        by (auto simp: ip roster_row_def intro: rev_image_eqI)
    next
      assume "h \<in> fst ` set (host_groups_of ?groups) \<and> mgmt_ip nodes h = Inr ip"
      then obtain gs where "(h, gs) \<in> set (host_groups_of ?groups)" and ip: "mgmt_ip nodes h = Inr ip" by auto
      from roster_row_entry(3)[OF tr this(1)] ip have "(h, roster_row stacks gs ip) \<in> set rows" by auto
      then show "x \<in> (\<lambda>(h, r). (h, ro_host r)) ` set rows"
        by (rule rev_image_eqI) (simp add: x roster_row_def)
    qed
    also have "\<dots> \<longleftrightarrow> x \<in> iv_hosts iv"
    proof -
      have "h \<in> fst ` set (host_groups_of ?groups) \<longleftrightarrow> (\<exists>g rows. (g, rows) \<in> set (iv_groups iv) \<and> h \<in> fst ` set rows)"
        unfolding host_groups_hosts by force
      then show ?thesis by (simp only: x iv_hosts_iff[OF ips])
    qed
    finally show "x \<in> (\<lambda>(h, r). (h, ro_host r)) ` set rows \<longleftrightarrow> x \<in> iv_hosts iv" .
  qed
  show "\<forall>(h, r) \<in> set rows.
             set (ro_groups r) = {g. \<exists>hs. (g, hs) \<in> set (iv_groups iv) \<and> h \<in> fst ` set hs}
           \<and> set (ro_stacks r) = {s. \<exists>ms. (s, ms) \<in> set (iv_children iv) \<and> set ms \<inter> set (ro_groups r) \<noteq> {}}"
  proof clarify
    fix h r assume "(h, r) \<in> set rows"
    from roster_row_entry(2)[OF tr this] obtain gs ip where gs: "(h, gs) \<in> set (host_groups_of ?groups)" and r: "r = roster_row stacks gs ip" by blast
    have "set (host_stacks_of stacks gs) = {s. \<exists>ms. (s, ms) \<in> set (iv_children iv) \<and> set ms \<inter> set gs \<noteq> {}}"
      unfolding host_stacks_of_def ch by force
    with listed[OF gs] show "set (ro_groups r) = {g. \<exists>hs. (g, hs) \<in> set (iv_groups iv) \<and> h \<in> fst ` set hs}
           \<and> set (ro_stacks r) = {s. \<exists>ms. (s, ms) \<in> set (iv_children iv) \<and> set ms \<inter> set (ro_groups r) \<noteq> {}}"
      by (auto simp: r roster_row_def)
  qed
qed

definition two_node_lab :: pyval where
  "two_node_lab = PDict
     [(PStr ''nodes'', PDict [(PStr ''qm-a1'', PDict [(PStr ''nics'', PDict [(PStr ''net-mgmt'', PStr ''10.50.0.11'')])]),
                              (PStr ''qm-a2'', PDict [(PStr ''nics'', PDict [(PStr ''net-mgmt'', PStr ''10.50.0.12'')])])]),
      (PStr ''groups'', PDict [(PStr ''rdqm_a'', PList [PStr ''qm-a1'', PStr ''qm-a2'']), (PStr ''mq'', PList [PStr ''qm-a2''])]),
      (PStr ''stacks'', PDict [(PStr ''rdqm-rhel'', PDict [(PStr ''groups'', PList [PStr ''rdqm_a''])]), (PStr ''spare'', PNone)])]"

theorem inventory_roster_agree_witness:
  "\<exists>iv rows. inventory_parts two_node_lab = Inr iv \<and> roster_rows two_node_lab = Inr rows
     \<and> map fst rows = [''qm-a1'', ''qm-a2''] \<and> map (\<lambda>(h, r). ro_groups r) rows = [[''rdqm_a''], [''rdqm_a'', ''mq'']]
     \<and> map fst (iv_children iv) = [''rdqm-rhel''] \<and> (\<lambda>(h, r). (h, ro_host r)) ` set rows = iv_hosts iv"
proof -
  define iv where "iv = projr (inventory_parts two_node_lab)"
  have "\<not> isl (inventory_parts two_node_lab)" by code_simp
  then have iv: "inventory_parts two_node_lab = Inr iv" by (cases "inventory_parts two_node_lab") (simp_all add: iv_def)
  with inventory_roster_agree[of two_node_lab] obtain rows where rows: "roster_rows two_node_lab = Inr rows" by blast
  have r: "rows = projr (roster_rows two_node_lab)" by (simp add: rows)
  have "map fst (projr (roster_rows two_node_lab)) = [''qm-a1'', ''qm-a2'']"
    "map (\<lambda>(h, r). ro_groups r) (projr (roster_rows two_node_lab)) = [[''rdqm_a''], [''rdqm_a'', ''mq'']]"
    "map fst (iv_children (projr (inventory_parts two_node_lab))) = [''rdqm-rhel'']" by code_simp+
  moreover have "(\<lambda>(h, r). (h, ro_host r)) ` set rows = iv_hosts iv"
    using inventory_roster_agree[of two_node_lab] iv rows by blast
  ultimately show ?thesis
    using iv rows unfolding r[symmetric] iv_def[symmetric] by (intro exI[of _ iv] exI[of _ rows] conjI)
qed

end
