(* ===== verification/Stack_Verbs.thy ===== *)
theory Stack_Verbs
  imports Teardown Projections
begin

text \<open>
  The verbs of \<open>mqlab/cli.py\<close> that act on one running stack: the queue-manager verbs (\<open>qm create\<close> to
  \<open>qm reload\<close>), the disaster-recovery verbs, the record gate all of them pass, and the probes behind the
  status of a stack.

  What the host answers is one record: the directory of instance records, the exit code and output of the
  \<open>virsh list\<close> of the gate and the output of the one a verb makes itself (whose exit code the code does not
  read), the secrets script, and the answers of the two status probes. A verb ends before its commands with
  an exit code or an exception, or yields the commands it runs; the inventory file it renders first is part
  of the result. The echoed texts are not modelled.
\<close>

section \<open>Definitions\<close>

datatype verb_stop = VExit int | VRaised py_error

definition up :: "(py_error, 'a) result \<Rightarrow> (verb_stop, 'a) result" where
  "up r = (case r of Inl e \<Rightarrow> Inl (VRaised e) | Inr x \<Rightarrow> Inr x)"

record VerbHost =
  vh_dir :: Dir
  vh_gate :: "int \<times> string"
  vh_states :: string
  vh_secret :: "string \<Rightarrow> int \<times> string"
  vh_run :: "Command \<Rightarrow> int"
  vh_targets :: "int \<times> json_text option"

record VerbOut =
  vb_inventory :: "string option"
  vb_end :: "(verb_stop, CommandStep list) result"

definition states_of :: "string \<Rightarrow> (string \<rightharpoonup> string)" where
  "states_of listing = map_of (parse_domain_states listing)"

definition lookup_stack_or_exit :: "pyval \<Rightarrow> string \<Rightarrow> (verb_stop, Stack) result" where
  "lookup_stack_or_exit topo name = rbind (up (lab_stacks topo)) (\<lambda>stacks.
     case map_of stacks (PStr name) of None \<Rightarrow> Inl (VExit 2) | Some stk \<Rightarrow> Inr stk)"

definition stack_qm_or_exit :: "pyval \<Rightarrow> string \<Rightarrow> (verb_stop, Stack) result" where
  "stack_qm_or_exit topo name = rbind (lookup_stack_or_exit topo name) (\<lambda>stk.
     if stk_short stk = [] then Inl (VExit 2) else Inr stk)"

subsection \<open>The record gate\<close>

definition stack_live :: "pyval \<Rightarrow> int \<times> string \<Rightarrow> string \<Rightarrow> (verb_stop, bool) result" where
  "stack_live topo answer name = rbind (up (stack_guests topo name)) (\<lambda>members.
     if members = [] then Inr False
     else if fst answer \<noteq> 0 then Inl (VExit 1)
     else Inr (list_ex (is_live (states_of (snd answer))) members))"

definition record_gate :: "pyval \<Rightarrow> VerbHost \<Rightarrow> string \<Rightarrow> (verb_stop, InstanceRecord option) result" where
  "record_gate topo host name = rbind (stack_live topo (vh_gate host) name) (\<lambda>live.
     case require_record_if_live (vh_dir host) name live of Inl _ \<Rightarrow> Inl (VExit 2) | Inr r \<Rightarrow> Inr r)"

subsection \<open>Texts of commands\<close>

lemma length_past_field [termination_simp]: "length (dropWhile P cs) - Suc 0 < Suc (length cs)"
  using length_dropWhile_le[of P cs] by simp

text \<open>\<open>str.format\<close> with named texts: doubled braces stand for themselves. Positional fields, conversions,
  attributes and format specifications are outside the model.\<close>

definition plain_field :: "string \<Rightarrow> bool" where
  "plain_field key \<longleftrightarrow> key \<noteq> [] \<and> list_all (\<lambda>c. is_lower c \<or> is_upper c \<or> c = CHR ''_'') key"

fun py_format :: "(string \<times> string) list \<Rightarrow> string \<Rightarrow> (py_error, string) result" where
  "py_format fs [] = Inr []"
| "py_format fs (c # cs) =
     (if c = CHR ''{'' then
        (if cs \<noteq> [] \<and> hd cs = CHR ''{'' then rbind (py_format fs (tl cs)) (\<lambda>t. Inr (CHR ''{'' # t))
         else let key = takeWhile (\<lambda>x. x \<noteq> CHR ''}'') cs in
           if dropWhile (\<lambda>x. x \<noteq> CHR ''}'') cs = [] then Inl (ValueErr ''expected }'')
           else if \<not> plain_field key then Inl (Unmodelled ''format field'')
           else (case map_of fs key of
               None \<Rightarrow> Inl (KeyErr key)
             | Some v \<Rightarrow> rbind (py_format fs (tl (dropWhile (\<lambda>x. x \<noteq> CHR ''}'') cs))) (\<lambda>t. Inr (v @ t))))
      else if c = CHR ''}'' then
        (if cs \<noteq> [] \<and> hd cs = CHR ''}'' then rbind (py_format fs (tl cs)) (\<lambda>t. Inr (CHR ''}'' # t))
         else Inl (ValueErr ''single }''))
      else rbind (py_format fs cs) (\<lambda>t. Inr (c # t)))"

text \<open>An element of an argument list is passed as it is.\<close>

definition argument :: "pyval \<Rightarrow> (py_error, string) result" where
  "argument v = (case v of PStr s \<Rightarrow> Inr s | _ \<Rightarrow> Inl (TypeErr ''expected str''))"

definition upper_char :: "char \<Rightarrow> char" where
  "upper_char c = (let k = (of_char c :: nat) in if 97 \<le> k \<and> k \<le> 122 then char_of (k - 32) else c)"

definition ansible_dir :: "LabEnv \<Rightarrow> string option" where
  "ansible_dir env = Some (le_root env @ ''/ansible'')"

subsection \<open>Probes gated on running guests\<close>

text \<open>The reason for which a probe of the hosts is skipped; nothing when it is not.\<close>

definition probe_skipped_down :: "(string \<rightharpoonup> string) \<Rightarrow> string list \<Rightarrow> string option" where
  "probe_skipped_down states hosts =
     (let down = filter (\<lambda>h. classify_guest states h \<noteq> RUNNING) hosts in
      if hosts \<noteq> [] \<and> down = [] then None
      else Some (if down \<noteq> [] then ''domain(s) not running: '' @ str_join '', '' down else ''no target hosts''))"

definition group_host_names :: "pyval \<Rightarrow> string \<Rightarrow> (py_error, string list) result" where
  "group_host_names topo g = rbind (group_hosts topo g) names_of"

definition single_item :: "pyval \<Rightarrow> (py_error, pyval \<times> pyval) result" where
  "single_item impl = rbind (dict_items impl) (\<lambda>xs. case xs of [kv] \<Rightarrow> Inr kv | _ \<Rightarrow> Inl (ValueErr ''unpack''))"

definition verb_impl :: "Stack \<Rightarrow> string \<Rightarrow> pyval" where
  "verb_impl stk verb = (case map_of (stk_verbs stk) (PStr verb) of None \<Rightarrow> PNone | Some v \<Rightarrow> v)"

definition cluster_shell :: "LabEnv \<Rightarrow> string \<Rightarrow> string \<Rightarrow> Command" where
  "cluster_shell env grp shell_cmd =
     run_in (ansible_dir env) [''ansible'', grp @ ''[0]'', ''-b'', ''-m'', ''shell'', ''-a'', shell_cmd]"

subsection \<open>Queue-manager verbs\<close>

text \<open>A verb that renders the inventory between its checks and its commands.\<close>

definition with_inventory :: "LabEnv \<Rightarrow> (verb_stop, 'a) result \<Rightarrow> ('a \<Rightarrow> (verb_stop, CommandStep list) result) \<Rightarrow> VerbOut" where
  "with_inventory env checks cont =
     (case checks of
        Inl s \<Rightarrow> \<lparr>vb_inventory = None, vb_end = Inl s\<rparr>
      | Inr x \<Rightarrow>
          (case render_inventory (le_topo env) of
             Inl e \<Rightarrow> \<lparr>vb_inventory = None, vb_end = Inl (VRaised e)\<rparr>
           | Inr text_inv \<Rightarrow> \<lparr>vb_inventory = Some text_inv, vb_end = cont x\<rparr>))"

definition source_secret :: "VerbHost \<Rightarrow> string \<Rightarrow> (verb_stop, string) result" where
  "source_secret host secret = (let (code, out) = vh_secret host secret in if code \<noteq> 0 then Inl (VExit 2) else Inr (py_strip out))"

definition stack_provision_env :: "LabEnv \<Rightarrow> VerbHost \<Rightarrow> Stack \<Rightarrow> (verb_stop, (string \<times> string) list) result" where
  "stack_provision_env env host stk =
     rbind (up (names_of (stk_secrets stk))) (\<lambda>secrets.
     rbind (traverse (\<lambda>s. rbind (source_secret host s) (\<lambda>v. Inr (map upper_char s, v))) secrets) (\<lambda>kvs.
     Inr (AList.update ''MQWEB_STATE_DIR'' (le_root env @ ''/build/state/mqweb'') (dict_build fst snd kvs))))"

definition playbook_argv :: "QmConfig \<Rightarrow> string \<Rightarrow> string \<Rightarrow> string \<Rightarrow> string list" where
  "playbook_argv qm playbook vip vip_ext =
     [''ansible-playbook'', playbook, ''-e'', ''qm_name='' @ qm_name qm, ''-e'', ''qm_vip='' @ vip,
      ''-e'', ''qm_vip_ext='' @ vip_ext, ''-e'', ''qm_app='' @ qm_name qm, ''-e'', ''qm_svc='' @ qm_svc qm,
      ''-e'', ''chl_to_svc='' @ chl_to_svc qm, ''-e'', ''chl_to_app='' @ chl_to_app qm,
      ''-e'', ''svc_req_queue='' @ req_queue qm]
     @ (if qm_svc_conn qm \<noteq> [] then [''-e'', ''svc_conn='' @ qm_svc_conn qm] else [])"

definition qm_playbook :: "LabEnv \<Rightarrow> VerbHost \<Rightarrow> Stack \<Rightarrow> pyval \<Rightarrow> string \<Rightarrow> VerbOut" where
  "qm_playbook env host stk playbook verb =
     with_inventory env
       (rbind (up (host_text (stk_name stk))) (\<lambda>name.
        rbind (up (stack_guests (le_topo env) name)) (\<lambda>members.
        rbind (ensure (filter (\<lambda>m. classify_guest (states_of (vh_states host)) m \<noteq> RUNNING) members = []) (VExit 3)) (\<lambda>_.
        Inr name))))
       (\<lambda>name.
        rbind (if verb = ''qm-create'' then rbind (stack_provision_env env host stk) (\<lambda>e. Inr (Some e)) else Inr None) (\<lambda>e.
        rbind (up (argument playbook)) (\<lambda>pb.
        rbind (up (to_str (qm_vip (stk_qm stk)))) (\<lambda>vip.
        rbind (up (to_str (qm_vip_ext (stk_qm stk)))) (\<lambda>vip_ext.
        Inr [plain_step (name @ '' '' @ verb)
               \<lparr>argv = playbook_argv (stk_qm stk) pb vip vip_ext, cwd = ansible_dir env, cmd_env = e\<rparr>])))))"

definition dr_target :: "pyval \<Rightarrow> (string \<rightharpoonup> string) \<Rightarrow> pyval \<Rightarrow> (verb_stop, (string \<times> string option) list) result" where
  "dr_target topo states g =
     rbind (up (host_text g)) (\<lambda>grp.
     rbind (up (group_host_names topo grp)) (\<lambda>hosts.
     Inr (if probe_skipped_down states (take 1 hosts) = None then [(grp, Some ''site B'')] else [])))"

definition qm_cmd_targets ::
  "LabEnv \<Rightarrow> VerbHost \<Rightarrow> Stack \<Rightarrow> string \<Rightarrow> (verb_stop, (string \<times> string option) list) result" where
  "qm_cmd_targets env host stk verb =
     rbind (up (to_str (stk_cluster_group stk))) (\<lambda>grp.
     if verb \<noteq> ''qm-status'' \<or> stk_mechanism stk \<noteq> PStr ''native-ha'' \<or> stk_dr_groups stk = [] then Inr [(grp, None)]
     else rbind (traverse (dr_target (le_topo env) (states_of (vh_states host))) (stk_dr_groups stk)) (\<lambda>ts.
       Inr ((grp, Some ''site A'') # concat ts)))"

definition cluster_label :: "string \<Rightarrow> string \<Rightarrow> string option \<Rightarrow> string" where
  "cluster_label name verb label = name @ '' '' @ verb @ (case label of None \<Rightarrow> [] | Some l \<Rightarrow> '' ('' @ l @ '')'')"

definition qm_cluster_cmd :: "LabEnv \<Rightarrow> VerbHost \<Rightarrow> Stack \<Rightarrow> string \<Rightarrow> string \<Rightarrow> VerbOut" where
  "qm_cluster_cmd env host stk shell_cmd verb =
     with_inventory env (Inr ())
       (\<lambda>_. rbind (up (host_text (stk_name stk))) (\<lambda>name.
        rbind (qm_cmd_targets env host stk verb) (\<lambda>targets.
        Inr (map (\<lambda>(grp, label). plain_step (cluster_label name verb label) (cluster_shell env grp shell_cmd)) targets))))"

definition qm_script :: "LabEnv \<Rightarrow> Stack \<Rightarrow> string \<Rightarrow> string \<Rightarrow> VerbOut" where
  "qm_script env stk script verb = \<lparr>vb_inventory = None, vb_end =
     rbind (up (host_text (stk_name stk))) (\<lambda>name.
     rbind (up (argument (qm_vip (stk_qm stk)))) (\<lambda>vip.
     Inr [plain_step (name @ '' '' @ verb) (run_in None
       [''bash'', lab_script (le_root env) script, qm_name (stk_qm stk), vip, qm_svc_conn (stk_qm stk),
        qm_svc (stk_qm stk), req_queue (stk_qm stk)])]))\<rparr>"

definition stopped_at :: "verb_stop \<Rightarrow> VerbOut" where
  "stopped_at s = \<lparr>vb_inventory = None, vb_end = Inl s\<rparr>"

definition qm_format :: "QmConfig \<Rightarrow> pyval \<Rightarrow> (py_error, string) result" where
  "qm_format qm v = rbind (to_str v) (\<lambda>t. rbind (to_str (qm_vip qm)) (\<lambda>vip.
     py_format [(''qm'', qm_name qm), (''vip'', vip)] t))"

definition qm_verb :: "LabEnv \<Rightarrow> VerbHost \<Rightarrow> Stack \<Rightarrow> string \<Rightarrow> pyval \<times> pyval \<Rightarrow> VerbOut" where
  "qm_verb env host stk verb impl =
     (case impl of (kind, v) \<Rightarrow>
        if kind = PStr ''playbook'' then qm_playbook env host stk v verb
        else if kind = PStr ''pcs'' then
          (case to_str v of Inl e \<Rightarrow> stopped_at (VRaised e) | Inr t \<Rightarrow> qm_cluster_cmd env host stk (''pcs '' @ t) verb)
        else if kind = PStr ''cmd'' then
          (case qm_format (stk_qm stk) v of Inl e \<Rightarrow> stopped_at (VRaised e) | Inr t \<Rightarrow> qm_cluster_cmd env host stk t verb)
        else if kind = PStr ''script'' then
          (case to_str v of Inl e \<Rightarrow> stopped_at (VRaised e) | Inr t \<Rightarrow> qm_script env stk t verb)
        else stopped_at (VExit 2))"

text \<open>A verb of a queue manager: its checks in order, then its implementation.\<close>

definition checked_verb :: "(verb_stop, 'a) result \<Rightarrow> ('a \<Rightarrow> VerbOut) \<Rightarrow> VerbOut" where
  "checked_verb checks cont = (case checks of Inl s \<Rightarrow> stopped_at s | Inr x \<Rightarrow> cont x)"

definition qm_dispatch :: "LabEnv \<Rightarrow> VerbHost \<Rightarrow> string \<Rightarrow> string \<Rightarrow> VerbOut" where
  "qm_dispatch env host name verb = checked_verb
     (rbind (stack_qm_or_exit (le_topo env) name) (\<lambda>stk.
      rbind (ensure (truthy (verb_impl stk verb)) (VExit 2)) (\<lambda>_.
      rbind (record_gate (le_topo env) host name) (\<lambda>_.
      rbind (up (single_item (verb_impl stk verb))) (\<lambda>impl. Inr (stk, impl))))))
     (\<lambda>(stk, impl). qm_verb env host stk verb impl)"

subsection \<open>Restarting the active queue manager\<close>

text \<open>The groups searched for the active instance: the cluster group, and the DR groups whose guests all run.\<close>

definition dr_group_running :: "pyval \<Rightarrow> (string \<rightharpoonup> string) \<Rightarrow> pyval \<Rightarrow> (verb_stop, string \<times> bool) result" where
  "dr_group_running topo states g =
     rbind (up (host_text g)) (\<lambda>grp.
     rbind (up (group_host_names topo grp)) (\<lambda>hosts.
     Inr (grp, hosts \<noteq> [] \<and> list_all (\<lambda>h. classify_guest states h = RUNNING) hosts)))"

definition qm_reload_groups ::
  "pyval \<Rightarrow> (string \<rightharpoonup> string) \<Rightarrow> Stack \<Rightarrow> string \<Rightarrow> (verb_stop, string list) result" where
  "qm_reload_groups topo states stk cluster =
     rbind (up (group_host_names topo cluster)) (\<lambda>hosts.
     rbind (ensure (filter (\<lambda>h. classify_guest states h \<noteq> RUNNING) hosts = []) (VExit 3)) (\<lambda>_.
     rbind (traverse (dr_group_running topo states) (stk_dr_groups stk)) (\<lambda>drs.
     Inr (cluster # map fst (filter snd drs)))))"

definition reload_playbook :: "pyval \<times> pyval \<Rightarrow> (verb_stop, string) result" where
  "reload_playbook impl = (case impl of (kind, v) \<Rightarrow>
     if kind = PStr ''refuse'' \<or> kind \<noteq> PStr ''playbook'' then Inl (VExit 2) else up (to_str v))"

definition reload_cluster :: "pyval \<Rightarrow> Stack \<Rightarrow> (verb_stop, string) result" where
  "reload_cluster topo stk =
     (if stk_cluster_group stk = PNone then Inl (VExit 2)
      else rbind (up (host_text (stk_cluster_group stk))) (\<lambda>cluster.
        rbind (up (group_host_names topo cluster)) (\<lambda>hosts. if hosts = [] then Inl (VExit 2) else Inr cluster)))"

definition qm_reload_run :: "LabEnv \<Rightarrow> VerbHost \<Rightarrow> string \<Rightarrow> int \<Rightarrow> VerbOut" where
  "qm_reload_run env host name timeout = checked_verb
     (rbind (stack_qm_or_exit (le_topo env) name) (\<lambda>stk.
      rbind (ensure (truthy (verb_impl stk ''qm-reload'')) (VExit 2)) (\<lambda>_.
      rbind (up (single_item (verb_impl stk ''qm-reload''))) (\<lambda>impl.
      rbind (reload_playbook impl) (\<lambda>playbook.
      rbind (reload_cluster (le_topo env) stk) (\<lambda>cluster.
      rbind (record_gate (le_topo env) host name) (\<lambda>_. Inr (stk, playbook, cluster))))))))
     (\<lambda>(stk, playbook, cluster). with_inventory env
       (qm_reload_groups (le_topo env) (states_of (vh_states host)) stk cluster)
       (\<lambda>groups.
        rbind (up (to_str (stk_mechanism stk))) (\<lambda>mechanism.
        rbind (up (to_str (PInt timeout))) (\<lambda>limit.
        Inr [plain_step (name @ '' qm-reload'') (run_in (ansible_dir env)
          [''ansible-playbook'', playbook, ''-e'', ''qm_stack='' @ name, ''-e'', ''qm_name='' @ qm_name (stk_qm stk),
           ''-e'', ''qm_mechanism='' @ mechanism, ''-e'', ''qm_hosts='' @ str_join '':'' groups,
           ''-e'', ''qm_reload_timeout='' @ limit])]))))"

subsection \<open>Disaster recovery\<close>

definition DR_KINDS :: "string list" where
  "DR_KINDS = [''script'', ''playbook'']"

definition dr_impl :: "Stack \<Rightarrow> string \<Rightarrow> (verb_stop, string \<times> string \<times> bool) result" where
  "dr_impl stk verb =
     rbind (up (dict_items (or_empty (verb_impl stk (''dr-'' @ verb))))) (\<lambda>impl.
     if impl = [] then Inl (VExit 2)
     else let rpo0 = (case map_of impl (PStr ''rpo0'') of None \<Rightarrow> False | Some v \<Rightarrow> truthy v);
              others = filter (\<lambda>kv. fst kv \<noteq> PStr ''rpo0'') impl in
       (case others of
          [(PStr kind, v)] \<Rightarrow>
            if List.member DR_KINDS kind then rbind (up (to_str v)) (\<lambda>t. Inr (kind, t, rpo0)) else Inl (VExit 2)
        | _ \<Rightarrow> Inl (VExit 2)))"

definition dr_command :: "LabEnv \<Rightarrow> Stack \<Rightarrow> string \<Rightarrow> string \<Rightarrow> string \<Rightarrow> bool \<Rightarrow> Command" where
  "dr_command env stk kind v direction rpo0_drill =
     (if kind = ''script'' then
        \<lparr>argv = [''bash'', lab_script (le_root env) v, direction, qm_name (stk_qm stk)], cwd = ansible_dir env,
         cmd_env = (if rpo0_drill then Some [(''RPO0_DRILL'', ''1'')] else None)\<rparr>
      else run_in (ansible_dir env)
        [''ansible-playbook'', v, ''-e'', ''dr_direction='' @ direction, ''-e'', ''qm_name='' @ qm_name (stk_qm stk),
         ''-e'', ''rpo0_drill='' @ (if rpo0_drill then ''true'' else ''false'')])"

definition dr_run :: "LabEnv \<Rightarrow> VerbHost \<Rightarrow> string \<Rightarrow> string \<Rightarrow> string \<Rightarrow> bool \<Rightarrow> VerbOut" where
  "dr_run env host name direction verb rpo0_drill = checked_verb
     (rbind (stack_qm_or_exit (le_topo env) name) (\<lambda>stk.
      rbind (dr_impl stk verb) (\<lambda>(kind, v, rpo0).
      rbind (ensure (\<not> rpo0_drill \<or> rpo0) (VExit 2)) (\<lambda>_.
      rbind (record_gate (le_topo env) host name) (\<lambda>_. Inr (stk, kind, v))))))
     (\<lambda>(stk, kind, v). with_inventory env (Inr ())
       (\<lambda>_. Inr [plain_step (name @ '' dr '' @ verb) (dr_command env stk kind v direction rpo0_drill)]))"

definition dr_cutover :: "LabEnv \<Rightarrow> VerbHost \<Rightarrow> string \<Rightarrow> bool \<Rightarrow> VerbOut" where
  "dr_cutover env host name rpo0_drill = dr_run env host name ''a2b'' ''cutover'' rpo0_drill"

definition dr_failback :: "LabEnv \<Rightarrow> VerbHost \<Rightarrow> string \<Rightarrow> bool \<Rightarrow> VerbOut" where
  "dr_failback env host name rpo0_drill = dr_run env host name ''b2a'' ''failback'' rpo0_drill"

definition netem_step :: "LabEnv \<Rightarrow> string \<Rightarrow> string list \<Rightarrow> CommandStep" where
  "netem_step env action args =
     plain_step (''netem '' @ action) (run_in None ([''bash'', lab_script (le_root env) ''net-latency.sh'', action] @ args))"

subsection \<open>Status\<close>

text \<open>The command that asks whether the queue manager is up, if there is one to run.\<close>

definition qm_status_command :: "LabEnv \<Rightarrow> (string \<rightharpoonup> string) \<Rightarrow> Stack \<Rightarrow> (py_error, Command option) result" where
  "qm_status_command env states stk =
     (if \<not> truthy (verb_impl stk ''qm-status'') \<or> stk_cluster_group stk = PNone then Inr None
      else rbind (host_text (stk_cluster_group stk)) (\<lambda>grp.
        rbind (group_host_names (le_topo env) grp) (\<lambda>hosts.
        if probe_skipped_down states (take 1 hosts) \<noteq> None then Inr None
        else rbind (single_item (verb_impl stk ''qm-status'')) (\<lambda>(kind, v).
          rbind (to_str v) (\<lambda>t.
          rbind (if kind = PStr ''pcs'' then Inr (''pcs '' @ t) else py_format [(''qm'', qm_name (stk_qm stk))] t) (\<lambda>shell_cmd.
          Inr (Some (cluster_shell env grp shell_cmd))))))))"

definition probe_qm_up :: "LabEnv \<Rightarrow> VerbHost \<Rightarrow> (string \<rightharpoonup> string) \<Rightarrow> Stack \<Rightarrow> (py_error, bool) result" where
  "probe_qm_up env host states stk = rbind (qm_status_command env states stk) (\<lambda>c.
     Inr (case c of None \<Rightarrow> False | Some cmd \<Rightarrow> vh_run host cmd = 0))"

fun any_target :: "string \<Rightarrow> pyval list \<Rightarrow> (py_error, bool) result" where
  "any_target needle [] = Inr False"
| "any_target needle (t # ts) =
     rbind (dict_get t ''scrapeUrl'' PNone) (\<lambda>u.
     rbind (if truthy u then argument u else Inr []) (\<lambda>url.
     rbind (dict_get t ''health'' PNone) (\<lambda>h.
     if find_sub needle url \<noteq> None \<and> h = PStr ''up'' then Inr True else any_target needle ts)))"

definition targets_healthy :: "string \<Rightarrow> json_text option \<Rightarrow> (py_error, bool) result" where
  "targets_healthy port body =
     rbind (case body of None \<Rightarrow> Inr (PDict []) | Some NotJson \<Rightarrow> Inl (ValueErr ''JSONDecodeError'') | Some (Json v) \<Rightarrow> Inr v) (\<lambda>payload.
     rbind (dict_get payload ''data'' PNone) (\<lambda>d.
     rbind (dict_get (or_empty d) ''activeTargets'' PNone) (\<lambda>ts.
     rbind (py_list (or_list ts)) (any_target ('':'' @ port @ ''/'')))))"

definition probe_observe :: "LabEnv \<Rightarrow> VerbHost \<Rightarrow> (string \<rightharpoonup> string) \<Rightarrow> Stack \<Rightarrow> (py_error, bool) result" where
  "probe_observe env host states stk =
     (case map_of (stk_alloc stk) (PStr ''exporter_app_port'') of
        None \<Rightarrow> Inr False
      | Some port \<Rightarrow>
          if \<not> truthy port then Inr False
          else rbind (group_host_names (le_topo env) ''obs_box'') (\<lambda>hosts.
            if probe_skipped_down states hosts \<noteq> None then Inr False
            else if fst (vh_targets host) \<noteq> 0 then Inr False
            else rbind (to_str port) (\<lambda>p. targets_healthy p (snd (vh_targets host)))))"

definition probe_all :: "LabEnv \<Rightarrow> VerbHost \<Rightarrow> string \<Rightarrow> Stack \<Rightarrow> (py_error, States) result" where
  "probe_all env host net_listing stk =
     (let states = states_of (vh_states host) in
      rbind (probe_qm_up env host states stk) (\<lambda>q.
      rbind (probe_observe env host states stk) (\<lambda>obs.
      Inr (build_states (map_of (parse_net_states net_listing)) states q obs))))"

definition status_one ::
  "LabEnv \<Rightarrow> VerbHost \<Rightarrow> string \<Rightarrow> Stack \<Rightarrow> (verb_stop, InstanceRecord option \<times> (string \<times> bool) list) result" where
  "status_one env host net_listing stk =
     rbind (up (host_text (stk_name stk))) (\<lambda>name.
     rbind (record_gate (le_topo env) host name) (\<lambda>r.
     rbind (up (probe_all env host net_listing stk)) (\<lambda>states.
     rbind (up (traverse (\<lambda>p. rbind (ph_satisfied p env stk states) (\<lambda>ok. Inr (ph_name p, ok))) PHASES)) (\<lambda>rows.
     Inr (r, rows)))))"

definition status_run ::
  "LabEnv \<Rightarrow> VerbHost \<Rightarrow> string \<Rightarrow> string option
     \<Rightarrow> (verb_stop, (InstanceRecord option \<times> (string \<times> bool) list) list) result" where
  "status_run env host net_listing stack =
     (case stack of
        Some name \<Rightarrow>
          rbind (lookup_stack_or_exit (le_topo env) name) (\<lambda>stk.
          if stk_cluster_group stk = PNone then Inr []
          else rbind (status_one env host net_listing stk) (\<lambda>x. Inr [x]))
      | None \<Rightarrow>
          rbind (up (lab_stacks (le_topo env))) (\<lambda>stacks.
          traverse (status_one env host net_listing) (filter (\<lambda>stk. stk_cluster_group stk \<noteq> PNone) (map snd stacks))))"

section \<open>The gate\<close>

lemma up_eq_Inr [simp]: "up r = Inr x \<longleftrightarrow> r = Inr x"
  by (simp add: up_def split: sum.split)

lemma up_eq_Inl [simp]: "up r = Inl s \<longleftrightarrow> (\<exists>e. r = Inl e \<and> s = VRaised e)"
  by (auto simp: up_def split: sum.split)

text \<open>What a passed gate shows of the stack and its record.\<close>

lemma record_gate_passed:
  assumes "record_gate topo host name = Inr r"
  shows "read_record (vh_dir host) name = Inr r
    \<and> (\<exists>members. stack_guests topo name = Inr members \<and> (members \<noteq> [] \<longrightarrow> fst (vh_gate host) = 0)
        \<and> ((\<exists>g \<in> set members. is_live (states_of (snd (vh_gate host))) g) \<longrightarrow> r \<noteq> None))"
proof -
  from assms obtain live where live: "stack_live topo (vh_gate host) name = Inr live"
    and req: "require_record_if_live (vh_dir host) name live = Inr r"
    by (cases "stack_live topo (vh_gate host) name") (auto simp: record_gate_def split: sum.splits)
  from req have rec: "read_record (vh_dir host) name = Inr r" "live \<longrightarrow> r \<noteq> None"
    by (auto simp: require_record_if_live_def rbind_eq_Inr split: if_splits)
  from live obtain members where "stack_guests topo name = Inr members" "members \<noteq> [] \<longrightarrow> fst (vh_gate host) = 0"
    "members \<noteq> [] \<longrightarrow> live = list_ex (is_live (states_of (snd (vh_gate host)))) members"
    by (auto simp: stack_live_def rbind_eq_Inr split: if_splits)
  with rec show ?thesis by (auto simp: list_ex_iff)
qed

lemma checked_verb_passed:
  assumes "vb_inventory (checked_verb checks cont) \<noteq> None \<or> (\<exists>steps. vb_end (checked_verb checks cont) = Inr steps)"
  shows "\<exists>x. checks = Inr x"
  using assms by (auto simp: checked_verb_def stopped_at_def split: sum.splits)

lemma with_inventory_steps:
  assumes "vb_end (with_inventory env checks cont) = Inr steps"
  shows "\<exists>x. checks = Inr x \<and> cont x = Inr steps"
  using assms by (auto simp: with_inventory_def split: sum.splits)

text \<open>C19: No queue-manager, restart or disaster-recovery verb renders an inventory or plans a command for a stack unless
its record can be read and, when the stack has guests, the domain states could be listed; for a stack with a live
guest there is a record. The liveness of a running stack is never guessed from a failed listing.\<close>

theorem verbs_gated:
  assumes "out \<in> {qm_dispatch env host name verb, qm_reload_run env host name timeout, dr_run env host name direction dverb drill}"
    and "vb_inventory out \<noteq> None \<or> (\<exists>steps. vb_end out = Inr steps)"
  shows "\<exists>members r. stack_guests (le_topo env) name = Inr members \<and> read_record (vh_dir host) name = Inr r
    \<and> (members \<noteq> [] \<longrightarrow> fst (vh_gate host) = 0)
    \<and> ((\<exists>g \<in> set members. is_live (states_of (snd (vh_gate host))) g) \<longrightarrow> r \<noteq> None)"
proof -
  have "\<exists>r. record_gate (le_topo env) host name = Inr r"
  proof -
    consider "out = qm_dispatch env host name verb" | "out = qm_reload_run env host name timeout"
      | "out = dr_run env host name direction dverb drill" using assms(1) by blast
    then show ?thesis
    proof cases
      case 1
      show ?thesis using checked_verb_passed assms(2) unfolding 1 qm_dispatch_def by (fastforce simp: rbind_eq_Inr)
    next
      case 2
      show ?thesis using checked_verb_passed assms(2) unfolding 2 qm_reload_run_def by (fastforce simp: rbind_eq_Inr)
    next
      case 3
      show ?thesis using checked_verb_passed assms(2) unfolding 3 dr_run_def by (fastforce simp: rbind_eq_Inr)
    qed
  qed
  then show ?thesis using record_gate_passed by blast
qed

section \<open>Which guests a verb reaches\<close>

lemma dr_groups_running:
  assumes "traverse (dr_group_running topo states) gs = Inr drs"
  shows "(g, True) \<in> set drs \<longleftrightarrow> PStr g \<in> set gs
    \<and> (\<exists>hosts. group_host_names topo g = Inr hosts \<and> hosts \<noteq> [] \<and> (\<forall>h \<in> set hosts. classify_guest states h = RUNNING))"
proof -
  have dr: "dr_group_running topo states v = Inr (g', b) \<longleftrightarrow> v = PStr g' \<and> (\<exists>hosts. group_host_names topo g' = Inr hosts
      \<and> b = (hosts \<noteq> [] \<and> list_all (\<lambda>h. classify_guest states h = RUNNING) hosts))" for v g' b
    by (auto simp: dr_group_running_def rbind_eq_Inr host_text_def split: pyval.splits)
  show ?thesis
  proof
    assume "(g, True) \<in> set drs"
    then obtain v where "v \<in> set gs" "dr_group_running topo states v = Inr (g, True)" using traverse_memD[OF assms] by blast
    then show "PStr g \<in> set gs \<and> (\<exists>hosts. group_host_names topo g = Inr hosts \<and> hosts \<noteq> []
        \<and> (\<forall>h \<in> set hosts. classify_guest states h = RUNNING))"
      unfolding dr by (auto simp: list_all_iff)
  next
    assume r: "PStr g \<in> set gs \<and> (\<exists>hosts. group_host_names topo g = Inr hosts \<and> hosts \<noteq> []
        \<and> (\<forall>h \<in> set hosts. classify_guest states h = RUNNING))"
    then obtain y where "y \<in> set drs" "dr_group_running topo states (PStr g) = Inr y" using traverse_memI[OF assms] by blast
    with r show "(g, True) \<in> set drs" by (cases y) (auto simp: dr list_all_iff)
  qed
qed

text \<open>C20: The restart of the active queue manager is planned only while every guest of the cluster group runs. It searches
that group first, and beside it exactly the DR groups of the stack that have guests and whose guests all run.\<close>

theorem reload_targets_running:
  assumes "vb_end (qm_reload_run env host name timeout) = Inr steps"
  shows "\<exists>stk cluster hosts drs playbook mechanism limit.
      lookup_stack_or_exit (le_topo env) name = Inr stk \<and> stk_cluster_group stk = PStr cluster
    \<and> group_host_names (le_topo env) cluster = Inr hosts \<and> hosts \<noteq> []
    \<and> (\<forall>h \<in> set hosts. classify_guest (states_of (vh_states host)) h = RUNNING)
    \<and> (\<forall>g. g \<in> set drs \<longleftrightarrow> PStr g \<in> set (stk_dr_groups stk)
        \<and> (\<exists>hs. group_host_names (le_topo env) g = Inr hs \<and> hs \<noteq> []
            \<and> (\<forall>h \<in> set hs. classify_guest (states_of (vh_states host)) h = RUNNING)))
    \<and> map (\<lambda>s. argv (cs_command s)) steps =
        [[''ansible-playbook'', playbook, ''-e'', ''qm_stack='' @ name, ''-e'', ''qm_name='' @ qm_name (stk_qm stk),
          ''-e'', ''qm_mechanism='' @ mechanism, ''-e'', ''qm_hosts='' @ str_join '':'' (cluster # drs),
          ''-e'', ''qm_reload_timeout='' @ limit]]"
proof -
  from assms obtain stk playbook cluster groups mechanism limit where
    stk: "stack_qm_or_exit (le_topo env) name = Inr stk" and cl: "reload_cluster (le_topo env) stk = Inr cluster"
    and groups: "qm_reload_groups (le_topo env) (states_of (vh_states host)) stk cluster = Inr groups"
    and steps: "map (\<lambda>s. argv (cs_command s)) steps =
        [[''ansible-playbook'', playbook, ''-e'', ''qm_stack='' @ name, ''-e'', ''qm_name='' @ qm_name (stk_qm stk),
          ''-e'', ''qm_mechanism='' @ mechanism, ''-e'', ''qm_hosts='' @ str_join '':'' groups,
          ''-e'', ''qm_reload_timeout='' @ limit]]"
    unfolding qm_reload_run_def checked_verb_def
    by (auto simp: rbind_eq_Inr stopped_at_def plain_step_def run_in_def split: sum.splits dest!: with_inventory_steps)
  from stk have look: "lookup_stack_or_exit (le_topo env) name = Inr stk"
    by (auto simp: stack_qm_or_exit_def rbind_eq_Inr split: if_splits)
  from cl obtain hosts where hosts: "stk_cluster_group stk = PStr cluster" "group_host_names (le_topo env) cluster = Inr hosts" "hosts \<noteq> []"
    by (auto simp: reload_cluster_def rbind_eq_Inr host_text_def split: if_splits pyval.splits)
  from groups hosts(2) obtain drs where run: "\<forall>h \<in> set hosts. classify_guest (states_of (vh_states host)) h = RUNNING"
    and drs: "traverse (dr_group_running (le_topo env) (states_of (vh_states host))) (stk_dr_groups stk) = Inr drs"
    and gs: "groups = cluster # map fst (filter snd drs)"
    by (auto simp: qm_reload_groups_def rbind_eq_Inr filter_empty_conv)
  have "g \<in> set (map fst (filter snd drs)) \<longleftrightarrow> (g, True) \<in> set drs" for g by force
  then have found: "\<forall>g. g \<in> set (map fst (filter snd drs)) \<longleftrightarrow> PStr g \<in> set (stk_dr_groups stk)
      \<and> (\<exists>hs. group_host_names (le_topo env) g = Inr hs \<and> hs \<noteq> []
        \<and> (\<forall>h \<in> set hs. classify_guest (states_of (vh_states host)) h = RUNNING))"
    using dr_groups_running[OF drs] by blast
  show ?thesis
    by (intro exI[of _ stk] exI[of _ cluster] exI[of _ hosts] exI[of _ "map fst (filter snd drs)"] exI[of _ playbook]
        exI[of _ mechanism] exI[of _ limit] conjI look hosts run found steps[unfolded gs])
qed

text \<open>A playbook verb runs only on a stack all of whose members run, a status probe contacts only a running guest.\<close>

lemma playbook_members_running:
  assumes "vb_end (qm_playbook env host stk playbook verb) = Inr steps"
  shows "\<exists>name members. stk_name stk = PStr name \<and> stack_guests (le_topo env) name = Inr members
    \<and> (\<forall>m \<in> set members. classify_guest (states_of (vh_states host)) m = RUNNING)"
  using assms unfolding qm_playbook_def
  by (auto simp: rbind_eq_Inr host_text_def filter_empty_conv split: pyval.splits dest!: with_inventory_steps)

lemma probe_not_skipped: "probe_skipped_down states hosts = None \<longleftrightarrow> hosts \<noteq> [] \<and> (\<forall>h \<in> set hosts. classify_guest states h = RUNNING)"
  by (auto simp: probe_skipped_down_def Let_def filter_empty_conv)

lemma status_probe_reaches_running:
  assumes "qm_status_command env states stk = Inr (Some c)"
  shows "\<exists>grp h hs shell_cmd. stk_cluster_group stk = PStr grp \<and> group_host_names (le_topo env) grp = Inr (h # hs)
    \<and> classify_guest states h = RUNNING \<and> c = cluster_shell env grp shell_cmd"
proof -
  from assms obtain grp hosts shell_cmd where grp: "stk_cluster_group stk = PStr grp"
    and hosts: "group_host_names (le_topo env) grp = Inr hosts" "probe_skipped_down states (take 1 hosts) = None"
    and c: "c = cluster_shell env grp shell_cmd"
    unfolding qm_status_command_def
    by (auto simp: rbind_eq_Inr host_text_def split: if_splits pyval.splits)
  from hosts(2) have "hosts \<noteq> []" "\<forall>h \<in> set (take 1 hosts). classify_guest states h = RUNNING" by (simp_all add: probe_not_skipped)
  then obtain h hs where "hosts = h # hs" "classify_guest states h = RUNNING" by (cases hosts) simp_all
  with grp hosts(1) c show ?thesis by blast
qed

text \<open>The declaration of a DR verb: one script or playbook, and whether it implements the drill.\<close>

lemma dr_impl_declares:
  assumes "dr_impl stk verb = Inr (kind, v, rpo0)"
  shows "\<exists>decl x. or_empty (verb_impl stk (''dr-'' @ verb)) = PDict decl
    \<and> filter (\<lambda>kv. fst kv \<noteq> PStr ''rpo0'') decl = [(PStr kind, x)] \<and> to_str x = Inr v \<and> kind \<in> {''script'', ''playbook''}
    \<and> rpo0 = (\<exists>y. map_of decl (PStr ''rpo0'') = Some y \<and> truthy y)"
proof -
  from assms obtain decl where d: "dict_items (or_empty (verb_impl stk (''dr-'' @ verb))) = Inr decl"
    by (auto simp: dr_impl_def rbind_eq_Inr)
  then have dict: "or_empty (verb_impl stk (''dr-'' @ verb)) = PDict decl"
    by (cases "or_empty (verb_impl stk (''dr-'' @ verb))") (simp_all add: dict_items_def)
  from assms d obtain x where "filter (\<lambda>kv. fst kv \<noteq> PStr ''rpo0'') decl = [(PStr kind, x)]" "to_str x = Inr v"
    "List.member DR_KINDS kind" "rpo0 = (case map_of decl (PStr ''rpo0'') of None \<Rightarrow> False | Some v \<Rightarrow> truthy v)"
    unfolding dr_impl_def
    by (auto simp: Let_def rbind_eq_Inr split: if_splits list.splits pyval.splits prod.splits)
  with dict show ?thesis by (auto simp: DR_KINDS_def split: option.splits)
qed

text \<open>A disaster-recovery verb plans one command: the single script or playbook the topology declares for it, told the
direction and the queue manager. A message-loss drill is asked of the command exactly when the operator asked for
it, and then only of a verb that declares to implement it.\<close>

theorem drill_as_declared:
  assumes "vb_end (dr_run env host name direction verb drill) = Inr steps"
  shows "\<exists>stk decl kind x v step. lookup_stack_or_exit (le_topo env) name = Inr stk
    \<and> or_empty (verb_impl stk (''dr-'' @ verb)) = PDict decl
    \<and> filter (\<lambda>kv. fst kv \<noteq> PStr ''rpo0'') decl = [(PStr kind, x)] \<and> to_str x = Inr v
    \<and> (drill \<longrightarrow> (\<exists>y. map_of decl (PStr ''rpo0'') = Some y \<and> truthy y))
    \<and> steps = [step]
    \<and> ((kind = ''script'' \<and> argv (cs_command step) = [''bash'', lab_script (le_root env) v, direction, qm_name (stk_qm stk)]
          \<and> cmd_env (cs_command step) = (if drill then Some [(''RPO0_DRILL'', ''1'')] else None))
       \<or> (kind = ''playbook'' \<and> argv (cs_command step) =
          [''ansible-playbook'', v, ''-e'', ''dr_direction='' @ direction, ''-e'', ''qm_name='' @ qm_name (stk_qm stk),
           ''-e'', ''rpo0_drill='' @ (if drill then ''true'' else ''false'')]))"
proof -
  from assms obtain stk kind v rpo0 where
    stk: "stack_qm_or_exit (le_topo env) name = Inr stk" and impl: "dr_impl stk verb = Inr (kind, v, rpo0)"
    and ok: "drill \<longrightarrow> rpo0"
    and steps: "steps = [plain_step (name @ '' dr '' @ verb) (dr_command env stk kind v direction drill)]"
    unfolding dr_run_def checked_verb_def
    by (auto simp: rbind_eq_Inr stopped_at_def split: sum.splits prod.splits dest!: with_inventory_steps)
  from stk have look: "lookup_stack_or_exit (le_topo env) name = Inr stk"
    by (auto simp: stack_qm_or_exit_def rbind_eq_Inr split: if_splits)
  from dr_impl_declares[OF impl] obtain decl x where decl: "or_empty (verb_impl stk (''dr-'' @ verb)) = PDict decl"
    "filter (\<lambda>kv. fst kv \<noteq> PStr ''rpo0'') decl = [(PStr kind, x)]" "to_str x = Inr v"
    and kind: "kind = ''script'' \<or> kind = ''playbook''"
    and rpo0: "rpo0 = (\<exists>y. map_of decl (PStr ''rpo0'') = Some y \<and> truthy y)" by blast
  let ?step = "plain_step (name @ '' dr '' @ verb) (dr_command env stk kind v direction drill)"
  have cmd: "(kind = ''script'' \<and> argv (cs_command ?step) = [''bash'', lab_script (le_root env) v, direction, qm_name (stk_qm stk)]
        \<and> cmd_env (cs_command ?step) = (if drill then Some [(''RPO0_DRILL'', ''1'')] else None))
      \<or> (kind = ''playbook'' \<and> argv (cs_command ?step) =
        [''ansible-playbook'', v, ''-e'', ''dr_direction='' @ direction, ''-e'', ''qm_name='' @ qm_name (stk_qm stk),
         ''-e'', ''rpo0_drill='' @ (if drill then ''true'' else ''false'')])"
    using kind by (auto simp: dr_command_def plain_step_def run_in_def)
  have asked: "drill \<longrightarrow> (\<exists>y. map_of decl (PStr ''rpo0'') = Some y \<and> truthy y)" using ok rpo0 by blast
  show ?thesis
    by (intro exI[of _ stk] exI[of _ decl] exI[of _ kind] exI[of _ x] exI[of _ v] exI[of _ ?step] conjI look decl asked steps cmd)
qed

section \<open>A concrete stack\<close>

definition sample_verbs :: pyval where
  "sample_verbs = PDict
     [(PStr ''svc'', PDict [(PStr ''short'', PStr ''SVC''), (PStr ''conn'', PStr ''svc(1414)'')]),
      (PStr ''nodes'', PDict [sample_node ''a1'' ''rdqm'', sample_node ''b1'' ''rdqm'']),
      (PStr ''groups'', PDict [(PStr ''site_a'', PList [PStr ''a1'']), (PStr ''site_b'', PList [PStr ''b1''])]),
      (PStr ''stacks'', PDict
         [(PStr ''rdqm-rhel'', PDict [(PStr ''short'', PStr ''RDQM''), (PStr ''mechanism'', PStr ''rdqm''), (PStr ''os_family'', PStr ''rhel''),
            (PStr ''cluster_group'', PStr ''site_a''),
            (PStr ''groups'', PList [PStr ''site_a'', PStr ''site_b'']), (PStr ''dr_groups'', PList [PStr ''site_b'']),
            (PStr ''verbs'', PDict
              [(PStr ''qm-status'', PDict [(PStr ''cmd'', PStr ''status -m {qm} -i {vip}'')]),
               (PStr ''qm-reload'', PDict [(PStr ''playbook'', PStr ''reload.yml'')]),
               (PStr ''dr-cutover'', PDict [(PStr ''script'', PStr ''cut.sh''), (PStr ''rpo0'', PBool True)])])])])]"

definition sample_verb_env :: LabEnv where
  "sample_verb_env = sample_env\<lparr>le_topo := sample_verbs\<rparr>"

definition sample_verb_record :: json_text where
  "sample_verb_record = Json (payload \<lparr>ir_stack = ''rdqm-rhel'', ir_os = \<lparr>OsRef.os_family = ''rhel'', os_major = 10\<rparr>, ir_build_file = None, ir_created = ''now''\<rparr>)"

definition sample_verb_listing :: string where
  "sample_verb_listing = '' 1    lab_a1      running'' @ [CHR 10] @ '' 2    lab_b1      running'' @ [CHR 10]"

definition sample_verb_host :: VerbHost where
  "sample_verb_host = \<lparr>vh_dir = \<lparr>recs = (\<lambda>s. if s = ''rdqm-rhel'' then Some sample_verb_record else None), temps = []\<rparr>,
     vh_gate = (0, sample_verb_listing), vh_states = sample_verb_listing, vh_secret = (\<lambda>_. (0, ''x'')),
     vh_run = (\<lambda>_. 0), vh_targets = (0, None)\<rparr>"

lemma sample_cutover: "\<not> isl (vb_end (dr_run sample_verb_env sample_verb_host ''rdqm-rhel'' ''a2b'' ''cutover'' True))"
  by code_simp

lemma sample_reload: "\<not> isl (vb_end (qm_reload_run sample_verb_env sample_verb_host ''rdqm-rhel'' 300))"
  by code_simp

theorem verbs_gated_witness:
  "\<exists>members r. stack_guests sample_verbs ''rdqm-rhel'' = Inr members \<and> read_record (vh_dir sample_verb_host) ''rdqm-rhel'' = Inr r
    \<and> ((\<exists>g \<in> set members. is_live (states_of sample_verb_listing) g) \<longrightarrow> r \<noteq> None)"
proof -
  have planned: "\<exists>steps. vb_end (dr_run sample_verb_env sample_verb_host ''rdqm-rhel'' ''a2b'' ''cutover'' True) = Inr steps"
    using sample_cutover not_isl_Inr by blast
  have verb: "dr_run sample_verb_env sample_verb_host ''rdqm-rhel'' ''a2b'' ''cutover'' True
      \<in> {qm_dispatch sample_verb_env sample_verb_host ''rdqm-rhel'' ''qm-status'', qm_reload_run sample_verb_env sample_verb_host ''rdqm-rhel'' 300,
         dr_run sample_verb_env sample_verb_host ''rdqm-rhel'' ''a2b'' ''cutover'' True}" by simp
  note verbs_gated[OF verb disjI2[OF planned]]
  moreover have "le_topo sample_verb_env = sample_verbs" "snd (vh_gate sample_verb_host) = sample_verb_listing"
    by (simp_all add: sample_verb_env_def sample_verb_host_def)
  ultimately show ?thesis by metis
qed

theorem reload_targets_running_witness:
  "\<exists>steps stk. vb_end (qm_reload_run sample_verb_env sample_verb_host ''rdqm-rhel'' 300) = Inr steps
    \<and> lookup_stack_or_exit sample_verbs ''rdqm-rhel'' = Inr stk \<and> length steps = 1"
proof -
  obtain steps where "vb_end (qm_reload_run sample_verb_env sample_verb_host ''rdqm-rhel'' 300) = Inr steps"
    using sample_reload not_isl_Inr by blast
  from reload_targets_running[OF this] this show ?thesis
    by (fastforce simp: sample_verb_env_def dest: arg_cong[where f = length])
qed

theorem drill_as_declared_witness:
  "\<exists>steps stk. vb_end (dr_run sample_verb_env sample_verb_host ''rdqm-rhel'' ''a2b'' ''cutover'' True) = Inr steps
    \<and> lookup_stack_or_exit sample_verbs ''rdqm-rhel'' = Inr stk \<and> length steps = 1"
proof -
  obtain steps where "vb_end (dr_run sample_verb_env sample_verb_host ''rdqm-rhel'' ''a2b'' ''cutover'' True) = Inr steps"
    using sample_cutover not_isl_Inr by blast
  from drill_as_declared[OF this] this show ?thesis by (fastforce simp: sample_verb_env_def)
qed

text \<open>A status command that names the floating address works as a verb, but not as a probe: the probe fills in
the queue manager only, so the status of such a stack ends with an exception.\<close>

lemma status_template_without_vip:
  "(case lookup_stack_or_exit sample_verbs ''rdqm-rhel'' of
      Inl e \<Rightarrow> False
    | Inr stk \<Rightarrow> (case vb_end (qm_dispatch sample_verb_env sample_verb_host ''rdqm-rhel'' ''qm-status'') of Inl e \<Rightarrow> False | Inr steps \<Rightarrow> True)
        \<and> status_one sample_verb_env sample_verb_host [] stk = Inl (VRaised (KeyErr ''vip'')))"
  by code_simp

end
