(* ===== verification/Build_Env.thy ===== *)
theory Build_Env
  imports Lab_Effects "HOL-Library.Sublist"
begin

text \<open>
  The build directory of a checkout (\<open>mqlab/buildenv.py\<close>): four buckets, two of which a worktree shares with
  the main checkout by symbolic links, their wiring, cleaning, and the migration of the older flat layout,
  which plans every move before it touches anything.

  A file tree is an association list from absolute paths to nodes; a directory is an entry of its own. A link
  holds the absolute path it points to and is followed for one step, as the last component of a path. What
  \<open>git\<close> answers (whether the checkout is a worktree, and where the main one is) is an argument.
\<close>

section \<open>File trees\<close>

type_synonym path = "string list"

datatype node = NDir | NFile string | NLink path

type_synonym tree = "(path \<times> node) list"

datatype build_error = BuildEnvError string "(path \<times> path) list" | OsError string

definition follow_link :: "tree \<Rightarrow> path \<Rightarrow> path" where
  "follow_link fs p = (case map_of fs p of Some (NLink t) \<Rightarrow> t | _ \<Rightarrow> p)"

definition path_exists :: "tree \<Rightarrow> path \<Rightarrow> bool" where
  "path_exists fs p = (map_of fs (follow_link fs p) \<noteq> None)"

definition is_symlink :: "tree \<Rightarrow> path \<Rightarrow> bool" where
  "is_symlink fs p = (case map_of fs p of Some (NLink _) \<Rightarrow> True | _ \<Rightarrow> False)"

definition is_real_dir :: "tree \<Rightarrow> path \<Rightarrow> bool" where
  "is_real_dir fs p = (map_of fs p = Some NDir)"

definition children :: "tree \<Rightarrow> path \<Rightarrow> string list" where
  "children fs p = sort (remdups (map last (filter (\<lambda>q. q \<noteq> [] \<and> butlast q = p) (map fst fs))))"

text \<open>\<open>mkdir(parents=True, exist_ok=True)\<close>\<close>

definition mkdir_one :: "path \<Rightarrow> tree \<Rightarrow> (build_error, tree) result" where
  "mkdir_one p fs =
     (case map_of fs (follow_link fs p) of
        None \<Rightarrow> if map_of fs p = None then Inr (fs @ [(p, NDir)]) else Inl (OsError ''FileExistsError'')
      | Some (NFile _) \<Rightarrow> Inl (OsError ''FileExistsError'')
      | Some _ \<Rightarrow> Inr fs)"

definition ancestors :: "path \<Rightarrow> path list" where
  "ancestors p = map (\<lambda>i. take i p) [1..<Suc (length p)]"

definition mkdirs :: "path \<Rightarrow> tree \<Rightarrow> (build_error, tree) result" where
  "mkdirs p fs = foldr_res mkdir_one (ancestors p) fs"

text \<open>\<open>rename\<close> replaces a file or link by one, and a directory only by a directory when it is empty.\<close>

definition rename_blocked :: "tree \<Rightarrow> path \<Rightarrow> path \<Rightarrow> bool" where
  "rename_blocked fs src dst \<longleftrightarrow> map_of fs src = None \<or> prefix src dst
     \<or> (case map_of fs dst of None \<Rightarrow> False
        | Some NDir \<Rightarrow> map_of fs src \<noteq> Some NDir \<or> children fs dst \<noteq> []
        | Some _ \<Rightarrow> map_of fs src = Some NDir)"

definition relocate :: "path \<Rightarrow> path \<Rightarrow> path \<Rightarrow> path" where
  "relocate src dst q = (if prefix src q then dst @ drop (length src) q else q)"

definition rename :: "path \<Rightarrow> path \<Rightarrow> tree \<Rightarrow> (build_error, tree) result" where
  "rename src dst fs =
     (if rename_blocked fs src dst then Inl (OsError ''rename'')
      else Inr (map (\<lambda>(q, n). (relocate src dst q, n)) (filter (\<lambda>(q, n). q \<noteq> dst) fs)))"

definition unlink_at :: "path \<Rightarrow> tree \<Rightarrow> (build_error, tree) result" where
  "unlink_at p fs =
     (case map_of fs p of
        None \<Rightarrow> Inl (OsError ''FileNotFoundError'')
      | Some NDir \<Rightarrow> Inl (OsError ''IsADirectoryError'')
      | Some _ \<Rightarrow> Inr (filter (\<lambda>(q, n). q \<noteq> p) fs))"

definition rmdir :: "path \<Rightarrow> tree \<Rightarrow> (build_error, tree) result" where
  "rmdir p fs = (if map_of fs p \<noteq> Some NDir \<or> children fs p \<noteq> [] then Inl (OsError ''rmdir'') else Inr (filter (\<lambda>(q, n). q \<noteq> p) fs))"

definition rmtree_at :: "path \<Rightarrow> tree \<Rightarrow> tree" where
  "rmtree_at p fs = filter (\<lambda>(q, n). \<not> prefix p q) fs"

definition touch :: "path \<Rightarrow> tree \<Rightarrow> tree" where
  "touch p fs = (if map_of fs p = None then fs @ [(p, NFile [])] else fs)"

section \<open>Buckets\<close>

definition BUCKETS :: "string list" where
  "BUCKETS = [''cache'', ''state'', ''work'', ''temp'']"

definition SHARED :: "string list" where
  "SHARED = [''cache'', ''state'']"

definition LOCAL :: "string list" where
  "LOCAL = [''work'', ''temp'']"

definition build_dir :: "path \<Rightarrow> path" where
  "build_dir repo = repo @ [''build'']"

text \<open>What \<open>git\<close> tells: nothing in the main checkout, the root of the main checkout in a worktree.\<close>

definition main_build_root :: "path \<Rightarrow> path option \<Rightarrow> path" where
  "main_build_root repo main = (case main of None \<Rightarrow> build_dir repo | Some m \<Rightarrow> build_dir m)"

definition bucket_path :: "string \<Rightarrow> path \<Rightarrow> path option \<Rightarrow> (build_error, path) result" where
  "bucket_path bucket repo main =
     (if \<not> List.member BUCKETS bucket then Inl (BuildEnvError ''unknown bucket'' [])
      else if List.member SHARED bucket then Inr (main_build_root repo main @ [bucket])
      else Inr (build_dir repo @ [bucket]))"

definition make_bucket :: "path \<Rightarrow> tree \<Rightarrow> (build_error, tree) result" where
  "make_bucket p fs = rbind (mkdirs p fs) (\<lambda>fs. Inr (touch (follow_link fs p @ [''.gitkeep'']) fs))"

subsection \<open>Migration\<close>

definition MIGRATION :: "(string \<times> string) list" where
  "MIGRATION = [(''mq'', ''cache''), (''refs'', ''cache''), (''ansible_collections'', ''cache''), (''snapshots'', ''state''),
     (''boxes'', ''state''), (''rhel96-box'', ''state''), (''secrets'', ''state''), (''fence_key'', ''state''),
     (''fence_key.pub'', ''state''), (''runs'', ''state''), (''reports'', ''state''), (''dr-runs'', ''state''),
     (''inventory.ini'', ''work''), (''lab'', ''work''), (''versions.json'', ''work''), (''grafana'', ''work''),
     (''prometheus'', ''work''), (''obs'', ''work''), (''salt'', ''work'')]"

text \<open>The pattern \<open>*-dvd.iso\<close> goes to \<open>state\<close>.\<close>

definition is_dvd :: "string \<Rightarrow> bool" where
  "is_dvd name = suffix ''-dvd.iso'' name"

definition MERGEABLE :: "string list" where
  "MERGEABLE = [''refs'']"

definition migration_entries :: "tree \<Rightarrow> path \<Rightarrow> (string \<times> string) list" where
  "migration_entries fs repo = MIGRATION @ map (\<lambda>n. (n, ''state'')) (filter is_dvd (children fs (build_dir repo)))"

record MigrationPlan =
  mp_moves :: "(path \<times> path) list"
  mp_duplicates :: "(path \<times> path) list"
  mp_stale :: "path list"
  mp_prune :: "path list"
  mp_conflicts :: "(path \<times> path) list"

definition no_plan :: MigrationPlan where
  "no_plan = \<lparr>mp_moves = [], mp_duplicates = [], mp_stale = [], mp_prune = [], mp_conflicts = []\<rparr>"

definition then_plan :: "MigrationPlan \<Rightarrow> MigrationPlan \<Rightarrow> MigrationPlan" where
  "then_plan a b = \<lparr>mp_moves = mp_moves a @ mp_moves b, mp_duplicates = mp_duplicates a @ mp_duplicates b,
     mp_stale = mp_stale a @ mp_stale b, mp_prune = mp_prune a @ mp_prune b, mp_conflicts = mp_conflicts a @ mp_conflicts b\<rparr>"

definition identical :: "tree \<Rightarrow> path \<Rightarrow> path \<Rightarrow> bool" where
  "identical fs a b = (map_of fs a = map_of fs b \<and> map_of fs a \<noteq> None \<and> map_of fs a \<noteq> Some NDir)"

text \<open>The loop of \<open>_plan_merge\<close> over the children of \<open>src\<close> left to visit.\<close>

definition strictly_below :: "tree \<Rightarrow> path \<Rightarrow> nat" where
  "strictly_below fs p = length (filter (\<lambda>(q, n). strict_prefix p q) fs)"

lemma strictly_below_child:
  assumes "map_of fs (p @ [c]) \<noteq> None"
  shows "strictly_below fs (p @ [c]) < strictly_below fs p"
proof -
  obtain n where n: "(p @ [c], n) \<in> set fs" using assms map_of_SomeD by fastforce
  have "filter (\<lambda>(q, n). strict_prefix (p @ [c]) q) fs = filter (\<lambda>(q, n). strict_prefix (p @ [c]) q) (filter (\<lambda>(q, n). strict_prefix p q) fs)"
    by (auto simp: filter_filter strict_prefix_def intro!: filter_cong dest: append_prefixD)
  also have "length \<dots> < length (filter (\<lambda>(q, n). strict_prefix p q) fs)"
    using n by (intro length_filter_less[of "(p @ [c], n)"]) (auto simp: strict_prefix_def)
  finally show ?thesis by (simp add: strictly_below_def)
qed

function merge_children :: "tree \<Rightarrow> path \<Rightarrow> path \<Rightarrow> string list \<Rightarrow> MigrationPlan" where
  "merge_children fs src dst [] = no_plan\<lparr>mp_prune := [src]\<rparr>"
| "merge_children fs src dst (c # cs) =
     (let child = src @ [c]; target = dst @ [c] in
      then_plan
        (if \<not> path_exists fs target \<and> \<not> is_symlink fs target then no_plan\<lparr>mp_moves := [(child, target)]\<rparr>
         else if is_real_dir fs child \<and> is_real_dir fs target then merge_children fs child target (children fs child)
         else if identical fs child target then no_plan\<lparr>mp_duplicates := [(child, target)]\<rparr>
         else no_plan\<lparr>mp_conflicts := [(child, target)]\<rparr>)
        (merge_children fs src dst cs))"
  by pat_completeness auto
termination
  by (relation "measures [\<lambda>(fs, src, dst, cs). strictly_below fs src, \<lambda>(fs, src, dst, cs). length cs]")
    (auto simp: is_real_dir_def intro: strictly_below_child)

definition plan_merge :: "tree \<Rightarrow> path \<Rightarrow> path \<Rightarrow> MigrationPlan" where
  "plan_merge fs src dst = merge_children fs src dst (children fs src)"

definition plan_entry :: "tree \<Rightarrow> path \<Rightarrow> string \<times> string \<Rightarrow> MigrationPlan" where
  "plan_entry fs repo nb = (case nb of (name, bucket) \<Rightarrow>
     let src = build_dir repo @ [name]; dst = build_dir repo @ [bucket, name] in
     if \<not> path_exists fs src then no_plan
     else if \<not> path_exists fs dst then no_plan\<lparr>mp_moves := [(src, dst)]\<rparr>
     else if List.member MERGEABLE name \<and> is_real_dir fs src \<and> is_real_dir fs dst then plan_merge fs src dst
     else no_plan\<lparr>mp_conflicts := [(src, dst)]\<rparr>)"

text \<open>The state bucket of a worktree is a link, which a path through it follows.\<close>

definition legacy_vagrant :: "tree \<Rightarrow> path \<Rightarrow> (path \<times> path) option" where
  "legacy_vagrant fs repo =
     (let src = repo @ [''lab'', ''.vagrant''] in
      if is_real_dir fs src then Some (src, follow_link fs (build_dir repo @ [''state'']) @ [''vagrant'']) else None)"

definition plan_vagrant :: "tree \<Rightarrow> path \<Rightarrow> MigrationPlan" where
  "plan_vagrant fs repo =
     (case legacy_vagrant fs repo of
        None \<Rightarrow> no_plan
      | Some (src, dst) \<Rightarrow> if path_exists fs dst then no_plan\<lparr>mp_stale := [src]\<rparr> else no_plan\<lparr>mp_moves := [(src, dst)]\<rparr>)"

definition apply_move :: "path \<times> path \<Rightarrow> tree \<Rightarrow> (build_error, tree) result" where
  "apply_move sd fs = (case sd of (src, dst) \<Rightarrow> rbind (mkdirs (butlast dst) fs) (rename src dst))"

definition apply_plan :: "MigrationPlan \<Rightarrow> tree \<Rightarrow> (build_error, tree) result" where
  "apply_plan plan fs =
     rbind (foldr_res apply_move (mp_moves plan) fs) (\<lambda>fs.
     rbind (foldr_res (\<lambda>lk. unlink_at (fst lk)) (mp_duplicates plan) fs) (\<lambda>fs.
     foldr_res rmdir (mp_prune plan) fs))"

definition plan_all :: "tree \<Rightarrow> path \<Rightarrow> MigrationPlan" where
  "plan_all fs repo = foldr (\<lambda>e. then_plan (plan_entry fs repo e)) (migration_entries fs repo) no_plan"

text \<open>The tree a failing step leaves is not part of the result.\<close>

definition migrate :: "path \<Rightarrow> bool \<Rightarrow> tree \<Rightarrow> (build_error, MigrationPlan \<times> tree) result" where
  "migrate repo dry_run fs =
     (let plan = plan_all fs repo in
      if mp_conflicts plan \<noteq> [] then Inl (BuildEnvError ''migrate collision; nothing was moved'' (mp_conflicts plan))
      else let full = then_plan plan (plan_vagrant fs repo) in
        if dry_run then Inr (full, fs) else rbind (apply_plan full fs) (\<lambda>fs'. Inr (full, fs')))"

definition migrate_vagrant_dotfile :: "path \<Rightarrow> tree \<Rightarrow> (build_error, tree) result" where
  "migrate_vagrant_dotfile repo fs =
     (case legacy_vagrant fs repo of
        None \<Rightarrow> Inr fs
      | Some (src, dst) \<Rightarrow> if path_exists fs dst then Inr fs else apply_move (src, dst) fs)"

subsection \<open>Wiring and cleaning\<close>

definition wire_shared :: "path \<Rightarrow> path option \<Rightarrow> string \<Rightarrow> tree \<Rightarrow> (build_error, tree) result" where
  "wire_shared repo main bucket fs =
     (let target = build_dir repo @ [bucket] in
      case main of
        None \<Rightarrow> make_bucket target fs
      | Some _ \<Rightarrow>
          let owner = main_build_root repo main @ [bucket] in
          rbind (make_bucket owner fs) (\<lambda>fs.
          if is_symlink fs target then Inr fs
          else if path_exists fs target then Inl (BuildEnvError ''worktree has a real dir'' [(target, owner)])
          else Inr (fs @ [(target, NLink owner)])))"

definition ensure_build :: "path \<Rightarrow> path option \<Rightarrow> tree \<Rightarrow> (build_error, tree) result" where
  "ensure_build repo main fs =
     rbind (mkdirs (build_dir repo) fs) (\<lambda>fs.
     rbind (foldr_res (\<lambda>b. make_bucket (build_dir repo @ [b])) LOCAL fs) (\<lambda>fs.
     rbind (foldr_res (wire_shared repo main) SHARED fs) (\<lambda>fs.
     migrate_vagrant_dotfile repo fs)))"

definition reset_bucket :: "path \<Rightarrow> tree \<Rightarrow> (build_error, tree) result" where
  "reset_bucket p fs =
     (let p' = follow_link fs p in
      make_bucket p' (if is_real_dir fs p' then rmtree_at p' fs else fs))"

definition drop_stray :: "path \<Rightarrow> string \<Rightarrow> tree \<Rightarrow> tree" where
  "drop_stray build name fs = (if List.member BUCKETS name \<or> name = ''.gitkeep'' then fs else rmtree_at (build @ [name]) fs)"

definition clean_build :: "path \<Rightarrow> bool \<Rightarrow> bool \<Rightarrow> tree \<Rightarrow> (build_error, string list \<times> tree) result" where
  "clean_build repo drop_cache drop_state fs =
     (let build = build_dir repo;
          targets = [''work'', ''temp''] @ (if drop_cache then [''cache''] else []) @ (if drop_state then [''state''] else []) in
      rbind (foldr_res (\<lambda>b. reset_bucket (build @ [b])) targets fs) (\<lambda>fs.
      let names = children fs build; strays = filter (\<lambda>n. \<not> (List.member BUCKETS n \<or> n = ''.gitkeep'')) names in
      Inr (targets @ strays, fold (drop_stray build) names fs)))"

section \<open>Cleaning\<close>

text \<open>Making a directory or a bucket only adds entries: missing ancestors, and the marker file.\<close>

lemma mkdirs_adds:
  assumes "mkdirs p fs = Inr fs'"
  shows "\<exists>new. fs' = fs @ new \<and> (\<forall>(q, n) \<in> set new. n = NDir \<and> prefix q p)"
proof -
  have gen: "\<exists>new. fs' = fs @ new \<and> (\<forall>(q, n) \<in> set new. n = NDir \<and> q \<in> set ps)" if "foldr_res mkdir_one ps fs = Inr fs'" for ps
    using that
  proof (induction ps arbitrary: fs)
    case (Cons a ps)
    then obtain fs2 where "mkdir_one a fs = Inr fs2" "foldr_res mkdir_one ps fs2 = Inr fs'" by (auto simp: rbind_eq_Inr)
    moreover from this(1) have "fs2 = fs \<or> fs2 = fs @ [(a, NDir)]"
      by (auto simp: mkdir_one_def split: option.splits node.splits if_splits)
    ultimately show ?case using Cons.IH by fastforce
  qed simp
  have "prefix a p" if "a \<in> set (ancestors p)" for a
  proof -
    have "\<exists>i. a = take i p" using that unfolding ancestors_def by fastforce
    then show ?thesis using take_is_prefix by blast
  qed
  moreover obtain new where "fs' = fs @ new" "\<forall>x \<in> set new. snd x = NDir \<and> fst x \<in> set (ancestors p)"
    using gen[OF assms[unfolded mkdirs_def]] by (auto simp: case_prod_unfold)
  ultimately show ?thesis by (intro exI[of _ new]) (simp add: case_prod_unfold)
qed

lemma mkdir_of_parts: "foldr_res f (xs @ [x]) s = rbind (foldr_res f xs s) (f x)"
  by (induction xs arbitrary: s) (auto simp: rbind_def split: sum.split)

lemma make_bucket_adds:
  assumes "make_bucket p fs = Inr fs'" and "\<not> is_symlink fs p" and "p \<noteq> []"
  shows "map_of fs' p = Some NDir
    \<and> (\<exists>new. fs' = fs @ new \<and> (\<forall>(q, n) \<in> set new. (n = NDir \<and> prefix q p) \<or> q = p @ [''.gitkeep'']))"
proof -
  from assms(1) obtain fs1 where m: "mkdirs p fs = Inr fs1" and t: "fs' = touch (follow_link fs1 p @ [''.gitkeep'']) fs1"
    by (auto simp: make_bucket_def rbind_eq_Inr)
  obtain new where new: "fs1 = fs @ new" "\<forall>(q, n) \<in> set new. n = NDir \<and> prefix q p" using mkdirs_adds[OF m] by blast
  have "ancestors p = ancestors (butlast p) @ [p]"
    using assms(3) by (cases p rule: rev_cases) (auto simp: ancestors_def)
  then obtain fs0 where "mkdir_one p fs0 = Inr fs1" using m by (auto simp: mkdirs_def mkdir_of_parts rbind_eq_Inr)
  then have "map_of fs1 p \<noteq> None" "\<forall>x. map_of fs1 p \<noteq> Some (NFile x)"
    by (auto simp: mkdir_one_def follow_link_def map_add_def split: option.splits node.splits if_splits)
  moreover have "\<forall>l. map_of fs1 p \<noteq> Some (NLink l)"
    using assms(2) new by (auto simp: map_add_def is_symlink_def split: option.splits node.splits dest!: map_of_SomeD)
  ultimately have dir: "map_of fs1 p = Some NDir" by (metis node.exhaust option.exhaust)
  then have "fs' = touch (p @ [''.gitkeep'']) fs1" using t by (simp add: follow_link_def)
  with dir new show ?thesis by (auto simp: touch_def map_add_def split: option.splits if_splits)
qed

definition buckets_there :: "tree \<Rightarrow> path \<Rightarrow> bool" where
  "buckets_there fs repo \<longleftrightarrow> (\<forall>b \<in> set BUCKETS. map_of fs (build_dir repo @ [b]) = Some NDir)"

definition in_bucket :: "path \<Rightarrow> string \<Rightarrow> path \<Rightarrow> bool" where
  "in_bucket repo b q \<longleftrightarrow> prefix (build_dir repo @ [b]) q"

definition fresh_bucket :: "path \<Rightarrow> string \<Rightarrow> path \<Rightarrow> bool" where
  "fresh_bucket repo b q \<longleftrightarrow> q = build_dir repo @ [b] \<or> q = build_dir repo @ [b, ''.gitkeep'']"

definition made_for :: "path \<Rightarrow> string \<Rightarrow> path \<Rightarrow> bool" where
  "made_for repo b q \<longleftrightarrow> prefix q (build_dir repo @ [b]) \<or> q = build_dir repo @ [b, ''.gitkeep'']"

lemma made_in: "made_for repo b' q \<Longrightarrow> in_bucket repo b q \<Longrightarrow> fresh_bucket repo b q"
  by (auto simp: made_for_def in_bucket_def fresh_bucket_def prefix_def)

lemma reset_run:
  assumes "reset_bucket (build_dir repo @ [b]) fs = Inr fs'" and "buckets_there fs repo" and "b \<in> set BUCKETS"
  shows "buckets_there fs' repo \<and> (\<forall>(q, n) \<in> set fs. \<not> in_bucket repo b q \<longrightarrow> (q, n) \<in> set fs')
    \<and> (\<forall>(q, n) \<in> set fs'. in_bucket repo b q \<longrightarrow> fresh_bucket repo b q)
    \<and> (\<forall>(q, n) \<in> set fs'. (q, n) \<in> set fs \<or> made_for repo b q)"
proof -
  let ?p = "build_dir repo @ [b]"
  have dir: "map_of fs ?p = Some NDir" using assms(2,3) by (simp add: buckets_there_def)
  then have m: "make_bucket ?p (rmtree_at ?p fs) = Inr fs'" using assms(1) by (simp add: reset_bucket_def follow_link_def is_real_dir_def Let_def)
  have gone: "map_of (rmtree_at ?p fs) k = (if prefix ?p k then None else map_of fs k)" for k
    unfolding rmtree_at_def by (induction fs) auto
  have "\<not> is_symlink (rmtree_at ?p fs) ?p" by (simp add: is_symlink_def gone)
  from make_bucket_adds[OF m this] obtain new where new: "map_of fs' ?p = Some NDir" "fs' = rmtree_at ?p fs @ new"
    "\<forall>(q, n) \<in> set new. (n = NDir \<and> prefix q ?p) \<or> q = ?p @ [''.gitkeep'']" by auto
  have "map_of fs' (build_dir repo @ [b']) = Some NDir" if "b' \<in> set BUCKETS" for b'
  proof (cases "b' = b")
    case False
    have "map_of new (build_dir repo @ [b']) = None"
    proof (rule ccontr)
      assume "map_of new (build_dir repo @ [b']) \<noteq> None"
      then obtain n where "(build_dir repo @ [b'], n) \<in> set new" using map_of_SomeD by fastforce
      with new(3) False show False by (auto simp: prefix_def)
    qed
    then show ?thesis using new(2) False that assms(2) by (simp add: map_add_def gone buckets_there_def)
  qed (use new(1) in simp)
  moreover have "q \<in> {?p, build_dir repo @ [b, ''.gitkeep'']}" if "(q, n) \<in> set fs'" "prefix ?p q" for q n
  proof -
    have "(q, n) \<in> set new" using that new(2) by (simp add: rmtree_at_def)
    then have "prefix q ?p \<or> q = ?p @ [''.gitkeep'']" using new(3) by fast
    then show ?thesis using prefix_order.antisym[OF _ that(2)] by auto
  qed
  moreover have "(q, n) \<in> set fs \<or> prefix q ?p \<or> q = build_dir repo @ [b, ''.gitkeep'']" if "(q, n) \<in> set fs'" for q n
  proof (cases "(q, n) \<in> set new")
    case True
    then have "prefix q ?p \<or> q = ?p @ [''.gitkeep'']" using new(3) by fast
    then show ?thesis by auto
  qed (use that new(2) in \<open>simp add: rmtree_at_def\<close>)
  moreover have "(q, n) \<in> set fs'" if "(q, n) \<in> set fs" "\<not> prefix ?p q" for q n
    using that new(2) by (simp add: rmtree_at_def)
  ultimately show ?thesis unfolding buckets_there_def in_bucket_def fresh_bucket_def made_for_def by blast
qed

lemma resets_run:
  assumes "foldr_res (\<lambda>b. reset_bucket (build_dir repo @ [b])) bs fs = Inr fs'" and "buckets_there fs repo" and "set bs \<subseteq> set BUCKETS"
  shows "(\<forall>(q, n) \<in> set fs. (\<forall>b \<in> set bs. \<not> in_bucket repo b q) \<longrightarrow> (q, n) \<in> set fs')
    \<and> (\<forall>b \<in> set bs. \<forall>(q, n) \<in> set fs'. in_bucket repo b q \<longrightarrow> fresh_bucket repo b q)
    \<and> (\<forall>(q, n) \<in> set fs'. (q, n) \<in> set fs \<or> (\<exists>b \<in> set bs. made_for repo b q))"
  using assms
proof (induction bs arbitrary: fs)
  case (Cons b bs)
  from Cons.prems(1) obtain fs2 where r: "reset_bucket (build_dir repo @ [b]) fs = Inr fs2"
    "foldr_res (\<lambda>b. reset_bucket (build_dir repo @ [b])) bs fs2 = Inr fs'" by (auto simp: rbind_eq_Inr)
  have "b \<in> set BUCKETS" and bs: "set bs \<subseteq> set BUCKETS" using Cons.prems(3) by auto
  note one = reset_run[OF r(1) Cons.prems(2) this(1)]
  note two = Cons.IH[OF r(2) conjunct1[OF one] bs]
  have "\<forall>(q, n) \<in> set fs'. in_bucket repo b q \<longrightarrow> fresh_bucket repo b q"
    using one two made_in by fast
  with one two show ?case unfolding list.set(2) by blast
qed simp

lemma drop_strays: "fold (drop_stray build) names fs
    = filter (\<lambda>(q, n). \<forall>m \<in> set names. \<not> (List.member BUCKETS m \<or> m = ''.gitkeep'') \<longrightarrow> \<not> prefix (build @ [m]) q) fs"
  by (induction names arbitrary: fs) (auto simp: drop_stray_def rmtree_at_def filter_filter intro!: filter_cong)


section \<open>A concrete build directory\<close>

definition sample_tree :: tree where
  "sample_tree =
     [([''r''], NDir), ([''r'', ''lab''], NDir), ([''r'', ''lab'', ''.vagrant''], NDir), ([''r'', ''lab'', ''.vagrant'', ''id''], NFile ''7''),
      ([''r'', ''build''], NDir), ([''r'', ''build'', ''cache''], NDir), ([''r'', ''build'', ''state''], NDir),
      ([''r'', ''build'', ''work''], NDir), ([''r'', ''build'', ''temp''], NDir), ([''r'', ''build'', ''work'', ''x''], NFile ''old''),
      ([''r'', ''build'', ''obs''], NDir), ([''r'', ''build'', ''obs'', ''t.json''], NFile ''[]''),
      ([''r'', ''build'', ''rhel-dvd.iso''], NFile ''iso''), ([''r'', ''build'', ''refs''], NDir),
      ([''r'', ''build'', ''refs'', ''a''], NFile ''same''), ([''r'', ''build'', ''refs'', ''b''], NFile ''new''),
      ([''r'', ''build'', ''refs'', ''d''], NDir), ([''r'', ''build'', ''refs'', ''d'', ''e''], NFile ''deep''),
      ([''r'', ''build'', ''cache'', ''refs''], NDir), ([''r'', ''build'', ''cache'', ''refs'', ''a''], NFile ''same''),
      ([''r'', ''build'', ''cache'', ''refs'', ''d''], NDir)]"

lemma sample_buckets: "buckets_there sample_tree [''r'']"
  by code_simp


text \<open>A worktree gets links to the buckets of the main checkout, wiring it again changes nothing, and a real
directory in the place of a link is refused.\<close>

lemma ensure_examples:
  "(case ensure_build [''w''] (Some [''r'']) sample_tree of Inl _ \<Rightarrow> False
    | Inr fs' \<Rightarrow> map_of fs' [''w'', ''build'', ''state''] = Some (NLink [''r'', ''build'', ''state''])
        \<and> map_of fs' [''w'', ''build'', ''work''] = Some NDir \<and> ensure_build [''w''] (Some [''r'']) fs' = Inr fs')
   \<and> (case ensure_build [''w''] (Some [''r'']) (([''w'', ''build'', ''cache''], NDir) # sample_tree) of
        Inl (BuildEnvError _ cs) \<Rightarrow> cs = [([''w'', ''build'', ''cache''], [''r'', ''build'', ''cache''])] | _ \<Rightarrow> False)"
  by code_simp

end
