(* ===== verification/Build_Migration.thy ===== *)
theory Build_Migration
  imports Build_Env
begin

text \<open>
  The migration of an old build directory loses nothing (\<open>migrate\<close> of \<open>mqlab/buildenv.py\<close>, modelled in
  \<open>Build_Env\<close>). A plan without conflicts is described by what it covers: which paths are moved, which are
  dropped as duplicates and which directories are emptied. Its moves do not interfere, so running them one
  after the other relocates each path once; what is left of the old entries is then removed bottom up.
\<close>

section \<open>Trees and moves\<close>

definition tree_ok :: "tree \<Rightarrow> bool" where
  "tree_ok fs \<longleftrightarrow> distinct (map fst fs)
     \<and> (\<forall>q \<in> set (map fst fs). \<forall>i. 0 < i \<and> i < length q \<longrightarrow> map_of fs (take i q) = Some NDir)"

text \<open>No link of the tree points to something missing.\<close>

definition no_dangling :: "tree \<Rightarrow> bool" where
  "no_dangling fs \<longleftrightarrow> (\<forall>n \<in> set (map snd fs). case n of NLink t \<Rightarrow> map_of fs t \<noteq> None | _ \<Rightarrow> True)"

lemma exists_iff: "no_dangling fs \<Longrightarrow> path_exists fs p \<longleftrightarrow> map_of fs p \<noteq> None"
  by (force simp: no_dangling_def path_exists_def follow_link_def dest: map_of_SomeD split: option.splits node.splits)

lemma key_iff: "map_of fs p \<noteq> None \<longleftrightarrow> p \<in> fst ` set fs"
  by (metis domIff dom_map_of_conv_image_fst)

lemma parent_dir:
  assumes "tree_ok fs" and "map_of fs q \<noteq> None" and "strict_prefix p q" and "p \<noteq> []"
  shows "map_of fs p = Some NDir"
proof -
  obtain r where "q = p @ r" "r \<noteq> []" using assms(3) by (auto simp: strict_prefix_def prefix_def)
  then have "p = take (length p) q" "0 < length p" "length p < length q" using assms(4) by auto
  then show ?thesis using assms(1,2) unfolding tree_ok_def key_iff by fastforce
qed

lemma children_iff: "c \<in> set (children fs p) \<longleftrightarrow> map_of fs (p @ [c]) \<noteq> None"
proof -
  have "q \<noteq> [] \<and> butlast q = p \<and> last q = c \<longleftrightarrow> q = p @ [c]" for q by (metis append_butlast_last_id butlast_snoc last_snoc snoc_eq_iff_butlast)
  then show ?thesis unfolding key_iff by (auto simp: children_def image_iff) (metis fst_conv)+
qed

lemma distinct_children [simp]: "distinct (children fs p)"
  by (simp add: children_def)

lemma mkdirs_there:
  assumes "\<And>i. 0 < i \<Longrightarrow> i \<le> length p \<Longrightarrow> map_of fs (take i p) = Some NDir"
  shows "mkdirs p fs = Inr fs"
proof -
  have "foldr_res mkdir_one ps fs = Inr fs" if "\<forall>a \<in> set ps. map_of fs a = Some NDir" for ps
    using that by (induction ps) (auto simp: mkdir_one_def follow_link_def)
  moreover have "map_of fs a = Some NDir" if "a \<in> set (ancestors p)" for a
  proof -
    have "\<exists>i. a = take i p \<and> 0 < i \<and> i \<le> length p" using \<open>a \<in> set (ancestors p)\<close> unfolding ancestors_def by fastforce
    then show ?thesis using assms by blast
  qed
  ultimately show ?thesis by (simp add: mkdirs_def)
qed

text \<open>Moves that do not interfere: each source is there, each destination is free in an existing directory, no source
contains another source or a destination, and no destination another.\<close>

definition movable :: "tree \<Rightarrow> (path \<times> path) list \<Rightarrow> bool" where
  "movable fs ms \<longleftrightarrow>
     (\<forall>(s, d) \<in> set ms. map_of fs s \<noteq> None \<and> d \<noteq> [] \<and> (\<forall>q \<in> set (map fst fs). \<not> prefix d q)
        \<and> (\<forall>i. 0 < i \<and> i < length d \<longrightarrow> map_of fs (take i d) = Some NDir))
     \<and> (\<forall>(s, d) \<in> set ms. \<forall>(s', d') \<in> set ms. \<not> prefix s d')
     \<and> sorted_wrt (\<lambda>(s, d) (s', d'). s \<parallel> s' \<and> d \<parallel> d') ms"

lemma movableD:
  assumes "movable fs ms" and "(s, d) \<in> set ms"
  shows "map_of fs s \<noteq> None" and "d \<noteq> []" and "\<not> prefix s d" and "map_of fs k \<noteq> None \<Longrightarrow> \<not> prefix d k"
    and "0 < i \<Longrightarrow> i < length d \<Longrightarrow> map_of fs (take i d) = Some NDir"
  using assms unfolding movable_def key_iff by (auto dest!: bspec[of "set ms" _ "(s, d)"])

lemma movable_pairD:
  assumes "movable fs ((s, d) # ms)" and "(s', d') \<in> set ms"
  shows "s \<parallel> s'" and "d \<parallel> d'" and "\<not> prefix s d'" and "\<not> prefix s' d"
  using assms unfolding movable_def by (auto dest!: bspec[of "set ms" _ "(s', d')"])

lemma movable_tail: "movable fs (sd # ms) \<Longrightarrow> movable fs ms"
  unfolding movable_def by auto

definition moved :: "path \<times> path \<Rightarrow> tree \<Rightarrow> tree" where
  "moved sd fs = map (\<lambda>(q, n). (relocate (fst sd) (snd sd) q, n)) fs"

lemma moved_keys: "map fst (moved sd fs) = map (relocate (fst sd) (snd sd)) (map fst fs)"
  by (simp add: moved_def case_prod_unfold)

lemma relocate_inj:
  assumes "\<And>q. q \<in> K \<Longrightarrow> \<not> prefix d q"
  shows "inj_on (relocate s d) K"
proof (rule inj_onI)
  fix q q' assume qs: "q \<in> K" "q' \<in> K" and eq: "relocate s d q = relocate s d q'"
  then show "q = q'"
    using assms[OF qs(1)] assms[OF qs(2)]
    by (auto simp: relocate_def prefix_def split: if_splits)
qed

lemma distinct_moved:
  assumes "distinct (map fst fs)" and "\<And>q. q \<in> set (map fst fs) \<Longrightarrow> \<not> prefix d q"
  shows "distinct (map fst (moved (s, d) fs))"
  unfolding moved_keys using assms by (simp only: distinct_map[of "relocate s d"] fst_conv snd_conv relocate_inj simp_thms)

lemma map_of_moved:
  assumes "distinct (map fst fs)" and "\<And>q. q \<in> set (map fst fs) \<Longrightarrow> \<not> prefix d q" and "map_of fs q = Some n"
  shows "map_of (moved (s, d) fs) (relocate s d q) = Some n"
proof -
  have "(relocate s d q, n) \<in> set (moved (s, d) fs)"
    using imageI[OF map_of_SomeD[OF assms(3)], of "\<lambda>(q, n). (relocate s d q, n)"] by (simp add: moved_def)
  with distinct_moved[OF assms(1,2)] show ?thesis by (auto intro: map_of_is_SomeI)
qed

lemma apply_one_move:
  assumes "movable fs ((s, d) # ms)"
  shows "apply_move (s, d) fs = Inr (moved (s, d) fs)"
proof -
  note m = movableD[OF assms list.set_intros(1)]
  have "mkdirs (butlast d) fs = Inr fs"
  proof (rule mkdirs_there)
    fix i assume "0 < i" "i \<le> length (butlast d)"
    then have "i < length d" "take i (butlast d) = take i d" by (auto simp: take_butlast)
    then show "map_of fs (take i (butlast d)) = Some NDir" using m(5)[OF \<open>0 < i\<close>] by simp
  qed
  moreover have "map_of fs d = None" using m(4)[of d] by (cases "map_of fs d") simp_all
  moreover have "filter (\<lambda>(q, n). q \<noteq> d) fs = fs"
    using \<open>map_of fs d = None\<close> by (force simp: filter_id_conv map_of_eq_None_iff)
  ultimately show ?thesis using m(1,3) by (simp add: apply_move_def rename_def rename_blocked_def moved_def)
qed

lemma movable_rest:
  assumes "movable fs ((s, d) # ms)" and "distinct (map fst fs)"
  shows "movable (moved (s, d) fs) ms"
proof -
  have free: "\<not> prefix d q" if "q \<in> set (map fst fs)" for q
    using movableD(4)[OF assms(1) list.set_intros(1), of q] that key_iff[of fs q] by simp
  note moved = map_of_moved[OF assms(2) free] and tail = movableD[OF movable_tail[OF assms(1)]]
    and par = movable_pairD[OF assms(1)]
  have here: "map_of (moved (s, d) fs) s' \<noteq> None" if "(s', d') \<in> set ms" for s' d'
  proof -
    obtain n where "map_of fs s' = Some n" using tail(1)[OF \<open>(s', d') \<in> set ms\<close>] by blast
    from moved[OF _ this, of s] show ?thesis using par(1)[OF that] by (simp add: relocate_def parallel_def)
  qed
  have empty: "\<not> prefix d' q" if "(s', d') \<in> set ms" "q \<in> set (map fst (moved (s, d) fs))" for s' d' q
  proof
    assume pre: "prefix d' q"
    obtain q0 where q0: "q0 \<in> set (map fst fs)" "q = relocate s d q0"
      using \<open>q \<in> set (map fst (moved (s, d) fs))\<close> unfolding moved_keys by auto
    have "\<not> prefix d' q0" using tail(4)[OF that(1), of q0] q0(1) key_iff[of fs q0] by simp
    with pre q0(2) have "prefix d' (d @ drop (length s) q0)" by (simp add: relocate_def split: if_splits)
    then have "prefix d' d \<or> prefix d d'" using prefix_same_cases[of d' "d @ drop (length s) q0" d] by simp
    then show False using par(2)[OF that(1)] by (auto simp: parallel_def)
  qed
  have up: "map_of (moved (s, d) fs) (take i d') = Some NDir" if "(s', d') \<in> set ms" "0 < i" "i < length d'" for s' d' i
  proof -
    have "\<not> prefix s (take i d')" using par(3)[OF that(1)] take_is_prefix prefix_order.order_trans by blast
    with moved[OF _ tail(5)[OF that], of s] show ?thesis by (simp add: relocate_def)
  qed
  have "\<forall>x \<in> set ms. case x of (s', d') \<Rightarrow> map_of (moved (s, d) fs) s' \<noteq> None \<and> d' \<noteq> []
      \<and> (\<forall>q \<in> set (map fst (moved (s, d) fs)). \<not> prefix d' q)
      \<and> (\<forall>i. 0 < i \<and> i < length d' \<longrightarrow> map_of (moved (s, d) fs) (take i d') = Some NDir)"
  proof
    fix x assume "x \<in> set ms"
    moreover obtain s' d' where xx: "x = (s', d')" by fastforce
    ultimately have x: "(s', d') \<in> set ms" by simp
    from tail(2)[OF x] here[OF x] have "d' \<noteq> []" "map_of (moved (s, d) fs) s' \<noteq> None" .
    with empty[OF x] up[OF x] show "case x of (s', d') \<Rightarrow> map_of (moved (s, d) fs) s' \<noteq> None \<and> d' \<noteq> []
      \<and> (\<forall>q \<in> set (map fst (moved (s, d) fs)). \<not> prefix d' q)
      \<and> (\<forall>i. 0 < i \<and> i < length d' \<longrightarrow> map_of (moved (s, d) fs) (take i d') = Some NDir)" unfolding xx by simp
  qed
  then show ?thesis using movable_tail[OF assms(1)] unfolding movable_def by blast
qed

definition relocate_all :: "(path \<times> path) list \<Rightarrow> path \<Rightarrow> path" where
  "relocate_all ms q = fold (\<lambda>(s, d). relocate s d) ms q"

lemma apply_moves:
  assumes "movable fs ms" and "distinct (map fst fs)"
  shows "foldr_res apply_move ms fs = Inr (map (\<lambda>(q, n). (relocate_all ms q, n)) fs)
    \<and> distinct (map (\<lambda>q. relocate_all ms q) (map fst fs))"
  using assms
proof (induction ms arbitrary: fs)
  case Nil
  then show ?case by (simp add: relocate_all_def case_prod_unfold)
next
  case (Cons sd ms)
  obtain s d where sd: "sd = (s, d)" by fastforce
  have m: "movable fs ((s, d) # ms)" using Cons.prems sd by simp
  have free: "\<not> prefix d q" if "q \<in> set (map fst fs)" for q
    using movableD(4)[OF m list.set_intros(1), of q] that key_iff[of fs q] by simp
  have step: "apply_move sd fs = Inr (moved sd fs)" using apply_one_move[OF m] sd by simp
  have "distinct (map fst (moved sd fs))" using distinct_moved[OF Cons.prems(2) free] sd by simp
  from Cons.IH[OF movable_rest[OF m Cons.prems(2), folded sd] this] show ?case
    using step by (simp add: moved_def relocate_all_def sd case_prod_unfold o_def)
qed

lemma relocate_all_none: "\<forall>(s, d) \<in> set ms. \<not> prefix s q \<Longrightarrow> relocate_all ms q = q"
  unfolding relocate_all_def by (induction ms) (auto simp: relocate_def)

lemma relocate_all_one:
  assumes "movable fs ms" and "(s, d) \<in> set ms" and "prefix s q"
  shows "relocate_all ms q = d @ drop (length s) q"
  using assms
proof (induction ms)
  case (Cons sd ms)
  obtain s' d' where sd: "sd = (s', d')" by fastforce
  note par = movable_pairD[OF Cons.prems(1)[unfolded sd]] and tail = movableD[OF movable_tail[OF Cons.prems(1)]]
    and free = movableD(4)[OF Cons.prems(1)[unfolded sd] list.set_intros(1)]
  show ?case
  proof (cases "(s, d) = sd")
    case True
    have "relocate_all ms (d' @ drop (length s) q) = d' @ drop (length s) q"
    proof (rule relocate_all_none, clarify)
      fix s1 d1 assume "(s1, d1) \<in> set ms" and "prefix s1 (d' @ drop (length s) q)"
      then show False
        using par(4)[of s1 d1] free[OF tail(1)[of s1 d1]] prefix_same_cases[of s1 "d' @ drop (length s) q" d'] by simp
    qed
    then show ?thesis using True Cons.prems(3) by (auto simp: relocate_all_def relocate_def sd)
  next
    case False
    then have "(s, d) \<in> set ms" using Cons.prems(2) by simp
    moreover from this have "\<not> prefix s' q" using par(1) Cons.prems(3) by (meson parallel_def prefix_same_cases)
    ultimately show ?thesis using Cons.IH[OF movable_tail[OF Cons.prems(1)]] Cons.prems(3)
      by (simp add: relocate_all_def relocate_def sd)
  qed
qed simp

section \<open>What a plan covers\<close>

text \<open>A plan for the entries \<open>cs\<close> of the directory \<open>src\<close>, by paths relative to it: what is moved, what is dropped as a
duplicate, and which directories are emptied; \<open>D\<close> gives the destination of a relative path.\<close>

definition covers :: "tree \<Rightarrow> path \<Rightarrow> (path \<Rightarrow> path) \<Rightarrow> string list \<Rightarrow> path list \<Rightarrow> path list \<Rightarrow> path list \<Rightarrow> bool" where
  "covers fs src D cs rs ts us \<longleftrightarrow>
     (\<forall>r \<in> set rs \<union> set ts \<union> set us. r \<noteq> [] \<and> hd r \<in> set cs)
     \<and> (\<forall>r \<in> set rs. map_of fs (src @ r) \<noteq> None \<and> map_of fs (D r) = None \<and> map_of fs (butlast (D r)) = Some NDir)
     \<and> (\<forall>r \<in> set ts. identical fs (src @ r) (D r))
     \<and> (\<forall>u \<in> set us. map_of fs (src @ u) = Some NDir \<and> map_of fs (D u) = Some NDir)
     \<and> sorted_wrt (\<parallel>) rs \<and> distinct ts \<and> distinct us
     \<and> (\<forall>i < length us. \<forall>c. map_of fs (src @ us ! i @ [c]) \<noteq> None \<longrightarrow> us ! i @ [c] \<in> set rs \<union> set ts \<union> set (take i us))
     \<and> (\<forall>c \<in> set cs. map_of fs (src @ [c]) \<noteq> None \<longrightarrow> [c] \<in> set rs \<union> set ts \<union> set us)"

definition plan_is :: "MigrationPlan \<Rightarrow> path \<Rightarrow> (path \<Rightarrow> path) \<Rightarrow> path list \<Rightarrow> path list \<Rightarrow> path list \<Rightarrow> path list \<Rightarrow> bool" where
  "plan_is P src D rs ts us ps \<longleftrightarrow>
     mp_moves P = map (\<lambda>r. (src @ r, D r)) rs \<and> mp_duplicates P = map (\<lambda>r. (src @ r, D r)) ts
     \<and> mp_prune P = map (\<lambda>r. src @ r) us @ ps \<and> mp_stale P = []"

lemma parallel_hd: "r \<noteq> [] \<Longrightarrow> r' \<noteq> [] \<Longrightarrow> hd r \<noteq> hd r' \<Longrightarrow> r \<parallel> r'"
  by (cases r; cases r') (auto simp: parallel_def)

lemma coversD:
  assumes "covers fs src D cs rs ts us"
  shows "r \<in> set rs \<union> set ts \<union> set us \<Longrightarrow> r \<noteq> [] \<and> hd r \<in> set cs"
    and "r \<in> set rs \<Longrightarrow> map_of fs (src @ r) \<noteq> None \<and> map_of fs (D r) = None \<and> map_of fs (butlast (D r)) = Some NDir"
    and "r \<in> set ts \<Longrightarrow> identical fs (src @ r) (D r)"
    and "u \<in> set us \<Longrightarrow> map_of fs (src @ u) = Some NDir \<and> map_of fs (D u) = Some NDir"
    and "sorted_wrt (\<parallel>) rs" and "distinct ts" and "distinct us"
    and "i < length us \<Longrightarrow> map_of fs (src @ us ! i @ [c]) \<noteq> None \<Longrightarrow> us ! i @ [c] \<in> set rs \<union> set ts \<union> set (take i us)"
    and "c \<in> set cs \<Longrightarrow> map_of fs (src @ [c]) \<noteq> None \<Longrightarrow> [c] \<in> set rs \<union> set ts \<union> set us"
  using assms unfolding covers_def by blast+

lemma coversI:
  assumes "\<And>r. r \<in> set rs \<union> set ts \<union> set us \<Longrightarrow> r \<noteq> [] \<and> hd r \<in> set cs"
    and "\<And>r. r \<in> set rs \<Longrightarrow> map_of fs (src @ r) \<noteq> None \<and> map_of fs (D r) = None \<and> map_of fs (butlast (D r)) = Some NDir"
    and "\<And>r. r \<in> set ts \<Longrightarrow> identical fs (src @ r) (D r)"
    and "\<And>u. u \<in> set us \<Longrightarrow> map_of fs (src @ u) = Some NDir \<and> map_of fs (D u) = Some NDir"
    and "sorted_wrt (\<parallel>) rs" and "distinct ts" and "distinct us"
    and "\<And>i c. i < length us \<Longrightarrow> map_of fs (src @ us ! i @ [c]) \<noteq> None \<Longrightarrow> us ! i @ [c] \<in> set rs \<union> set ts \<union> set (take i us)"
    and "\<And>c. c \<in> set cs \<Longrightarrow> map_of fs (src @ [c]) \<noteq> None \<Longrightarrow> [c] \<in> set rs \<union> set ts \<union> set us"
  shows "covers fs src D cs rs ts us"
  unfolding covers_def using assms by blast

lemma covers_append:
  assumes "covers fs src D cs1 rs1 ts1 us1" and "covers fs src D cs2 rs2 ts2 us2" and "set cs1 \<inter> set cs2 = {}"
  shows "covers fs src D (cs1 @ cs2) (rs1 @ rs2) (ts1 @ ts2) (us1 @ us2)"
proof -
  note a = coversD[OF assms(1)] and b = coversD[OF assms(2)]
  have hd: "hd r \<noteq> hd r' \<and> r \<noteq> [] \<and> r' \<noteq> []" if "r \<in> set rs1 \<union> set ts1 \<union> set us1" "r' \<in> set rs2 \<union> set ts2 \<union> set us2" for r r'
    using a(1)[OF that(1)] b(1)[OF that(2)] assms(3) by auto
  have par: "r \<parallel> r'" if "r \<in> set rs1" "r' \<in> set rs2" for r r' using hd[of r r'] that by (auto intro: parallel_hd)
  have disj: "set ts1 \<inter> set ts2 = {}" "set us1 \<inter> set us2 = {}" using hd by blast+
  show ?thesis
  proof (rule coversI)
    show "sorted_wrt (\<parallel>) (rs1 @ rs2)" using a(5) b(5) par by (simp add: sorted_wrt_append)
    show "distinct (ts1 @ ts2)" "distinct (us1 @ us2)" using a(6,7) b(6,7) disj by simp_all
    show "r \<noteq> [] \<and> hd r \<in> set (cs1 @ cs2)" if "r \<in> set (rs1 @ rs2) \<union> set (ts1 @ ts2) \<union> set (us1 @ us2)" for r
      using a(1)[of r] b(1)[of r] that by auto
    show "map_of fs (src @ r) \<noteq> None \<and> map_of fs (D r) = None \<and> map_of fs (butlast (D r)) = Some NDir" if "r \<in> set (rs1 @ rs2)" for r
      using a(2)[of r] b(2)[of r] that by auto
    show "identical fs (src @ r) (D r)" if "r \<in> set (ts1 @ ts2)" for r using a(3)[of r] b(3)[of r] that by auto
    show "map_of fs (src @ u) = Some NDir \<and> map_of fs (D u) = Some NDir" if "u \<in> set (us1 @ us2)" for u
      using a(4)[of u] b(4)[of u] that by auto
    show "[c] \<in> set (rs1 @ rs2) \<union> set (ts1 @ ts2) \<union> set (us1 @ us2)" if "c \<in> set (cs1 @ cs2)" "map_of fs (src @ [c]) \<noteq> None" for c
      using a(9)[of c] b(9)[of c] that by auto
    show "(us1 @ us2) ! i @ [c] \<in> set (rs1 @ rs2) \<union> set (ts1 @ ts2) \<union> set (take i (us1 @ us2))"
      if "i < length (us1 @ us2)" "map_of fs (src @ (us1 @ us2) ! i @ [c]) \<noteq> None" for i c
      using a(8)[of i c] b(8)[of "i - length us1" c] that by (cases "i < length us1") (auto simp: nth_append less_diff_conv2)
  qed
qed

text \<open>Descending into a directory that exists on both sides.\<close>

lemma covers_descend:
  assumes "covers fs (src @ [c]) (\<lambda>r. D (c # r)) (children fs (src @ [c])) rs ts us"
    and "map_of fs (src @ [c]) = Some NDir" and "map_of fs (D [c]) = Some NDir"
  shows "covers fs src D [c] (map ((#) c) rs) (map ((#) c) ts) (map ((#) c) us @ [[c]])"
proof -
  note a = coversD[OF assms(1)]
  have inj: "inj_on ((#) c) X" for X by (simp add: inj_on_def)
  have par: "(c # x) \<parallel> (c # y) \<longleftrightarrow> x \<parallel> y" for x y by (simp add: parallel_def)
  have ne: "[] \<notin> set us" using a(1)[of "[]"] by auto
  show ?thesis
  proof (rule coversI)
    show "sorted_wrt (\<parallel>) (map ((#) c) rs)" using a(5) by (simp add: sorted_wrt_map par)
    show "distinct (map ((#) c) ts)" "distinct (map ((#) c) us @ [[c]])" using a(6,7) ne inj by (auto simp: distinct_map)
    show "r \<noteq> [] \<and> hd r \<in> set [c]" if "r \<in> set (map ((#) c) rs) \<union> set (map ((#) c) ts) \<union> set (map ((#) c) us @ [[c]])" for r
      using that by auto
    show "map_of fs (src @ r) \<noteq> None \<and> map_of fs (D r) = None \<and> map_of fs (butlast (D r)) = Some NDir" if "r \<in> set (map ((#) c) rs)" for r
      using a(2) that by auto
    show "identical fs (src @ r) (D r)" if "r \<in> set (map ((#) c) ts)" for r using a(3) that by auto
    show "map_of fs (src @ u) = Some NDir \<and> map_of fs (D u) = Some NDir" if "u \<in> set (map ((#) c) us @ [[c]])" for u
      using a(4) that assms(2,3) by auto
    show "[d] \<in> set (map ((#) c) rs) \<union> set (map ((#) c) ts) \<union> set (map ((#) c) us @ [[c]])" if "d \<in> set [c]" for d
      using that by simp
    show "(map ((#) c) us @ [[c]]) ! i @ [d] \<in> set (map ((#) c) rs) \<union> set (map ((#) c) ts) \<union> set (take i (map ((#) c) us @ [[c]]))"
      if "i < length (map ((#) c) us @ [[c]])" "map_of fs (src @ (map ((#) c) us @ [[c]]) ! i @ [d]) \<noteq> None" for i d
    proof (cases "i < length us")
      case True
      then show ?thesis using a(8)[of i d] that(2) by (auto simp: nth_append take_map)
    next
      case False
      then have i: "i = length us" using that(1) by simp
      then show ?thesis using a(9)[of d] that(2) by (auto simp: nth_append children_iff)
    qed
  qed
qed

lemma then_plan_simps [simp]:
  "mp_moves (then_plan a b) = mp_moves a @ mp_moves b" "mp_duplicates (then_plan a b) = mp_duplicates a @ mp_duplicates b"
  "mp_stale (then_plan a b) = mp_stale a @ mp_stale b" "mp_prune (then_plan a b) = mp_prune a @ mp_prune b"
  "mp_conflicts (then_plan a b) = mp_conflicts a @ mp_conflicts b"
  by (simp_all add: then_plan_def)

lemma no_plan_simps [simp]:
  "mp_moves no_plan = []" "mp_duplicates no_plan = []" "mp_stale no_plan = []" "mp_prune no_plan = []" "mp_conflicts no_plan = []"
  by (simp_all add: no_plan_def)

lemma plan_is_append:
  "plan_is P src D rs1 ts1 us1 [] \<Longrightarrow> plan_is Q src D rs2 ts2 us2 ps
    \<Longrightarrow> plan_is (then_plan P Q) src D (rs1 @ rs2) (ts1 @ ts2) (us1 @ us2) ps"
  by (simp add: plan_is_def)

lemma covers_move:
  "map_of fs (src @ [c]) \<noteq> None \<Longrightarrow> map_of fs (D [c]) = None \<Longrightarrow> map_of fs (butlast (D [c])) = Some NDir
    \<Longrightarrow> covers fs src D [c] [[c]] [] []"
  by (simp add: covers_def)

lemma covers_duplicate: "identical fs (src @ [c]) (D [c]) \<Longrightarrow> covers fs src D [c] [] [[c]] []"
  by (simp add: covers_def)

lemma covers_nothing: "map_of fs (src @ [c]) = None \<Longrightarrow> covers fs src D [c] [] [] []"
  by (simp add: covers_def)

lemma covers_no_entry: "covers fs src D [] [] [] []"
  by (simp add: covers_def)

lemma plan_is_descend:
  assumes "plan_is P (src @ [c]) (\<lambda>r. D (c # r)) rs ts us [src @ [c]]"
  shows "plan_is P src D (map ((#) c) rs) (map ((#) c) ts) (map ((#) c) us @ [[c]]) []"
  using assms by (simp add: plan_is_def o_def)

lemma merge_covers:
  assumes "no_dangling fs" and "mp_conflicts (merge_children fs src dst cs) = []" and "map_of fs dst = Some NDir"
    and "distinct cs" and "\<forall>c \<in> set cs. map_of fs (src @ [c]) \<noteq> None"
  shows "\<exists>rs ts us. covers fs src (\<lambda>r. dst @ r) cs rs ts us \<and> plan_is (merge_children fs src dst cs) src (\<lambda>r. dst @ r) rs ts us [src]"
  using assms
proof (induction fs src dst cs rule: merge_children.induct)
  case (1 fs src dst)
  show ?case by (intro exI[of _ "[]"]) (simp add: covers_no_entry plan_is_def)
next
  case (2 fs src dst c cs)
  define P where "P = (if \<not> path_exists fs (dst @ [c]) \<and> \<not> is_symlink fs (dst @ [c]) then no_plan\<lparr>mp_moves := [(src @ [c], dst @ [c])]\<rparr>
         else if is_real_dir fs (src @ [c]) \<and> is_real_dir fs (dst @ [c]) then merge_children fs (src @ [c]) (dst @ [c]) (children fs (src @ [c]))
         else if identical fs (src @ [c]) (dst @ [c]) then no_plan\<lparr>mp_duplicates := [(src @ [c], dst @ [c])]\<rparr>
         else no_plan\<lparr>mp_conflicts := [(src @ [c], dst @ [c])]\<rparr>)"
  have step: "merge_children fs src dst (c # cs) = then_plan P (merge_children fs src dst cs)"
    by (simp add: P_def Let_def)
  have rest: "\<exists>rs ts us. covers fs src (\<lambda>r. dst @ r) cs rs ts us \<and> plan_is (merge_children fs src dst cs) src (\<lambda>r. dst @ r) rs ts us [src]"
    using 2(2)[OF refl refl] 2(3-7) step by simp
  have "\<exists>rs ts us. covers fs src (\<lambda>r. dst @ r) [c] rs ts us \<and> plan_is P src (\<lambda>r. dst @ r) rs ts us []"
  proof -
    consider (move) "map_of fs (dst @ [c]) = None"
      | (dir) "map_of fs (dst @ [c]) \<noteq> None" "is_real_dir fs (src @ [c])" "is_real_dir fs (dst @ [c])"
      | (same) "map_of fs (dst @ [c]) \<noteq> None" "\<not> (is_real_dir fs (src @ [c]) \<and> is_real_dir fs (dst @ [c]))" "identical fs (src @ [c]) (dst @ [c])"
      | (differs) "map_of fs (dst @ [c]) \<noteq> None" "\<not> (is_real_dir fs (src @ [c]) \<and> is_real_dir fs (dst @ [c]))" "\<not> identical fs (src @ [c]) (dst @ [c])"
      by blast
    then show ?thesis
    proof cases
      case move
      then have "P = no_plan\<lparr>mp_moves := [(src @ [c], dst @ [c])]\<rparr>" using exists_iff[OF 2(3)] by (simp add: P_def is_symlink_def)
      moreover have "covers fs src (\<lambda>r. dst @ r) [c] [[c]] [] []" using move 2(5,7) by (intro covers_move) simp_all
      ultimately show ?thesis by (intro exI conjI) (auto simp: plan_is_def)
    next
      case dir
      then have "P = merge_children fs (src @ [c]) (dst @ [c]) (children fs (src @ [c]))" using exists_iff[OF 2(3)] by (simp add: P_def)
      with dir 2(1)[OF refl refl _ _ 2(3)] 2(3,4) step exists_iff[OF 2(3)] obtain rs ts us where
        "covers fs (src @ [c]) (\<lambda>r. (dst @ [c]) @ r) (children fs (src @ [c])) rs ts us"
        "plan_is P (src @ [c]) (\<lambda>r. (dst @ [c]) @ r) rs ts us [src @ [c]]"
        by (auto simp: is_real_dir_def children_iff)
      with covers_descend[of fs src c "\<lambda>r. dst @ r"] plan_is_descend[of P src c "\<lambda>r. dst @ r"] dir show ?thesis
        by (simp add: is_real_dir_def) blast
    next
      case same
      then have "P = no_plan\<lparr>mp_duplicates := [(src @ [c], dst @ [c])]\<rparr>" using exists_iff[OF 2(3)] by (auto simp: P_def)
      moreover have "covers fs src (\<lambda>r. dst @ r) [c] [] [[c]] []" using same by (intro covers_duplicate) simp_all
      ultimately show ?thesis by (intro exI conjI) (auto simp: plan_is_def)
    next
      case differs
      then have "P = no_plan\<lparr>mp_conflicts := [(src @ [c], dst @ [c])]\<rparr>" using exists_iff[OF 2(3)] by (auto simp: P_def)
      then show ?thesis using 2(4) step by simp
    qed
  qed
  then obtain rs1 ts1 us1 where one: "covers fs src (\<lambda>r. dst @ r) [c] rs1 ts1 us1" "plan_is P src (\<lambda>r. dst @ r) rs1 ts1 us1 []" by blast
  from rest obtain rs2 ts2 us2 where two: "covers fs src (\<lambda>r. dst @ r) cs rs2 ts2 us2"
    "plan_is (merge_children fs src dst cs) src (\<lambda>r. dst @ r) rs2 ts2 us2 [src]" by blast
  have "set [c] \<inter> set cs = {}" using 2(6) by simp
  from covers_append[OF one(1) two(1) this] plan_is_append[OF one(2) two(2)] show ?case unfolding step by auto
qed

definition bucket_of :: "string \<Rightarrow> string" where
  "bucket_of name = (case map_of MIGRATION name of Some b \<Rightarrow> b | None \<Rightarrow> ''state'')"

text \<open>Where an entry of the old layout belongs, by its path relative to the build directory.\<close>

definition place :: "path \<Rightarrow> path \<Rightarrow> path" where
  "place build x = build @ bucket_of (hd x) # x"

lemma entry_covers:
  assumes "no_dangling fs" and "mp_conflicts (plan_entry fs repo (n, bucket_of n)) = []"
    and "map_of fs (build_dir repo @ [bucket_of n]) = Some NDir"
  shows "\<exists>rs ts us. covers fs (build_dir repo) (place (build_dir repo)) [n] rs ts us
    \<and> plan_is (plan_entry fs repo (n, bucket_of n)) (build_dir repo) (place (build_dir repo)) rs ts us []"
proof -
  let ?b = "build_dir repo"
  let ?src = "?b @ [n]" and ?dst = "?b @ [bucket_of n, n]" and ?P = "plan_entry fs repo (n, bucket_of n)"
  note ex = exists_iff[OF assms(1)]
  have place: "place ?b (n # r) = ?dst @ r" for r by (simp add: place_def)
  consider (absent) "map_of fs ?src = None" | (move) "map_of fs ?src \<noteq> None" "map_of fs ?dst = None"
    | (merge) "map_of fs ?src \<noteq> None" "map_of fs ?dst \<noteq> None" "List.member MERGEABLE n" "is_real_dir fs ?src" "is_real_dir fs ?dst"
    | (conflict) "map_of fs ?src \<noteq> None" "map_of fs ?dst \<noteq> None" "\<not> (List.member MERGEABLE n \<and> is_real_dir fs ?src \<and> is_real_dir fs ?dst)"
    by blast
  then show ?thesis
  proof cases
    case absent
    then have "?P = no_plan" by (simp add: plan_entry_def Let_def ex)
    then show ?thesis using covers_nothing[OF absent] by (intro exI[of _ "[]"]) (simp add: plan_is_def)
  next
    case move
    then have "?P = no_plan\<lparr>mp_moves := [(?src, ?dst)]\<rparr>" by (simp add: plan_entry_def Let_def ex)
    moreover have "covers fs ?b (place ?b) [n] [[n]] [] []"
      using move assms(3) by (intro covers_move) (simp_all add: place butlast_append)
    ultimately show ?thesis by (intro exI conjI) (auto simp: plan_is_def place)
  next
    case merge
    then have P: "?P = merge_children fs ?src ?dst (children fs ?src)" by (auto simp: plan_entry_def Let_def ex plan_merge_def)
    have "map_of fs ?dst = Some NDir" using merge by (simp add: is_real_dir_def)
    moreover have "mp_conflicts (merge_children fs ?src ?dst (children fs ?src)) = []" using assms(2) P by simp
    moreover have "\<forall>c \<in> set (children fs ?src). map_of fs (?src @ [c]) \<noteq> None" using children_iff by blast
    ultimately obtain rs ts us where
      "covers fs ?src (\<lambda>r. ?dst @ r) (children fs ?src) rs ts us" "plan_is ?P ?src (\<lambda>r. ?dst @ r) rs ts us [?src]"
      unfolding P using merge_covers[OF assms(1) _ _ distinct_children] by blast
    then have "covers fs ?src (\<lambda>r. place ?b (n # r)) (children fs ?src) rs ts us"
      "plan_is ?P ?src (\<lambda>r. place ?b (n # r)) rs ts us [?src]" by (simp_all only: place)
    then show ?thesis
      using covers_descend[of fs ?b n "place ?b"] plan_is_descend[of ?P ?b n "place ?b"] merge place[of "[]"]
      by (simp add: is_real_dir_def) blast
  next
    case conflict
    then have "?P = no_plan\<lparr>mp_conflicts := [(?src, ?dst)]\<rparr>" by (auto simp: plan_entry_def Let_def ex)
    then show ?thesis using assms(2) by simp
  qed
qed

lemma entries_cover:
  assumes "no_dangling fs" and "\<forall>b \<in> set BUCKETS. map_of fs (build_dir repo @ [b]) = Some NDir"
    and "mp_conflicts (foldr (\<lambda>e. then_plan (plan_entry fs repo e)) es no_plan) = []"
    and "\<forall>(n, b) \<in> set es. b = bucket_of n \<and> b \<in> set BUCKETS" and "distinct (map fst es)"
  shows "\<exists>rs ts us. covers fs (build_dir repo) (place (build_dir repo)) (map fst es) rs ts us
    \<and> plan_is (foldr (\<lambda>e. then_plan (plan_entry fs repo e)) es no_plan) (build_dir repo) (place (build_dir repo)) rs ts us []"
  using assms(3-)
proof (induction es)
  case Nil
  show ?case by (intro exI[of _ "[]"]) (simp add: covers_no_entry plan_is_def)
next
  case (Cons e es)
  obtain n where e: "e = (n, bucket_of n)" and b: "bucket_of n \<in> set BUCKETS" using Cons.prems(2) by (cases e) auto
  from Cons.prems obtain rs2 ts2 us2 where two:
    "covers fs (build_dir repo) (place (build_dir repo)) (map fst es) rs2 ts2 us2"
    "plan_is (foldr (\<lambda>e. then_plan (plan_entry fs repo e)) es no_plan) (build_dir repo) (place (build_dir repo)) rs2 ts2 us2 []"
    using Cons.IH by auto
  have "mp_conflicts (plan_entry fs repo (n, bucket_of n)) = []" using Cons.prems(1) by (simp add: e)
  from entry_covers[OF assms(1) this] b assms(2) obtain rs1 ts1 us1 where one:
    "covers fs (build_dir repo) (place (build_dir repo)) [n] rs1 ts1 us1"
    "plan_is (plan_entry fs repo e) (build_dir repo) (place (build_dir repo)) rs1 ts1 us1 []" unfolding e by blast
  have "set [n] \<inter> set (map fst es) = {}" using Cons.prems(3) by (simp add: e)
  from covers_append[OF one(1) two(1) this] plan_is_append[OF one(2) two(2)] show ?case by (auto simp: e)
qed

lemma migration_table: "distinct (map fst MIGRATION) \<and> list_all (\<lambda>(n, b). \<not> is_dvd n \<and> b \<in> set BUCKETS \<and> n \<notin> set BUCKETS \<and> n \<noteq> ''vagrant'') MIGRATION"
  by code_simp

lemma entries_ok:
  shows "\<forall>(n, b) \<in> set (migration_entries fs repo). b = bucket_of n \<and> b \<in> set BUCKETS"
    and "distinct (map fst (migration_entries fs repo))"
    and "(n, b) \<in> set (migration_entries fs repo) \<Longrightarrow> n \<notin> set BUCKETS \<and> n \<noteq> ''vagrant''"
proof -
  note table = migration_table[unfolded list_all_iff]
  have dvd: "bucket_of n = ''state''" if "is_dvd n" for n
  proof -
    have "map_of MIGRATION n = None" using table that by (force simp: map_of_eq_None_iff)
    then show ?thesis by (simp add: bucket_of_def)
  qed
  have bucket: "bucket_of n = b" if "(n, b) \<in> set MIGRATION" for n b
    using map_of_is_SomeI[of MIGRATION n b] table that by (simp add: bucket_of_def)
  have state: "''state'' \<in> set BUCKETS" by (simp add: BUCKETS_def)
  show "\<forall>(n, b) \<in> set (migration_entries fs repo). b = bucket_of n \<and> b \<in> set BUCKETS"
    using table dvd bucket state by (fastforce simp: migration_entries_def)
  show "distinct (map fst (migration_entries fs repo))"
    using table by (auto simp: migration_entries_def o_def)
  have "\<not> is_dvd n" if "n \<in> set BUCKETS \<or> n = ''vagrant''" for n
    using that by (auto simp: BUCKETS_def is_dvd_def suffix_def append_eq_Cons_conv)
  then show "n \<notin> set BUCKETS \<and> n \<noteq> ''vagrant''" if "(n, b) \<in> set (migration_entries fs repo)"
    using table that by (auto simp: migration_entries_def)
qed

section \<open>Running a plan\<close>

lemma map_of_without: "map_of (filter (\<lambda>(q, n). q \<notin> P) fs) k = (if k \<in> P then None else map_of fs k)"
  by (induction fs) auto

lemma map_of_less: "map_of (filter (\<lambda>(q, n). q \<noteq> p) fs) k = (if k = p then None else map_of fs k)"
  by (induction fs) auto

lemma unlinks:
  assumes "distinct (map fst fs)" and "distinct ps" and "\<forall>p \<in> set ps. \<exists>n. map_of fs p = Some n \<and> n \<noteq> NDir"
  shows "foldr_res unlink_at ps fs = Inr (filter (\<lambda>(q, n). q \<notin> set ps) fs)"
  using assms
proof (induction ps arbitrary: fs)
  case (Cons p ps)
  let ?fs = "filter (\<lambda>(q, n). q \<noteq> p) fs"
  have step: "unlink_at p fs = Inr ?fs" using Cons.prems(3) by (auto simp: unlink_at_def split: node.splits)
  have "distinct (map fst ?fs)" using Cons.prems(1) by (simp add: distinct_map_filter)
  moreover have "map_of ?fs p' = map_of fs p'" if "p' \<in> set ps" for p'
    using Cons.prems(2) that by (auto simp: map_of_less)
  ultimately have "foldr_res unlink_at ps ?fs = Inr (filter (\<lambda>(q, n). q \<notin> set ps) ?fs)"
    using Cons.IH[of ?fs] Cons.prems(2,3) by auto
  moreover have "filter (\<lambda>(q, n). q \<notin> set ps) ?fs = filter (\<lambda>(q, n). q \<notin> set (p # ps)) fs"
    by (auto simp: filter_filter intro!: filter_cong)
  ultimately show ?case using step by simp
qed simp

lemma rmdirs:
  assumes "distinct (map fst fs)" and "distinct ps" and "\<forall>p \<in> set ps. map_of fs p = Some NDir"
    and "\<forall>i < length ps. \<forall>c. map_of fs (ps ! i @ [c]) \<noteq> None \<longrightarrow> ps ! i @ [c] \<in> set (take i ps)"
  shows "foldr_res rmdir ps fs = Inr (filter (\<lambda>(q, n). q \<notin> set ps) fs)"
  using assms
proof (induction ps arbitrary: fs)
  case (Cons p ps)
  let ?fs = "filter (\<lambda>(q, n). q \<noteq> p) fs"
  have "children fs p = []" using spec[OF Cons.prems(4), of 0] children_iff[of _ fs p] by (cases "children fs p") auto
  then have step: "rmdir p fs = Inr ?fs" using Cons.prems(3) by (simp add: rmdir_def)
  have "distinct (map fst ?fs)" using Cons.prems(1) by (simp add: distinct_map_filter)
  moreover have "\<forall>p' \<in> set ps. map_of ?fs p' = Some NDir" using Cons.prems(2,3) by (auto simp: map_of_less)
  moreover have "ps ! i @ [c] \<in> set (take i ps)" if "i < length ps" "map_of ?fs (ps ! i @ [c]) \<noteq> None" for i c
    using spec[OF Cons.prems(4), of "Suc i"] that by (auto simp: map_of_less split: if_splits)
  ultimately have "foldr_res rmdir ps ?fs = Inr (filter (\<lambda>(q, n). q \<notin> set ps) ?fs)"
    using Cons.IH[of ?fs] Cons.prems(2) by simp
  moreover have "filter (\<lambda>(q, n). q \<notin> set ps) ?fs = filter (\<lambda>(q, n). q \<notin> set (p # ps)) fs"
    by (auto simp: filter_filter intro!: filter_cong)
  ultimately show ?case using step by simp
qed simp

text \<open>Every leaf below a planned entry is moved with a directory or dropped as a duplicate.\<close>

lemma covered_leaf:
  assumes "covers fs src D cs rs ts us" and "tree_ok fs" and "src \<noteq> []" and "x \<noteq> []" and "hd x \<in> set cs"
    and "map_of fs (src @ x) \<noteq> None"
  shows "(\<exists>r \<in> set rs. prefix r x) \<or> x \<in> set ts \<union> set us"
  using assms(4-)
proof (induction x rule: rev_induct)
  case (snoc c x)
  note cov = coversD[OF assms(1)]
  show ?case
  proof (cases "x = []")
    case True
    then have "[c] \<in> set rs \<union> set ts \<union> set us" using cov(9)[of c] snoc.prems by simp
    then show ?thesis using True by auto
  next
    case False
    have dir: "map_of fs (src @ x) = Some NDir"
      using parent_dir[OF assms(2) snoc.prems(3), of "src @ x"] assms(3) by (simp add: strict_prefix_def)
    then consider (moved) r where "r \<in> set rs" "prefix r x" | (dup) "x \<in> set ts" | (dir) "x \<in> set us"
      using snoc.IH snoc.prems False by auto
    then show ?thesis
    proof cases
      case moved
      then show ?thesis by (meson prefix_prefix)
    next
      case dup
      then show ?thesis using cov(3)[of x] dir by (simp add: identical_def)
    next
      case dir
      then obtain i where i: "i < length us" "us ! i = x" by (auto simp: in_set_conv_nth)
      then have "x @ [c] \<in> set rs \<union> set ts \<union> set (take i us)" using cov(8)[of i c] snoc.prems(3) by simp
      then show ?thesis using set_take_subset[of i us] by auto
    qed
  qed
qed simp

lemma dir_ancestors:
  assumes "tree_ok fs" and "map_of fs (butlast d) = Some NDir" and "0 < i" and "i < length d"
  shows "map_of fs (take i d) = Some NDir"
proof (cases "i = length d - 1")
  case True
  then show ?thesis using assms(2) by (simp add: butlast_conv_take)
next
  case False
  then have i: "i < length (butlast d)" "take i (butlast d) = take i d" using assms(4) by (auto simp: take_butlast)
  have "butlast d \<in> set (map fst fs)" using assms(2) key_iff[of fs "butlast d"] by simp
  then show ?thesis using assms(1,3) i unfolding tree_ok_def by metis
qed

text \<open>The moves of a plan do not interfere.\<close>

definition plan_moves :: "path \<Rightarrow> path list \<Rightarrow> (path \<times> path) list \<Rightarrow> (path \<times> path) list" where
  "plan_moves build rs vm = map (\<lambda>r. (build @ r, place build r)) rs @ vm"

definition vagrant_src :: "path \<Rightarrow> path" where
  "vagrant_src repo = repo @ [''lab'', ''.vagrant'']"

definition vagrant_dst :: "path \<Rightarrow> path" where
  "vagrant_dst repo = build_dir repo @ [''state'', ''vagrant'']"

lemma bucket_of_in: "bucket_of n \<in> set BUCKETS"
proof (cases "map_of MIGRATION n")
  case None
  then show ?thesis by (simp add: bucket_of_def BUCKETS_def)
next
  case (Some b)
  then show ?thesis using map_of_SomeD[OF Some] migration_table by (auto simp: bucket_of_def list_all_iff)
qed

text \<open>Facts on the paths involved: names of entries are not buckets, and \<open>vagrant\<close> is not an entry.\<close>

lemma path_facts:
  assumes "r \<noteq> []" and "hd r \<notin> set BUCKETS" and "hd r \<noteq> ''vagrant''"
  shows "prefix (build @ r) (place build x) = False"
    and "prefix (build_dir repo @ r) (vagrant_dst repo) = False"
    and "prefix (vagrant_src repo) (place (build_dir repo) x) = False"
    and "prefix (build_dir repo @ r) (vagrant_src repo @ w) = False"
    and "prefix (vagrant_src repo) (build_dir repo @ r) = False"
    and "place (build_dir repo) r \<parallel> vagrant_dst repo"
    and "prefix (vagrant_src repo) (vagrant_dst repo) = False"
proof -
  obtain n t where r: "r = n # t" using assms(1) by (cases r) auto
  have n: "n \<notin> set BUCKETS" "n \<noteq> ''vagrant''" "n \<noteq> ''state''" using assms by (auto simp: r BUCKETS_def)
  show "prefix (build @ r) (place build x) = False" using n bucket_of_in[of "hd x"] by (auto simp: r place_def)
  show "prefix (build_dir repo @ r) (vagrant_dst repo) = False" using n by (simp add: r vagrant_dst_def)
  show "prefix (vagrant_src repo) (place (build_dir repo) x) = False" by (simp add: vagrant_src_def build_dir_def place_def)
  show "prefix (build_dir repo @ r) (vagrant_src repo @ w) = False" by (simp add: vagrant_src_def build_dir_def)
  show "prefix (vagrant_src repo) (build_dir repo @ r) = False" by (simp add: vagrant_src_def build_dir_def)
  show "place (build_dir repo) r \<parallel> vagrant_dst repo" using n by (auto simp: r place_def vagrant_dst_def parallel_def)
  show "prefix (vagrant_src repo) (vagrant_dst repo) = False" by (simp add: vagrant_src_def vagrant_dst_def build_dir_def)
qed

lemma place_parallel: "r \<parallel> r' \<Longrightarrow> r \<noteq> [] \<Longrightarrow> r' \<noteq> [] \<Longrightarrow> place build r \<parallel> place build r'"
  by (cases "bucket_of (hd r) = bucket_of (hd r')") (auto simp: place_def parallel_def)

lemma free_below:
  assumes "tree_ok fs" and "map_of fs d = None" and "d \<noteq> []" and "map_of fs k \<noteq> None"
  shows "\<not> prefix d k"
proof
  assume "prefix d k"
  then have "strict_prefix d k" using assms(2,4) by (auto simp: strict_prefix_def)
  from parent_dir[OF assms(1,4) this assms(3)] assms(2) show False by simp
qed

text \<open>A plan without conflicts, as \<open>migrate\<close> runs it: its parts, and the moves of the older Vagrant directory.\<close>

definition good_plan :: "tree \<Rightarrow> path \<Rightarrow> path list \<Rightarrow> path list \<Rightarrow> path list \<Rightarrow> (path \<times> path) list \<Rightarrow> bool" where
  "good_plan fs repo rs ts us vm \<longleftrightarrow>
     covers fs (build_dir repo) (place (build_dir repo)) (map fst (migration_entries fs repo)) rs ts us
     \<and> (vm = [] \<or> vm = [(vagrant_src repo, vagrant_dst repo)] \<and> map_of fs (vagrant_src repo) = Some NDir
         \<and> map_of fs (vagrant_dst repo) = None \<and> map_of fs (build_dir repo @ [''state'']) = Some NDir)"

lemma good_heads:
  assumes "good_plan fs repo rs ts us vm" and "r \<in> set rs \<union> set ts \<union> set us"
  shows "r \<noteq> []" and "hd r \<notin> set BUCKETS" and "hd r \<noteq> ''vagrant''"
proof -
  have "covers fs (build_dir repo) (place (build_dir repo)) (map fst (migration_entries fs repo)) rs ts us"
    using assms(1) by (simp add: good_plan_def)
  from coversD(1)[OF this assms(2)] obtain b where "r \<noteq> []" "(hd r, b) \<in> set (migration_entries fs repo)" by auto
  with entries_ok(3)[OF this(2)] show "r \<noteq> []" "hd r \<notin> set BUCKETS" "hd r \<noteq> ''vagrant''" by auto
qed

lemma good_movable:
  assumes "tree_ok fs" and "good_plan fs repo rs ts us vm"
  shows "movable fs (plan_moves (build_dir repo) rs vm)"
proof -
  let ?b = "build_dir repo"
  note cov = coversD[OF conjunct1[OF assms(2)[unfolded good_plan_def]]]
  note heads = good_heads[OF assms(2)]
  have vm: "x = (vagrant_src repo, vagrant_dst repo) \<and> map_of fs (vagrant_src repo) = Some NDir
      \<and> map_of fs (vagrant_dst repo) = None \<and> map_of fs (?b @ [''state'']) = Some NDir" if "x \<in> set vm" for x
    using that assms(2) by (auto simp: good_plan_def)
  have one: "map_of fs s \<noteq> None \<and> d \<noteq> [] \<and> map_of fs d = None \<and> map_of fs (butlast d) = Some NDir"
    if "(s, d) \<in> set (plan_moves ?b rs vm)" for s d
    using that cov(2) vm[of "(s, d)"]
    by (auto simp: plan_moves_def place_def build_dir_def vagrant_dst_def butlast_append)
  have "case x of (s, d) \<Rightarrow> map_of fs s \<noteq> None \<and> d \<noteq> [] \<and> (\<forall>q \<in> set (map fst fs). \<not> prefix d q)
      \<and> (\<forall>i. 0 < i \<and> i < length d \<longrightarrow> map_of fs (take i d) = Some NDir)" if "x \<in> set (plan_moves ?b rs vm)" for x
  proof -
    obtain s d where x: "x = (s, d)" by fastforce
    note o = one[OF that[unfolded x]]
    have "\<not> prefix d q" if "q \<in> set (map fst fs)" for q
      using free_below[OF assms(1), of d q] o that key_iff[of fs q] by simp
    then show ?thesis using o dir_ancestors[OF assms(1), of d] by (auto simp: x)
  qed
  moreover have "case x of (s, d) \<Rightarrow> case y of (s', d') \<Rightarrow> \<not> prefix s d'"
    if x: "x \<in> set (plan_moves ?b rs vm)" and y: "y \<in> set (plan_moves ?b rs vm)" for x y
  proof -
    have "\<not> prefix (fst x) (place ?b r')" if "r' \<in> set rs" for r'
      using x vm[of x] path_facts(1,3)[OF heads] that by (auto simp: plan_moves_def vagrant_src_def build_dir_def place_def)
    moreover have "\<not> prefix (fst x) (vagrant_dst repo)"
      using x vm[of x] path_facts(2)[OF heads] by (auto simp: plan_moves_def vagrant_src_def vagrant_dst_def build_dir_def)
    ultimately show ?thesis using y vm[of y] by (auto simp: plan_moves_def case_prod_unfold)
  qed
  moreover have "sorted_wrt (\<lambda>(s, d) (s', d'). s \<parallel> s' \<and> d \<parallel> d') (plan_moves ?b rs vm)"
  proof -
    have "sorted_wrt (\<lambda>r r'. ?b @ r \<parallel> ?b @ r' \<and> place ?b r \<parallel> place ?b r') rs"
      by (rule sorted_wrt_mono_rel[OF _ cov(5)]) (use heads place_parallel in \<open>auto simp: parallel_def\<close>)
    moreover have "?b @ r \<parallel> vagrant_src repo \<and> place ?b r \<parallel> vagrant_dst repo" if "r \<in> set rs" for r
      using path_facts(4)[OF heads, of r repo "[]"] path_facts(5,6)[OF heads, of r repo] that by (simp add: parallel_def)
    moreover have "length vm \<le> 1" using assms(2) by (auto simp: good_plan_def)
    ultimately show ?thesis using vm
      by (auto simp: plan_moves_def sorted_wrt_append sorted_wrt_map le_Suc_eq length_Suc_conv dest!: vm)
  qed
  ultimately show ?thesis unfolding movable_def by blast
qed

lemma foldr_res_map: "foldr_res f (map g xs) s = foldr_res (\<lambda>x. f (g x)) xs s"
  by (induction xs arbitrary: s) (auto simp: rbind_def split: sum.split)

text \<open>A path that also exists at its destination lies below no source.\<close>

lemma stays:
  assumes "tree_ok fs" and "good_plan fs repo rs ts us vm" and "x \<in> set ts \<union> set us" and "map_of fs (place (build_dir repo) x) \<noteq> None"
  shows "relocate_all (plan_moves (build_dir repo) rs vm) (build_dir repo @ x) = build_dir repo @ x"
proof (rule relocate_all_none, clarify)
  let ?b = "build_dir repo"
  note cov = coversD[OF conjunct1[OF assms(2)[unfolded good_plan_def]]] and heads = good_heads[OF assms(2)]
  have x: "x \<noteq> []" using heads(1) assms(3) by blast
  fix s d assume sd: "(s, d) \<in> set (plan_moves ?b rs vm)" and pre: "prefix s (?b @ x)"
  then consider (r) r where "s = ?b @ r" "r \<in> set rs" | (v) "s = vagrant_src repo"
    using assms(2) by (auto simp: plan_moves_def good_plan_def)
  then show False
  proof cases
    case r
    then have "prefix r x" "r \<noteq> []" using pre heads(1) by auto
    then have "prefix (place ?b r) (place ?b x)" by (cases r; cases x) (auto simp: place_def)
    moreover have "\<not> prefix (place ?b r) (place ?b x)"
      by (rule free_below[OF assms(1) _ _ assms(4)]) (use cov(2)[OF r(2)] in \<open>simp_all add: place_def\<close>)
    ultimately show False by blast
  next
    case v
    then show False using path_facts(5)[OF heads, of x repo] pre assms(3) by simp
  qed
qed

lemma map_of_relocate_all:
  assumes "distinct (map \<rho> (map fst fs))" and "map_of fs q = Some n"
  shows "map_of (map (\<lambda>(q, n). (\<rho> q, n)) fs) (\<rho> q) = Some n"
proof -
  have "distinct (map fst (map (\<lambda>(q, n). (\<rho> q, n)) fs))" using assms(1) by (simp add: case_prod_unfold o_def)
  moreover have "(\<rho> q, n) \<in> set (map (\<lambda>(q, n). (\<rho> q, n)) fs)" using map_of_SomeD[OF assms(2)] by force
  ultimately show ?thesis by (rule map_of_is_SomeI)
qed

text \<open>Nothing is moved below the old entries.\<close>

lemma not_moved_into:
  assumes "tree_ok fs" and "good_plan fs repo rs ts us vm" and "x \<noteq> []" and "hd x \<notin> set BUCKETS"
    and "relocate_all (plan_moves (build_dir repo) rs vm) q = build_dir repo @ x" and "(s, d) \<in> set (plan_moves (build_dir repo) rs vm)"
  shows "\<not> prefix s q"
proof
  let ?b = "build_dir repo"
  assume "prefix s q"
  then have at: "?b @ x = d @ drop (length s) q" using relocate_all_one[OF good_movable[OF assms(1,2)] assms(6)] assms(5) by simp
  from assms(6) consider (r) r where "r \<in> set rs" "d = place ?b r" | (v) "d = vagrant_dst repo"
    using assms(2) by (auto simp: plan_moves_def good_plan_def)
  then show False
  proof cases
    case r
    then have "hd x = bucket_of (hd r)" using at by (auto simp: place_def)
    then show False using assms(4) bucket_of_in[of "hd r"] by simp
  next
    case v
    then have "hd x = ''state''" using at by (auto simp: vagrant_dst_def)
    then show False using assms(4) by (simp add: BUCKETS_def)
  qed
qed

text \<open>The tree after the moves, and after the duplicates are gone.\<close>

definition moved_tree :: "path \<Rightarrow> path list \<Rightarrow> (path \<times> path) list \<Rightarrow> tree \<Rightarrow> tree" where
  "moved_tree repo rs vm fs = map (\<lambda>(q, n). (relocate_all (plan_moves (build_dir repo) rs vm) q, n)) fs"

definition dropped_tree :: "path \<Rightarrow> path list \<Rightarrow> path list \<Rightarrow> (path \<times> path) list \<Rightarrow> tree \<Rightarrow> tree" where
  "dropped_tree repo rs ts vm fs = filter (\<lambda>(q, n). q \<notin> set (map (\<lambda>t. build_dir repo @ t) ts)) (moved_tree repo rs vm fs)"

lemma moves_run:
  assumes "tree_ok fs" and "good_plan fs repo rs ts us vm"
  shows "foldr_res apply_move (plan_moves (build_dir repo) rs vm) fs = Inr (moved_tree repo rs vm fs)"
    and "distinct (map fst (moved_tree repo rs vm fs))"
    and "map_of fs q = Some n \<Longrightarrow> map_of (moved_tree repo rs vm fs) (relocate_all (plan_moves (build_dir repo) rs vm) q) = Some n"
proof -
  have "distinct (map fst fs)" using assms(1) by (simp add: tree_ok_def)
  note run = apply_moves[OF good_movable[OF assms] this]
  then show "foldr_res apply_move (plan_moves (build_dir repo) rs vm) fs = Inr (moved_tree repo rs vm fs)"
    by (simp add: moved_tree_def)
  from run show "distinct (map fst (moved_tree repo rs vm fs))" by (simp add: moved_tree_def case_prod_unfold o_def)
  from run show "map_of fs q = Some n \<Longrightarrow> map_of (moved_tree repo rs vm fs) (relocate_all (plan_moves (build_dir repo) rs vm) q) = Some n"
    unfolding moved_tree_def by (intro map_of_relocate_all) auto
qed

lemma kept_in_place:
  assumes "tree_ok fs" and "good_plan fs repo rs ts us vm" and "x \<in> set ts \<union> set us"
  shows "map_of (moved_tree repo rs vm fs) (build_dir repo @ x) = map_of fs (build_dir repo @ x)"
    and "x \<in> set ts \<Longrightarrow> \<exists>n. map_of fs (build_dir repo @ x) = Some n \<and> n \<noteq> NDir"
    and "x \<in> set us \<Longrightarrow> map_of fs (build_dir repo @ x) = Some NDir"
proof -
  let ?b = "build_dir repo"
  note cov = coversD[OF conjunct1[OF assms(2)[unfolded good_plan_def]]]
  show leaf: "\<exists>n. map_of fs (?b @ x) = Some n \<and> n \<noteq> NDir" if "x \<in> set ts"
    using cov(3)[OF that] by (cases "map_of fs (place ?b x)") (auto simp: identical_def)
  show dir: "map_of fs (?b @ x) = Some NDir" if "x \<in> set us" using cov(4)[OF that] by blast
  from assms(3) leaf dir obtain n where n: "map_of fs (?b @ x) = Some n" by blast
  have "map_of fs (place ?b x) \<noteq> None" using assms(3) cov(3,4)[of x] n unfolding identical_def
    by (metis Un_iff option.distinct(1))
  from stays[OF assms this] moves_run(3)[OF assms(1,2) n] n show "map_of (moved_tree repo rs vm fs) (?b @ x) = map_of fs (?b @ x)"
    by simp
qed

lemma drops_run:
  assumes "tree_ok fs" and "good_plan fs repo rs ts us vm"
  shows "foldr_res unlink_at (map (\<lambda>t. build_dir repo @ t) ts) (moved_tree repo rs vm fs) = Inr (dropped_tree repo rs ts vm fs)"
  unfolding dropped_tree_def
proof (rule unlinks[OF moves_run(2)[OF assms]])
  show "distinct (map (\<lambda>t. build_dir repo @ t) ts)"
    using coversD(6)[OF conjunct1[OF assms(2)[unfolded good_plan_def]]] by (simp add: distinct_map inj_on_def)
  show "\<forall>p \<in> set (map (\<lambda>t. build_dir repo @ t) ts). \<exists>n. map_of (moved_tree repo rs vm fs) p = Some n \<and> n \<noteq> NDir"
    using kept_in_place(1,2)[OF assms] by auto
qed

text \<open>When a directory is removed, everything that was in it is gone.\<close>

lemma empty_when_pruned:
  assumes "tree_ok fs" and "good_plan fs repo rs ts us vm" and "i < length us"
    and "map_of (dropped_tree repo rs ts vm fs) (build_dir repo @ us ! i @ [c]) \<noteq> None"
  shows "us ! i @ [c] \<in> set (take i us)"
proof -
  let ?b = "build_dir repo" and ?x = "us ! i @ [c]" and ?ms = "plan_moves (build_dir repo) rs vm"
  note cov = coversD[OF conjunct1[OF assms(2)[unfolded good_plan_def]]]
  have hd: "?x \<noteq> []" "hd ?x \<notin> set BUCKETS" using good_heads(1,2)[OF assms(2), of "us ! i"] assms(3) by auto
  have notdup: "?x \<notin> set ts" and "map_of (moved_tree repo rs vm fs) (?b @ ?x) \<noteq> None"
    using assms(4) by (auto simp: dropped_tree_def map_of_without split: if_splits)
  then obtain q n where q: "(q, n) \<in> set fs" "relocate_all ?ms q = ?b @ ?x" unfolding key_iff by (auto simp: moved_tree_def)
  note unmoved = not_moved_into[OF assms(1,2) hd q(2)]
  then have same: "q = ?b @ ?x" using relocate_all_none[of ?ms q] q(2) by auto
  with q(1) have "map_of fs (?b @ ?x) \<noteq> None" unfolding key_iff by force
  from cov(8)[OF assms(3) this] have "?x \<in> set rs \<union> set ts \<union> set (take i us)" .
  moreover have "?x \<notin> set rs" using unmoved same by (auto simp: plan_moves_def)
  ultimately show ?thesis using notdup by blast
qed

lemma apply_plan_runs:
  assumes "tree_ok fs" and "good_plan fs repo rs ts us vm"
    and "plan_is P (build_dir repo) (place (build_dir repo)) rs ts us []" and "mp_moves Q = mp_moves P @ vm"
    and "mp_duplicates Q = mp_duplicates P" and "mp_prune Q = mp_prune P"
  shows "apply_plan Q fs = Inr (filter (\<lambda>(q, n). q \<notin> set (map (\<lambda>u. build_dir repo @ u) us)) (dropped_tree repo rs ts vm fs))"
proof -
  let ?b = "build_dir repo" and ?fs2 = "dropped_tree repo rs ts vm fs"
  note cov = coversD[OF conjunct1[OF assms(2)[unfolded good_plan_def]]]
  have "foldr_res rmdir (map (\<lambda>u. ?b @ u) us) ?fs2 = Inr (filter (\<lambda>(q, n). q \<notin> set (map (\<lambda>u. ?b @ u) us)) ?fs2)"
  proof (rule rmdirs)
    show "distinct (map fst ?fs2)" unfolding dropped_tree_def by (rule distinct_map_filter[OF moves_run(2)[OF assms(1,2)]])
    show "distinct (map (\<lambda>u. ?b @ u) us)" using cov(7) by (simp add: distinct_map inj_on_def)
    have "u \<notin> set ts" if "u \<in> set us" for u using kept_in_place(2,3)[OF assms(1,2)] that by force
    then show "\<forall>p \<in> set (map (\<lambda>u. ?b @ u) us). map_of ?fs2 p = Some NDir"
      using kept_in_place(1,3)[OF assms(1,2)] by (auto simp: dropped_tree_def map_of_without)
    show "\<forall>i < length (map (\<lambda>u. ?b @ u) us). \<forall>c. map_of ?fs2 (map (\<lambda>u. ?b @ u) us ! i @ [c]) \<noteq> None
      \<longrightarrow> map (\<lambda>u. ?b @ u) us ! i @ [c] \<in> set (take i (map (\<lambda>u. ?b @ u) us))"
      using empty_when_pruned[OF assms(1,2)] by (auto simp: take_map)
  qed
  moreover have "mp_moves Q = plan_moves ?b rs vm" "map fst (mp_duplicates Q) = map (\<lambda>t. ?b @ t) ts" "mp_prune Q = map (\<lambda>u. ?b @ u) us"
    using assms(3-) by (simp_all add: plan_is_def plan_moves_def o_def)
  ultimately show ?thesis
    using moves_run(1)[OF assms(1,2)] drops_run[OF assms(1,2)] foldr_res_map[of unlink_at fst "mp_duplicates Q"]
    by (simp add: apply_plan_def)
qed

section \<open>Migration is lossless\<close>

text \<open>Where the migration puts the leaf at a path: below its bucket when an entry of the old layout holds it.\<close>

definition old_entry :: "string \<Rightarrow> bool" where
  "old_entry name \<longleftrightarrow> map_of MIGRATION name \<noteq> None \<or> is_dvd name"

definition new_place :: "tree \<Rightarrow> path \<Rightarrow> path \<Rightarrow> path" where
  "new_place fs repo q =
     (let build = build_dir repo; x = drop (length build) q in
      if strict_prefix build q \<and> old_entry (hd x) then build @ bucket_of (hd x) # x
      else if map_of fs (vagrant_src repo) = Some NDir \<and> map_of fs (vagrant_dst repo) = None \<and> prefix (vagrant_src repo) q
        then vagrant_dst repo @ drop (length (vagrant_src repo)) q
      else q)"

definition tree_leaves :: "tree \<Rightarrow> (path \<times> node) set" where
  "tree_leaves fs = {(q, n) \<in> set fs. n \<noteq> NDir}"

lemma old_entry_planned:
  assumes "tree_ok fs" and "map_of fs (build_dir repo @ x) \<noteq> None" and "x \<noteq> []" and "old_entry (hd x)"
  shows "hd x \<in> set (map fst (migration_entries fs repo))"
proof (cases "map_of MIGRATION (hd x)")
  case None
  have "prefix (build_dir repo @ [hd x]) (build_dir repo @ x)" using assms(3) by (cases x) auto
  then have "map_of fs (build_dir repo @ [hd x]) \<noteq> None"
    using parent_dir[OF assms(1,2), of "build_dir repo @ [hd x]"] assms(2) by (cases "[hd x] = x") (auto simp: strict_prefix_def)
  then show ?thesis using None assms(4) by (auto simp: migration_entries_def old_entry_def children_iff)
next
  case (Some b)
  then show ?thesis using map_of_SomeD[OF Some] by (force simp: migration_entries_def)
qed

lemma planned_old_entry: "n \<in> set (map fst (migration_entries fs repo)) \<Longrightarrow> old_entry n"
  by (auto simp: migration_entries_def old_entry_def dest: weak_map_of_SomeI)

lemma bucket_not_under:
  assumes "good_plan fs repo rs ts us vm" and "x \<in> set ts \<union> set us"
  shows "build_dir repo @ bucket_of m # y \<noteq> build_dir repo @ x" and "build_dir repo @ ''state'' # y \<noteq> build_dir repo @ x"
  using good_heads(1,2)[OF assms(1), of x] assms(2) bucket_of_in[of m] by (cases x, auto simp: BUCKETS_def)+

text \<open>The two outcomes for a leaf: it is where the migration wants it and was no duplicate, or it is a dropped duplicate.\<close>

definition ends_well :: "tree \<Rightarrow> path \<Rightarrow> path list \<Rightarrow> path list \<Rightarrow> path list \<Rightarrow> (path \<times> path) list \<Rightarrow> path \<Rightarrow> bool" where
  "ends_well fs repo rs ts us vm q \<longleftrightarrow>
     (relocate_all (plan_moves (build_dir repo) rs vm) q = new_place fs repo q
        \<and> (\<forall>x \<in> set ts. q \<noteq> build_dir repo @ x) \<and> (\<forall>x \<in> set ts \<union> set us. new_place fs repo q \<noteq> build_dir repo @ x))
     \<or> (\<exists>x \<in> set ts. q = build_dir repo @ x \<and> new_place fs repo q = place (build_dir repo) x)"

lemma old_leaf_moves:
  assumes "tree_ok fs" and "good_plan fs repo rs ts us vm" and "map_of fs (build_dir repo @ x) = Some n" and "n \<noteq> NDir"
    and "x \<noteq> []" and "old_entry (hd x)"
  shows "ends_well fs repo rs ts us vm (build_dir repo @ x)"
proof -
  let ?b = "build_dir repo" and ?ms = "plan_moves (build_dir repo) rs vm"
  note cover = conjunct1[OF assms(2)[unfolded good_plan_def]] note cov = coversD[OF cover]
  have new: "new_place fs repo (?b @ x) = place ?b x"
    using assms(5,6) by (simp add: new_place_def Let_def place_def strict_prefix_def)
  have "hd x \<in> set (map fst (migration_entries fs repo))" using old_entry_planned[OF assms(1) _ assms(5,6)] assms(3) by simp
  from covered_leaf[OF cover assms(1) _ assms(5) this] assms(3)
  consider (moved) r where "r \<in> set rs" "prefix r x" | (dup) "x \<in> set ts" | (dir) "x \<in> set us" by (auto simp: build_dir_def)
  then show ?thesis
  proof cases
    case moved
    have r: "(?b @ r, place ?b r) \<in> set ?ms" "r \<noteq> []" using moved(1) good_heads(1)[OF assms(2)] by (auto simp: plan_moves_def)
    have to: "relocate_all ?ms (?b @ x) = place ?b x"
      using relocate_all_one[OF good_movable[OF assms(1,2)] r(1), of "?b @ x"] moved(2) r(2) by (cases r) (auto simp: place_def prefix_def)
    have "x \<notin> set ts"
    proof
      assume t: "x \<in> set ts"
      then have "map_of fs (place ?b x) \<noteq> None" using cov(3)[OF t] unfolding identical_def by metis
      from stays[OF assms(1,2) _ this] t to bucket_not_under(1)[OF assms(2), of x "hd x" x] show False by (simp add: place_def)
    qed
    then show ?thesis using to new bucket_not_under(1)[OF assms(2)] by (auto simp: place_def ends_well_def)
  next
    case dup
    then show ?thesis using new by (auto simp: ends_well_def)
  next
    case dir
    then show ?thesis using cov(4)[OF dir] assms(3,4) by simp
  qed
qed

lemma leaf_moves:
  assumes "tree_ok fs" and "good_plan fs repo rs ts us vm"
    and "vm \<noteq> [] \<longleftrightarrow> map_of fs (vagrant_src repo) = Some NDir \<and> map_of fs (vagrant_dst repo) = None"
    and "map_of fs q = Some n" and "n \<noteq> NDir"
  shows "ends_well fs repo rs ts us vm q"
proof -
  let ?b = "build_dir repo" and ?ms = "plan_moves (build_dir repo) rs vm"
  have planned: "old_entry (hd x)" "x \<noteq> []" if "x \<in> set rs \<union> set ts \<union> set us" for x
    using planned_old_entry coversD(1)[OF conjunct1[OF assms(2)[unfolded good_plan_def]] that] by blast+
  note inside = bucket_not_under[OF assms(2)]
  consider (old) x where "q = ?b @ x" "x \<noteq> []" "old_entry (hd x)"
    | (vagrant) w where "q = vagrant_src repo @ w" "vm \<noteq> []"
    | (other) "\<forall>x. q = ?b @ x \<and> x \<noteq> [] \<longrightarrow> \<not> old_entry (hd x)" "vm \<noteq> [] \<longrightarrow> \<not> prefix (vagrant_src repo) q"
    by (auto simp: prefix_def)
  then show ?thesis
  proof cases
    case old
    then show ?thesis using old_leaf_moves[OF assms(1,2) _ assms(5)] assms(4) by simp
  next
    case vagrant
    have "relocate_all ?ms q = vagrant_dst repo @ w"
      using relocate_all_one[OF good_movable[OF assms(1,2)], of "vagrant_src repo" "vagrant_dst repo" q] vagrant assms(2)
      by (auto simp: plan_moves_def good_plan_def)
    moreover have "new_place fs repo q = vagrant_dst repo @ w"
      using vagrant assms(3) by (auto simp: new_place_def Let_def vagrant_src_def build_dir_def strict_prefix_def)
    moreover have "q \<noteq> ?b @ x" for x using vagrant(1) by (simp add: vagrant_src_def build_dir_def)
    moreover have "vagrant_dst repo @ w \<noteq> ?b @ x" if "x \<in> set ts \<union> set us" for x
      using inside(2)[OF that, of "''vagrant'' # w"] by (simp add: vagrant_dst_def)
    ultimately show ?thesis by (simp add: ends_well_def)
  next
    case other
    have "\<not> prefix s q" if "(s, d) \<in> set ?ms" for s d
      using that assms(2) other planned by (auto simp: plan_moves_def good_plan_def prefix_def)
    then have "relocate_all ?ms q = q" by (intro relocate_all_none) auto
    moreover have "new_place fs repo q = q"
      using other assms(3) by (auto simp: new_place_def Let_def strict_prefix_def prefix_def)
    moreover have "q \<noteq> ?b @ x" if "x \<in> set ts \<union> set us" for x using other(1) planned[of x] that by auto
    ultimately show ?thesis by (simp add: ends_well_def)
  qed
qed

lemma leaves_after:
  assumes "tree_ok fs" and "good_plan fs repo rs ts us vm"
    and "vm \<noteq> [] \<longleftrightarrow> map_of fs (vagrant_src repo) = Some NDir \<and> map_of fs (vagrant_dst repo) = None"
  shows "tree_leaves (filter (\<lambda>(q, n). q \<notin> set (map (\<lambda>u. build_dir repo @ u) us)) (dropped_tree repo rs ts vm fs))
    = (\<lambda>(q, n). (new_place fs repo q, n)) ` tree_leaves fs" (is "?A = ?B")
proof -
  let ?b = "build_dir repo" and ?r = "relocate_all (plan_moves (build_dir repo) rs vm)"
  note cov = coversD[OF conjunct1[OF assms(2)[unfolded good_plan_def]]]
  have key: "map_of fs q = Some n \<longleftrightarrow> (q, n) \<in> set fs" for q n using assms(1) by (simp add: tree_ok_def)
  have A: "(p, n) \<in> ?A \<longleftrightarrow> n \<noteq> NDir \<and> (\<exists>q. (q, n) \<in> set fs \<and> p = ?r q) \<and> (\<forall>x \<in> set ts \<union> set us. p \<noteq> ?b @ x)" for p n
    by (auto simp: tree_leaves_def dropped_tree_def moved_tree_def)
  show ?thesis
  proof (intro set_eqI iffI; clarify)
    fix p n assume "(p, n) \<in> ?A"
    then obtain q where q: "(q, n) \<in> set fs" "n \<noteq> NDir" "p = ?r q" "\<forall>x \<in> set ts \<union> set us. p \<noteq> ?b @ x" unfolding A by blast
    have "p = new_place fs repo q"
    proof (rule ccontr)
      assume "p \<noteq> new_place fs repo q"
      with leaf_moves[OF assms, of q n, unfolded ends_well_def] q(1-3) key obtain x where x: "x \<in> set ts" "q = ?b @ x" by blast
      have "map_of fs (place ?b x) \<noteq> None" using cov(3)[OF x(1)] unfolding identical_def by metis
      from stays[OF assms(1,2) _ this] x q(3,4) show False by auto
    qed
    with q show "(p, n) \<in> ?B" by (force simp: tree_leaves_def)
  next
    fix q n assume "(q, n) \<in> tree_leaves fs"
    then have q: "(q, n) \<in> set fs" "n \<noteq> NDir" by (simp_all add: tree_leaves_def)
    from leaf_moves[OF assms _ q(2), unfolded ends_well_def] q(1) key consider
      (moved) "?r q = new_place fs repo q" "\<forall>x \<in> set ts \<union> set us. new_place fs repo q \<noteq> ?b @ x"
      | (dup) x where "x \<in> set ts" "q = ?b @ x" "new_place fs repo q = place ?b x" by blast
    then show "(new_place fs repo q, n) \<in> ?A"
    proof cases
      case moved
      then show ?thesis unfolding A using q by metis
    next
      case dup
      have kept: "(place ?b x, n) \<in> set fs" using cov(3)[OF dup(1)] q(1) dup(2) key by (metis identical_def)
      have "hd x \<notin> set BUCKETS" using good_heads(2)[OF assms(2)] dup(1) by blast
      then have out: "place ?b x \<noteq> ?b @ y" if "y \<in> set ts \<union> set us" for y
        using good_heads(1,2)[OF assms(2), of y] that bucket_of_in[of "hd x"] by (cases y) (auto simp: place_def)
      from leaf_moves[OF assms, of "place ?b x" n, unfolded ends_well_def] kept q(2) key out dup(1)
      have "?r (place ?b x) = new_place fs repo (place ?b x)" by blast
      moreover have "new_place fs repo (place ?b x) = place ?b x"
      proof -
        have "\<not> old_entry (bucket_of (hd x))"
          using bucket_of_in[of "hd x"] migration_table by (auto simp: old_entry_def BUCKETS_def is_dvd_def MIGRATION_def suffix_def append_eq_Cons_conv)
        then show ?thesis by (simp add: new_place_def Let_def place_def strict_prefix_def vagrant_src_def build_dir_def)
      qed
      ultimately show ?thesis unfolding A dup(3) using kept q(2) out by metis
    qed
  qed
qed

text \<open>C34: The migration of an old build directory either refuses and names its conflicts, before anything is touched,
or completes; it never stops half-way. A completed migration keeps every file and link: each ends in the bucket
its entry belongs to, a legacy copy that is identical to one already there ends as that one, and everything else
stays where it was. Nothing is overwritten and nothing is made up.\<close>

theorem migrate_lossless:
  assumes "tree_ok fs" and "no_dangling fs" and "\<forall>b \<in> set BUCKETS. map_of fs (build_dir repo @ [b]) = Some NDir"
  shows "(\<exists>cs. cs \<noteq> [] \<and> migrate repo False fs = Inl (BuildEnvError ''migrate collision; nothing was moved'' cs))
    \<or> (\<exists>plan fs'. migrate repo False fs = Inr (plan, fs') \<and> distinct (map fst fs')
        \<and> tree_leaves fs' = (\<lambda>(q, n). (new_place fs repo q, n)) ` tree_leaves fs)"
proof (cases "mp_conflicts (plan_all fs repo) = []")
  case False
  then show ?thesis by (simp add: migrate_def Let_def)
next
  case True
  from entries_cover[OF assms(2,3) True[unfolded plan_all_def] entries_ok(1,2)] obtain rs ts us where
    cov: "covers fs (build_dir repo) (place (build_dir repo)) (map fst (migration_entries fs repo)) rs ts us"
    and plan: "plan_is (plan_all fs repo) (build_dir repo) (place (build_dir repo)) rs ts us []"
    unfolding plan_all_def by blast
  define vm where "vm = mp_moves (plan_vagrant fs repo)"
  define Q where "Q = then_plan (plan_all fs repo) (plan_vagrant fs repo)"
  have state: "map_of fs (build_dir repo @ [''state'']) = Some NDir" using assms(3) by (simp add: BUCKETS_def)
  have vm: "vm = (if map_of fs (vagrant_src repo) = Some NDir \<and> map_of fs (vagrant_dst repo) = None then [(vagrant_src repo, vagrant_dst repo)] else [])"
    and rest: "mp_duplicates (plan_vagrant fs repo) = []" "mp_prune (plan_vagrant fs repo) = []"
    using state
    by (auto simp: vm_def plan_vagrant_def legacy_vagrant_def follow_link_def Let_def is_real_dir_def exists_iff[OF assms(2)] vagrant_src_def vagrant_dst_def)
  have good: "good_plan fs repo rs ts us vm" using cov state by (simp add: good_plan_def vm)
  have "vm \<noteq> [] \<longleftrightarrow> map_of fs (vagrant_src repo) = Some NDir \<and> map_of fs (vagrant_dst repo) = None" by (simp add: vm)
  note after = leaves_after[OF assms(1) good this]
  let ?fs = "filter (\<lambda>(q, n). q \<notin> set (map (\<lambda>u. build_dir repo @ u) us)) (dropped_tree repo rs ts vm fs)"
  have "apply_plan Q fs = Inr ?fs"
    by (rule apply_plan_runs[OF assms(1) good plan]) (simp_all add: Q_def vm_def rest)
  then have "migrate repo False fs = Inr (Q, ?fs)" using True by (simp add: migrate_def Let_def Q_def)
  moreover have "distinct (map fst ?fs)"
    unfolding dropped_tree_def by (intro distinct_map_filter moves_run(2)[OF assms(1) good])
  ultimately show ?thesis using after by blast
qed

section \<open>A concrete migration\<close>

lemma tree_ok_code:
  "tree_ok fs \<longleftrightarrow> distinct (map fst fs) \<and> list_all (\<lambda>q. list_all (\<lambda>i. map_of fs (take i q) = Some NDir) [1..<length q]) (map fst fs)"
  by (auto simp: tree_ok_def list_all_iff)

lemma sample_tree_ok: "tree_ok sample_tree" "no_dangling sample_tree"
  unfolding tree_ok_code by code_simp+

theorem migrate_lossless_witness:
  "\<exists>plan fs'. migrate [''r''] False sample_tree = Inr (plan, fs') \<and> map_of fs' [''r'', ''build'', ''cache'', ''refs'', ''d'', ''e''] = Some (NFile ''deep'')
    \<and> tree_leaves fs' = (\<lambda>(q, n). (new_place sample_tree [''r''] q, n)) ` tree_leaves sample_tree"
proof -
  have "case migrate [''r''] False sample_tree of Inl _ \<Rightarrow> False
      | Inr (plan, fs') \<Rightarrow> map_of fs' [''r'', ''build'', ''cache'', ''refs'', ''d'', ''e''] = Some (NFile ''deep'')" by code_simp
  then obtain plan fs' where run: "migrate [''r''] False sample_tree = Inr (plan, fs')"
    "map_of fs' [''r'', ''build'', ''cache'', ''refs'', ''d'', ''e''] = Some (NFile ''deep'')" by (auto split: sum.splits prod.splits)
  from migrate_lossless[OF sample_tree_ok(1,2) sample_buckets[unfolded buckets_there_def]] run show ?thesis by auto
qed

text \<open>A dangling link at a destination is not seen as a collision: a file takes its place, and the link is lost; a
directory cannot, and the migration stops after the moves planned before it.\<close>

lemma migrate_dangling_link:
  "(case migrate [''r''] False (([''r'', ''build'', ''state'', ''rhel-dvd.iso''], NLink [''gone'']) # sample_tree) of
      Inl _ \<Rightarrow> False | Inr (plan, fs') \<Rightarrow> NLink [''gone''] \<notin> set (map snd fs'))
   \<and> migrate [''r''] False (([''r'', ''build'', ''work'', ''obs''], NLink [''gone'']) # sample_tree) = Inl (OsError ''rename'')"
  by code_simp

end
