(* ===== verification/Artifacts.thy ===== *)
theory Artifacts
  imports Lab_Effects Platforms
begin

text \<open>
  The MQ tarballs a box or a stack needs (\<open>mqlab/manifest.py\<close>, \<open>mqlab/artifact.py\<close>): which file a box takes, the
  cache they are kept in, and the digest beside each of them, which is recorded when a tarball is first
  acquired and checked on every later use; and the versions of the observability tools. The download and the
  digest of a content are arguments.
\<close>

section \<open>Names\<close>

definition FAMILY_PREFIX :: "(string \<times> string) list" where
  "FAMILY_PREFIX = [(''ubuntu'', ''UbuntuLinux''), (''rhel'', ''Linux'')]"

definition MQ_ARCH_TOKEN :: "(string \<times> string) list" where
  "MQ_ARCH_TOKEN = [(AARCH64, ''ARM64''), (X86_64, ''X64'')]"

text \<open>The pin: digits in four parts.\<close>

definition digits_only :: "string \<Rightarrow> bool" where
  "digits_only s \<longleftrightarrow> s \<noteq> [] \<and> list_all is_digit s"

definition four_part :: "string \<Rightarrow> bool" where
  "four_part s = (let parts = split_max CHR ''.'' 4 s in length parts = 4 \<and> list_all digits_only parts)"

definition read_mq_version_pin :: "string \<Rightarrow> (py_error, string) result" where
  "read_mq_version_pin content = (let t = py_strip content in
     if four_part t then Inr t else Inl (ValueErr ''MQ version pin is not a bare 4-part version''))"

definition tarball_name :: "string \<Rightarrow> BoxEntry \<Rightarrow> HostFacts \<Rightarrow> (py_error, string) result" where
  "tarball_name mq_version entry facts =
     (case map_of FAMILY_PREFIX (os_family (oe_ref (b_os entry))) of
        None \<Rightarrow> Inl (ValueErr ''no MQ tarball mapping'')
      | Some family \<Rightarrow>
          let arch = box_build_arch (oe_arch_pin (b_os entry)) facts in
          (case map_of MQ_ARCH_TOKEN arch of
             None \<Rightarrow> Inl (KeyErr arch)
           | Some token \<Rightarrow> Inr (mq_version @ ''-IBM-MQ-Advanced-for-Developers-'' @ family @ token @ ''.tar.gz'')))"

definition OBS_VAR_MAP :: "(string \<times> string) list" where
  "OBS_VAR_MAP = [(''prometheus_version'', ''prometheus''), (''node_exporter_version'', ''node_exporter''), (''loki_version'', ''loki''),
     (''alloy_version'', ''alloy''), (''grafana_version'', ''grafana''), (''mq_exporter_ref'', ''mq_metric_samples_ref''),
     (''opensearch_version'', ''opensearch''), (''opensearch_dashboards_version'', ''opensearch_dashboards''),
     (''data_prepper_version'', ''data_prepper'')]"

definition obs_vars :: "pyval \<Rightarrow> (py_error, (string \<times> pyval) list) result" where
  "obs_vars obs = traverse (\<lambda>(var, key). rbind (item obs key) (\<lambda>v. Inr (var, v))) OBS_VAR_MAP"

text \<open>The document at the path, if there is one.\<close>

definition load_yaml :: "pyval option \<Rightarrow> (py_error, pyval) result" where
  "load_yaml doc = (case doc of
     None \<Rightarrow> Inl (FileNotFound ''manifest'')
   | Some v \<Rightarrow> if is_dict v then Inr v else Inl (ValueErr ''manifest is not a mapping''))"

definition obs_overlay :: "pyval option \<Rightarrow> (py_error, (string \<times> pyval) list) result" where
  "obs_overlay doc = rbind (load_yaml doc) obs_vars"

section \<open>The cache\<close>

definition MQ_CDN_BASE :: string where
  "MQ_CDN_BASE = ''https://public.dhe.ibm.com/ibmdl/export/pub/software/websphere/messaging/mqadv''"

definition mq_tarball_url :: "string \<Rightarrow> string" where
  "mq_tarball_url name = MQ_CDN_BASE @ ''/'' @ name"

type_synonym 'a cache_op = "(files, py_error, 'a) op"

definition sidecar_of :: "string \<Rightarrow> string" where
  "sidecar_of path = path @ ''.sha256''"

definition path_file :: "string \<Rightarrow> string" where
  "path_file path = last (split_on (\<lambda>c. c = CHR ''/'') path)"

definition file_content :: "string \<Rightarrow> content cache_op" where
  "file_content path = op_bind (op_get (\<lambda>fs. map_of fs path)) (\<lambda>c.
     case c of None \<Rightarrow> op_raise (FileNotFound path) | Some x \<Rightarrow> op_return x)"

definition record_digest :: "(content \<Rightarrow> string) \<Rightarrow> string \<Rightarrow> unit cache_op" where
  "record_digest sha path = op_bind (file_content path) (\<lambda>c.
     op_modify (write_file (sidecar_of path) (Text (sha c @ ''  '' @ path_file path @ [CHR 10]))))"

text \<open>What a download leaves in the partial file, and the error it ends with, if any.\<close>

type_synonym downloader = "string \<Rightarrow> content \<times> py_error option"

definition download_mq_tarball :: "(content \<Rightarrow> string) \<Rightarrow> downloader \<Rightarrow> string \<Rightarrow> string \<Rightarrow> unit cache_op" where
  "download_mq_tarball sha download name dest =
     (let part = dest @ ''.part''; (bytes, err) = download (mq_tarball_url name) in
      op_bind (op_modify (write_file part bytes)) (\<lambda>_.
      op_bind (case err of None \<Rightarrow> op_return () | Some e \<Rightarrow> op_raise e) (\<lambda>_.
      op_bind (op_modify (move_file part dest)) (\<lambda>_.
      op_bind (op_get (\<lambda>fs. is_file fs (sidecar_of dest))) (\<lambda>known.
      op_when (\<not> known) (record_digest sha dest))))))"

definition verify_sha256 :: "(content \<Rightarrow> string) \<Rightarrow> string \<Rightarrow> unit cache_op" where
  "verify_sha256 sha path =
     op_bind (op_get (\<lambda>fs. is_file fs (sidecar_of path))) (\<lambda>known.
     if \<not> known then record_digest sha path
     else op_bind (op_get (\<lambda>fs. read_text fs (sidecar_of path))) (\<lambda>t.
       op_bind (op_lift id t) (\<lambda>text_of.
       op_bind (op_lift id (case split_ws text_of of [] \<Rightarrow> Inl (ValueErr ''list index out of range'') | w # _ \<Rightarrow> Inr (py_lower (py_strip w)))) (\<lambda>expected.
       op_bind (file_content path) (\<lambda>c.
       op_guard (sha c = expected) (ValueErr ''sha256 mismatch''))))))"

definition ensure_one :: "(content \<Rightarrow> string) \<Rightarrow> downloader \<Rightarrow> string \<Rightarrow> string \<Rightarrow> string cache_op" where
  "ensure_one sha download dir name =
     (let dest = dir @ ''/'' @ name in
      op_bind (op_get (\<lambda>fs. is_file fs dest)) (\<lambda>cached.
      op_bind (op_when (\<not> cached) (download_mq_tarball sha download name dest)) (\<lambda>_.
      op_bind (verify_sha256 sha dest) (\<lambda>_. op_return dest))))"

definition ensure_mq_tarballs_for_boxes ::
  "(content \<Rightarrow> string) \<Rightarrow> downloader \<Rightarrow> HostFacts \<Rightarrow> BoxEntry list \<Rightarrow> string \<Rightarrow> string \<Rightarrow> string list cache_op" where
  "ensure_mq_tarballs_for_boxes sha download facts boxes mq_version dir =
     op_bind (op_lift id (traverse (\<lambda>b. tarball_name mq_version b facts) boxes)) (\<lambda>names.
     op_each (ensure_one sha download dir) (sort (remdups names)))"

section \<open>What the cache keeps\<close>

text \<open>An acquisition changes no file that is there, whatever it ends with; only the partial file is overwritten.\<close>

lemma keeps_record [op_intros]:
  "p \<noteq> sidecar_of path \<Longrightarrow> keeps (\<lambda>fs. map_of fs p = Some c) (record_digest sha path)"
  unfolding record_digest_def file_content_def
  by (auto intro!: op_intros keeps_modify split: option.splits)

lemma keeps_file_content [op_intros]: "keeps P (file_content path)"
  unfolding file_content_def by (auto intro!: op_intros split: option.splits)

lemma not_self [simp]: "path \<noteq> path @ ''.part''" "sidecar_of path \<noteq> path @ ''.part''" "sidecar_of path \<noteq> path" "path \<noteq> sidecar_of path"
  by (simp_all add: sidecar_of_def)

lemma record_frame:
  assumes "record_digest sha path fs = (r, fs')" and "\<not> is_file fs (sidecar_of path)" and "map_of fs p = Some c"
  shows "map_of fs' p = Some c"
proof -
  have "p \<noteq> sidecar_of path" using assms(2,3) by (auto simp: is_file_def)
  from keepsD[OF keeps_record[OF this] assms(3,1)] show ?thesis .
qed

lemma verify_frame:
  assumes "verify_sha256 sha path fs = (r, fs')" and "map_of fs p = Some c"
  shows "map_of fs' p = Some c"
proof (cases "is_file fs (sidecar_of path)")
  case True
  have "keeps (\<lambda>fs. map_of fs p = Some c) (op_bind (op_get (\<lambda>fs. read_text fs (sidecar_of path))) (\<lambda>t.
       op_bind (op_lift id t) (\<lambda>text_of.
       op_bind (op_lift id (case split_ws text_of of [] \<Rightarrow> Inl (ValueErr ''list index out of range'') | w # _ \<Rightarrow> Inr (py_lower (py_strip w)))) (\<lambda>expected.
       op_bind (file_content path) (\<lambda>c. op_guard (sha c = expected) (ValueErr ''sha256 mismatch''))))))" (is "keeps _ ?m")
    by (auto intro!: op_intros)
  moreover have "?m fs = (r, fs')" using assms(1) True by (simp add: verify_sha256_def op_bind_def op_get_def)
  ultimately show ?thesis using keepsD assms(2) by fastforce
next
  case False
  then have "record_digest sha path fs = (r, fs')" using assms(1) by (simp add: verify_sha256_def op_bind_def op_get_def)
  from record_frame[OF this False assms(2)] show ?thesis .
qed

lemma download_frame:
  assumes "download_mq_tarball sha download name dest fs = (r, fs')" and "\<not> is_file fs dest"
    and "map_of fs p = Some c" and "p \<noteq> dest @ ''.part''"
  shows "map_of fs' p = Some c"
proof -
  obtain bytes err where d: "download (mq_tarball_url name) = (bytes, err)" by fastforce
  let ?fs1 = "write_file (dest @ ''.part'') bytes fs"
  let ?fs2 = "move_file (dest @ ''.part'') dest ?fs1"
  have "p \<noteq> dest" using assms(2,3) by (auto simp: is_file_def)
  then have p1: "map_of ?fs1 p = Some c" and p2: "map_of ?fs2 p = Some c" using assms(3,4) by simp_all
  show ?thesis
  proof (cases err)
    case (Some e)
    then show ?thesis using assms(1) p1
      by (simp add: download_mq_tarball_def Let_def d op_bind_def op_modify_def op_raise_def)
  next
    case None
    have side: "is_file ?fs2 (sidecar_of dest) \<longleftrightarrow> is_file fs (sidecar_of dest)" by (simp add: is_file_def)
    have "(op_when (\<not> is_file fs (sidecar_of dest)) (record_digest sha dest)) ?fs2 = (r, fs')"
      using assms(1) None side by (simp add: download_mq_tarball_def Let_def d op_bind_def op_modify_def op_return_def op_get_def)
    then show ?thesis using record_frame[of sha dest ?fs2 r fs' p c] p2 side
      by (auto simp: op_when_def split: if_splits)
  qed
qed

lemma ensure_one_frame:
  assumes "ensure_one sha download dir name fs = (r, fs')" and "map_of fs p = Some c" and "p \<noteq> dir @ ''/'' @ name @ ''.part''"
  shows "map_of fs' p = Some c"
proof -
  let ?dest = "dir @ ''/'' @ name"
  obtain r1 fs1 where a: "op_when (\<not> is_file fs ?dest) (download_mq_tarball sha download name ?dest) fs = (r1, fs1)" by fastforce
  have fs1: "map_of fs1 p = Some c"
  proof (cases "is_file fs ?dest")
    case False
    then have "download_mq_tarball sha download name ?dest fs = (r1, fs1)" using a by (simp add: op_when_def)
    from download_frame[OF this False assms(2)] assms(3) show ?thesis by simp
  qed (use a assms(2) in \<open>auto simp: op_when_def\<close>)
  obtain r2 fs2 where b: "verify_sha256 sha ?dest fs1 = (r2, fs2)" by fastforce
  have "fs' = fs1 \<or> fs' = fs2"
    using assms(1) a b by (auto simp: ensure_one_def Let_def op_bind_def op_get_def op_return_def split: sum.splits)
  then show ?thesis using fs1 verify_frame[OF b fs1] by auto
qed

section \<open>Properties\<close>

text \<open>The digest a sidecar records.\<close>

definition recorded_digest :: "files \<Rightarrow> string \<Rightarrow> string option" where
  "recorded_digest fs path = (case map_of fs (sidecar_of path) of
     Some (Text t) \<Rightarrow> (case split_ws t of [] \<Rightarrow> None | w # _ \<Rightarrow> Some (py_lower (py_strip w)))
   | _ \<Rightarrow> None)"

text \<open>A digest is a text without blanks and upper case.\<close>

definition hex_digest :: "(content \<Rightarrow> string) \<Rightarrow> bool" where
  "hex_digest sha \<longleftrightarrow> (\<forall>c rest. split_ws (sha c @ ''  '' @ rest) \<noteq> []
     \<and> py_lower (py_strip (hd (split_ws (sha c @ ''  '' @ rest)))) = sha c)"

lemma record_recorded:
  assumes "hex_digest sha" and "record_digest sha path fs = (Inr u, fs')"
  shows "\<exists>c. map_of fs' path = Some c \<and> recorded_digest fs' path = Some (sha c)"
proof -
  from assms(2) obtain c where c: "map_of fs path = Some c"
    "fs' = write_file (sidecar_of path) (Text (sha c @ ''  '' @ path_file path @ [CHR 10])) fs"
    by (auto simp: record_digest_def file_content_def op_steps split: option.splits)
  let ?t = "sha c @ ''  '' @ path_file path @ [CHR 10]"
  have "split_ws ?t \<noteq> []" "py_lower (py_strip (hd (split_ws ?t))) = sha c" using assms(1) unfolding hex_digest_def by blast+
  then have "recorded_digest fs' path = Some (sha c)" by (cases "split_ws ?t") (simp_all add: recorded_digest_def c(2))
  then show ?thesis using c by simp
qed

lemma verify_verified:
  assumes "hex_digest sha" and "verify_sha256 sha path fs = (Inr u, fs')"
  shows "\<exists>c. map_of fs' path = Some c \<and> recorded_digest fs' path = Some (sha c)"
proof (cases "is_file fs (sidecar_of path)")
  case False
  then have "record_digest sha path fs = (Inr u, fs')" using assms(2) by (simp add: verify_sha256_def op_bind_def op_get_def)
  from record_recorded[OF assms(1) this] show ?thesis .
next
  case True
  with assms(2) show ?thesis
    by (auto simp: verify_sha256_def op_steps file_content_def read_text_def recorded_digest_def
        split: option.splits content.splits list.splits)
qed

lemma ensure_one_verified:
  assumes "hex_digest sha" and "ensure_one sha download dir name fs = (Inr path, fs')"
  shows "path = dir @ ''/'' @ name \<and> (\<exists>c. map_of fs' path = Some c \<and> recorded_digest fs' path = Some (sha c))"
proof -
  from assms(2) obtain u fs1 where "path = dir @ ''/'' @ name" "verify_sha256 sha (dir @ ''/'' @ name) fs1 = (Inr u, fs')"
    by (auto simp: ensure_one_def Let_def op_steps)
  with verify_verified[OF assms(1)] show ?thesis by blast
qed

lemma tarball_suffix: "tarball_name ver b facts = Inr n \<Longrightarrow> suffix ''.tar.gz'' n"
  by (auto simp: tarball_name_def Let_def suffix_def split: option.splits)

lemma tarball_paths:
  assumes "suffix ''.tar.gz'' n"
  shows "dir @ ''/'' @ n \<noteq> dir @ ''/'' @ m @ ''.part''" and "sidecar_of (dir @ ''/'' @ n) \<noteq> dir @ ''/'' @ m @ ''.part''"
proof -
  from assms obtain k where n: "n = k @ ''.tar.gz''" by (auto simp: suffix_def)
  show "dir @ ''/'' @ n \<noteq> dir @ ''/'' @ m @ ''.part''" by (auto simp: n dest: arg_cong[where f = last])
  show "sidecar_of (dir @ ''/'' @ n) \<noteq> dir @ ''/'' @ m @ ''.part''"
    by (auto simp: n sidecar_of_def dest: arg_cong[where f = last])
qed

lemma ensure_all:
  assumes "hex_digest sha" and "\<forall>n \<in> set names. suffix ''.tar.gz'' n"
    and "op_each (ensure_one sha download dir) names fs = (r, fs')"
  shows "(\<forall>p c. map_of fs p = Some c \<and> (\<forall>m. p \<noteq> dir @ ''/'' @ m @ ''.part'') \<longrightarrow> map_of fs' p = Some c)
    \<and> (\<forall>paths. r = Inr paths \<longrightarrow> paths = map (\<lambda>n. dir @ ''/'' @ n) names
        \<and> (\<forall>p \<in> set paths. \<exists>c. map_of fs' p = Some c \<and> recorded_digest fs' p = Some (sha c)))"
  using assms(2,3)
proof (induction names arbitrary: fs r)
  case (Cons n names)
  obtain r1 fs1 where one: "ensure_one sha download dir n fs = (r1, fs1)" by fastforce
  note frame = ensure_one_frame[OF one]
  show ?case
  proof (cases r1)
    case (Inl e)
    then have "r = Inl e \<and> fs' = fs1" using Cons.prems(2) one by (simp add: op_bind_def)
    then show ?thesis using frame by auto
  next
    case (Inr path)
    obtain r2 where rest: "op_each (ensure_one sha download dir) names fs1 = (r2, fs')"
      and r: "r = (case r2 of Inl e \<Rightarrow> Inl e | Inr ps \<Rightarrow> Inr (path # ps))"
      using Cons.prems(2) one Inr by (auto simp: op_bind_def op_return_def split: prod.splits sum.splits)
    note later = Cons.IH[OF _ rest]
    obtain c where c: "path = dir @ ''/'' @ n" "map_of fs1 path = Some c" "recorded_digest fs1 path = Some (sha c)"
      using ensure_one_verified[OF assms(1)] one Inr by blast
    have n: "suffix ''.tar.gz'' n" using Cons.prems(1) by simp
    obtain t where t: "map_of fs1 (sidecar_of path) = Some (Text t)"
      using c(3) by (auto simp: recorded_digest_def split: option.splits content.splits)
    have "map_of fs' path = Some c" "map_of fs' (sidecar_of path) = Some (Text t)"
      using later Cons.prems(1) c(2) t tarball_paths[OF n] by (auto simp: c(1))
    then have "recorded_digest fs' path = Some (sha c)" using c(3) t by (simp add: recorded_digest_def)
    with \<open>map_of fs' path = Some c\<close> show ?thesis
      using later frame Cons.prems(1) r c(1) by (auto split: sum.splits)
  qed
qed simp

text \<open>C33: Ensuring the MQ tarballs of some boxes never changes a cached tarball or a recorded digest, whatever it ends
with. When it returns, it returns each tarball the boxes need once, in order, and each of them is in the cache with
the digest recorded beside it: a tarball that differs from its record is never handed out.\<close>

theorem tarballs_verified:
  assumes "hex_digest sha" and "ensure_mq_tarballs_for_boxes sha download facts boxes mq_version dir fs = (r, fs')"
  shows "(\<forall>p c. map_of fs p = Some c \<and> (\<forall>m. p \<noteq> dir @ ''/'' @ m @ ''.part'') \<longrightarrow> map_of fs' p = Some c)
    \<and> (\<forall>paths. r = Inr paths \<longrightarrow>
        set paths = {dir @ ''/'' @ n | n. \<exists>b \<in> set boxes. tarball_name mq_version b facts = Inr n} \<and> distinct paths
        \<and> (\<forall>p \<in> set paths. \<exists>c. map_of fs' p = Some c \<and> recorded_digest fs' p = Some (sha c)))"
proof (cases "traverse (\<lambda>b. tarball_name mq_version b facts) boxes")
  case (Inl e)
  then show ?thesis using assms(2) by (auto simp: ensure_mq_tarballs_for_boxes_def op_bind_def op_lift_def)
next
  case (Inr names)
  then have run: "op_each (ensure_one sha download dir) (sort (remdups names)) fs = (r, fs')"
    using assms(2) by (simp add: ensure_mq_tarballs_for_boxes_def op_bind_def op_lift_def)
  have names: "set names = {n. \<exists>b \<in> set boxes. tarball_name mq_version b facts = Inr n}"
    using traverse_memD[OF Inr] traverse_memI[OF Inr] by fastforce
  then have "\<forall>n \<in> set (sort (remdups names)). suffix ''.tar.gz'' n" using tarball_suffix by auto
  note all = ensure_all[OF assms(1) this run]
  have "set (map (\<lambda>n. dir @ ''/'' @ n) (sort (remdups names))) = {dir @ ''/'' @ n | n. \<exists>b \<in> set boxes. tarball_name mq_version b facts = Inr n}"
    unfolding set_map set_sort set_remdups names by blast
  moreover have "distinct (map (\<lambda>n. dir @ ''/'' @ n) (sort (remdups names)))" by (simp add: distinct_map inj_on_def)
  ultimately have "\<forall>paths. r = Inr paths \<longrightarrow> set paths = {dir @ ''/'' @ n | n. \<exists>b \<in> set boxes. tarball_name mq_version b facts = Inr n}
      \<and> distinct paths \<and> (\<forall>p \<in> set paths. \<exists>c. map_of fs' p = Some c \<and> recorded_digest fs' p = Some (sha c))"
    using conjunct2[OF all] by (metis (no_types, lifting))
  then show ?thesis using conjunct1[OF all] by blast
qed

definition sample_sha :: "content \<Rightarrow> string" where
  "sample_sha c = (if c = Text ''good'' then ''aa11'' else ''bb22'')"

lemma sample_sha_hex: "hex_digest sample_sha"
proof -
  have "split_ws (w @ ''  '' @ rest) \<noteq> [] \<and> py_lower (py_strip (hd (split_ws (w @ ''  '' @ rest)))) = w" if "w = ''aa11'' \<or> w = ''bb22''" for w rest
    using that by (elim disjE; simp add: split_ws_def is_space_def) (code_simp, code_simp)
  then show ?thesis unfolding hex_digest_def sample_sha_def by simp
qed

definition sample_box :: "string \<Rightarrow> BoxEntry" where
  "sample_box fam = \<lparr>b_name = ''b'', b_role = ''r'',
     b_os = \<lparr>oe_ref = \<lparr>os_family = fam, os_major = 10\<rparr>, oe_base_box = [], oe_base_box_version = None, oe_point = None, oe_iso = None,
       oe_arch_pin = (if fam = ''rhel'' then Some X86_64 else None), oe_requires = [], oe_ibm_unsupported_source = None,
       oe_lab_default_decision = None\<rparr>,
     b_bake_stem = [], b_mq_bearing = True, b_components = []\<rparr>"

definition sample_facts :: HostFacts where
  "sample_facts = \<lparr>hf_arch = AARCH64, hf_kvm = True, hf_distro_family = ''debian'', hf_in_vergil = True, hf_x86_64_v3 = True, hf_x86_64_v3_missing = []\<rparr>"

definition sample_cache :: files where
  "sample_cache = [(''mq/9.4.0.0-IBM-MQ-Advanced-for-Developers-LinuxX64.tar.gz'', Text ''good''),
     (''mq/9.4.0.0-IBM-MQ-Advanced-for-Developers-LinuxX64.tar.gz.sha256'', Text ''AA11  x'')]"

theorem tarballs_verified_witness:
  "\<exists>paths fs'. ensure_mq_tarballs_for_boxes sample_sha (\<lambda>_. (Text ''other'', None)) sample_facts [sample_box ''ubuntu''] ''9.4.0.0'' ''mq'' sample_cache
      = (Inr paths, fs')
    \<and> (\<forall>p \<in> set paths. \<exists>c. map_of fs' p = Some c \<and> recorded_digest fs' p = Some (sample_sha c))"
proof -
  let ?run = "ensure_mq_tarballs_for_boxes sample_sha (\<lambda>_. (Text ''other'', None)) sample_facts [sample_box ''ubuntu''] ''9.4.0.0'' ''mq'' sample_cache"
  have "\<not> isl (fst ?run)" by code_simp
  then obtain paths fs' where run: "?run = (Inr paths, fs')" by (metis prod.collapse not_isl_Inr)
  from conjunct2[OF tarballs_verified[OF sample_sha_hex run]]
  have "\<forall>p \<in> set paths. \<exists>c. map_of fs' p = Some c \<and> recorded_digest fs' p = Some (sample_sha c)" by simp
  with run show ?thesis by (intro exI conjI)
qed

text \<open>A tarball that was changed in the cache is refused.\<close>

lemma tampered_tarball_refused:
  "fst (ensure_mq_tarballs_for_boxes sample_sha (\<lambda>_. (Text ''other'', None)) sample_facts [sample_box ''rhel''] ''9.4.0.0'' ''mq''
     (write_file ''mq/9.4.0.0-IBM-MQ-Advanced-for-Developers-LinuxX64.tar.gz'' (Text ''bad'') sample_cache)) = Inl (ValueErr ''sha256 mismatch'')"
  by code_simp

end
