(* ===== verification/Spec2Isabelle.thy ===== *)
theory Spec2Isabelle
  imports DR_Analysis DR_Responder DR_Flow DR_Exposure Perf_Source HA_State Bench_Client Svc_Client Stack_Verbs Build_Migration
    Artifacts
begin

text \<open>
  The MQ resiliency lab: a driver (\<open>src/src/mqlab\<close>) that builds and runs a lab of highly available IBM MQ
  stacks on virtual machines, and the clients (\<open>src/components/mq-resiliency-clients/src/mqrc\<close>) that send
  traffic through a stack while it fails over and then account for every message.

  Structure. \<open>Lab_Prelude\<close>, \<open>Lab_Text\<close> and \<open>Py_Value\<close> hold what all components share: results of fallible
  operations (a Python exception is the left part of a sum), insertion-ordered dictionaries (the locale
  \<open>ordered_dict\<close>, interpreted on association lists), text operations, the values of YAML and JSON documents,
  and binary64 arithmetic on rationals. Above them, in the order in which the program uses them:

  \<^item> The account of the messages: \<open>DR_Ledger\<close> (\<open>dr/model.py\<close>, \<open>dr/ledger.py\<close>), \<open>DR_Exposure\<close>
    (\<open>dr/exposure.py\<close>), \<open>DR_Analysis\<close> (\<open>dr/reconcile.py\<close>, \<open>dr/classifier.py\<close>, \<open>dr/report.py\<close>, \<open>dr/catalog.py\<close>,
    \<open>dr_baseline.py\<close>, \<open>dr_forced.py\<close>). Every message sent is listed once, with the facts the ledgers and
    snapshots show, and falls in one bucket; the loss window spans the lost messages; ledger files read
    back unchanged; the verdicts of the two report programs are characterised exactly.
  \<^item> The clients: \<open>DR_Wire\<close> (\<open>dr/wire.py\<close>, \<open>dr/snapshot.py\<close>, \<open>header.py\<close>), \<open>DR_MQI\<close> (\<open>dr_mqi.py\<close>, \<open>mqconn.py\<close>,
    \<open>deadletter.py\<close>), \<open>DR_Flow\<close> (\<open>dr_flow.py\<close>) and \<open>DR_Responder\<close> (\<open>dr_responder.py\<close>). The two flow threads
    are a step relation over the shared ledger; in every reachable state the ledger is what the queue
    manager acknowledged, and a resend repeats the same bytes. The responder's ledger holds one pair per
    committed reply, and a committed unit of work answers or dead-letters its message.
  \<^item> The probes and benchmarks: \<open>App_Client\<close> (\<open>app_requester.py\<close>), \<open>Svc_Client\<close> (\<open>svc_responder.py\<close>, \<open>dlq_probe.py\<close>,
    \<open>authz_probe.py\<close>, \<open>reconnect_probe.py\<close>) and \<open>Bench_Client\<close> (\<open>bench_client.py\<close>); the evidence floor of \<open>dr/floor.py\<close>
    is in \<open>DR_Exposure\<close>. A requester never uses a connection it has seen die; every completed unit of work of the
    service holds one request and its answer or dead letter; what is dead-lettered the inspector reads back; the
    percentiles of a benchmark are the exact nearest ranks.
  \<^item> The lab driver: \<open>Orchestrator\<close> (\<open>orchestrator.py\<close>, the step totals of \<open>perf.py\<close>, the command of \<open>runner.py\<close>), \<open>Hosts\<close>
    (\<open>lifecycle.py\<close>, \<open>netsel.py\<close>, \<open>guestsel.py\<close>, \<open>netstate.py\<close>, \<open>hostfacts.py\<close>), \<open>Topology\<close> (\<open>topology.py\<close>,
    \<open>hugepages.py\<close>), \<open>Stacks\<close> (\<open>stacks.py\<close>), \<open>Versions\<close> and \<open>Catalog_Load\<close> (\<open>versions.py\<close>), \<open>Platforms\<close>
    (\<open>platforms.py\<close>), \<open>Phases\<close> (\<open>phases.py\<close>) and \<open>Bootstrap\<close> (the bring-up verb of \<open>cli.py\<close>). Retries are
    bounded and honest, a run stops at its first failing step, profiles change only their levers, a
    catalogue that loads is consistent, boots cover every guest once in order, no phase starts before its
    prerequisites, a resume hint selects exactly what is left, and a bring-up whose steps succeed within
    their retry policies completes.
  \<^item> What a bring-up leaves behind: \<open>Instances\<close> (\<open>instances.py\<close>) is the directory of records that pins a live
    stack to the system it was built on; it refines an abstract map, through interrupted writes. \<open>DNS\<close>
    (\<open>dns.py\<close>, \<open>bind.py\<close>) derives the zones and their BIND files from the topology; forward and reverse
    zones agree, and each zone is mastered by one server and forwarded by the other. \<open>Projections\<close>
    (\<open>inventory.py\<close>, \<open>roster.py\<close>, \<open>scrape.py\<close>, \<open>mqweb_endpoints.py\<close>) are the files that tell other tools where
    the hosts are; the inventory and the roster describe the same lab.
  \<^item> What a bring-up measures: \<open>Perf_Report\<close> (the rest of \<open>perf.py\<close>, \<open>perfdiff.py\<close>) is the record of a run as a
    document and the comparison of two of them; \<open>Perf_Sampler\<close> and \<open>Perf_Source\<close> (\<open>perfsampler.py\<close>) are the
    contention sampler, whose log equals a reference log over the history of probe outcomes, and the source
    of its readings, whose guest probes run concurrently: a step relation over a pool of threads shows that
    multiplexing is given up at most once, with one note, and that a thread refines the sequential routine.
  \<^item> What the guests are built from: \<open>Lab_Effects\<close> (operations that change state and may raise, and a store of
    files), \<open>Components\<close> (\<open>component.py\<close>, \<open>runtime.py\<close>), \<open>Boxes\<close> and \<open>Box_GC\<close> (\<open>box.py\<close>, \<open>fleet.py\<close>, \<open>venvsync.py\<close>,
    \<open>mqexporter.py\<close>, \<open>retired_boxes.py\<close>). An artifact that a build returns was tested on the pinned interpreter from
    committed sources; a build that raises changes no staged artifact; every staged dependency has a recorded
    digest; boxes are built after the bases they need; and removing or reclaiming a box never takes the
    backing of a live disk or a box the catalogue still selects.
  \<^item> A stack that is up: \<open>Teardown\<close> (the teardown verb of \<open>cli.py\<close> with its planner, \<open>fleet.py\<close>, and Vagrant's cached
    box names) and \<open>Stack_Verbs\<close> (the queue-manager, disaster-recovery and status verbs). A completed teardown leaves
    nothing of the stack and touches nothing else, and takes what stacks share only when no other stack is up; the
    record of a stack goes last; no verb acts on a live stack without a record; the restart of a queue manager and
    the status probes reach running guests only; a drill runs what the topology declares.
  \<^item> The checkout: \<open>Build_Env\<close> and \<open>Build_Migration\<close> (\<open>buildenv.py\<close>) are the buckets of the build directory over a tree of
    directories, files and links: their wiring in a worktree, cleaning, and the migration of the old layout, which
    refuses untouched or loses nothing. \<open>Artifacts\<close> (\<open>manifest.py\<close>, \<open>artifact.py\<close>) names and acquires the MQ tarballs; none
    is handed out whose digest differs from the recorded one.
  \<^item> What the guests report: \<open>Cluster_State\<close> (\<open>mqro/clusterstate.py\<close>) and \<open>HA_State\<close> (\<open>mqro/nativehastate.py\<close>,
    \<open>mqro/loglifecycle.py\<close>, \<open>mqro/rdqmstate.py\<close>) are the collectors of cluster state, from the output of a
    command to the published samples. A source gets a write time exactly when its probe answered, and only the
    node that runs the queue manager claims it.

  Modelling decisions. State is passed explicitly; what the outside answers (MQ calls, command attempts,
  clocks, file contents, regular-expression matches) is an argument. Loops are structural recursion or
  have a termination proof; nothing runs on fuel. Python integers are \<open>int\<close>; floats are the rationals they
  denote, rounded after each operation by \<open>fl\<close>, without infinities arising from overflow or NaN. Texts are
  lists of one-byte characters (a text outside ASCII is its UTF-8 bytes); \<open>int()\<close> reads ASCII digits. JSON
  and YAML documents are modelled at the level of values. Error texts are reduced to a kind and a tag.
  The interleaving of the flow threads is by turns, one loop iteration each; the threads of the guest probes
  interleave at every access to the state they share.

  Not modelled: the dashboards and boards (data literals for Grafana), the command-line
  arguments and summaries of the verbs of \<open>cli.py\<close>, its console, commons and end-to-end verbs, the log search, the
  diagnostics around git, Ansible roles, and all subprocess, file and network access: they are input and output around the logic above.
\<close>

end
